(* ===== verification/Prelude.thy ===== *)
theory Prelude
  imports Main "HOL-Library.Word" "HOL-Library.List_Lexorder" "HOL-Library.Char_ord"
begin

text \<open>
  What every component of the model shares: Go's \<open>error\<close> results, \<open>time.Time\<close> and
  \<open>time.Duration\<close> as integers, the functions of package \<open>strings\<close> and \<open>encoding/hex\<close>
  the sources call, and the keyed tables that stand for SQLite tables and Go maps, with the
  lemmas on them that the component proofs use.
\<close>

named_theorems defs "definitions a component's proofs unfold"
named_theorems table_laws "laws of the keyed tables"

section \<open>Errors\<close>

text \<open>
  A Go function returning \<open>(T, error)\<close> returns \<open>Inl message\<close> or \<open>Inr value\<close>; the
  value beside a non-nil error is dropped, as the callers drop it.
\<close>

type_synonym 'a result = "string + 'a"

definition rbind :: "'e + 'a \<Rightarrow> ('a \<Rightarrow> 'e + 'b) \<Rightarrow> 'e + 'b" where
  "rbind r f = (case r of Inl e \<Rightarrow> Inl e | Inr x \<Rightarrow> f x)"

lemma rbind_simps [simp]:
  "rbind (Inl e) f = Inl e"
  "rbind (Inr x) f = f x"
  by (simp_all add: rbind_def)

lemma rbind_eq_Inr: "rbind r f = Inr y \<longleftrightarrow> (\<exists>x. r = Inr x \<and> f x = Inr y)"
  by (cases r) auto

lemma rbind_assoc: "rbind (rbind r f) g = rbind r (\<lambda>x. rbind (f x) g)"
  by (cases r) simp_all

definition is_err :: "'e + 'a \<Rightarrow> bool" where
  "is_err r = (case r of Inl _ \<Rightarrow> True | Inr _ \<Rightarrow> False)"

lemma is_err_simps [simp]: "is_err (Inl e)" "\<not> is_err (Inr x)"
  by (simp_all add: is_err_def)

text \<open>A loop body that may return an error, run over a list with a state.\<close>

fun rfold :: "('a \<Rightarrow> 's \<Rightarrow> 'e + 's) \<Rightarrow> 'a list \<Rightarrow> 's \<Rightarrow> 'e + 's" where
  "rfold f [] s = Inr s"
| "rfold f (x # xs) s = rbind (f x s) (rfold f xs)"

lemma rfold_invariant:
  assumes "rfold f xs s = Inr t" and "P s"
    and "\<And>x u v. x \<in> set xs \<Longrightarrow> P u \<Longrightarrow> f x u = Inr v \<Longrightarrow> P v"
  shows "P t"
  using assms
proof (induction xs arbitrary: s)
  case Nil
  then show ?case by simp
next
  case (Cons x xs)
  then obtain u where "f x s = Inr u" "rfold f xs u = Inr t"
    by (auto simp: rbind_eq_Inr)
  with Cons show ?case by (metis list.set_intros)
qed

lemma rfold_append: "rfold f (xs @ ys) s = rbind (rfold f xs s) (rfold f ys)"
proof (induction xs arbitrary: s)
  case Nil
  then show ?case by simp
next
  case (Cons x xs)
  then show ?case by (cases "f x s") simp_all
qed

text \<open>A loop that builds a slice, one element of the result per element, and returns on the first error.\<close>

fun rmap :: "('a \<Rightarrow> 'e + 'b) \<Rightarrow> 'a list \<Rightarrow> 'e + 'b list" where
  "rmap f [] = Inr []"
| "rmap f (x # xs) = rbind (f x) (\<lambda>y. rbind (rmap f xs) (\<lambda>ys. Inr (y # ys)))"

lemma rmap_Inr: "rmap f xs = Inr ys \<longleftrightarrow> list_all2 (\<lambda>x y. f x = Inr y) xs ys"
  by (induction xs arbitrary: ys) (auto simp: rbind_eq_Inr list_all2_Cons1)

lemma rmap_all:
  assumes "rmap f xs = Inr ys" and "\<And>x y. f x = Inr y \<Longrightarrow> P y"
  shows "list_all P ys"
  using assms(1) by (induction xs arbitrary: ys) (auto simp: rbind_eq_Inr dest: assms(2))

lemma rmap_Nil_iff: "rmap f xs = Inr ys \<Longrightarrow> ys = [] \<longleftrightarrow> xs = []"
  by (cases xs) (auto simp: rbind_eq_Inr)

lemma rmap_length: "rmap f xs = Inr ys \<Longrightarrow> length ys = length xs"
  by (auto simp: rmap_Inr dest: list_all2_lengthD)

section \<open>Time\<close>

text \<open>
  A \<open>time.Time\<close> is the number of nanoseconds since the Unix epoch and a
  \<open>time.Duration\<close> a number of nanoseconds, both as unbounded integers: the instants and
  durations the program forms stay far inside the 64-bit range.
\<close>

type_synonym time = int
type_synonym duration = int

definition second :: duration where "second = 1000000000"
definition minute :: duration where "minute = 60 * second"
definition hour :: duration where "hour = 60 * minute"

text \<open>Go's zero \<open>time.Time\<close> is the first of January of year 1.\<close>

definition zeroTime :: time where "zeroTime = - 62135596800 * second"

definition isZero :: "time \<Rightarrow> bool" where "isZero t \<longleftrightarrow> t = zeroTime"

text \<open>\<open>t.Unix()\<close> rounds down to whole seconds; \<open>fromUnix\<close> is \<open>time.Unix(s, 0)\<close>.\<close>

definition unix :: "time \<Rightarrow> int" where "unix t = t div second"
definition fromUnix :: "int \<Rightarrow> time" where "fromUnix s = s * second"

lemma second_pos [simp]: "0 < second"
  by (simp add: second_def)

lemma unix_fromUnix [simp]: "unix (fromUnix s) = s"
  by (simp add: unix_def fromUnix_def second_def)

lemma unix_mono: "s \<le> t \<Longrightarrow> unix s \<le> unix t"
  by (simp add: unix_def zdiv_mono1)

lemma fromUnix_unix_le: "fromUnix (unix t) \<le> t"
  by (simp add: unix_def fromUnix_def second_def)

lemma fromUnix_unix_gt: "t < fromUnix (unix t) + second"
  by (simp add: unix_def fromUnix_def second_def)

text \<open>Go's integer division truncates towards zero, and \<open>%\<close> has the dividend's sign.\<close>

definition quot :: "int \<Rightarrow> int \<Rightarrow> int" where
  "quot a b = sgn a * sgn b * (\<bar>a\<bar> div \<bar>b\<bar>)"

definition rem :: "int \<Rightarrow> int \<Rightarrow> int" where
  "rem a b = a - quot a b * b"

lemma quot_nonneg [simp]: "0 \<le> a \<Longrightarrow> 0 < b \<Longrightarrow> quot a b = a div b"
  by (cases "a = 0") (simp_all add: quot_def)

lemma rem_nonneg [simp]: "0 \<le> a \<Longrightarrow> 0 < b \<Longrightarrow> rem a b = a mod b"
  by (simp add: rem_def minus_div_mult_eq_mod)

definition milliseconds :: "duration \<Rightarrow> int" where
  "milliseconds d = quot d 1000000"

section \<open>Strings\<close>

text \<open>
  A Go string is a list of bytes, so HOL's \<open>string\<close> (whose characters are bytes) holds it
  exactly, and Go's \<open><\<close> on strings and SQLite's BINARY collation are the lexicographic
  order on it. \<open>toLower\<close>, \<open>toUpper\<close> and \<open>trimSpace\<close> are the ASCII part of
  \<open>strings.ToLower\<close>, \<open>strings.ToUpper\<close> and \<open>strings.TrimSpace\<close>: bytes from 128 up
  are left alone.
\<close>

definition lower_char :: "char \<Rightarrow> char" where
  "lower_char c = (let n = (of_char c :: nat) in if 65 \<le> n \<and> n \<le> 90 then char_of (n + 32) else c)"

definition upper_char :: "char \<Rightarrow> char" where
  "upper_char c = (let n = (of_char c :: nat) in if 97 \<le> n \<and> n \<le> 122 then char_of (n - 32) else c)"

definition toLower :: "string \<Rightarrow> string" where "toLower s = map lower_char s"
definition toUpper :: "string \<Rightarrow> string" where "toUpper s = map upper_char s"

definition is_space :: "char \<Rightarrow> bool" where
  "is_space c = (let n = (of_char c :: nat) in n = 32 \<or> (9 \<le> n \<and> n \<le> 13))"

definition trimSpace :: "string \<Rightarrow> string" where
  "trimSpace s = rev (dropWhile is_space (rev (dropWhile is_space s)))"

fun hasPrefix :: "string \<Rightarrow> string \<Rightarrow> bool" where
  "hasPrefix s [] = True"
| "hasPrefix [] (p # ps) = False"
| "hasPrefix (c # s) (p # ps) = (c = p \<and> hasPrefix s ps)"

definition trimPrefix :: "string \<Rightarrow> string \<Rightarrow> string" where
  "trimPrefix s p = (if hasPrefix s p then drop (length p) s else s)"

text \<open>\<open>strings.CutPrefix\<close>: the rest and whether the prefix was there.\<close>

definition cutPrefix :: "string \<Rightarrow> string \<Rightarrow> string \<times> bool" where
  "cutPrefix s p = (if hasPrefix s p then (drop (length p) s, True) else (s, False))"

fun contains :: "string \<Rightarrow> string \<Rightarrow> bool" where
  "contains [] p = (p = [])"
| "contains (c # s) p = (hasPrefix (c # s) p \<or> contains s p)"

text \<open>\<open>strings.Split(s, sep)\<close> for a one-byte separator, and \<open>strings.Join\<close>.\<close>

fun split_on :: "char \<Rightarrow> string \<Rightarrow> string list" where
  "split_on d [] = [[]]"
| "split_on d (c # s) =
     (if c = d then [] # split_on d s
      else case split_on d s of [] \<Rightarrow> [[c]] | w # ws \<Rightarrow> (c # w) # ws)"

fun join_with :: "char \<Rightarrow> string list \<Rightarrow> string" where
  "join_with d [] = []"
| "join_with d [w] = w"
| "join_with d (w # v # ws) = w @ d # join_with d (v # ws)"

lemma hasPrefix_append [simp]: "hasPrefix (p @ s) p"
  by (induction p) auto

lemma hasPrefix_iff: "hasPrefix s p \<longleftrightarrow> (\<exists>t. s = p @ t)"
  by (induction s p rule: hasPrefix.induct) auto

lemma contains_iff: "contains s p \<longleftrightarrow> (\<exists>u v. s = u @ p @ v)"
proof (induction s)
  case Nil
  then show ?case by auto
next
  case (Cons c s)
  note IH = Cons.IH
  show ?case
  proof
    assume "contains (c # s) p"
    then consider "hasPrefix (c # s) p" | "contains s p" by auto
    then show "\<exists>u v. c # s = u @ p @ v"
    proof cases
      case 1
      then show ?thesis by (metis append_Nil hasPrefix_iff)
    next
      case 2
      then show ?thesis using Cons.IH by (metis append_Cons)
    qed
  next
    assume "\<exists>u v. c # s = u @ p @ v"
    then obtain u v where uv: "c # s = u @ p @ v" by blast
    show "contains (c # s) p"
    proof (cases u)
      case Nil
      then have "hasPrefix (c # s) p" using uv by (metis append_Nil hasPrefix_iff)
      then show ?thesis by simp
    next
      case (Cons d u')
      then have "contains s p" using uv IH by auto
      then show ?thesis by simp
    qed
  qed
qed

lemma trimPrefix_append [simp]: "trimPrefix (p @ s) p = s"
  by (simp add: trimPrefix_def)

lemma split_on_not_Nil [simp]: "split_on d s \<noteq> []"
  by (cases s) (auto split: list.splits)

lemma split_on_plain: "d \<notin> set w \<Longrightarrow> split_on d w = [w]"
  by (induction w) auto

lemma split_on_append:
  "d \<notin> set w \<Longrightarrow> split_on d (w @ d # s) = w # split_on d s"
  by (induction w) auto

lemma split_join:
  "ws \<noteq> [] \<Longrightarrow> \<forall>w \<in> set ws. d \<notin> set w \<Longrightarrow> split_on d (join_with d ws) = ws"
  by (induction d ws rule: join_with.induct) (auto simp: split_on_plain split_on_append)

section \<open>Bytes and hex\<close>

type_synonym byte = "8 word"

definition hex_digit :: "nat \<Rightarrow> char" where
  "hex_digit n = (if n < 10 then char_of (n + 48) else char_of (n + 87))"

definition hex_val :: "char \<Rightarrow> nat option" where
  "hex_val c = (let n = (of_char c :: nat) in
     if 48 \<le> n \<and> n \<le> 57 then Some (n - 48)
     else if 97 \<le> n \<and> n \<le> 102 then Some (n - 87)
     else if 65 \<le> n \<and> n \<le> 70 then Some (n - 55)
     else None)"

text \<open>\<open>hex.EncodeToString\<close> and \<open>hex.DecodeString\<close> (\<open>None\<close> on any error).\<close>

fun hex_encode :: "byte list \<Rightarrow> string" where
  "hex_encode [] = []"
| "hex_encode (b # bs) = hex_digit (unat b div 16) # hex_digit (unat b mod 16) # hex_encode bs"

fun hex_decode :: "string \<Rightarrow> byte list option" where
  "hex_decode [] = Some []"
| "hex_decode [c] = None"
| "hex_decode (c # d # s) =
     (case (hex_val c, hex_val d, hex_decode s) of
        (Some h, Some l, Some bs) \<Rightarrow> Some (word_of_nat (16 * h + l) # bs)
      | _ \<Rightarrow> None)"

lemma hex_val_digit [simp]: "n < 16 \<Longrightarrow> hex_val (hex_digit n) = Some n"
  by (auto simp: hex_val_def hex_digit_def Let_def)

lemma hex_decode_encode: "hex_decode (hex_encode bs) = Some bs"
proof (induction bs)
  case Nil
  then show ?case by simp
next
  case (Cons b bs)
  have "unat b < 256"
    using unsigned_less [of b] by simp
  moreover have "16 * (unat b div 16) + unat b mod 16 = unat b" by simp
  ultimately show ?case
    using Cons.IH by (simp del: mult_div_mod_eq)
qed

lemma length_hex_encode [simp]: "length (hex_encode bs) = 2 * length bs"
  by (induction bs) auto

lemma hex_encode_inj: "hex_encode as = hex_encode bs \<Longrightarrow> as = bs"
  by (metis hex_decode_encode option.inject)

lemma hex_digit_not_upper:
  "n < 16 \<Longrightarrow> lower_char (hex_digit n) = hex_digit n"
  by (auto simp: lower_char_def hex_digit_def Let_def)

lemma toLower_hex_encode [simp]: "toLower (hex_encode bs) = hex_encode bs"
proof (induction bs)
  case Nil
  then show ?case by (simp add: toLower_def)
next
  case (Cons b bs)
  have "unat b < 256"
    using unsigned_less [of b] by simp
  then show ?case
    using Cons.IH by (simp add: toLower_def hex_digit_not_upper)
qed

text \<open>Go's strings are bytes.\<close>

definition str_bytes :: "string \<Rightarrow> byte list" where
  "str_bytes s = map (\<lambda>c. of_char c) s"

definition bytes_str :: "byte list \<Rightarrow> string" where
  "bytes_str bs = map (\<lambda>b. char_of (unat b)) bs"

section \<open>Keyed tables\<close>

text \<open>
  A SQLite table with a primary key, or a Go map whose iteration order does not matter, is a
  list of rows with distinct keys. \<open>tbl_put\<close> is \<open>INSERT ... ON CONFLICT DO UPDATE\<close>:
  it replaces the row with the same key in place or appends a new one.
\<close>

definition tbl_get :: "('r \<Rightarrow> 'k) \<Rightarrow> 'k \<Rightarrow> 'r list \<Rightarrow> 'r option" where
  "tbl_get key k t = find (\<lambda>r. key r = k) t"

fun tbl_put :: "('r \<Rightarrow> 'k) \<Rightarrow> 'r \<Rightarrow> 'r list \<Rightarrow> 'r list" where
  "tbl_put key r [] = [r]"
| "tbl_put key r (x # xs) = (if key x = key r then r # xs else x # tbl_put key r xs)"

definition tbl_del :: "('r \<Rightarrow> 'k) \<Rightarrow> 'k \<Rightarrow> 'r list \<Rightarrow> 'r list" where
  "tbl_del key k t = filter (\<lambda>r. key r \<noteq> k) t"

definition tbl_ok :: "('r \<Rightarrow> 'k) \<Rightarrow> 'r list \<Rightarrow> bool" where
  "tbl_ok key t = distinct (map key t)"

lemma tbl_get_simps [simp]:
  "tbl_get key k [] = None"
  "tbl_get key k (x # xs) = (if key x = k then Some x else tbl_get key k xs)"
  by (simp_all add: tbl_get_def)

lemma tbl_get_put [simp, table_laws]:
  "tbl_get key k (tbl_put key r t) = (if k = key r then Some r else tbl_get key k t)"
  by (induction t) auto

lemma tbl_get_del [simp, table_laws]:
  "tbl_get key k (tbl_del key k' t) = (if k = k' then None else tbl_get key k t)"
  by (induction t) (auto simp: tbl_del_def)

lemma tbl_get_Some: "tbl_get key k t = Some r \<Longrightarrow> r \<in> set t \<and> key r = k"
  by (induction t) (auto split: if_splits)

lemma tbl_get_None: "tbl_get key k t = None \<longleftrightarrow> k \<notin> key ` set t"
  by (induction t) auto

lemma tbl_get_mem: "tbl_ok key t \<Longrightarrow> r \<in> set t \<Longrightarrow> tbl_get key (key r) t = Some r"
  by (induction t) (auto simp: tbl_ok_def)

lemma tbl_get_iff: "tbl_ok key t \<Longrightarrow> tbl_get key k t = Some r \<longleftrightarrow> r \<in> set t \<and> key r = k"
  by (auto simp: tbl_get_mem dest: tbl_get_Some)

lemma keys_put: "key ` set (tbl_put key r t) = insert (key r) (key ` set t)"
  by (induction t) auto

lemma tbl_put_set: "x \<in> set (tbl_put key r t) \<Longrightarrow> x = r \<or> x \<in> set t"
  by (induction t) (auto split: if_splits)

lemma tbl_ok_Cons: "tbl_ok key (x # xs) \<longleftrightarrow> key x \<notin> key ` set xs \<and> tbl_ok key xs"
  by (simp add: tbl_ok_def)

lemma tbl_ok_put [simp, table_laws]: "tbl_ok key t \<Longrightarrow> tbl_ok key (tbl_put key r t)"
proof (induction t)
  case Nil
  then show ?case by (simp add: tbl_ok_def)
next
  case (Cons x xs)
  then show ?case by (auto simp: tbl_ok_Cons keys_put)
qed

lemma tbl_put_set_iff:
  assumes "tbl_ok key t"
  shows "x \<in> set (tbl_put key r t) \<longleftrightarrow> x = r \<or> (x \<in> set t \<and> key x \<noteq> key r)"
proof -
  have "x \<in> set (tbl_put key r t) \<longleftrightarrow> tbl_get key (key x) (tbl_put key r t) = Some x"
    using tbl_get_iff [OF tbl_ok_put [OF assms]] by simp
  also have "\<dots> \<longleftrightarrow> x = r \<or> (key x \<noteq> key r \<and> tbl_get key (key x) t = Some x)"
    by auto
  finally show ?thesis
    using tbl_get_iff [OF assms] by auto
qed

lemma tbl_ok_del [simp, table_laws]: "tbl_ok key t \<Longrightarrow> tbl_ok key (tbl_del key k t)"
  by (induction t) (auto simp: tbl_ok_def tbl_del_def)

lemma tbl_ok_Nil [simp, table_laws]: "tbl_ok key []"
  by (simp add: tbl_ok_def)

lemma tbl_get_filter: "tbl_ok key t \<Longrightarrow> tbl_get key k (filter P t) =
    (case tbl_get key k t of Some r \<Rightarrow> if P r then Some r else None | None \<Rightarrow> None)"
  by (induction t) (auto simp: tbl_ok_Cons simp flip: tbl_get_None split: option.split)

lemma tbl_ok_filter: "tbl_ok key t \<Longrightarrow> tbl_ok key (filter P t)"
  by (induction t) (auto simp: tbl_ok_def)

text \<open>An \<open>UPDATE\<close> that keeps the key: a \<open>map\<close> over the rows.\<close>

lemma tbl_get_map: "(\<And>r. key (f r) = key r) \<Longrightarrow> tbl_get key k (map f t) = map_option f (tbl_get key k t)"
  by (induction t) auto

lemma tbl_ok_map: "(\<And>r. key (f r) = key r) \<Longrightarrow> tbl_ok key (map f t) = tbl_ok key t"
  by (simp add: tbl_ok_def comp_def)

end
