(* ===== verification/Handoff.thy ===== *)
theory Handoff
  imports Prelude
begin

text \<open>
  The lifecycle controller of \<open>internal/handoff/controller.go\<close>: the state machine that moves
  exclusive ownership of a SQLite database from one process to another. Pointers to operations
  and the \<open>opDone\<close> channels are indices into heaps, because \<open>finishLocked\<close> writes
  through the pointer its goroutine kept and closes whatever channel the controller holds then.
  A nil dereference or a close of a closed channel is the value \<open>None\<close>.
\<close>

section \<open>Data\<close>

datatype lstate = STANDBY | ACTIVATING | ACTIVE | QUIESCING | QUIESCED

datatype op_kind = Activate | Quiesce
datatype op_status = Running | Succeeded | Failed

record operation =
  o_id :: string
  o_kind :: op_kind
  o_origin :: string
  o_status :: op_status
  o_startedAt :: time
  o_finishedAt :: "time option"
  o_durationMs :: int
  o_error :: string

record options =
  opt_service :: string
  opt_addr :: string
  opt_tokenSha256 :: string
  opt_standby :: bool

record controller =
  c_opts :: options
  c_tok :: "byte list"
  c_instanceID :: string
  c_startedAt :: time
  c_state :: lstate
  c_held :: bool
  c_op :: "nat option"
  c_opDone :: "nat option"
  c_activatedBy :: string
  c_quiescedBy :: string
  c_cancelActive :: "nat option"
  c_ops :: "operation list"      \<comment> \<open>the operations allocated so far, by address\<close>
  c_chans :: "bool list"         \<comment> \<open>the \<open>opDone\<close> channels made so far: closed?\<close>
  c_cancelled :: "nat list"      \<comment> \<open>activations whose context was cancelled\<close>

definition newController :: "string \<Rightarrow> time \<Rightarrow> options \<Rightarrow> controller result" where
  "newController rid now opts =
     (let c = \<lparr>c_opts = opts, c_tok = [], c_instanceID = rid, c_startedAt = now,
               c_state = (if opt_standby opts then STANDBY else ACTIVATING),
               c_held = False, c_op = None, c_opDone = None, c_activatedBy = [],
               c_quiescedBy = [], c_cancelActive = None, c_ops = [], c_chans = [],
               c_cancelled = []\<rparr> in
      if opt_standby opts \<and> opt_addr opts = [] then
        Inl ''handoff: --standby needs a control listener (set the control port and tokenSha256)''
      else if opt_addr opts \<noteq> [] then
        (case hex_decode (toLower (trimSpace (opt_tokenSha256 opts))) of
           None \<Rightarrow> Inl ''handoff: the control tokenSha256 must be 64 hex characters (the SHA-256 of the deployment token)''
         | Some b \<Rightarrow>
             if length b \<noteq> 32 then Inl ''handoff: the control tokenSha256 must be 64 hex characters (the SHA-256 of the deployment token)''
             else Inr (c\<lparr>c_tok := b\<rparr>))
      else Inr c)"

definition cur_op :: "controller \<Rightarrow> operation option" where
  "cur_op c = (case c_op c of None \<Rightarrow> None
               | Some i \<Rightarrow> if i < length (c_ops c) then Some (c_ops c ! i) else None)"

section \<open>Starting and finishing operations\<close>

text \<open>
  \<open>rid\<close> is what \<open>randomID\<close> returns and \<open>now\<close> what the clock returns at the call.
\<close>

definition beginLocked :: "op_kind \<Rightarrow> string \<Rightarrow> string \<Rightarrow> string \<Rightarrow> time \<Rightarrow> controller \<Rightarrow> nat \<times> controller" where
  "beginLocked kind origin oid rid now c =
     (let oid = (if oid = [] then origin @ ''-'' @ rid else oid);
          i = length (c_ops c);
          opn = \<lparr>o_id = oid, o_kind = kind, o_origin = origin, o_status = Running,
                o_startedAt = now, o_finishedAt = None, o_durationMs = 0, o_error = []\<rparr>;
          c = c\<lparr>c_ops := c_ops c @ [opn], c_op := Some i,
                c_opDone := Some (length (c_chans c)), c_chans := c_chans c @ [False]\<rparr>
      in (i, case kind of
               Activate \<Rightarrow> c\<lparr>c_state := ACTIVATING, c_held := True, c_cancelActive := Some i\<rparr>
             | Quiesce \<Rightarrow> c\<lparr>c_state := QUIESCING\<rparr>))"

text \<open>The error of an operation: nothing, or its text.\<close>

definition finishLocked :: "nat \<Rightarrow> string option \<Rightarrow> time \<Rightarrow> controller \<Rightarrow> controller option" where
  "finishLocked i err now c =
     (let opn = c_ops c ! i;
          opn = opn\<lparr>o_finishedAt := Some now, o_durationMs := milliseconds (now - o_startedAt opn)\<rparr>;
          opn = (case err of Some e \<Rightarrow> opn\<lparr>o_status := Failed, o_error := e\<rparr>
                           | None \<Rightarrow> opn\<lparr>o_status := Succeeded\<rparr>)
      in case c_opDone c of
           None \<Rightarrow> None
         | Some d \<Rightarrow>
             if \<not> d < length (c_chans c) \<or> c_chans c ! d then None
             else Some (c\<lparr>c_ops := (c_ops c)[i := opn], c_chans := (c_chans c)[d := True]\<rparr>))"

text \<open>
  What a call of the service ends with: success, an error (and whether it wraps
  \<open>ErrStillHeld\<close>), or a panic. \<open>callService\<close> turns a panic into an error that wraps it.
\<close>

datatype svc_result = SvcOk | SvcErr string bool | SvcPanic string

definition errStillHeld :: string where
  "errStillHeld = ''handoff: the database could not be released''"

fun callService :: "string \<Rightarrow> svc_result \<Rightarrow> (string \<times> bool) option" where
  "callService what SvcOk = None"
| "callService what (SvcErr e still) = Some (e, still)"
| "callService what (SvcPanic r) =
     Some (''panic during '' @ what @ '': '' @ r @ '': '' @ errStillHeld, True)"

definition cancelActive :: "controller \<Rightarrow> controller" where
  "cancelActive c = (case c_cancelActive c of None \<Rightarrow> c
                     | Some i \<Rightarrow> c\<lparr>c_cancelled := i # c_cancelled c\<rparr>)"

definition runActivate :: "nat \<Rightarrow> svc_result \<Rightarrow> time \<Rightarrow> controller \<Rightarrow> controller option" where
  "runActivate i r now c0 =
     (let c = (cancelActive c0)\<lparr>c_cancelActive := None\<rparr> in
      case callService ''activation'' r of
        Some (e, True) \<Rightarrow>
          finishLocked i (Some e) now (c\<lparr>c_state := QUIESCING, c_held := True\<rparr>)
      | Some (e, False) \<Rightarrow>
          finishLocked i (Some e) now (c\<lparr>c_state := STANDBY, c_held := False\<rparr>)
      | None \<Rightarrow>
          finishLocked i None now
            (c\<lparr>c_state := ACTIVE, c_held := True, c_activatedBy := o_id (c_ops c ! i)\<rparr>))"

definition runQuiesce :: "nat \<Rightarrow> svc_result \<Rightarrow> time \<Rightarrow> controller \<Rightarrow> controller option" where
  "runQuiesce i r now c =
     (case callService ''quiescence'' r of
        Some (e, _) \<Rightarrow> finishLocked i (Some e) now c
      | None \<Rightarrow>
          finishLocked i None now
            (c\<lparr>c_state := QUIESCED, c_held := False, c_quiescedBy := o_id (c_ops c ! i)\<rparr>))"

definition fenceLocked :: "string \<Rightarrow> string \<Rightarrow> time \<Rightarrow> controller \<Rightarrow> controller" where
  "fenceLocked origin rid now c =
     (let opn = \<lparr>o_id = origin @ ''-'' @ rid, o_kind = Quiesce, o_origin = origin,
                o_status = Succeeded, o_startedAt = now, o_finishedAt = Some now,
                o_durationMs = 0, o_error = []\<rparr>
      in c\<lparr>c_ops := c_ops c @ [opn], c_op := Some (length (c_ops c)),
           c_opDone := Some (length (c_chans c)), c_chans := c_chans c @ [True],
           c_state := QUIESCED, c_held := False, c_quiescedBy := o_id opn\<rparr>)"

section \<open>The control API\<close>

record response =
  r_code :: nat
  r_state :: lstate
  r_instanceID :: string
  r_operation :: "operation option"
  r_error :: "(string \<times> string) option"

definition replyLocked :: "nat \<Rightarrow> controller \<Rightarrow> response" where
  "replyLocked code c =
     \<lparr>r_code = code, r_state = c_state c, r_instanceID = c_instanceID c,
      r_operation = cur_op c, r_error = None\<rparr>"

definition conflictLocked :: "string \<Rightarrow> string \<Rightarrow> controller \<Rightarrow> response" where
  "conflictLocked code msg c =
     \<lparr>r_code = 409, r_state = c_state c, r_instanceID = c_instanceID c,
      r_operation = cur_op c, r_error = Some (code, msg)\<rparr>"

text \<open>The goroutines the handlers, the boot and the shutdown start.\<close>

datatype goroutine = GActivate nat | GQuiesce nat

type_synonym handled = "(response \<times> controller \<times> goroutine list) option"

definition released_msg :: string where
  "released_msg = ''this process has released its database and never reactivates''"

definition retry_msg :: string where
  "retry_msg = ''this operation already failed; retry with a new operationId''"

definition handleActivate :: "string \<Rightarrow> string \<Rightarrow> time \<Rightarrow> controller \<Rightarrow> handled" where
  "handleActivate oid rid now c =
     (case c_state c of
        STANDBY \<Rightarrow>
          if (case cur_op c of None \<Rightarrow> False
              | Some p \<Rightarrow> o_kind p = Activate \<and> o_id p = oid \<and> oid \<noteq> [])
          then Some (conflictLocked ''operation_failed'' retry_msg c, c, [])
          else (let (i, c') = beginLocked Activate ''api'' oid rid now c
                in Some (replyLocked 202 c', c', [GActivate i]))
      | ACTIVATING \<Rightarrow>
          if oid = [] then Some (replyLocked 202 c, c, [])
          else (case cur_op c of
                  None \<Rightarrow> None
                | Some p \<Rightarrow>
                    if oid = o_id p then Some (replyLocked 202 c, c, [])
                    else Some (conflictLocked ''activation_in_progress''
                                 (''activation '' @ o_id p @ '' is in progress'') c, c, []))
      | ACTIVE \<Rightarrow>
          if oid = [] \<or> oid = c_activatedBy c then Some (replyLocked 200 c, c, [])
          else Some (conflictLocked ''already_active''
                       (''already active under operation '' @ c_activatedBy c) c, c, [])
      | _ \<Rightarrow> Some (conflictLocked ''released'' released_msg c, c, []))"

definition handleQuiesce :: "string \<Rightarrow> string \<Rightarrow> time \<Rightarrow> controller \<Rightarrow> handled" where
  "handleQuiesce oid rid now c =
     (case c_state c of
        STANDBY \<Rightarrow>
          (let c' = fenceLocked ''api'' rid now c in Some (replyLocked 200 c', c', []))
      | ACTIVATING \<Rightarrow>
          (case cur_op c of
             None \<Rightarrow> None
           | Some p \<Rightarrow>
               Some (conflictLocked ''activation_in_progress''
                       (''activation '' @ o_id p @ '' is in progress; wait for it to finish'') c, c, []))
      | ACTIVE \<Rightarrow>
          (let (i, c') = beginLocked Quiesce ''api'' oid rid now c
           in Some (replyLocked 202 c', c', [GQuiesce i]))
      | QUIESCING \<Rightarrow>
          (case cur_op c of
             None \<Rightarrow> None
           | Some p \<Rightarrow>
               if o_status p = Running then
                 if oid = [] \<or> oid = o_id p then Some (replyLocked 202 c, c, [])
                 else Some (conflictLocked ''quiescence_in_progress''
                              (''quiescence '' @ o_id p @ '' is in progress'') c, c, [])
               else if oid \<noteq> [] \<and> oid = o_id p then
                 Some (conflictLocked ''operation_failed'' retry_msg c, c, [])
               else
                 (let (i, c') = beginLocked Quiesce ''api'' oid rid now c
                  in Some (replyLocked 202 c', c', [GQuiesce i])))
      | QUIESCED \<Rightarrow> Some (replyLocked 200 c, c, []))"

definition bad_body_msg :: string where
  \<open>bad_body_msg = ''body must be {"operationId": "...", "expectedInstanceId": "..."}''\<close>

definition errorResponse :: "nat \<Rightarrow> string \<Rightarrow> string \<Rightarrow> controller \<Rightarrow> response" where
  "errorResponse code ec msg c =
     \<lparr>r_code = code, r_state = c_state c, r_instanceID = c_instanceID c,
      r_operation = None, r_error = Some (ec, msg)\<rparr>"

text \<open>
  The authentication and addressing checks in front of both handlers. \<open>sha\<close> is SHA-256 and
  \<open>parse\<close> is \<open>json.Unmarshal\<close> of the body into \<open>opRequest\<close> (\<open>operationId\<close>,
  \<open>expectedInstanceId\<close>), \<open>None\<close> on an error; \<open>body\<close> is the body as read, at most
  4096 bytes.
\<close>

definition authed ::
  "(string \<Rightarrow> byte list) \<Rightarrow> (string \<Rightarrow> (string \<times> string) option) \<Rightarrow> (string \<Rightarrow> controller \<Rightarrow> handled) \<Rightarrow>
   string \<Rightarrow> string \<Rightarrow> controller \<Rightarrow> handled" where
  "authed sha parse h auth body c =
     (let (tok, ok) = cutPrefix auth ''Bearer ''; body = take 4096 body in
      if \<not> ok \<or> sha (trimSpace tok) \<noteq> c_tok c then
        Some (errorResponse 401 ''unauthenticated'' ''a valid deployment token is required'' c, c, [])
      else
        (case (if trimSpace body = [] then Some ([], []) else parse body) of
           None \<Rightarrow> Some (errorResponse 400 ''bad_request'' bad_body_msg c, c, [])
         | Some (oid, expected) \<Rightarrow>
             if 128 < length oid then
               Some (errorResponse 400 ''bad_request'' ''operationId is too long'' c, c, [])
             else if expected \<noteq> [] \<and> expected \<noteq> c_instanceID c then
               Some (errorResponse 409 ''instance_mismatch''
                       (''expectedInstanceId '' @ expected @ '' is not this process ('' @ c_instanceID c @ '')'') c, c, [])
             else h oid c))"

record status_doc =
  sd_state :: lstate
  sd_ready :: bool
  sd_databaseHeld :: bool
  sd_standby :: bool
  sd_instanceID :: string
  sd_operation :: "operation option"
  sd_activatedBy :: string
  sd_quiescedBy :: string

definition Status :: "controller \<Rightarrow> status_doc" where
  "Status c =
     \<lparr>sd_state = c_state c, sd_ready = (c_state c = ACTIVE), sd_databaseHeld = c_held c,
      sd_standby = opt_standby (c_opts c), sd_instanceID = c_instanceID c,
      sd_operation = cur_op c, sd_activatedBy = c_activatedBy c, sd_quiescedBy = c_quiescedBy c\<rparr>"

text \<open>\<open>GET /readyz\<close>: the status code.\<close>

definition readyz :: "controller \<Rightarrow> nat" where
  "readyz c = (if c_state c = ACTIVE then 200 else 503)"

section \<open>Shutdown and the process\<close>

text \<open>
  \<open>shutdown\<close> between two of its waits: at the head of its loop with the number of quiesce
  attempts made, waiting on a channel, running a quiescence, or returned. Waiting leaves the
  attempt count alone (the source decrements it before the loop increments it).
\<close>

datatype shut_pc = SLoop nat | SWait nat "nat option" | SQuiesce nat nat | SRet nat

definition shutdown_iter :: "string \<Rightarrow> time \<Rightarrow> nat \<Rightarrow> controller \<Rightarrow> controller \<times> shut_pc" where
  "shutdown_iter rid now attempt c =
     (if attempt < 2 then
        (case c_state c of
           STANDBY \<Rightarrow> (fenceLocked ''signal'' rid now c, SRet 0)
         | QUIESCED \<Rightarrow> (c, SRet 0)
         | ACTIVATING \<Rightarrow> (let c' = cancelActive c in (c', SWait attempt (c_opDone c')))
         | QUIESCING \<Rightarrow>
             (if (case cur_op c of None \<Rightarrow> False | Some p \<Rightarrow> o_status p = Running)
              then (c, SWait attempt (c_opDone c))
              else (let (i, c') = beginLocked Quiesce ''signal'' [] rid now c
                    in (c', SQuiesce attempt i)))
         | ACTIVE \<Rightarrow>
             (let (i, c') = beginLocked Quiesce ''signal'' [] rid now c
              in (c', SQuiesce attempt i)))
      else (c, SRet (if c_held c then 1 else 0)))"

text \<open>
  \<open>Run\<close>: the control listener serves before the boot activation begins (\<open>MStart\<close>), then
  the main goroutine waits (with the boot activation's channel, if there was one), shuts down
  (remembering whether the service failed), and exits with a code.
\<close>

datatype main_pc = MStart | MWait "nat option" | MShut bool shut_pc | MExit nat

definition boot :: "string \<Rightarrow> time \<Rightarrow> controller \<Rightarrow> controller \<times> goroutine list \<times> main_pc" where
  "boot rid now c =
     (if opt_standby (c_opts c) then (c, [], MWait None)
      else (let (i, c') = beginLocked Activate ''boot'' ''boot'' rid now (c\<lparr>c_state := STANDBY\<rparr>)
            in (c', [GActivate i], MWait (c_opDone c'))))"

text \<open>The \<open>case <-bootDone\<close> arm of the wait loop.\<close>

definition bootDone :: "controller \<Rightarrow> main_pc" where
  "bootDone c = (if c_state c \<noteq> ACTIVE then MExit 1 else MWait None)"

definition exitCode :: "bool \<Rightarrow> nat \<Rightarrow> nat" where
  "exitCode fatal code = (if fatal then 1 else code)"

end
