(* ===== verification/HandoffSystem.thy ===== *)
theory HandoffSystem
  imports Handoff
begin

text \<open>
  The process around the controller: the HTTP handlers, the goroutines that run activations
  and quiescences, and \<open>Run\<close>'s main goroutine, as a step relation over the \<open>Service\<close>
  the controller drives. The locale \<open>db_service\<close> states the contract of that interface
  (\<open>Service\<close> in \<open>controller.go\<close>); its lemmas show what the controller guarantees for
  every service that keeps it. \<open>RelayApp\<close> and \<open>GridApp\<close> interpret it.
\<close>

section \<open>Steps\<close>

record 's sys =
  ctl :: controller
  gos :: "goroutine list"
  svc :: 's
  pc :: main_pc

definition alive :: "'s sys \<Rightarrow> bool" where
  "alive s = (case pc s of MExit _ \<Rightarrow> False | _ \<Rightarrow> True)"

definition serving :: "'s sys \<Rightarrow> bool" where
  "serving s = (alive s \<and> opt_addr (c_opts (ctl s)) \<noteq> [])"

definition chan_closed :: "controller \<Rightarrow> nat \<Rightarrow> bool" where
  "chan_closed c d = (d < length (c_chans c) \<and> c_chans c ! d)"

text \<open>
  \<open>act e v\<close> and \<open>qui e v\<close> run the service's \<open>Activate\<close> and \<open>Quiesce\<close> in the
  environment \<open>e\<close> from the service state \<open>v\<close>.
\<close>

inductive sys_step ::
  "('e \<Rightarrow> 's \<Rightarrow> svc_result \<times> 's) \<Rightarrow> ('e \<Rightarrow> 's \<Rightarrow> svc_result \<times> 's) \<Rightarrow> 's sys \<Rightarrow> 's sys \<Rightarrow> bool"
  for act qui where
  api_activate:
    "serving s \<Longrightarrow> handleActivate oid rid now (ctl s) = Some (r, c, gs) \<Longrightarrow>
     sys_step act qui s (s\<lparr>ctl := c, gos := gs @ gos s\<rparr>)"
| api_quiesce:
    "serving s \<Longrightarrow> handleQuiesce oid rid now (ctl s) = Some (r, c, gs) \<Longrightarrow>
     sys_step act qui s (s\<lparr>ctl := c, gos := gs @ gos s\<rparr>)"
| activate_done:
    "alive s \<Longrightarrow> GActivate i \<in> set (gos s) \<Longrightarrow> act e (svc s) = (r, v) \<Longrightarrow>
     runActivate i r now (ctl s) = Some c \<Longrightarrow>
     sys_step act qui s (s\<lparr>ctl := c, gos := remove1 (GActivate i) (gos s), svc := v\<rparr>)"
| quiesce_done:
    "alive s \<Longrightarrow> GQuiesce i \<in> set (gos s) \<Longrightarrow> qui e (svc s) = (r, v) \<Longrightarrow>
     runQuiesce i r now (ctl s) = Some c \<Longrightarrow>
     sys_step act qui s (s\<lparr>ctl := c, gos := remove1 (GQuiesce i) (gos s), svc := v\<rparr>)"
| boot_begins:
    "pc s = MStart \<Longrightarrow> boot rid now (ctl s) = (c, gs, p) \<Longrightarrow>
     sys_step act qui s (s\<lparr>ctl := c, gos := gs @ gos s, pc := p\<rparr>)"
| boot_done:
    "pc s = MWait (Some d) \<Longrightarrow> chan_closed (ctl s) d \<Longrightarrow>
     sys_step act qui s (s\<lparr>pc := bootDone (ctl s)\<rparr>)"
| stop_requested:
    "pc s = MWait b \<Longrightarrow> sys_step act qui s (s\<lparr>pc := MShut fatal (SLoop 0)\<rparr>)"
| shut_loop:
    "pc s = MShut f (SLoop n) \<Longrightarrow> shutdown_iter rid now n (ctl s) = (c, p) \<Longrightarrow>
     sys_step act qui s (s\<lparr>ctl := c, pc := MShut f p\<rparr>)"
| shut_wait:
    "pc s = MShut f (SWait n (Some d)) \<Longrightarrow> chan_closed (ctl s) d \<Longrightarrow>
     sys_step act qui s (s\<lparr>pc := MShut f (SLoop n)\<rparr>)"
| shut_quiesce:
    "pc s = MShut f (SQuiesce n i) \<Longrightarrow> qui e (svc s) = (r, v) \<Longrightarrow>
     runQuiesce i r now (ctl s) = Some c \<Longrightarrow>
     sys_step act qui s (s\<lparr>ctl := c, svc := v, pc := MShut f (SLoop (Suc n))\<rparr>)"
| shut_return:
    "pc s = MShut f (SRet code) \<Longrightarrow> sys_step act qui s (s\<lparr>pc := MExit (exitCode f code)\<rparr>)"

definition start :: "string \<Rightarrow> time \<Rightarrow> options \<Rightarrow> 's \<Rightarrow> 's sys result" where
  "start rid now opts v =
     rbind (newController rid now opts) (\<lambda>c. Inr \<lparr>ctl = c, gos = [], svc = v, pc = MStart\<rparr>)"

inductive sys_reach ::
  "('e \<Rightarrow> 's \<Rightarrow> svc_result \<times> 's) \<Rightarrow> ('e \<Rightarrow> 's \<Rightarrow> svc_result \<times> 's) \<Rightarrow> 's \<Rightarrow> 's sys \<Rightarrow> bool"
  for act qui v where
  initial: "start rid now opts v = Inr s \<Longrightarrow> sys_reach act qui v s"
| further: "sys_reach act qui v s \<Longrightarrow> sys_step act qui s t \<Longrightarrow> sys_reach act qui v t"

text \<open>
  The same steps as a function of an event, so that runs can be computed; every computed run is
  a run of the relation.
\<close>

datatype 'e event =
    EApiActivate string string time | EApiQuiesce string string time
  | EActivateDone nat 'e time | EQuiesceDone nat 'e time
  | EBoot string time | EBootDone | EStop bool | EShut string 'e time

definition exec_shut ::
  "('e \<Rightarrow> 's \<Rightarrow> svc_result \<times> 's) \<Rightarrow> string \<Rightarrow> 'e \<Rightarrow> time \<Rightarrow> 's sys \<Rightarrow> 's sys option" where
  "exec_shut qui rid e now s =
     (case pc s of
        MShut f (SLoop n) \<Rightarrow>
          (let (c, p) = shutdown_iter rid now n (ctl s) in Some (s\<lparr>ctl := c, pc := MShut f p\<rparr>))
      | MShut f (SWait n (Some d)) \<Rightarrow>
          if chan_closed (ctl s) d then Some (s\<lparr>pc := MShut f (SLoop n)\<rparr>) else None
      | MShut f (SQuiesce n i) \<Rightarrow>
          (let (r, v) = qui e (svc s) in
           map_option (\<lambda>c. s\<lparr>ctl := c, svc := v, pc := MShut f (SLoop (Suc n))\<rparr>)
             (runQuiesce i r now (ctl s)))
      | MShut f (SRet code) \<Rightarrow> Some (s\<lparr>pc := MExit (exitCode f code)\<rparr>)
      | _ \<Rightarrow> None)"

fun exec ::
  "('e \<Rightarrow> 's \<Rightarrow> svc_result \<times> 's) \<Rightarrow> ('e \<Rightarrow> 's \<Rightarrow> svc_result \<times> 's) \<Rightarrow> 'e event \<Rightarrow> 's sys \<Rightarrow> 's sys option" where
  "exec act qui (EApiActivate oid rid now) s =
     (if serving s then map_option (\<lambda>(r, c, gs). s\<lparr>ctl := c, gos := gs @ gos s\<rparr>)
        (handleActivate oid rid now (ctl s)) else None)"
| "exec act qui (EApiQuiesce oid rid now) s =
     (if serving s then map_option (\<lambda>(r, c, gs). s\<lparr>ctl := c, gos := gs @ gos s\<rparr>)
        (handleQuiesce oid rid now (ctl s)) else None)"
| "exec act qui (EActivateDone i e now) s =
     (if alive s \<and> GActivate i \<in> set (gos s) then
        (let (r, v) = act e (svc s) in
         map_option (\<lambda>c. s\<lparr>ctl := c, gos := remove1 (GActivate i) (gos s), svc := v\<rparr>)
           (runActivate i r now (ctl s)))
      else None)"
| "exec act qui (EQuiesceDone i e now) s =
     (if alive s \<and> GQuiesce i \<in> set (gos s) then
        (let (r, v) = qui e (svc s) in
         map_option (\<lambda>c. s\<lparr>ctl := c, gos := remove1 (GQuiesce i) (gos s), svc := v\<rparr>)
           (runQuiesce i r now (ctl s)))
      else None)"
| "exec act qui (EBoot rid now) s =
     (if pc s = MStart then (let (c, gs, p) = boot rid now (ctl s)
        in Some (s\<lparr>ctl := c, gos := gs @ gos s, pc := p\<rparr>)) else None)"
| "exec act qui EBootDone s =
     (case pc s of MWait (Some d) \<Rightarrow>
        if chan_closed (ctl s) d then Some (s\<lparr>pc := bootDone (ctl s)\<rparr>) else None
      | _ \<Rightarrow> None)"
| "exec act qui (EStop fatal) s =
     (case pc s of MWait _ \<Rightarrow> Some (s\<lparr>pc := MShut fatal (SLoop 0)\<rparr>) | _ \<Rightarrow> None)"
| "exec act qui (EShut rid e now) s = exec_shut qui rid e now s"

fun exec_all where
  "exec_all act qui [] s = Some s"
| "exec_all act qui (e # es) s = (case exec act qui e s of None \<Rightarrow> None | Some t \<Rightarrow> exec_all act qui es t)"

lemma exec_sound: "exec act qui e s = Some t \<Longrightarrow> sys_step act qui s t"
proof (cases e)
  case (EShut rid e' now)
  assume "exec act qui e s = Some t"
  with EShut show ?thesis
    by (auto simp: exec_shut_def Let_def split: main_pc.splits shut_pc.splits option.splits prod.splits if_splits
        intro: sys_step.intros)
qed (auto simp: Let_def split: if_splits prod.splits main_pc.splits option.splits intro: sys_step.intros)

lemma exec_all_reach: "exec_all act qui es s = Some t \<Longrightarrow> sys_reach act qui v s \<Longrightarrow> sys_reach act qui v t"
proof (induction es arbitrary: s)
  case Nil
  then show ?case by simp
next
  case (Cons e es)
  from Cons.prems(1) obtain u where u: "exec act qui e s = Some u" "exec_all act qui es u = Some t"
    by (auto split: option.splits)
  have "sys_reach act qui v u"
    by (rule sys_reach.further [OF Cons.prems(2) exec_sound [OF u(1)]])
  then show ?case by (rule Cons.IH [OF u(2)])
qed

definition exec_from where
  "exec_from act qui es rid now opts v =
     (case start rid now opts v of Inl _ \<Rightarrow> None | Inr s \<Rightarrow> exec_all act qui es s)"

lemma exec_from_reach: "exec_from act qui es rid now opts v = Some t \<Longrightarrow> sys_reach act qui v t"
  by (auto simp: exec_from_def split: sum.splits intro: exec_all_reach sys_reach.initial)

section \<open>The controller's invariant\<close>

text \<open>The operation \<open>i\<close> is the current one, runs, and its channel is still open.\<close>

definition op_open :: "controller \<Rightarrow> nat \<Rightarrow> bool" where
  "op_open c i \<longleftrightarrow> c_op c = Some i \<and> i < length (c_ops c) \<and> o_status (c_ops c ! i) = Running \<and>
     (\<exists>d. c_opDone c = Some d \<and> d < length (c_chans c) \<and> \<not> c_chans c ! d)"

definition op_closed :: "controller \<Rightarrow> bool" where
  "op_closed c \<longleftrightarrow> (\<exists>i. c_op c = Some i \<and> i < length (c_ops c) \<and> o_status (c_ops c ! i) \<noteq> Running)"

text \<open>
  What holds between the state, the held flag and the operations in flight: at most one
  operation runs, it is the current one, and it runs exactly in the states that say so.
\<close>

definition ctl_inv :: "controller \<Rightarrow> goroutine list \<Rightarrow> bool" where
  "ctl_inv c gs \<longleftrightarrow>
     (case c_state c of
        STANDBY \<Rightarrow> gs = [] \<and> \<not> c_held c
      | QUIESCED \<Rightarrow> gs = [] \<and> \<not> c_held c
      | ACTIVE \<Rightarrow> gs = [] \<and> c_held c
      | ACTIVATING \<Rightarrow> c_held c \<and> (\<exists>i. gs = [GActivate i] \<and> op_open c i)
      | QUIESCING \<Rightarrow> c_held c \<and> (gs = [] \<and> op_closed c \<or> (\<exists>i. gs = [GQuiesce i] \<and> op_open c i)))"

definition in_flight :: "'s sys \<Rightarrow> goroutine list" where
  "in_flight s = gos s @ (case pc s of MShut f (SQuiesce n i) \<Rightarrow> [GQuiesce i] | _ \<Rightarrow> [])"

definition pre_boot :: "'s sys \<Rightarrow> bool" where
  "pre_boot s \<longleftrightarrow> pc s = MStart \<and> c_state (ctl s) = ACTIVATING \<and> \<not> opt_standby (c_opts (ctl s)) \<and>
     c_op (ctl s) = None \<and> \<not> c_held (ctl s) \<and> gos s = []"

lemma beginLocked_activate:
  assumes "ctl_inv c []" and "c_state c = STANDBY" and "beginLocked Activate origin oid rid now c = (i, c')"
  shows "ctl_inv c' [GActivate i] \<and> c_state c' = ACTIVATING \<and> c_opts c' = c_opts c \<and> c_held c'"
  using assms by (auto simp: beginLocked_def ctl_inv_def op_open_def Let_def)

lemma beginLocked_quiesce:
  assumes "ctl_inv c []" and "c_state c = ACTIVE \<or> c_state c = QUIESCING"
    and "beginLocked Quiesce origin oid rid now c = (i, c')"
  shows "ctl_inv c' [GQuiesce i] \<and> c_state c' = QUIESCING \<and> c_opts c' = c_opts c \<and> c_held c'"
  using assms by (auto simp: beginLocked_def ctl_inv_def op_open_def Let_def)

lemma fenceLocked_inv:
  assumes "ctl_inv c []" and "c_state c = STANDBY"
  shows "ctl_inv (fenceLocked origin rid now c) [] \<and> c_state (fenceLocked origin rid now c) = QUIESCED
         \<and> c_opts (fenceLocked origin rid now c) = c_opts c"
  using assms by (auto simp: fenceLocked_def ctl_inv_def Let_def)

lemma finishLocked_open:
  assumes "c_op c = Some i" "i < length (c_ops c)" "c_opDone c = Some d" "d < length (c_chans c)" "\<not> c_chans c ! d"
  obtains c' where "finishLocked i err now c = Some c'" "c_state c' = c_state c" "c_held c' = c_held c"
    "op_closed c'" "c_opts c' = c_opts c"
  using assms
  by (cases err) (auto simp: finishLocked_def Let_def op_closed_def intro!: that)

lemma cancelActive_frame [simp]:
  "c_state (cancelActive c) = c_state c" "c_held (cancelActive c) = c_held c"
  "c_op (cancelActive c) = c_op c" "c_opDone (cancelActive c) = c_opDone c"
  "c_ops (cancelActive c) = c_ops c" "c_chans (cancelActive c) = c_chans c"
  "c_opts (cancelActive c) = c_opts c"
  by (auto simp: cancelActive_def split: option.splits)

lemma cancelActive_ops [simp]:
  "op_open (cancelActive c) i = op_open c i" "op_closed (cancelActive c) = op_closed c"
  "cur_op (cancelActive c) = cur_op c"
  by (simp_all add: op_open_def op_closed_def cur_op_def split: option.split)

lemma cancelActive_inv [simp]: "ctl_inv (cancelActive c) gs = ctl_inv c gs"
  by (cases "c_state c") (simp_all add: ctl_inv_def)

text \<open>A finishing activation never panics, and leaves one of three settled states.\<close>

lemma runActivate_inv:
  assumes "ctl_inv c [GActivate i]"
  shows "\<exists>c'. runActivate i r now c = Some c' \<and> ctl_inv c' [] \<and> c_opts c' = c_opts c \<and>
     (case callService ''activation'' r of
        None \<Rightarrow> c_state c' = ACTIVE | Some (_, True) \<Rightarrow> c_state c' = QUIESCING
      | Some (_, False) \<Rightarrow> c_state c' = STANDBY)"
proof -
  from assms obtain d where i: "c_op c = Some i" "i < length (c_ops c)"
    and d: "c_opDone c = Some d" "d < length (c_chans c)" "\<not> c_chans c ! d"
    by (auto simp: ctl_inv_def op_open_def split: lstate.splits)
  let ?k = "(cancelActive c)\<lparr>c_cancelActive := None\<rparr>"
  have fin: "\<exists>c'. finishLocked i err now k = Some c' \<and> c_state c' = c_state k \<and>
      c_held c' = c_held k \<and> op_closed c' \<and> c_opts c' = c_opts c"
    if "c_op k = c_op c" "c_ops k = c_ops c" "c_opDone k = c_opDone c" "c_chans k = c_chans c"
      "c_opts k = c_opts c" for err k
    by (rule finishLocked_open [of k i d err now]) (use i d that in auto)
  consider "callService ''activation'' r = None" | e b where "callService ''activation'' r = Some (e, b)"
    by (cases "callService ''activation'' r") auto
  then show ?thesis
  proof cases
    case 1
    then show ?thesis
      using fin [of "?k\<lparr>c_state := ACTIVE, c_held := True, c_activatedBy := o_id (c_ops c ! i)\<rparr>" None]
      by (auto simp: runActivate_def ctl_inv_def Let_def)
  next
    case (2 e b)
    then show ?thesis
      using fin [of "?k\<lparr>c_state := (if b then QUIESCING else STANDBY), c_held := b\<rparr>" "Some e"]
      by (cases b) (auto simp: runActivate_def ctl_inv_def Let_def)
  qed
qed

lemma runQuiesce_inv:
  assumes "ctl_inv c [GQuiesce i]"
  shows "\<exists>c'. runQuiesce i r now c = Some c' \<and> ctl_inv c' [] \<and> c_opts c' = c_opts c \<and>
     c_state c' = (if r = SvcOk then QUIESCED else QUIESCING)"
proof -
  from assms obtain d where i: "c_op c = Some i" "i < length (c_ops c)"
    and d: "c_opDone c = Some d" "d < length (c_chans c)" "\<not> c_chans c ! d"
    and st: "c_state c = QUIESCING" "c_held c"
    by (auto simp: ctl_inv_def op_open_def split: lstate.splits)
  have fin: "\<exists>c'. finishLocked i err now k = Some c' \<and> c_state c' = c_state k \<and>
      c_held c' = c_held k \<and> op_closed c' \<and> c_opts c' = c_opts c"
    if "c_op k = c_op c" "c_ops k = c_ops c" "c_opDone k = c_opDone c" "c_chans k = c_chans c"
      "c_opts k = c_opts c" for err k
    by (rule finishLocked_open [of k i d err now]) (use i d that in auto)
  show ?thesis
  proof (cases "callService ''quiescence'' r")
    case None
    then have "r = SvcOk" by (cases r) auto
    then show ?thesis
      using fin [of "c\<lparr>c_state := QUIESCED, c_held := False, c_quiescedBy := o_id (c_ops c ! i)\<rparr>" None]
      by (auto simp: runQuiesce_def ctl_inv_def)
  next
    case (Some p)
    then have "r \<noteq> SvcOk" by auto
    with Some show ?thesis
      using fin [of c "Some (fst p)"] st by (cases p) (auto simp: runQuiesce_def ctl_inv_def)
  qed
qed

section \<open>The handlers and the shutdown keep the invariant\<close>

lemma cur_op_open: "op_open c i \<Longrightarrow> \<exists>p. cur_op c = Some p \<and> o_status p = Running"
  by (auto simp: op_open_def cur_op_def)

lemma cur_op_closed: "op_closed c \<Longrightarrow> \<exists>p. cur_op c = Some p \<and> o_status p \<noteq> Running"
  by (auto simp: op_closed_def cur_op_def)

lemma ctl_inv_idle:
  assumes "ctl_inv c gs" and "cur_op c = Some p" and "o_status p \<noteq> Running" and "c_state c = QUIESCING"
  shows "gs = []"
  using assms by (auto simp: ctl_inv_def dest: cur_op_open)

lemma handleActivate_inv:
  assumes "ctl_inv c gs" and "handleActivate oid rid now c = Some (r, c', gs')"
  shows "ctl_inv c' (gs' @ gs) \<and> c_opts c' = c_opts c \<and>
    (c' = c \<and> gs' = [] \<or> c_state c = STANDBY \<and> c_state c' = ACTIVATING \<and> gs = [])"
proof (cases "c' = c \<and> gs' = []")
  case True
  then show ?thesis using assms by simp
next
  case False
  then have st: "c_state c = STANDBY" and
    beg: "\<exists>i. beginLocked Activate ''api'' oid rid now c = (i, c') \<and> gs' = [GActivate i]"
    using assms(2) by (auto simp: handleActivate_def split: lstate.splits if_splits option.splits prod.splits)
  then have "gs = []" using assms(1) by (simp add: ctl_inv_def)
  from beg obtain i where i: "beginLocked Activate ''api'' oid rid now c = (i, c')" "gs' = [GActivate i]"
    by blast
  then have "ctl_inv c' [GActivate i] \<and> c_state c' = ACTIVATING \<and> c_opts c' = c_opts c \<and> c_held c'"
    using beginLocked_activate [OF _ st] assms(1) \<open>gs = []\<close> by blast
  with i st \<open>gs = []\<close> show ?thesis by simp
qed

lemma handleQuiesce_inv:
  assumes "ctl_inv c gs" and "handleQuiesce oid rid now c = Some (r, c', gs')"
  shows "ctl_inv c' (gs' @ gs) \<and> c_opts c' = c_opts c \<and>
    (c' = c \<and> gs' = [] \<or> c_state c = STANDBY \<and> c_state c' = QUIESCED \<and> gs' = []
     \<or> (c_state c = ACTIVE \<or> c_state c = QUIESCING) \<and> c_state c' = QUIESCING)"
proof -
  consider "c' = c" "gs' = []" | "c_state c = STANDBY" "c' = fenceLocked ''api'' rid now c" "gs' = []"
    | i where "c_state c = ACTIVE \<or> c_state c = QUIESCING \<and> gs = []"
        "beginLocked Quiesce ''api'' oid rid now c = (i, c')" "gs' = [GQuiesce i]"
  proof (cases "c_state c")
    case QUIESCING
    then obtain q where q: "cur_op c = Some q"
      using assms(1) by (auto simp: ctl_inv_def dest!: cur_op_open cur_op_closed)
    show ?thesis
    proof (cases "c' = c \<and> gs' = []")
      case True
      then show ?thesis using that(1) by simp
    next
      case False
      then have idle: "o_status q \<noteq> Running"
        using assms(2) QUIESCING q by (auto simp: handleQuiesce_def split: if_splits)
      then have "gs = []" using ctl_inv_idle [OF assms(1) q] QUIESCING by simp
      moreover obtain i where "beginLocked Quiesce ''api'' oid rid now c = (i, c')" "gs' = [GQuiesce i]"
        using assms(2) QUIESCING q False idle
        by (auto simp: handleQuiesce_def Let_def split: if_splits prod.splits)
      ultimately show ?thesis using that(3) QUIESCING by blast
    qed
  next
    case STANDBY
    then show ?thesis using assms(2) that(2) by (auto simp: handleQuiesce_def Let_def)
  next
    case ACTIVATING
    then show ?thesis using assms(2) that(1) by (auto simp: handleQuiesce_def split: option.splits)
  next
    case ACTIVE
    then show ?thesis using assms(2) that(3) by (auto simp: handleQuiesce_def split: prod.splits)
  next
    case QUIESCED
    then show ?thesis using assms(2) that(1) by (auto simp: handleQuiesce_def)
  qed
  then show ?thesis
  proof cases
    case 1
    then show ?thesis using assms(1) by simp
  next
    case 2
    then have "gs = []" using assms(1) by (simp add: ctl_inv_def)
    then show ?thesis using 2 assms(1) fenceLocked_inv by auto
  next
    case (3 i)
    then have "gs = []" using assms(1) by (auto simp: ctl_inv_def)
    then have "ctl_inv c' [GQuiesce i] \<and> c_state c' = QUIESCING \<and> c_opts c' = c_opts c \<and> c_held c'"
      using beginLocked_quiesce [OF _ _ 3(2)] 3(1) assms(1) by blast
    then show ?thesis using 3 \<open>gs = []\<close> by auto
  qed
qed

lemma handlers_no_panic:
  assumes "ctl_inv c gs"
  shows "handleActivate oid rid now c \<noteq> None" and "handleQuiesce oid rid now c \<noteq> None"
proof -
  have "\<exists>p. cur_op c = Some p" if "c_state c = ACTIVATING \<or> c_state c = QUIESCING"
    using assms that by (auto simp: ctl_inv_def dest!: cur_op_open cur_op_closed)
  then show "handleActivate oid rid now c \<noteq> None" and "handleQuiesce oid rid now c \<noteq> None"
    by (auto simp: handleActivate_def handleQuiesce_def Let_def split: lstate.splits prod.splits)
qed

definition quiescing :: "controller \<Rightarrow> bool" where
  "quiescing c \<longleftrightarrow> c_state c = QUIESCING \<or> c_state c = QUIESCED"

lemma shutdown_iter_inv:
  assumes "ctl_inv c gs" and "shutdown_iter rid now n c = (c', p)" and "0 < n \<longrightarrow> quiescing c"
  shows "c_opts c' = c_opts c \<and>
    (case p of
       SRet code \<Rightarrow> ctl_inv c' gs \<and> code \<le> 1 \<and> (code = 0 \<longrightarrow> c_state c' = QUIESCED) \<and>
         (c_state c' = c_state c \<or> c_state c = STANDBY \<and> c_state c' = QUIESCED)
     | SWait m _ \<Rightarrow> ctl_inv c' gs \<and> m = n \<and> c_state c' = c_state c
     | SQuiesce m i \<Rightarrow> ctl_inv c' (gs @ [GQuiesce i]) \<and> m = n \<and> n < 2 \<and> c_state c' = QUIESCING \<and>
         (c_state c = ACTIVE \<or> c_state c = QUIESCING)
     | SLoop _ \<Rightarrow> False)"
proof (cases "n < 2")
  case False
  with assms show ?thesis
    by (auto simp: shutdown_iter_def ctl_inv_def quiescing_def)
next
  case n: True
  have begins: "ctl_inv c1 [GQuiesce i] \<and> c_state c1 = QUIESCING \<and> c_opts c1 = c_opts c \<and> c_held c1"
    if "beginLocked Quiesce ''signal'' [] rid now c = (i, c1)" "c_state c = ACTIVE \<or> c_state c = QUIESCING"
      "gs = []" for i c1
    using beginLocked_quiesce [OF _ that(2,1)] assms(1) that(3) by blast
  show ?thesis
  proof (cases "c_state c")
    case STANDBY
    moreover from this have "gs = []" using assms(1) by (simp add: ctl_inv_def)
    ultimately show ?thesis
      using assms n fenceLocked_inv by (auto simp: shutdown_iter_def)
  next
    case ACTIVATING
    then show ?thesis using assms n by (auto simp: shutdown_iter_def Let_def)
  next
    case ACTIVE
    moreover from this have "gs = []" using assms(1) by (simp add: ctl_inv_def)
    ultimately show ?thesis
      using assms begins n by (auto simp: shutdown_iter_def split: prod.splits)
  next
    case QUIESCED
    then show ?thesis using assms n by (auto simp: shutdown_iter_def)
  next
    case QUIESCING
    then obtain q where q: "cur_op c = Some q"
      using assms(1) by (auto simp: ctl_inv_def dest!: cur_op_open cur_op_closed)
    show ?thesis
    proof (cases "o_status q = Running")
      case True
      then show ?thesis using assms n QUIESCING q by (auto simp: shutdown_iter_def)
    next
      case False
      then have "gs = []" using ctl_inv_idle [OF assms(1) q] QUIESCING by simp
      then show ?thesis
        using assms begins n False QUIESCING q by (auto simp: shutdown_iter_def split: prod.splits)
    qed
  qed
qed

section \<open>The service contract\<close>

text \<open>
  \<open>Service\<close>: an activation that fails without \<open>ErrStillHeld\<close> has released everything it
  opened, and a quiescence that returns nil has released the database. \<open>holds\<close> says whether
  the database is open in the process. The controller's part of the bargain is that it activates
  only a service that holds nothing.
\<close>

locale db_service =
  fixes act :: "'e \<Rightarrow> 's \<Rightarrow> svc_result \<times> 's"
    and qui :: "'e \<Rightarrow> 's \<Rightarrow> svc_result \<times> 's"
    and holds :: "'s \<Rightarrow> bool"
    and inv :: "'s \<Rightarrow> bool"
  assumes act_inv: "inv v \<Longrightarrow> \<not> holds v \<Longrightarrow> act e v = (r, v') \<Longrightarrow> inv v'"
    and qui_inv: "inv v \<Longrightarrow> qui e v = (r, v') \<Longrightarrow> inv v'"
    and act_failed: "inv v \<Longrightarrow> \<not> holds v \<Longrightarrow> act e v = (SvcErr m False, v') \<Longrightarrow> \<not> holds v'"
    and qui_ok: "inv v \<Longrightarrow> qui e v = (SvcOk, v') \<Longrightarrow> \<not> holds v'"
begin

definition safe_state :: "controller \<Rightarrow> 's \<Rightarrow> bool" where
  "safe_state c v \<longleftrightarrow> inv v \<and> (c_state c = STANDBY \<or> c_state c = ACTIVATING \<or> c_state c = QUIESCED \<longrightarrow> \<not> holds v)"

definition pc_inv :: "controller \<Rightarrow> main_pc \<Rightarrow> bool" where
  "pc_inv c p \<longleftrightarrow>
     (case p of
        MShut f (SLoop n) \<Rightarrow> 0 < n \<longrightarrow> quiescing c
      | MShut f (SWait n d) \<Rightarrow> 0 < n \<longrightarrow> quiescing c
      | MShut f (SQuiesce n i) \<Rightarrow> n < 2 \<and> c_state c = QUIESCING
      | MShut f (SRet code) \<Rightarrow> code \<le> 1 \<and> (code = 0 \<longrightarrow> c_state c = QUIESCED)
      | MExit code \<Rightarrow> code \<le> 1 \<and> (code = 0 \<longrightarrow> c_state c = QUIESCED)
      | _ \<Rightarrow> True)"

definition good :: "'s sys \<Rightarrow> bool" where
  "good s \<longleftrightarrow> safe_state (ctl s) (svc s) \<and> pc_inv (ctl s) (pc s) \<and>
     (if pc s = MStart \<and> \<not> opt_standby (c_opts (ctl s)) then pre_boot s
      else ctl_inv (ctl s) (in_flight s))"

lemma start_good:
  assumes "start rid now opts v = Inr s" and "inv v" and "\<not> holds v"
  shows "good s"
  using assms
  by (auto simp: start_def newController_def good_def safe_state_def pc_inv_def pre_boot_def
      ctl_inv_def in_flight_def rbind_eq_Inr Let_def split: if_splits option.splits)

text \<open>
  The states only move forward: what a step may do to the state while shutdown depends on it.
\<close>

definition moves :: "controller \<Rightarrow> controller \<Rightarrow> bool" where
  "moves c c' \<longleftrightarrow> (quiescing c \<longrightarrow> quiescing c') \<and> (c_state c = QUIESCED \<longrightarrow> c_state c' = QUIESCED)"

lemma pc_inv_moves:
  assumes "pc_inv c p" and "moves c c'" and "\<And>f n i. p = MShut f (SQuiesce n i) \<Longrightarrow> c_state c' = QUIESCING"
  shows "pc_inv c' p"
  using assms by (auto simp: pc_inv_def moves_def split: main_pc.splits shut_pc.splits)

text \<open>
  A step of a handler, a goroutine or the shutdown: what it shows about the controller before
  and after is enough to keep \<open>good\<close>.
\<close>

lemma good_booted:
  "good s \<Longrightarrow> \<not> pre_boot s \<Longrightarrow> ctl_inv (ctl s) (in_flight s)"
  by (auto simp: good_def split: if_splits)

lemma in_flight_gos:
  "in_flight (s\<lparr>ctl := c, gos := gs @ gos s\<rparr>) = gs @ in_flight s"
  by (simp add: in_flight_def)

lemma pre_boot_api:
  assumes "pre_boot s"
  shows "handleActivate oid rid now (ctl s) = Some (r, c, gs) \<Longrightarrow> c = ctl s \<and> gs = []"
    and "handleQuiesce oid rid now (ctl s) = Some (r, c, gs) \<Longrightarrow> c = ctl s \<and> gs = []"
  using assms
  by (auto simp: pre_boot_def handleActivate_def handleQuiesce_def cur_op_def split: if_splits)

lemma good_api:
  assumes "good s" and "\<not> pre_boot s" and "ctl_inv c (gs @ in_flight s)" and "c_opts c = c_opts (ctl s)"
    and "c = ctl s \<and> gs = [] \<or> c_state (ctl s) = STANDBY \<and> c_state c = ACTIVATING
      \<or> c_state (ctl s) = STANDBY \<and> c_state c = QUIESCED
      \<or> (c_state (ctl s) = ACTIVE \<or> c_state (ctl s) = QUIESCING) \<and> c_state c = QUIESCING"
  shows "good (s\<lparr>ctl := c, gos := gs @ gos s\<rparr>)"
proof (cases "c = ctl s \<and> gs = []")
  case True
  then show ?thesis using assms(1) by simp
next
  case False
  have "pc_inv (ctl s) (pc s)" using assms(1) by (simp add: good_def)
  moreover have "moves (ctl s) c"
    using False assms(5) by (auto simp: moves_def quiescing_def)
  moreover have "c_state c = QUIESCING" if "pc s = MShut f (SQuiesce n i)" for f n i
    using that False assms(1,5) by (auto simp: good_def pc_inv_def)
  ultimately have "pc_inv c (pc s)" by (rule pc_inv_moves)
  moreover have "safe_state c (svc s)"
    using assms(1,5) False by (auto simp: good_def safe_state_def)
  moreover have "\<not> (pc s = MStart \<and> \<not> opt_standby (c_opts c))"
    using assms(1,2,4) by (auto simp: good_def split: if_splits)
  ultimately show ?thesis
    using assms(3) by (auto simp: good_def in_flight_gos)
qed

lemma in_flight_done:
  assumes "ctl_inv c (in_flight s)" and "g \<in> set (gos s)"
  shows "in_flight s = [g] \<and> remove1 g (gos s) = [] \<and> (\<forall>f n i. pc s \<noteq> MShut f (SQuiesce n i))"
proof -
  have "length (in_flight s) \<le> 1"
    using assms(1) by (auto simp: ctl_inv_def split: lstate.splits)
  then show ?thesis
    using assms(2)
    by (auto simp: in_flight_def split: main_pc.splits shut_pc.splits)
      (auto simp: length_Suc_conv le_Suc_eq)
qed

lemma good_activate_done:
  assumes "good s" and "GActivate i \<in> set (gos s)" and "act e (svc s) = (r, v)"
    and "runActivate i r now (ctl s) = Some c"
  shows "good (s\<lparr>ctl := c, gos := remove1 (GActivate i) (gos s), svc := v\<rparr>)"
proof -
  have nb: "\<not> pre_boot s" using assms(2) by (auto simp: pre_boot_def)
  then have ci: "ctl_inv (ctl s) (in_flight s)" using assms(1) by (rule good_booted [rotated])
  note fl = in_flight_done [OF ci assms(2)]
  then have ci1: "ctl_inv (ctl s) [GActivate i]" using ci by simp
  then have st: "c_state (ctl s) = ACTIVATING" by (auto simp: ctl_inv_def split: lstate.splits)
  have sv: "inv (svc s)" "\<not> holds (svc s)"
    using assms(1) st by (auto simp: good_def safe_state_def)
  have c: "ctl_inv c []" "c_opts c = c_opts (ctl s)"
    and cs: "case callService ''activation'' r of None \<Rightarrow> c_state c = ACTIVE
      | Some (_, True) \<Rightarrow> c_state c = QUIESCING | Some (_, False) \<Rightarrow> c_state c = STANDBY"
    using runActivate_inv [OF ci1, of r now] assms(4) by auto
  have iv: "inv v" using act_inv [OF sv assms(3)] .
  have "safe_state c v"
  proof (cases r)
    case (SvcErr m b)
    then have "b \<or> \<not> holds v" using act_failed [OF sv, of e m v] assms(3) by (cases b) auto
    with SvcErr cs iv show ?thesis by (cases b) (auto simp: safe_state_def)
  qed (use cs iv in \<open>auto simp: safe_state_def\<close>)
  moreover have "pc_inv c (pc s)"
    using assms(1) st fl
    by - (rule pc_inv_moves [of "ctl s" "pc s" c], auto simp: good_def moves_def quiescing_def)
  moreover have "in_flight (s\<lparr>ctl := c, gos := remove1 (GActivate i) (gos s), svc := v\<rparr>) = []"
    using fl by (auto simp: in_flight_def split: main_pc.splits shut_pc.splits)
  moreover have "\<not> (pc s = MStart \<and> \<not> opt_standby (c_opts c))"
    using assms(1) nb c by (auto simp: good_def split: if_splits)
  ultimately show ?thesis using c by (auto simp: good_def)
qed

lemma good_quiesce_done:
  assumes "good s" and "GQuiesce i \<in> set (gos s)" and "qui e (svc s) = (r, v)"
    and "runQuiesce i r now (ctl s) = Some c"
  shows "good (s\<lparr>ctl := c, gos := remove1 (GQuiesce i) (gos s), svc := v\<rparr>)"
proof -
  have nb: "\<not> pre_boot s" using assms(2) by (auto simp: pre_boot_def)
  then have ci: "ctl_inv (ctl s) (in_flight s)" using assms(1) by (rule good_booted [rotated])
  note fl = in_flight_done [OF ci assms(2)]
  then have ci1: "ctl_inv (ctl s) [GQuiesce i]" using ci by simp
  then have st: "c_state (ctl s) = QUIESCING" by (auto simp: ctl_inv_def split: lstate.splits)
  have sv: "inv (svc s)" using assms(1) by (auto simp: good_def safe_state_def)
  have c: "ctl_inv c []" "c_opts c = c_opts (ctl s)"
    and cs: "c_state c = (if r = SvcOk then QUIESCED else QUIESCING)"
    using runQuiesce_inv [OF ci1, of r now] assms(4) by auto
  have "inv v" and "r = SvcOk \<Longrightarrow> \<not> holds v"
    using qui_inv [OF sv assms(3)] qui_ok [OF sv, of e v] assms(3) by auto
  with cs have "safe_state c v" by (auto simp: safe_state_def split: if_splits)
  moreover have "pc_inv c (pc s)"
    using assms(1) st fl cs
    by - (rule pc_inv_moves [of "ctl s" "pc s" c], auto simp: good_def moves_def quiescing_def)
  moreover have "in_flight (s\<lparr>ctl := c, gos := remove1 (GQuiesce i) (gos s), svc := v\<rparr>) = []"
    using fl by (auto simp: in_flight_def split: main_pc.splits shut_pc.splits)
  moreover have "\<not> (pc s = MStart \<and> \<not> opt_standby (c_opts c))"
    using assms(1) nb c by (auto simp: good_def split: if_splits)
  ultimately show ?thesis using c by (auto simp: good_def)
qed

lemma good_boot:
  assumes "good s" and "pc s = MStart" and "boot rid now (ctl s) = (c, gs, p)"
  shows "good (s\<lparr>ctl := c, gos := gs @ gos s, pc := p\<rparr>)"
proof (cases "opt_standby (c_opts (ctl s))")
  case True
  then show ?thesis
    using assms by (auto simp: boot_def good_def pc_inv_def in_flight_def)
next
  case False
  let ?c0 = "(ctl s)\<lparr>c_state := STANDBY\<rparr>"
  from False assms(1,2) have pb: "pre_boot s" by (simp add: good_def)
  obtain i where beg: "beginLocked Activate ''boot'' ''boot'' rid now ?c0 = (i, c)"
    and gp: "gs = [GActivate i]" "p = MWait (c_opDone c)"
    using assms(3) False by (auto simp: boot_def split: prod.splits)
  have "ctl_inv c [GActivate i] \<and> c_state c = ACTIVATING \<and> c_opts c = c_opts ?c0 \<and> c_held c"
    using pb by (intro beginLocked_activate [OF _ _ beg]) (auto simp: ctl_inv_def pre_boot_def)
  then show ?thesis
    using assms(1) pb gp by (auto simp: good_def safe_state_def pc_inv_def in_flight_def pre_boot_def)
qed

lemma good_shut_loop:
  assumes "good s" and "pc s = MShut f (SLoop n)" and "shutdown_iter rid now n (ctl s) = (c, p)"
  shows "good (s\<lparr>ctl := c, pc := MShut f p\<rparr>)"
proof -
  have ci: "ctl_inv (ctl s) (gos s)"
    using assms(1,2) good_booted [of s] by (auto simp: in_flight_def pre_boot_def)
  have n: "0 < n \<longrightarrow> quiescing (ctl s)"
    using assms(1,2) by (simp add: good_def pc_inv_def)
  note it = shutdown_iter_inv [OF ci assms(3) n]
  have sv: "safe_state (ctl s) (svc s)" using assms(1) by (simp add: good_def)
  show ?thesis
    using it sv n
    by (cases p) (auto simp: good_def safe_state_def pc_inv_def in_flight_def quiescing_def)
qed

lemma good_shut_quiesce:
  assumes "good s" and "pc s = MShut f (SQuiesce n i)" and "qui e (svc s) = (r, v)"
    and "runQuiesce i r now (ctl s) = Some c"
  shows "good (s\<lparr>ctl := c, svc := v, pc := MShut f (SLoop (Suc n))\<rparr>)"
proof -
  have ci: "ctl_inv (ctl s) (gos s @ [GQuiesce i])"
    using assms(1,2) good_booted [of s] by (auto simp: in_flight_def pre_boot_def)
  then have g: "gos s = []"
    by (auto simp: ctl_inv_def append_eq_Cons_conv split: lstate.splits)
  then have ci1: "ctl_inv (ctl s) [GQuiesce i]" using ci by simp
  have c: "ctl_inv c []" and cs: "c_state c = (if r = SvcOk then QUIESCED else QUIESCING)"
    using runQuiesce_inv [OF ci1, of r now] assms(4) by auto
  have sv: "inv (svc s)" using assms(1) by (auto simp: good_def safe_state_def)
  have "inv v" and "r = SvcOk \<Longrightarrow> \<not> holds v"
    using qui_inv [OF sv assms(3)] qui_ok [OF sv, of e v] assms(3) by auto
  with cs have "safe_state c v" by (auto simp: safe_state_def split: if_splits)
  then show ?thesis
    using c cs g by (auto simp: good_def pc_inv_def quiescing_def in_flight_def)
qed

lemma good_step: "sys_step act qui s t \<Longrightarrow> good s \<Longrightarrow> good t"
proof (induction rule: sys_step.induct)
  case (api_activate s oid rid now r c gs)
  show ?case
  proof (cases "pre_boot s")
    case True
    then show ?thesis using pre_boot_api(1) api_activate by fastforce
  next
    case False
    note h = handleActivate_inv [OF good_booted [OF api_activate(3) False] api_activate(2)]
    show ?thesis by (rule good_api [OF api_activate(3) False]) (use h in auto)
  qed
next
  case (api_quiesce s oid rid now r c gs)
  show ?case
  proof (cases "pre_boot s")
    case True
    then show ?thesis using pre_boot_api(2) api_quiesce by fastforce
  next
    case False
    note h = handleQuiesce_inv [OF good_booted [OF api_quiesce(3) False] api_quiesce(2)]
    show ?thesis by (rule good_api [OF api_quiesce(3) False]) (use h in auto)
  qed
next
  case (activate_done s i e r v now c)
  then show ?case by (intro good_activate_done)
next
  case (quiesce_done s i e r v now c)
  then show ?case by (intro good_quiesce_done)
next
  case (boot_begins s rid now c gs p)
  then show ?case by (intro good_boot)
next
  case (boot_done s d)
  then show ?case by (auto simp: good_def pc_inv_def bootDone_def in_flight_def)
next
  case (stop_requested s b fatal)
  then show ?case by (auto simp: good_def pc_inv_def in_flight_def)
next
  case (shut_loop s f n rid now c p)
  then show ?case by (intro good_shut_loop)
next
  case (shut_wait s f n d)
  then show ?case by (auto simp: good_def pc_inv_def in_flight_def)
next
  case (shut_quiesce s f n i e r v now c)
  then show ?case by (intro good_shut_quiesce)
next
  case (shut_return s f code)
  then show ?case by (auto simp: good_def pc_inv_def in_flight_def exitCode_def)
qed

lemma good_reach: "sys_reach act qui v s \<Longrightarrow> inv v \<Longrightarrow> \<not> holds v \<Longrightarrow> good s"
  by (induction rule: sys_reach.induct) (auto intro: start_good good_step)

text \<open>What the invariant gives a coordinator that only sees \<open>/status\<close> and the exit code.\<close>

lemma held_conservative:
  assumes "good s" and "holds (svc s)"
  shows "c_held (ctl s) \<and> c_state (ctl s) \<noteq> STANDBY \<and> c_state (ctl s) \<noteq> QUIESCED"
proof -
  have st: "c_state (ctl s) = ACTIVE \<or> c_state (ctl s) = QUIESCING"
    using assms by (cases "c_state (ctl s)") (auto simp: good_def safe_state_def)
  then have "\<not> pre_boot s" by (auto simp: pre_boot_def)
  with assms(1) st show ?thesis by (auto simp: ctl_inv_def dest!: good_booted)
qed

lemma exit_zero_released:
  "good s \<Longrightarrow> pc s = MExit 0 \<Longrightarrow> \<not> holds (svc s) \<and> c_state (ctl s) = QUIESCED"
  by (auto simp: good_def pc_inv_def safe_state_def)

lemma one_in_flight:
  assumes "good s"
  shows "length (in_flight s) \<le> 1"
proof (cases "pre_boot s")
  case True
  then show ?thesis by (auto simp: pre_boot_def in_flight_def)
next
  case False
  with assms have "ctl_inv (ctl s) (in_flight s)" by (rule good_booted)
  then show ?thesis by (auto simp: ctl_inv_def split: lstate.splits)
qed

lemma no_panic:
  assumes "good s" and "\<not> pre_boot s"
  shows "handleActivate oid rid now (ctl s) \<noteq> None" "handleQuiesce oid rid now (ctl s) \<noteq> None"
    "GActivate i \<in> set (gos s) \<Longrightarrow> runActivate i r now (ctl s) \<noteq> None"
    "GQuiesce i \<in> set (gos s) \<Longrightarrow> runQuiesce i r now (ctl s) \<noteq> None"
proof -
  note ci = good_booted [OF assms]
  show "handleActivate oid rid now (ctl s) \<noteq> None" "handleQuiesce oid rid now (ctl s) \<noteq> None"
    using handlers_no_panic [OF ci] by auto
  show "runActivate i r now (ctl s) \<noteq> None" if "GActivate i \<in> set (gos s)"
    using in_flight_done [OF ci that] ci runActivate_inv [of "ctl s" i r now] by auto
  show "runQuiesce i r now (ctl s) \<noteq> None" if "GQuiesce i \<in> set (gos s)"
    using in_flight_done [OF ci that] ci runQuiesce_inv [of "ctl s" i r now] by auto
qed

end

section \<open>The documented state machine\<close>

text \<open>
  The transitions of the diagram in \<open>doc.go\<close>, and the one it leaves out: an activation that
  fails without releasing the database goes to \<open>QUIESCING\<close>.
\<close>

fun doc_transition :: "lstate \<Rightarrow> lstate \<Rightarrow> bool" where
  "doc_transition STANDBY ACTIVATING = True"
| "doc_transition STANDBY QUIESCED = True"
| "doc_transition ACTIVATING ACTIVE = True"
| "doc_transition ACTIVATING STANDBY = True"
| "doc_transition ACTIVE QUIESCING = True"
| "doc_transition QUIESCING QUIESCED = True"
| "doc_transition _ _ = False"

definition lifecycle :: "lstate \<Rightarrow> lstate \<Rightarrow> bool" where
  "lifecycle a b \<longleftrightarrow> a = b \<or> doc_transition a b \<or> a = ACTIVATING \<and> b = QUIESCING"

context db_service
begin

lemma step_lifecycle:
  "sys_step act qui s t \<Longrightarrow> good s \<Longrightarrow> lifecycle (c_state (ctl s)) (c_state (ctl t))"
proof (induction rule: sys_step.induct)
  case (api_activate s oid rid now r c gs)
  show ?case
  proof (cases "pre_boot s")
    case True
    then show ?thesis using pre_boot_api(1) api_activate by (fastforce simp: lifecycle_def)
  next
    case False
    show ?thesis
      using handleActivate_inv [OF good_booted [OF api_activate(3) False] api_activate(2)]
      by (auto simp: lifecycle_def)
  qed
next
  case (api_quiesce s oid rid now r c gs)
  show ?case
  proof (cases "pre_boot s")
    case True
    then show ?thesis using pre_boot_api(2) api_quiesce by (fastforce simp: lifecycle_def)
  next
    case False
    show ?thesis
      using handleQuiesce_inv [OF good_booted [OF api_quiesce(3) False] api_quiesce(2)]
      by (auto simp: lifecycle_def)
  qed
next
  case (activate_done s i e r v now c)
  have "\<not> pre_boot s" using activate_done(2) by (auto simp: pre_boot_def)
  note ci = good_booted [OF activate_done(5) this]
  from in_flight_done [OF ci activate_done(2)] ci have ci1: "ctl_inv (ctl s) [GActivate i]" by simp
  have "c_state (ctl s) = ACTIVATING" using ci1 by (auto simp: ctl_inv_def split: lstate.splits)
  then show ?case
    using runActivate_inv [OF ci1, of r now] activate_done(4)
    by (auto simp: lifecycle_def split: option.splits bool.splits)
next
  case (quiesce_done s i e r v now c)
  have "\<not> pre_boot s" using quiesce_done(2) by (auto simp: pre_boot_def)
  note ci = good_booted [OF quiesce_done(5) this]
  from in_flight_done [OF ci quiesce_done(2)] ci have ci1: "ctl_inv (ctl s) [GQuiesce i]" by simp
  have "c_state (ctl s) = QUIESCING" using ci1 by (auto simp: ctl_inv_def split: lstate.splits)
  then show ?case
    using runQuiesce_inv [OF ci1, of r now] quiesce_done(4)
    by (auto simp: lifecycle_def split: if_splits)
next
  case (boot_begins s rid now c gs p)
  then show ?case
    by (auto simp: boot_def beginLocked_def lifecycle_def good_def pre_boot_def Let_def split: if_splits)
next
  case (shut_loop s f n rid now c p)
  have ci: "ctl_inv (ctl s) (gos s)"
    using shut_loop(1,3) good_booted [of s] by (auto simp: in_flight_def pre_boot_def)
  have n: "0 < n \<longrightarrow> quiescing (ctl s)"
    using shut_loop(1,3) by (simp add: good_def pc_inv_def)
  show ?case
    using shutdown_iter_inv [OF ci shut_loop(2) n]
    by (cases p) (auto simp: lifecycle_def)
next
  case (shut_quiesce s f n i e r v now c)
  have ci: "ctl_inv (ctl s) (gos s @ [GQuiesce i])"
    using shut_quiesce(1,4) good_booted [of s] by (auto simp: in_flight_def pre_boot_def)
  then have "gos s = []" by (auto simp: ctl_inv_def append_eq_Cons_conv split: lstate.splits)
  with ci have ci1: "ctl_inv (ctl s) [GQuiesce i]" by simp
  have "c_state (ctl s) = QUIESCING" using ci1 by (auto simp: ctl_inv_def split: lstate.splits)
  then show ?case
    using runQuiesce_inv [OF ci1, of r now] shut_quiesce(3)
    by (auto simp: lifecycle_def split: if_splits)
qed (auto simp: lifecycle_def)

end

end
