(* ===== verification/RelayApp.thy ===== *)
theory RelayApp
  imports HandoffSystem
begin

text \<open>
  \<open>relayApp\<close> of \<open>cmd/mesh-relay/main.go\<close>, the mesh relay as the controller drives it, and
  the interpretation of the service contract on it. The relay library
  (\<open>github.com/dpup/sierra-meshrelay\<close>), the listener and the clock are outside the
  repository: what their calls return is an environment the operations take.
\<close>

section \<open>State\<close>

text \<open>
  The fields say what the struct's pointers hold and which quiesce steps are done;
  \<open>ra_open\<close>, \<open>ra_polling\<close> and \<open>ra_sessions\<close> are what is really running in the process:
  open handles of \<open>relay.db\<close>, the telemetry poller, and the relay's sessions.
\<close>

record relay_app =
  ra_store :: bool
  ra_relay :: bool
  ra_gateClosed :: bool
  ra_pollStop :: bool
  ra_qPoller :: bool
  ra_qGate :: bool
  ra_qSessions :: bool
  ra_qDrained :: bool
  ra_qStore :: bool
  ra_open :: nat
  ra_polling :: bool
  ra_sessions :: bool

record relay_qenv =
  rq_pollerStops :: bool
  rq_stopErr :: "string option"
  rq_closeErr :: "string option"

record relay_env =
  re_openErr :: "string option"
  re_portErr :: "string option"
  re_listenErr :: "string option"
  re_telemetry :: bool
  re_panicAt :: "nat option"     \<comment> \<open>after which step of \<open>Activate\<close> a panic is raised\<close>
  re_quiesce :: relay_qenv

definition relay_new :: relay_app where
  "relay_new = \<lparr>ra_store = False, ra_relay = False, ra_gateClosed = False, ra_pollStop = False,
     ra_qPoller = False, ra_qGate = False, ra_qSessions = False, ra_qDrained = False,
     ra_qStore = False, ra_open = 0, ra_polling = False, ra_sessions = False\<rparr>"

section \<open>Quiesce\<close>

text \<open>One definition per step of \<open>Quiesce\<close>; each is skipped once it has been done.\<close>

definition q_poller :: "relay_qenv \<Rightarrow> relay_app \<Rightarrow> relay_app result" where
  "q_poller q a =
     (if ra_pollStop a \<and> \<not> ra_qPoller a then
        if rq_pollerStops q then Inr (a\<lparr>ra_polling := False, ra_qPoller := True\<rparr>)
        else Inl ''telemetry poller did not stop''
      else Inr (a\<lparr>ra_qPoller := True\<rparr>))"

definition q_gate :: "relay_app \<Rightarrow> relay_app" where
  "q_gate a =
     (if ra_relay a \<and> \<not> ra_qGate a then a\<lparr>ra_gateClosed := True, ra_qGate := True\<rparr>
      else a\<lparr>ra_qGate := True\<rparr>)"

definition q_sessions :: "relay_qenv \<Rightarrow> relay_app \<Rightarrow> relay_app result" where
  "q_sessions q a =
     (if ra_relay a \<and> \<not> ra_qSessions a then
        case rq_stopErr q of
          Some e \<Rightarrow> Inl e
        | None \<Rightarrow> Inr (a\<lparr>ra_sessions := False, ra_qSessions := True\<rparr>)
      else Inr (a\<lparr>ra_qSessions := True\<rparr>))"

text \<open>The drain closes the gate again and waits; whatever it reports, the step is done.\<close>

definition q_drain :: "relay_app \<Rightarrow> relay_app" where
  "q_drain a =
     (if ra_relay a \<and> \<not> ra_qDrained a then a\<lparr>ra_gateClosed := True, ra_qDrained := True\<rparr>
      else a\<lparr>ra_qDrained := True\<rparr>)"

definition q_store :: "relay_qenv \<Rightarrow> relay_app \<Rightarrow> relay_app result" where
  "q_store q a =
     (if ra_store a \<and> \<not> ra_qStore a then
        case rq_closeErr q of
          Some e \<Rightarrow> Inl (''close relay store: '' @ e)
        | None \<Rightarrow> Inr (a\<lparr>ra_open := ra_open a - 1, ra_qStore := True\<rparr>)
      else Inr (a\<lparr>ra_qStore := True\<rparr>))"

text \<open>
  A step that fails returns at once with the flags of the steps before it already set, so the
  state after an error is kept.
\<close>

definition relay_quiesce :: "relay_qenv \<Rightarrow> relay_app \<Rightarrow> svc_result \<times> relay_app" where
  "relay_quiesce q a =
     (case q_poller q a of
        Inl e \<Rightarrow> (SvcErr e False, a)
      | Inr a1 \<Rightarrow>
          (let a2 = q_gate a1 in
           case q_sessions q a2 of
             Inl e \<Rightarrow> (SvcErr e False, a2)
           | Inr a3 \<Rightarrow>
               (let a4 = q_drain a3 in
                case q_store q a4 of
                  Inl e \<Rightarrow> (SvcErr e False, a4)
                | Inr a5 \<Rightarrow> (SvcOk, a5))))"

section \<open>Activate\<close>

text \<open>The deferred cleanup: an activation that fails quiesces, and says so if that fails.\<close>

definition relay_cleanup :: "relay_qenv \<Rightarrow> string \<Rightarrow> relay_app \<Rightarrow> svc_result \<times> relay_app" where
  "relay_cleanup q e a =
     (case relay_quiesce q a of
        (SvcErr qe _, a') \<Rightarrow>
          (SvcErr (e @ '' (and releasing it failed: '' @ errStillHeld @ '': '' @ qe @ '')'') True, a')
      | (_, a') \<Rightarrow> (SvcErr e False, a'))"

definition panics :: "relay_env \<Rightarrow> nat \<Rightarrow> bool" where
  "panics e n \<longleftrightarrow> re_panicAt e = Some n"

definition relay_activate :: "relay_env \<Rightarrow> relay_app \<Rightarrow> svc_result \<times> relay_app" where
  "relay_activate e a0 =
     (let fail = relay_cleanup (re_quiesce e); panic = ''panic during activation'';
          a = a0\<lparr>ra_store := False, ra_relay := False, ra_gateClosed := False, ra_pollStop := False,
                ra_qPoller := False, ra_qGate := False, ra_qSessions := False,
                ra_qDrained := False, ra_qStore := False\<rparr> in
      if panics e 0 then fail panic a
      else case re_openErr e of
        Some m \<Rightarrow> fail (''open relay store: '' @ m) a
      | None \<Rightarrow>
          (let a = a\<lparr>ra_store := True, ra_open := ra_open a + 1\<rparr> in
           if panics e 1 then fail panic a
           else (let a = a\<lparr>ra_relay := True\<rparr> in
             if panics e 2 then fail panic a
             else case re_portErr e of
               Some m \<Rightarrow> fail m a
             | None \<Rightarrow>
                 (let a = a\<lparr>ra_sessions := True\<rparr> in
                  case re_listenErr e of
                    Some m \<Rightarrow> fail (''relay listener: '' @ m) a
                  | None \<Rightarrow>
                      (let a = (if re_telemetry e then a\<lparr>ra_pollStop := True, ra_polling := True\<rparr> else a) in
                       if panics e 3 then fail panic a else (SvcOk, a))))))"

section \<open>The contract\<close>

definition relay_holds :: "relay_app \<Rightarrow> bool" where
  "relay_holds a \<longleftrightarrow> 0 < ra_open a"

text \<open>
  At most one handle is open, the one \<open>a.store\<close> points at and no quiescence has closed yet;
  whatever uses the database is reachable from the fields that stop it, and runs only while the
  database is open.
\<close>

definition relay_inv :: "relay_app \<Rightarrow> bool" where
  "relay_inv a \<longleftrightarrow>
     ra_open a = (if ra_store a \<and> \<not> ra_qStore a then 1 else 0) \<and>
     (ra_polling a \<longrightarrow> ra_pollStop a \<and> \<not> ra_qPoller a \<and> 0 < ra_open a) \<and>
     (ra_sessions a \<longrightarrow> ra_relay a \<and> \<not> ra_qSessions a \<and> 0 < ra_open a)"

lemma q_poller_inv: "q_poller q a = Inr a' \<Longrightarrow> relay_inv a \<Longrightarrow>
    relay_inv a' \<and> \<not> ra_polling a' \<and> ra_qPoller a'"
  by (auto simp: q_poller_def relay_inv_def split: if_splits)

lemma q_gate_inv: "relay_inv (q_gate a) = relay_inv a"
  "ra_polling (q_gate a) = ra_polling a" "ra_qPoller (q_gate a) = ra_qPoller a"
  by (auto simp: q_gate_def relay_inv_def)

lemma q_sessions_inv: "q_sessions q a = Inr a' \<Longrightarrow> relay_inv a \<Longrightarrow>
    relay_inv a' \<and> \<not> ra_sessions a' \<and> ra_qSessions a' \<and> ra_polling a' = ra_polling a"
  by (auto simp: q_sessions_def relay_inv_def split: if_splits option.splits)

lemma q_drain_inv: "relay_inv (q_drain a) = relay_inv a"
  "ra_polling (q_drain a) = ra_polling a" "ra_sessions (q_drain a) = ra_sessions a"
  by (auto simp: q_drain_def relay_inv_def)

text \<open>The last step: closing the store is right only because poller and sessions have stopped.\<close>

lemma q_store_inv: "q_store q a = Inr a' \<Longrightarrow> relay_inv a \<Longrightarrow> \<not> ra_polling a \<Longrightarrow> \<not> ra_sessions a \<Longrightarrow>
    relay_inv a' \<and> ra_open a' = 0 \<and> \<not> ra_polling a' \<and> \<not> ra_sessions a'"
  by (auto simp: q_store_def relay_inv_def split: if_splits option.splits)

lemma relay_quiesce_cases:
  assumes "relay_inv a" and "relay_quiesce q a = (r, a')"
  shows "relay_inv a' \<and> (\<forall>m. r \<noteq> SvcPanic m) \<and>
    (r = SvcOk \<longrightarrow> ra_open a' = 0 \<and> \<not> ra_polling a' \<and> \<not> ra_sessions a')"
proof (cases "q_poller q a")
  case (Inl e)
  with assms show ?thesis by (auto simp: relay_quiesce_def)
next
  case (Inr a1)
  note i1 = q_poller_inv [OF Inr assms(1)]
  show ?thesis
  proof (cases "q_sessions q (q_gate a1)")
    case (Inl e)
    with assms(2) \<open>q_poller q a = Inr a1\<close> i1 show ?thesis
      by (auto simp: relay_quiesce_def q_gate_inv)
  next
    case (Inr a3)
    have i3: "relay_inv a3 \<and> \<not> ra_sessions a3 \<and> ra_qSessions a3 \<and> ra_polling a3 = ra_polling (q_gate a1)"
      by (rule q_sessions_inv [OF Inr]) (use i1 in \<open>simp add: q_gate_inv\<close>)
    show ?thesis
    proof (cases "q_store q (q_drain a3)")
      case (Inl e)
      with assms(2) \<open>q_poller q a = Inr a1\<close> Inr i3 show ?thesis
        by (auto simp: relay_quiesce_def q_drain_inv)
    next
      case (Inr a5)
      have "relay_inv a5 \<and> ra_open a5 = 0 \<and> \<not> ra_polling a5 \<and> \<not> ra_sessions a5"
        by (rule q_store_inv [OF Inr]) (use i1 i3 in \<open>simp_all add: q_drain_inv q_gate_inv\<close>)
      with assms(2) Inr \<open>q_poller q a = Inr a1\<close> \<open>q_sessions q (q_gate a1) = Inr a3\<close> show ?thesis
        by (auto simp: relay_quiesce_def)
    qed
  qed
qed

lemma relay_quiesce_inv: "relay_inv a \<Longrightarrow> relay_quiesce q a = (r, a') \<Longrightarrow> relay_inv a'"
  using relay_quiesce_cases by blast

lemma relay_quiesce_released: "relay_inv a \<Longrightarrow> relay_quiesce q a = (SvcOk, a') \<Longrightarrow>
    ra_open a' = 0 \<and> \<not> ra_polling a' \<and> \<not> ra_sessions a'"
  using relay_quiesce_cases by blast

definition relay_done :: "svc_result \<Rightarrow> relay_app \<Rightarrow> bool" where
  "relay_done r a \<longleftrightarrow> relay_inv a \<and> (\<forall>m. r = SvcErr m False \<longrightarrow> \<not> relay_holds a)"

lemma relay_cleanup_done:
  assumes "relay_inv a" and "relay_cleanup q e a = (r, a')"
  shows "relay_done r a'"
proof (cases "relay_quiesce q a")
  case (Pair qr a1)
  note c = relay_quiesce_cases [OF assms(1) Pair]
  show ?thesis
    using assms(2) Pair c
    by (cases qr) (auto simp: relay_cleanup_def relay_done_def relay_holds_def)
qed

lemma relay_activate_done:
  assumes "relay_inv a" and "\<not> relay_holds a" and "relay_activate e a = (r, a')"
  shows "relay_done r a'"
proof -
  let ?a0 = "a\<lparr>ra_store := False, ra_relay := False, ra_gateClosed := False, ra_pollStop := False,
       ra_qPoller := False, ra_qGate := False, ra_qSessions := False, ra_qDrained := False, ra_qStore := False\<rparr>"
  let ?a1 = "?a0\<lparr>ra_store := True, ra_open := ra_open ?a0 + 1\<rparr>"
  let ?a2 = "?a1\<lparr>ra_relay := True\<rparr>"
  let ?a3 = "?a2\<lparr>ra_sessions := True\<rparr>"
  let ?a4 = "if re_telemetry e then ?a3\<lparr>ra_pollStop := True, ra_polling := True\<rparr> else ?a3"
  have i: "relay_inv ?a0" "relay_inv ?a1" "relay_inv ?a2" "relay_inv ?a3" "relay_inv ?a4"
    using assms(1,2) by (auto simp: relay_inv_def relay_holds_def)
  note fails = i [THEN relay_cleanup_done]
  show ?thesis
  proof (rule ccontr)
    assume n: "\<not> relay_done r a'"
    have f: "relay_cleanup q m ?a0 \<noteq> (r, a')" "relay_cleanup q m ?a1 \<noteq> (r, a')"
      "relay_cleanup q m ?a2 \<noteq> (r, a')" "relay_cleanup q m ?a3 \<noteq> (r, a')"
      "relay_cleanup q m ?a4 \<noteq> (r, a')" for q m
      using n fails by blast+
    have "r = SvcOk \<and> a' = ?a4"
      using assms(3) f unfolding relay_activate_def Let_def
      by (simp only: split: if_splits option.splits) (simp_all add: eq_commute)
    with n i show False by (simp add: relay_done_def)
  qed
qed

definition relay_qui :: "relay_env \<Rightarrow> relay_app \<Rightarrow> svc_result \<times> relay_app" where
  "relay_qui e = relay_quiesce (re_quiesce e)"

interpretation relay: db_service relay_activate relay_qui relay_holds relay_inv
proof unfold_locales
  fix v e r v'
  assume "relay_inv v" "\<not> relay_holds v" "relay_activate e v = (r, v')"
  from relay_activate_done [OF this] show "relay_inv v'" by (simp add: relay_done_def)
next
  fix v e r v'
  assume "relay_inv v" "relay_qui e v = (r, v')"
  then show "relay_inv v'" unfolding relay_qui_def by (rule relay_quiesce_inv)
next
  fix v e m v'
  assume "relay_inv v" "\<not> relay_holds v" "relay_activate e v = (SvcErr m False, v')"
  from relay_activate_done [OF this] show "\<not> relay_holds v'" by (simp add: relay_done_def)
next
  fix v e v'
  assume "relay_inv v" "relay_qui e v = (SvcOk, v')"
  then show "\<not> relay_holds v'"
    unfolding relay_qui_def by (auto simp: relay_holds_def dest!: relay_quiesce_released)
qed

section \<open>The relay process\<close>

text \<open>The reachable states of the relay process: controller, goroutines and \<open>relayApp\<close>.\<close>

definition relay_reach :: "relay_app sys \<Rightarrow> bool" where
  "relay_reach s \<longleftrightarrow> sys_reach relay_activate relay_qui relay_new s"

abbreviation relay_step :: "relay_app sys \<Rightarrow> relay_app sys \<Rightarrow> bool" where
  "relay_step \<equiv> sys_step relay_activate relay_qui"

lemma relay_new_idle: "relay_inv relay_new" "\<not> relay_holds relay_new"
  by (simp_all add: relay_inv_def relay_holds_def relay_new_def)

lemma relay_good: "relay_reach s \<Longrightarrow> relay.good s"
  using relay.good_reach relay_new_idle by (auto simp: relay_reach_def)

lemma relay_reach_step: "relay_reach s \<Longrightarrow> relay_step s t \<Longrightarrow> relay_reach t"
  unfolding relay_reach_def by (rule sys_reach.further)

text \<open>Concrete runs for the examples below.\<close>

definition relay_opts :: "bool \<Rightarrow> options" where
  "relay_opts standby = \<lparr>opt_service = ''relay'', opt_addr = ''x'',
     opt_tokenSha256 = concat (replicate 32 ''ab''), opt_standby = standby\<rparr>"

definition relay_calm :: relay_env where
  "relay_calm = \<lparr>re_openErr = None, re_portErr = None, re_listenErr = None, re_telemetry = True,
     re_panicAt = None, re_quiesce = \<lparr>rq_pollerStops = True, rq_stopErr = None, rq_closeErr = None\<rparr>\<rparr>"

definition relay_run :: "bool \<Rightarrow> relay_env event list \<Rightarrow> relay_app sys option" where
  "relay_run standby es = exec_from relay_activate relay_qui es ''r'' 0 (relay_opts standby) relay_new"

lemma relay_run_reach: "relay_run standby es = Some s \<Longrightarrow> relay_reach s"
  unfolding relay_run_def relay_reach_def by (rule exec_from_reach)

definition run_active :: "relay_env event list" where
  "run_active = [EBoot ''b'' 0, EActivateDone 0 relay_calm 5, EBootDone]"

definition run_exit :: "relay_env event list" where
  "run_exit = run_active @ [EStop False, EShut ''q'' relay_calm 6, EShut ''q'' relay_calm 7,
     EShut ''q'' relay_calm 8, EShut ''q'' relay_calm 9]"


lemma run_active_open: "case relay_run False run_active of None \<Rightarrow> False
    | Some s \<Rightarrow> 0 < ra_open (svc s) \<and> c_state (ctl s) = ACTIVE \<and> pc s = MWait None"
  by code_simp


text \<open>
  C15: a relay process that exits with code 0 has released its database, stopped its telemetry
  poller and ended its sessions, and its last state is \<open>QUIESCED\<close>.
\<close>

theorem exit_zero_means_released:
  assumes "relay_reach s" and "pc s = MExit 0"
  shows "ra_open (svc s) = 0 \<and> \<not> ra_polling (svc s) \<and> \<not> ra_sessions (svc s) \<and>
    c_state (ctl s) = QUIESCED"
  using relay.exit_zero_released [OF relay_good [OF assms(1)] assms(2)]
    relay_good [OF assms(1)]
  by (auto simp: relay_holds_def relay.good_def relay.safe_state_def relay_inv_def)

lemma run_exit_exits: "case relay_run False run_exit of None \<Rightarrow> False | Some s \<Rightarrow> pc s = MExit 0"
  by code_simp

theorem exit_zero_means_released_witness:
  "\<exists>s. relay_run False run_exit = Some s \<and> ra_open (svc s) = 0 \<and> c_state (ctl s) = QUIESCED"
proof -
  obtain s where s: "relay_run False run_exit = Some s" "pc s = MExit 0"
    using run_exit_exits by (auto split: option.splits)
  from exit_zero_means_released [OF relay_run_reach [OF s(1)] s(2)] s(1) show ?thesis by blast
qed

text \<open>
  C35: every step of the relay process (handlers, goroutines, boot, shutdown) moves the lifecycle
  state along an edge of the diagram in \<open>doc.go\<close>, stays where it is, or goes from
  \<open>ACTIVATING\<close> to \<open>QUIESCING\<close> (an activation that could not release what it opened).
\<close>

theorem steps_follow_lifecycle:
  assumes "relay_reach s" and "relay_step s t"
  shows "c_state (ctl t) = c_state (ctl s) \<or> doc_transition (c_state (ctl s)) (c_state (ctl t)) \<or>
    c_state (ctl s) = ACTIVATING \<and> c_state (ctl t) = QUIESCING"
  using relay.step_lifecycle [OF assms(2) relay_good [OF assms(1)]] by (auto simp: lifecycle_def)

definition run_then :: "bool \<Rightarrow> relay_env event list \<Rightarrow> relay_env event \<Rightarrow> (relay_app sys \<times> relay_app sys) option" where
  "run_then standby es e =
     (case relay_run standby es of None \<Rightarrow> None
      | Some s \<Rightarrow> map_option (Pair s) (exec relay_activate relay_qui e s))"

lemma run_then_step:
  assumes "run_then standby es e = Some (s, t)"
  shows "relay_run standby es = Some s \<and> relay_reach s \<and> relay_step s t"
  using assms by (auto simp: run_then_def split: option.splits intro: relay_run_reach exec_sound)

lemma run_fence:
  "case run_then True [] (EApiQuiesce [] ''q'' 3) of None \<Rightarrow> False
   | Some (s, t) \<Rightarrow> c_state (ctl s) = STANDBY \<and> c_state (ctl t) = QUIESCED"
  by code_simp

theorem steps_follow_lifecycle_witness:
  "\<exists>s t. relay_reach s \<and> relay_step s t \<and> c_state (ctl s) = STANDBY \<and> doc_transition STANDBY (c_state (ctl t))"
proof -
  obtain s t where s: "run_then True [] (EApiQuiesce [] ''q'' 3) = Some (s, t)"
    and st: "c_state (ctl s) = STANDBY" "c_state (ctl t) = QUIESCED"
    using run_fence by (auto split: option.splits prod.splits)
  from run_then_step [OF s] have r: "relay_reach s" "relay_step s t" by auto
  from steps_follow_lifecycle [OF r] st have "doc_transition STANDBY (c_state (ctl t))" by simp
  with r st(1) show ?thesis by blast
qed

lemma quiesced_stays:
  "relay_step\<^sup>*\<^sup>* s t \<Longrightarrow> relay_reach s \<Longrightarrow> c_state (ctl s) = QUIESCED \<Longrightarrow>
     relay_reach t \<and> c_state (ctl t) = QUIESCED"
proof (induction rule: rtranclp_induct)
  case base
  then show ?case by simp
next
  case (step t u)
  then have t: "relay_reach t" "c_state (ctl t) = QUIESCED" by auto
  show ?case
    using relay.step_lifecycle [OF step(2) relay_good [OF t(1)]] t relay_reach_step [OF t(1) step(2)]
    by (cases "c_state (ctl u)") (auto simp: lifecycle_def)
qed

text \<open>
  Once \<open>QUIESCED\<close>, always \<open>QUIESCED\<close>: whatever is called afterwards and however the
  process goes on, it never opens the database again.
\<close>

theorem quiesced_is_terminal:
  assumes "relay_reach s" and "c_state (ctl s) = QUIESCED" and "relay_step\<^sup>*\<^sup>* s t"
  shows "c_state (ctl t) = QUIESCED \<and> ra_open (svc t) = 0 \<and> \<not> c_held (ctl t)"
proof -
  have t: "relay_reach t" "c_state (ctl t) = QUIESCED"
    using quiesced_stays [OF assms(3,1,2)] by auto
  have "\<not> pre_boot t" using t(2) by (simp add: pre_boot_def)
  from relay.good_booted [OF relay_good [OF t(1)] this] relay_good [OF t(1)] t(2) show ?thesis
    by (auto simp: ctl_inv_def relay.good_def relay.safe_state_def relay_holds_def)
qed

lemma run_fenced_activate:
  "case run_then True [EApiQuiesce [] ''q'' 3] (EApiActivate ''x'' ''y'' 4) of None \<Rightarrow> False
   | Some (s, t) \<Rightarrow> c_state (ctl s) = QUIESCED"
  by code_simp

theorem quiesced_is_terminal_witness:
  "\<exists>s t. relay_run True [EApiQuiesce [] ''q'' 3] = Some s \<and> relay_step s t \<and> ra_open (svc t) = 0"
proof -
  obtain s t where s: "run_then True [EApiQuiesce [] ''q'' 3] (EApiActivate ''x'' ''y'' 4) = Some (s, t)"
    and q: "c_state (ctl s) = QUIESCED"
    using run_fenced_activate by (auto split: option.splits prod.splits)
  from run_then_step [OF s] have r: "relay_reach s" "relay_step s t"
    "relay_run True [EApiQuiesce [] ''q'' 3] = Some s" by auto
  from quiesced_is_terminal [OF r(1) q r_into_rtranclp [of relay_step, OF r(2)]] r show ?thesis by blast
qed

text \<open>
  At most one activation or quiescence is in flight, counting the one the shutdown runs on
  the main goroutine; and once the boot has begun, no handler and no goroutine dereferences nil
  or closes a channel twice.
\<close>

theorem no_panic_after_boot:
  assumes "relay_reach s" and "pc s \<noteq> MStart"
  shows "length (in_flight s) \<le> 1 \<and> handleActivate oid rid now (ctl s) \<noteq> None \<and>
    handleQuiesce oid rid now (ctl s) \<noteq> None \<and>
    (\<forall>g \<in> set (in_flight s). case g of GActivate i \<Rightarrow> runActivate i r now (ctl s) \<noteq> None
                                    | GQuiesce i \<Rightarrow> runQuiesce i r now (ctl s) \<noteq> None)"
proof -
  note g = relay_good [OF assms(1)]
  have nb: "\<not> pre_boot s" using assms(2) by (simp add: pre_boot_def)
  note ci = relay.good_booted [OF g nb]
  have "case k of GActivate i \<Rightarrow> runActivate i r now (ctl s) \<noteq> None
                | GQuiesce i \<Rightarrow> runQuiesce i r now (ctl s) \<noteq> None" if k: "k \<in> set (in_flight s)" for k
  proof -
    have fl: "in_flight s = [k]"
      using relay.one_in_flight [OF g] k by (cases "in_flight s") auto
    show ?thesis
      using ci fl runActivate_inv [of "ctl s" _ r now] runQuiesce_inv [of "ctl s" _ r now]
      by (cases k) auto
  qed
  then show ?thesis
    using relay.one_in_flight [OF g] relay.no_panic [OF g nb] by auto
qed

theorem no_panic_after_boot_witness:
  "\<exists>s. relay_run False run_active = Some s \<and> handleQuiesce ''op'' ''r'' 9 (ctl s) \<noteq> None"
proof -
  obtain s where s: "relay_run False run_active = Some s" "pc s = MWait None"
    using run_active_open by (auto split: option.splits)
  have "pc s \<noteq> MStart" using s(2) by simp
  from no_panic_after_boot [OF relay_run_reach [OF s(1)] this] s(1) show ?thesis by blast
qed

text \<open>
  A process that boots without \<open>--standby\<close> serves its control listener before the boot
  activation has begun, and in that window the current operation is nil: an authenticated
  \<open>/quiesce\<close>, or an \<open>/activate\<close> that names an operation, dereferences it.
\<close>

theorem boot_window_panics:
  "case relay_run False [] of None \<Rightarrow> False
   | Some s \<Rightarrow> serving s \<and> c_state (ctl s) = ACTIVATING \<and>
     handleQuiesce ''deploy-1'' ''r'' 1 (ctl s) = None \<and>
     handleActivate ''deploy-1'' ''r'' 1 (ctl s) = None"
  by code_simp

text \<open>
  A \<open>/quiesce\<close> that arrives after the boot activation has succeeded and before the main
  goroutine has looked at the state makes \<open>Run\<close> return 1 at once: the process exits with the
  database open and the quiescence still running.
\<close>

theorem boot_quiesce_race:
  "case relay_run False [EBoot ''b'' 0, EActivateDone 0 relay_calm 5,
                         EApiQuiesce ''deploy-1'' ''q'' 6, EBootDone] of None \<Rightarrow> False
   | Some s \<Rightarrow> pc s = MExit 1 \<and> gos s = [GQuiesce 1] \<and> 0 < ra_open (svc s) \<and> c_held (ctl s)"
  by code_simp

text \<open>
  The guards in front of both handlers. A request without a bearer token that hashes to the
  configured one, one whose \<open>expectedInstanceId\<close> names another process, and one whose
  operation id is over 128 bytes change nothing and start nothing, whatever the handler; and a
  request that does reach the handler has passed all three.
\<close>

theorem authed_guards:
  assumes "authed sha parse h auth body c = Some (r, c', gs)"
  shows "c' = c \<and> gs = [] \<and> r_code r \<in> {400, 401, 409} \<or>
    (\<exists>tok oid expected. auth = ''Bearer '' @ tok \<and> sha (trimSpace tok) = c_tok c \<and>
       (parse (take 4096 body) = Some (oid, expected) \<or>
        trimSpace (take 4096 body) = [] \<and> oid = [] \<and> expected = []) \<and>
       length oid \<le> 128 \<and> (expected = [] \<or> expected = c_instanceID c) \<and>
       h oid c = Some (r, c', gs))"
proof (cases "cutPrefix auth ''Bearer ''")
  case (Pair tok ok)
  have tok: "auth = ''Bearer '' @ tok" if ok
    using Pair that by (auto simp: cutPrefix_def hasPrefix_iff split: if_splits)
  let ?body = "take 4096 body"
  show ?thesis
  proof (cases "ok \<and> sha (trimSpace tok) = c_tok c")
    case False
    with assms Pair show ?thesis by (auto simp: authed_def errorResponse_def)
  next
    case True
    show ?thesis
    proof (cases "if trimSpace ?body = [] then Some ([], []) else parse ?body")
      case None
      with assms Pair True show ?thesis by (auto simp: authed_def errorResponse_def Let_def)
    next
      case (Some q)
      obtain oid expected where q: "q = (oid, expected)" by (cases q)
      have b: "parse ?body = Some (oid, expected) \<or> trimSpace ?body = [] \<and> oid = [] \<and> expected = []"
        using Some q by (auto split: if_splits)
      have "authed sha parse h auth body c =
          (if 128 < length oid then
               Some (errorResponse 400 ''bad_request'' ''operationId is too long'' c, c, [])
             else if expected \<noteq> [] \<and> expected \<noteq> c_instanceID c then
               Some (errorResponse 409 ''instance_mismatch''
                       (''expectedInstanceId '' @ expected @ '' is not this process ('' @ c_instanceID c @ '')'') c, c, [])
             else h oid c)"
        using Pair True Some q by (simp add: authed_def Let_def)
      with assms have "c' = c \<and> gs = [] \<and> r_code r \<in> {400, 401, 409} \<or>
          length oid \<le> 128 \<and> (expected = [] \<or> expected = c_instanceID c) \<and> h oid c = Some (r, c', gs)"
        by (auto simp: errorResponse_def split: if_splits)
      with b tok True show ?thesis by blast
    qed
  qed
qed

lemma authed_refused:
  "case relay_run True [] of None \<Rightarrow> False
   | Some s \<Rightarrow> (case authed (\<lambda>_. []) (\<lambda>_. None) (\<lambda>oid. handleQuiesce oid ''r'' 0) ''Bearer x'' [] (ctl s) of
        Some (r, c', gs) \<Rightarrow> c_tok (ctl s) \<noteq> [] | None \<Rightarrow> False)"
  by code_simp

theorem authed_guards_witness:
  "\<exists>s r c' gs. relay_run True [] = Some s \<and>
     authed (\<lambda>_. []) (\<lambda>_. None) (\<lambda>oid. handleQuiesce oid ''r'' 0) ''Bearer x'' [] (ctl s) = Some (r, c', gs) \<and>
     c' = ctl s \<and> gs = [] \<and> r_code r \<in> {400, 401, 409}"
proof -
  obtain s r c' gs where s: "relay_run True [] = Some s" "c_tok (ctl s) \<noteq> []"
    and a: "authed (\<lambda>_. []) (\<lambda>_. None) (\<lambda>oid. handleQuiesce oid ''r'' 0) ''Bearer x'' [] (ctl s) = Some (r, c', gs)"
    using authed_refused by (auto split: option.splits prod.splits)
  from authed_guards [OF a] s(2) have "c' = ctl s \<and> gs = [] \<and> r_code r \<in> {400, 401, 409}" by auto
  with s(1) a show ?thesis by blast
qed

end
