(* ===== verification/Gate.thy ===== *)
theory Gate
  imports Prelude
begin

text \<open>
  The admission gate of \<open>internal/handoff/gate.go\<close>: it counts the requests in flight, stops
  admitting when it is closed, and drains. The \<open>idle\<close> channels made so far are a heap of
  closed flags, because \<open>Drain\<close> waits on the channel it fetched before the wait; closing a
  closed channel is \<open>None\<close>.
\<close>

section \<open>State and operations\<close>

record gate =
  g_closed :: bool
  g_inFlight :: int
  g_idle :: nat
  g_chans :: "bool list"
  g_cancelled :: bool

definition NewGate :: gate where
  "NewGate = \<lparr>g_closed = False, g_inFlight = 0, g_idle = 0, g_chans = [True], g_cancelled = False\<rparr>"

text \<open>\<open>enter\<close>: the admitted request's gate, or nothing when the gate is closed.\<close>

definition enter :: "gate \<Rightarrow> gate option" where
  "enter g =
     (if g_closed g then None
      else (let g = (if g_inFlight g = 0
                     then g\<lparr>g_idle := length (g_chans g), g_chans := g_chans g @ [False]\<rparr> else g)
            in Some (g\<lparr>g_inFlight := g_inFlight g + 1\<rparr>)))"

text \<open>The \<open>done\<close> function an admitted request calls once.\<close>

definition gate_done :: "gate \<Rightarrow> gate option" where
  "gate_done g =
     (let g = g\<lparr>g_inFlight := g_inFlight g - 1\<rparr> in
      if g_inFlight g = 0 then
        if g_chans g ! g_idle g then None else Some (g\<lparr>g_chans := (g_chans g)[g_idle g := True]\<rparr>)
      else Some g)"

definition Close :: "gate \<Rightarrow> gate" where
  "Close g = g\<lparr>g_closed := True\<rparr>"

text \<open>\<open>Handler\<close>: the status of a request: the wrapped handler's, or 503.\<close>

definition Handler :: "(gate \<Rightarrow> nat \<times> gate) \<Rightarrow> gate \<Rightarrow> (nat \<times> gate) option" where
  "Handler h g =
     (case enter g of
        None \<Rightarrow> Some (503, g)
      | Some g1 \<Rightarrow> (let (code, g2) = h g1 in map_option (Pair code) (gate_done g2)))"

text \<open>The requests that finish while \<open>Drain\<close> holds no lock.\<close>

fun finish :: "nat \<Rightarrow> gate \<Rightarrow> gate option" where
  "finish 0 g = Some g"
| "finish (Suc n) g = Option.bind (gate_done g) (finish n)"

record drain_result =
  dr_InFlight :: int
  dr_Cancelled :: int
  dr_Remaining :: int

text \<open>
  What a wait on a channel returns: whether it is closed when the wait ends (a channel that
  closed at the deadline counts, and a wait without budget only looks).
\<close>

definition waitClosed :: "gate \<Rightarrow> nat \<Rightarrow> bool" where
  "waitClosed g ch = g_chans g ! ch"

text \<open>
  \<open>Drain\<close>, with the numbers of requests that finish between its lock sections: before it
  reads the count, before it fetches the channel, during the grace, before it reads the count
  again, and between the cancellation and the end of the second wait. \<open>None\<close> is a panic.
\<close>

definition Drain :: "nat \<Rightarrow> nat \<Rightarrow> nat \<Rightarrow> nat \<Rightarrow> nat \<Rightarrow> gate \<Rightarrow> (drain_result \<times> gate) option" where
  "Drain k1 k2 k3 k4 k5 g =
     Option.bind (finish k1 (Close g)) (\<lambda>g1.
     Option.bind (finish k2 g1) (\<lambda>g2.
     let res = \<lparr>dr_InFlight = g_inFlight g1, dr_Cancelled = 0, dr_Remaining = 0\<rparr>; ch = g_idle g2 in
     Option.bind (finish k3 g2) (\<lambda>g3.
     if waitClosed g3 ch then Some (res, g3)
     else
       Option.bind (finish k4 g3) (\<lambda>g4.
       let res = res\<lparr>dr_Cancelled := g_inFlight g4\<rparr>; g4 = g4\<lparr>g_cancelled := True\<rparr> in
       Option.bind (finish k5 g4) (\<lambda>g5.
       Some (res\<lparr>dr_Remaining := g_inFlight g5\<rparr>, g5))))))"

section \<open>The invariant\<close>

text \<open>The idle channel is closed exactly while no request is in flight.\<close>

definition gate_inv :: "gate \<Rightarrow> bool" where
  "gate_inv g \<longleftrightarrow> 0 \<le> g_inFlight g \<and> g_idle g < length (g_chans g) \<and>
     (g_chans g ! g_idle g \<longleftrightarrow> g_inFlight g = 0)"

lemma NewGate_inv: "gate_inv NewGate"
  by (simp add: gate_inv_def NewGate_def)

lemma enter_inv: "gate_inv g \<Longrightarrow> enter g = Some g' \<Longrightarrow> gate_inv g' \<and> g_inFlight g' = g_inFlight g + 1"
  by (auto simp: gate_inv_def enter_def Let_def nth_append split: if_splits)

lemma gate_done_inv:
  assumes "gate_inv g" and "0 < g_inFlight g"
  shows "\<exists>g'. gate_done g = Some g' \<and> gate_inv g' \<and> g_inFlight g' = g_inFlight g - 1 \<and>
    g_closed g' = g_closed g \<and> g_idle g' = g_idle g"
  using assms by (auto simp: gate_inv_def gate_done_def Let_def)

lemma Close_inv [simp]: "gate_inv (Close g) = gate_inv g"
  by (simp add: gate_inv_def Close_def)

lemma finish_inv:
  assumes "gate_inv g" and "int n \<le> g_inFlight g"
  shows "\<exists>g'. finish n g = Some g' \<and> gate_inv g' \<and> g_inFlight g' = g_inFlight g - int n \<and>
    g_closed g' = g_closed g \<and> g_idle g' = g_idle g"
  using assms
proof (induction n arbitrary: g)
  case 0
  then show ?case by simp
next
  case (Suc n)
  then obtain g1 where g1: "gate_done g = Some g1" "gate_inv g1" "g_inFlight g1 = g_inFlight g - 1"
      "g_closed g1 = g_closed g" "g_idle g1 = g_idle g"
    using gate_done_inv [of g] by auto
  with Suc.IH [of g1] Suc.prems show ?case by auto
qed

text \<open>Reachable gates: requests enter, finish once each, and the gate is closed at any time.\<close>

inductive gate_reach :: "gate \<Rightarrow> bool" where
  "gate_reach NewGate"
| "gate_reach g \<Longrightarrow> enter g = Some g' \<Longrightarrow> gate_reach g'"
| "gate_reach g \<Longrightarrow> 0 < g_inFlight g \<Longrightarrow> gate_done g = Some g' \<Longrightarrow> gate_reach g'"
| "gate_reach g \<Longrightarrow> gate_reach (Close g)"

lemma gate_reach_inv: "gate_reach g \<Longrightarrow> gate_inv g"
proof (induction rule: gate_reach.induct)
  case (3 g g')
  then show ?case using gate_done_inv [of g] by auto
qed (auto simp: NewGate_inv dest: enter_inv)

section \<open>Draining\<close>

text \<open>
  A drain of any reachable gate, however many of its requests finish at whatever point,
  never panics (no channel is closed twice) and leaves the gate closed; \<open>Remaining\<close> is the
  number of requests still running, and a drain that returns without cancelling anything left
  none. Whatever is called afterwards, no request is admitted.
\<close>

theorem drain_accounts:
  assumes "gate_reach g" and "int (k1 + k2 + k3 + k4 + k5) \<le> g_inFlight g"
  shows "\<exists>res g'. Drain k1 k2 k3 k4 k5 g = Some (res, g') \<and> gate_inv g' \<and> enter g' = None \<and>
    dr_Remaining res = g_inFlight g' \<and> dr_InFlight res = g_inFlight g - int k1 \<and>
    dr_Cancelled res \<le> dr_InFlight res \<and> dr_Remaining res \<le> dr_Cancelled res \<and>
    (dr_Cancelled res = 0 \<longrightarrow> g_inFlight g' = 0)"
proof -
  have i0: "gate_inv (Close g)" "g_inFlight (Close g) = g_inFlight g" "g_closed (Close g)"
    using gate_reach_inv [OF assms(1)] by (simp_all add: Close_def gate_inv_def)
  obtain g1 where g1: "finish k1 (Close g) = Some g1" "gate_inv g1"
      "g_inFlight g1 = g_inFlight g - int k1" "g_closed g1"
    using finish_inv [OF i0(1), of k1] assms(2) i0 by auto
  obtain g2 where g2: "finish k2 g1 = Some g2" "gate_inv g2"
      "g_inFlight g2 = g_inFlight g - int k1 - int k2" "g_closed g2"
    using finish_inv [OF g1(2), of k2] assms(2) g1 by auto
  obtain g3 where g3: "finish k3 g2 = Some g3" "gate_inv g3"
      "g_inFlight g3 = g_inFlight g - int k1 - int k2 - int k3" "g_closed g3" "g_idle g3 = g_idle g2"
    using finish_inv [OF g2(2), of k3] assms(2) g2 by auto
  show ?thesis
  proof (cases "waitClosed g3 (g_idle g2)")
    case True
    then have "g_inFlight g3 = 0" using g3 by (simp add: waitClosed_def gate_inv_def)
    with True g1 g2 g3 show ?thesis by (simp add: Drain_def enter_def gate_inv_def)
  next
    case False
    obtain g4 where g4: "finish k4 g3 = Some g4" "gate_inv g4"
        "g_inFlight g4 = g_inFlight g - int k1 - int k2 - int k3 - int k4" "g_closed g4"
      using finish_inv [OF g3(2), of k4] assms(2) g3 by auto
    let ?g4 = "g4\<lparr>g_cancelled := True\<rparr>"
    have i4: "gate_inv ?g4" using g4(2) by (simp add: gate_inv_def)
    obtain g5 where g5: "finish k5 ?g4 = Some g5" "gate_inv g5"
        "g_inFlight g5 = g_inFlight g4 - int k5" "g_closed g5"
      using finish_inv [OF i4, of k5] assms(2) g4 by auto
    have "0 \<le> g_inFlight g5" using g5(2) by (simp add: gate_inv_def)
    with False g1 g2 g3 g4 g5 show ?thesis by (auto simp: Drain_def enter_def Let_def)
  qed
qed

definition gate_two :: gate where
  "gate_two = the (enter (the (enter NewGate)))"

lemma gate_two_reach: "gate_reach gate_two" "g_inFlight gate_two = 2"
proof -
  obtain a where a: "enter NewGate = Some a" "g_inFlight a = 1" "\<not> g_closed a"
    by (simp add: enter_def NewGate_def)
  then obtain b where b: "enter a = Some b" "g_inFlight b = 2"
    by (simp add: enter_def Let_def)
  have "gate_two = b" using a b by (simp add: gate_two_def)
  with b(2) show "gate_reach gate_two" "g_inFlight gate_two = 2"
    using gate_reach.intros(2) [OF gate_reach.intros(2) [OF gate_reach.intros(1) a(1)] b(1)] by simp_all
qed

theorem drain_accounts_witness:
  "\<exists>res g'. Drain 0 0 1 0 0 gate_two = Some (res, g') \<and> dr_Remaining res = g_inFlight g'"
  using drain_accounts [OF gate_two_reach(1), of 0 0 1 0 0] gate_two_reach(2) by auto

text \<open>
  A gated request is answered by its handler, and counted while it runs, exactly when the
  gate is open; otherwise it gets 503 and the handler does not run. Either way the count is
  what it was, for every handler that leaves the count alone.
\<close>

theorem handler_counts:
  assumes "gate_reach g" and "\<And>k. gate_inv (snd (h k)) = gate_inv k \<and> g_inFlight (snd (h k)) = g_inFlight k"
  shows "\<exists>code g'. Handler h g = Some (code, g') \<and> g_inFlight g' = g_inFlight g \<and> gate_inv g' \<and>
    (if g_closed g then code = 503 \<and> g' = g
     else \<exists>k. g_inFlight k = g_inFlight g + 1 \<and> code = fst (h k))"
proof (cases "enter g")
  case None
  then show ?thesis
    using gate_reach_inv [OF assms(1)] by (auto simp: Handler_def enter_def Let_def split: if_splits)
next
  case (Some k)
  note k = enter_inv [OF gate_reach_inv [OF assms(1)] Some]
  have o: "\<not> g_closed g" using Some by (auto simp: enter_def)
  have h: "gate_inv (snd (h k))" "g_inFlight (snd (h k)) = g_inFlight g + 1"
    using assms(2) k by auto
  moreover have "0 \<le> g_inFlight g" using gate_reach_inv [OF assms(1)] by (simp add: gate_inv_def)
  ultimately obtain g' where "gate_done (snd (h k)) = Some g'" "gate_inv g'" "g_inFlight g' = g_inFlight g"
    using gate_done_inv [of "snd (h k)"] by auto
  then have "Handler h g = Some (fst (h k), g')"
    using Some by (simp add: Handler_def case_prod_beta)
  with \<open>gate_inv g'\<close> \<open>g_inFlight g' = g_inFlight g\<close> o k show ?thesis by auto
qed

theorem handler_counts_witness:
  "\<exists>code g'. Handler (\<lambda>k. (200, k)) gate_two = Some (code, g') \<and> g_inFlight g' = 2"
  using handler_counts [OF gate_two_reach(1), of "\<lambda>k. (200, k)"] gate_two_reach(2) by auto

end
