(* ===== verification/Cache.thy ===== *)
theory Cache
  imports Prelude
begin

text \<open>
  The in-memory TTL cache of \<open>internal/cache/cache.go\<close>. \<open>json.Marshal\<close> and
  \<open>json.Unmarshal\<close> are parameters; every operation takes what \<open>time.Now\<close> returns in it.
\<close>

section \<open>State and operations\<close>

record cache_entry =
  ce_Key :: string
  ce_Data :: string
  ce_CreatedAt :: time
  ce_ExpiresAt :: time
  ce_RefreshInterval :: duration
  ce_Source :: string

type_synonym cache = "cache_entry list"

definition NewCache :: cache where "NewCache = []"

definition Set_c :: "('a \<Rightarrow> string result) \<Rightarrow> string \<Rightarrow> 'a \<Rightarrow> duration \<Rightarrow> string \<Rightarrow> time \<Rightarrow> cache \<Rightarrow> string option \<times> cache" where
  "Set_c marshal k d refresh src now c =
     (case marshal d of
        Inl e \<Rightarrow> (Some (''failed to marshal data for cache: '' @ e), c)
      | Inr j \<Rightarrow> (None, tbl_put ce_Key
          \<lparr>ce_Key = k, ce_Data = j, ce_CreatedAt = now, ce_ExpiresAt = now + refresh,
           ce_RefreshInterval = refresh, ce_Source = src\<rparr> c))"

definition IsStale :: "string \<Rightarrow> time \<Rightarrow> cache \<Rightarrow> bool" where
  "IsStale k now c = (case tbl_get ce_Key k c of None \<Rightarrow> True | Some e \<Rightarrow> now > ce_ExpiresAt e)"

definition very_stale :: "time \<Rightarrow> cache_entry \<Rightarrow> bool" where
  "very_stale now e = (now > ce_CreatedAt e + ce_RefreshInterval e * 2)"

definition IsVeryStale :: "string \<Rightarrow> time \<Rightarrow> cache \<Rightarrow> bool" where
  "IsVeryStale k now c = (case tbl_get ce_Key k c of None \<Rightarrow> True | Some e \<Rightarrow> very_stale now e)"

text \<open>
  \<open>Get\<close> reads the cache under two separate locks, once for the entry and once in
  \<open>IsStale\<close>: \<open>c1\<close> and \<open>c2\<close> are the cache at those two moments.
\<close>

definition Get_c :: "(string \<Rightarrow> 'a result) \<Rightarrow> string \<Rightarrow> time \<Rightarrow> cache \<Rightarrow> cache \<Rightarrow> 'a option result" where
  "Get_c unmarshal k now c1 c2 =
     (case tbl_get ce_Key k c1 of
        None \<Rightarrow> Inr None
      | Some e \<Rightarrow>
          if IsStale k now c2 then Inr None
          else (case unmarshal (ce_Data e) of
                  Inl m \<Rightarrow> Inl (''failed to unmarshal cached data: '' @ m)
                | Inr v \<Rightarrow> Inr (Some v)))"

definition GetWithMetadata :: "(string \<Rightarrow> 'a result) \<Rightarrow> string \<Rightarrow> cache \<Rightarrow> (cache_entry \<times> 'a) option result" where
  "GetWithMetadata unmarshal k c =
     (case tbl_get ce_Key k c of
        None \<Rightarrow> Inr None
      | Some e \<Rightarrow> (case unmarshal (ce_Data e) of
                    Inl m \<Rightarrow> Inl (''failed to unmarshal cached data: '' @ m)
                  | Inr v \<Rightarrow> Inr (Some (e, v))))"

definition Delete_c :: "string \<Rightarrow> cache \<Rightarrow> cache" where
  "Delete_c k c = tbl_del ce_Key k c"

definition Clear :: "cache \<Rightarrow> cache" where "Clear c = []"

definition Keys :: "cache \<Rightarrow> string list" where "Keys c = map ce_Key c"

record cache_stats =
  cs_Total :: nat
  cs_Fresh :: nat
  cs_Stale :: nat
  cs_Oldest :: time
  cs_Newest :: time

definition stats_step :: "time \<Rightarrow> cache_stats \<Rightarrow> cache_entry \<Rightarrow> cache_stats" where
  "stats_step now s e =
     (let s = (if now > ce_ExpiresAt e then s\<lparr>cs_Stale := cs_Stale s + 1\<rparr> else s\<lparr>cs_Fresh := cs_Fresh s + 1\<rparr>);
          s = (if isZero (cs_Oldest s) \<or> ce_CreatedAt e < cs_Oldest s then s\<lparr>cs_Oldest := ce_CreatedAt e\<rparr> else s)
      in if cs_Newest s < ce_CreatedAt e then s\<lparr>cs_Newest := ce_CreatedAt e\<rparr> else s)"

definition Stats :: "time \<Rightarrow> cache \<Rightarrow> cache_stats" where
  "Stats now c = foldl (stats_step now)
     \<lparr>cs_Total = length c, cs_Fresh = 0, cs_Stale = 0, cs_Oldest = zeroTime, cs_Newest = zeroTime\<rparr> c"

definition CleanupStale :: "time \<Rightarrow> cache \<Rightarrow> nat \<times> cache" where
  "CleanupStale now c =
     (length (filter (very_stale now) c), filter (\<lambda>e. \<not> very_stale now e) c)"

definition Backdate :: "string \<Rightarrow> duration \<Rightarrow> cache \<Rightarrow> cache" where
  "Backdate k d c = map (\<lambda>e. if ce_Key e = k
     then e\<lparr>ce_CreatedAt := ce_CreatedAt e - d, ce_ExpiresAt := ce_ExpiresAt e - d\<rparr> else e) c"

definition enhanced_key :: "string \<Rightarrow> string" where
  "enhanced_key h = ''enhanced_alert:'' @ h"

definition SetEnhancedAlert where
  "SetEnhancedAlert marshal h d ttl now c = Set_c marshal (enhanced_key h) d ttl ''enhanced_alert'' now c"

definition GetEnhancedAlert where
  "GetEnhancedAlert unmarshal h now c1 c2 = Get_c unmarshal (enhanced_key h) now c1 c2"

definition IsEnhancedAlertCached :: "string \<Rightarrow> time \<Rightarrow> cache \<Rightarrow> bool" where
  "IsEnhancedAlertCached h now c = (\<not> IsStale (enhanced_key h) now c)"

section \<open>Histories\<close>

datatype cache_op = OSet string string duration string time | ODelete string | OClear
  | OCleanup time | OBackdate string duration

text \<open>The stored bytes stand for the value here: marshalling has happened.\<close>

fun cache_step :: "cache_op \<Rightarrow> cache \<Rightarrow> cache" where
  "cache_step (OSet k j r src now) c = snd (Set_c Inr k j r src now c)"
| "cache_step (ODelete k) c = Delete_c k c"
| "cache_step OClear c = Clear c"
| "cache_step (OCleanup now) c = snd (CleanupStale now c)"
| "cache_step (OBackdate k d) c = Backdate k d c"

definition op_ok :: "cache_op \<Rightarrow> bool" where
  "op_ok op = (case op of OSet _ _ r _ _ \<Rightarrow> 0 \<le> r | _ \<Rightarrow> True)"

definition entry_ok :: "cache_entry \<Rightarrow> bool" where
  "entry_ok e \<longleftrightarrow> 0 \<le> ce_RefreshInterval e \<and> ce_ExpiresAt e = ce_CreatedAt e + ce_RefreshInterval e"

definition cache_ok :: "cache \<Rightarrow> bool" where
  "cache_ok c \<longleftrightarrow> tbl_ok ce_Key c \<and> (\<forall>e \<in> set c. entry_ok e)"

lemma backdate_key: "ce_Key (if ce_Key e = k then e\<lparr>ce_CreatedAt := a, ce_ExpiresAt := b\<rparr> else e) = ce_Key e"
  by simp

lemma cache_step_ok: "cache_ok c \<Longrightarrow> op_ok op \<Longrightarrow> cache_ok (cache_step op c)"
  by (cases op)
    (auto simp: cache_ok_def op_ok_def entry_ok_def Set_c_def Delete_c_def tbl_del_def Clear_def CleanupStale_def
      Backdate_def tbl_ok_map tbl_ok_filter dest!: tbl_put_set split: if_splits)

lemma cache_run_ok: "cache_ok c \<Longrightarrow> list_all op_ok ops \<Longrightarrow> cache_ok (fold cache_step ops c)"
  by (induction ops arbitrary: c) (auto intro: cache_step_ok)

lemma cache_history_ok: "list_all op_ok ops \<Longrightarrow> cache_ok (fold cache_step ops NewCache)"
  by (rule cache_run_ok) (simp_all add: cache_ok_def NewCache_def)

text \<open>An operation that leaves the entry \<open>e\<close> in place.\<close>

definition keeps :: "cache_entry \<Rightarrow> cache_op \<Rightarrow> bool" where
  "keeps e op = (case op of
     OSet k _ _ _ _ \<Rightarrow> k \<noteq> ce_Key e
   | ODelete k \<Rightarrow> k \<noteq> ce_Key e
   | OClear \<Rightarrow> False
   | OCleanup now \<Rightarrow> \<not> very_stale now e
   | OBackdate k _ \<Rightarrow> k \<noteq> ce_Key e)"

lemma keeps_get:
  assumes "cache_ok c" and "tbl_get ce_Key (ce_Key e) c = Some e" and "keeps e op"
  shows "tbl_get ce_Key (ce_Key e) (cache_step op c) = Some e"
  using assms
  by (cases op) (auto simp: keeps_def cache_ok_def Set_c_def Delete_c_def CleanupStale_def
      Backdate_def tbl_get_filter tbl_get_map)

lemma keeps_get_all:
  "cache_ok c \<Longrightarrow> tbl_get ce_Key (ce_Key e) c = Some e \<Longrightarrow> list_all (keeps e) ops \<Longrightarrow>
   list_all op_ok ops \<Longrightarrow> tbl_get ce_Key (ce_Key e) (fold cache_step ops c) = Some e"
  by (induction ops arbitrary: c) (auto intro: keeps_get cache_step_ok)

text \<open>
  A value set at \<open>t0\<close> with a refresh interval \<open>r\<close>, in any cache and followed by any
  operations that neither write nor delete its key and any cleanups up to \<open>t0 + 2r\<close>, is
  served by \<open>Get\<close> exactly until \<open>t0 + r\<close>, and is still there for the stale fallback
  (\<open>GetWithMetadata\<close>, with its timestamps) at any later time; and it is not very stale
  before \<open>t0 + 2r\<close>.
\<close>

theorem cached_until_expiry:
  assumes "c' = fold cache_step (before @ OSet k j r src t0 # after) NewCache"
    and "list_all op_ok (before @ OSet k j r src t0 # after)"
    and "list_all (keeps \<lparr>ce_Key = k, ce_Data = j, ce_CreatedAt = t0, ce_ExpiresAt = t0 + r,
            ce_RefreshInterval = r, ce_Source = src\<rparr>) after"
    and "unmarshal j = Inr v"
  shows "Get_c unmarshal k now c' c' = Inr (if now \<le> t0 + r then Some v else None) \<and>
    (\<exists>e. GetWithMetadata unmarshal k c' = Inr (Some (e, v)) \<and> ce_CreatedAt e = t0 \<and>
      ce_ExpiresAt e = t0 + r \<and> (IsVeryStale k now c' \<longleftrightarrow> t0 + 2 * r < now))"
proof -
  let ?e = "\<lparr>ce_Key = k, ce_Data = j, ce_CreatedAt = t0, ce_ExpiresAt = t0 + r,
      ce_RefreshInterval = r, ce_Source = src\<rparr>"
  let ?c0 = "fold cache_step before NewCache"
  let ?c = "cache_step (OSet k j r src t0) ?c0"
  have ok: "cache_ok ?c"
    using assms(2) by (intro cache_step_ok cache_history_ok) auto
  have "tbl_get ce_Key (ce_Key ?e) ?c = Some ?e" by (simp add: Set_c_def)
  from keeps_get_all [OF ok this assms(3)] assms(2)
  have "tbl_get ce_Key k (fold cache_step after ?c) = Some ?e" by simp
  then have g: "tbl_get ce_Key k c' = Some ?e"
    unfolding assms(1) by simp
  then show ?thesis
    using assms(4)
    by (auto simp: Get_c_def IsStale_def GetWithMetadata_def IsVeryStale_def very_stale_def)
qed

theorem cached_until_expiry_witness:
  "\<exists>c'. c' = fold cache_step ([OClear] @ OSet ''a'' ''v'' 10 ''s'' 0 # [OCleanup 19, ODelete ''b'']) NewCache \<and>
     Get_c Inr ''a'' 10 c' c' = Inr (Some ''v'')"
proof -
  let ?c = "fold cache_step ([OClear] @ OSet ''a'' ''v'' 10 ''s'' 0 # [OCleanup 19, ODelete ''b'']) NewCache"
  from cached_until_expiry [of ?c "[OClear]" "''a''" "''v''" 10 "''s''" 0 "[OCleanup 19, ODelete ''b'']" Inr "''v''" 10]
  have "Get_c Inr ''a'' 10 ?c ?c = Inr (Some ''v'')"
    by (simp add: op_ok_def keeps_def very_stale_def)
  then show ?thesis by blast
qed

text \<open>
  A cleanup removes exactly the entries past twice their refresh interval, reports how many
  it removed, and changes no answer: every key is very stale (or absent) after it exactly when it
  was before, and every \<open>Get\<close> at that time or later returns what it did.
\<close>

theorem cleanup_conservative:
  assumes "list_all op_ok ops" and "c = fold cache_step ops NewCache"
    and "CleanupStale now c = (n, c')" and "now \<le> later"
  shows "n + length c' = length c \<and> IsVeryStale k now c' = IsVeryStale k now c \<and>
    Get_c unmarshal k later c' c' = Get_c unmarshal k later c c"
proof -
  have cok: "cache_ok c" unfolding assms(2) by (rule cache_history_ok [OF assms(1)])
  then have ok: "tbl_ok ce_Key c" by (simp add: cache_ok_def)
  have c': "c' = filter (\<lambda>e. \<not> very_stale now e) c" and n: "n = length (filter (very_stale now) c)"
    using assms(3) by (auto simp: CleanupStale_def)
  have len: "n + length c' = length c"
    unfolding n c' by (rule sum_length_filter_compl)
  have get: "tbl_get ce_Key k c' = (case tbl_get ce_Key k c of
      Some e \<Rightarrow> if \<not> very_stale now e then Some e else None | None \<Rightarrow> None)"
    unfolding c' by (rule tbl_get_filter [OF ok])
  have "IsStale k later c" if "tbl_get ce_Key k c = Some e" "very_stale now e" for e
  proof -
    have "entry_ok e" using tbl_get_Some [OF that(1)] cok by (simp add: cache_ok_def)
    then have "ce_ExpiresAt e < later" using that(2) assms(4) by (simp add: entry_ok_def very_stale_def)
    with that(1) show ?thesis by (simp add: IsStale_def)
  qed
  then have "Get_c unmarshal k later c' c' = Get_c unmarshal k later c c"
    using get by (cases "tbl_get ce_Key k c") (auto simp: Get_c_def IsStale_def)
  moreover have "IsVeryStale k now c' = IsVeryStale k now c"
    using get by (auto simp: IsVeryStale_def split: option.splits)
  ultimately show ?thesis using len by simp
qed

theorem cleanup_conservative_witness:
  "\<exists>c n c'. CleanupStale 25 c = (n, c') \<and> length c = 1 \<and> n + length c' = 1"
proof -
  let ?c = "fold cache_step [OSet ''a'' ''v'' 10 ''s'' 0] NewCache"
  obtain n c' where e: "CleanupStale 25 ?c = (n, c')" by (cases "CleanupStale 25 ?c")
  have l: "length ?c = 1" by (simp add: Set_c_def NewCache_def)
  have o: "list_all op_ok [OSet ''a'' ''v'' 10 ''s'' 0]" by (simp add: op_ok_def)
  have "n + length c' = length ?c"
    using cleanup_conservative [OF o refl e order_refl, of "''a''" "Inr :: string \<Rightarrow> string result"] by blast
  with e l show ?thesis by metis
qed

text \<open>
  \<open>Get\<close> takes its two read locks one after the other, so a \<open>Set\<close> that lands between
  them makes it return the old, expired value as a fresh one.
\<close>

theorem get_race_serves_expired:
  "\<exists>c1 c2. IsStale ''a'' 100 c1 \<and> c2 = snd (Set_c Inr ''a'' ''new'' 10 ''s'' 100 c1) \<and>
     Get_c Inr ''a'' 100 c1 c2 = Inr (Some ''old'')"
proof -
  let ?c1 = "snd (Set_c Inr ''a'' ''old'' 10 ''s'' 0 [])"
  have "IsStale ''a'' 100 ?c1" by (simp add: IsStale_def Set_c_def)
  moreover have "Get_c Inr ''a'' 100 ?c1 (snd (Set_c Inr ''a'' ''new'' 10 ''s'' 100 ?c1)) = Inr (Some ''old'')"
    by (simp add: Get_c_def IsStale_def Set_c_def)
  ultimately show ?thesis by blast
qed

text \<open>The statistics count every entry once, as fresh or as stale.\<close>

lemma stats_fold:
  "cs_Fresh (foldl (stats_step now) s c) + cs_Stale (foldl (stats_step now) s c) =
     cs_Fresh s + cs_Stale s + length c \<and> cs_Total (foldl (stats_step now) s c) = cs_Total s"
proof (induction c arbitrary: s)
  case Nil
  then show ?case by simp
next
  case (Cons e c)
  then show ?case by (auto simp: stats_step_def Let_def)
qed

lemma stats_count: "cs_Fresh (Stats now c) + cs_Stale (Stats now c) = cs_Total (Stats now c)"
  by (simp add: Stats_def stats_fold)

end
