(* ===== verification/Geojson.thy ===== *)
theory Geojson
  imports Prelude Complex_Main
begin

text \<open>
  The geometry library of \<open>internal/lib/geojson\<close>. A \<open>float64\<close> is a rational here, and
  the arithmetic on it exact; the cosine of \<open>math\<close> and the great-circle distance to a
  polyline of \<open>internal/lib/geo\<close> are parameters. A squared distance stands for a distance
  where the source takes a square root only to compare or to sort.
\<close>

section \<open>Geometries and their parser\<close>

text \<open>A position is (longitude, latitude), in RFC 7946 order.\<close>

type_synonym pos = "rat \<times> rat"

abbreviation lng :: "pos \<Rightarrow> rat" where "lng \<equiv> fst"
abbreviation lat :: "pos \<Rightarrow> rat" where "lat \<equiv> snd"

datatype geom = Point pos | MultiPoint "pos list" | LineString "pos list"
  | MultiLineString "pos list list" | Polygon "pos list list" | MultiPolygon "pos list list list"

text \<open>
  Decoded JSON, as far as coordinates need it. \<open>json.Unmarshal\<close> reads \<open>null\<close> into a number
  as 0 and into a slice as the empty one.
\<close>

datatype json = JNull | JNum rat | JArr "json list" | JOther

fun jnum :: "json \<Rightarrow> rat result" where
  "jnum (JNum r) = Inr r"
| "jnum JNull = Inr 0"
| "jnum _ = Inl ''json: cannot unmarshal into float64''"

fun jarr :: "json \<Rightarrow> json list result" where
  "jarr (JArr xs) = Inr xs"
| "jarr JNull = Inr []"
| "jarr _ = Inl ''json: cannot unmarshal into slice''"

fun toPosition :: "rat list \<Rightarrow> pos result" where
  "toPosition (x # y # _) = Inr (x, y)"
| "toPosition _ = Inl ''geojson: position needs at least 2 elements''"

definition jnums :: "json \<Rightarrow> rat list result" where
  "jnums j = rbind (jarr j) (rmap jnum)"

definition parsePositions :: "json \<Rightarrow> pos list result" where
  "parsePositions j = rbind (jarr j) (\<lambda>cs. rbind (rmap jnums cs) (rmap toPosition))"

definition parseRings :: "bool \<Rightarrow> json \<Rightarrow> pos list list result" where
  "parseRings multiline j =
     rbind (jarr j) (\<lambda>raws.
       if raws = [] then Inl ''geojson: geometry has no rings''
       else rmap (\<lambda>rr. rbind (parsePositions rr) (\<lambda>pts.
              if length pts < (if multiline then 2 else 3) then Inl ''geojson: ring needs more positions''
              else Inr pts)) raws)"

definition parse_coords :: "string \<Rightarrow> json \<Rightarrow> geom result" where
  "parse_coords ty c =
     (if ty = ''Point'' then
        rbind (jnums c) (\<lambda>xs. rbind (toPosition xs) (\<lambda>p. Inr (Point p)))
      else if ty = ''MultiPoint'' then
        rbind (parsePositions c) (\<lambda>pts.
          if length pts < 1 then Inl ''geojson: needs more positions'' else Inr (MultiPoint pts))
      else if ty = ''LineString'' then
        rbind (parsePositions c) (\<lambda>pts.
          if length pts < 2 then Inl ''geojson: needs more positions'' else Inr (LineString pts))
      else if ty = ''MultiLineString'' then rbind (parseRings True c) (\<lambda>r. Inr (MultiLineString r))
      else if ty = ''Polygon'' then rbind (parseRings False c) (\<lambda>r. Inr (Polygon r))
      else if ty = ''MultiPolygon'' then
        rbind (jarr c) (\<lambda>raws.
          if raws = [] then Inl ''geojson: MultiPolygon has no polygons''
          else rbind (rmap (parseRings False) raws) (\<lambda>ps. Inr (MultiPolygon ps)))
      else Inl ''geojson: unsupported geometry type'')"

text \<open>\<open>unmarshal\<close> decodes the envelope: the type and the coordinates, if there are any.\<close>

definition Parse :: "(string \<Rightarrow> (string \<times> json option) result) \<Rightarrow> string \<Rightarrow> geom result" where
  "Parse unmarshal raw =
     rbind (unmarshal raw) (\<lambda>(ty, co).
       if co = None \<or> co = Some JNull then Inl ''geojson: geometry has no coordinates''
       else parse_coords ty (the co))"

section \<open>Bounding boxes\<close>

fun positions :: "geom \<Rightarrow> pos list" where
  "positions (Point p) = [p]"
| "positions (MultiPoint ps) = ps"
| "positions (LineString ps) = ps"
| "positions (MultiLineString rs) = concat rs"
| "positions (Polygon rs) = concat rs"
| "positions (MultiPolygon pp) = concat (concat pp)"

record bbox =
  minLat :: rat
  minLng :: rat
  maxLat :: rat
  maxLng :: rat

definition grow :: "bbox \<Rightarrow> pos \<Rightarrow> bbox" where
  "grow b p = \<lparr>minLat = min (minLat b) (lat p), minLng = min (minLng b) (lng p),
               maxLat = max (maxLat b) (lat p), maxLng = max (maxLng b) (lng p)\<rparr>"

definition Bbox :: "geom \<Rightarrow> bbox" where
  "Bbox g = (case positions g of
     [] \<Rightarrow> \<lparr>minLat = 0, minLng = 0, maxLat = 0, maxLng = 0\<rparr>
   | p # ps \<Rightarrow> foldl grow \<lparr>minLat = lat p, minLng = lng p, maxLat = lat p, maxLng = lng p\<rparr> ps)"

definition Centroid :: "geom \<Rightarrow> rat \<times> rat" where
  "Centroid g = (let b = Bbox g in ((minLat b + maxLat b) / 2, (minLng b + maxLng b) / 2))"

definition BboxIntersects :: "bbox \<Rightarrow> bbox \<Rightarrow> bool" where
  "BboxIntersects a b \<longleftrightarrow> minLat a \<le> maxLat b \<and> minLat b \<le> maxLat a \<and>
     minLng a \<le> maxLng b \<and> minLng b \<le> maxLng a"

definition in_bbox :: "bbox \<Rightarrow> pos \<Rightarrow> bool" where
  "in_bbox b p \<longleftrightarrow> minLat b \<le> lat p \<and> lat p \<le> maxLat b \<and> minLng b \<le> lng p \<and> lng p \<le> maxLng b"

lemma grow_in: "in_bbox b q \<Longrightarrow> in_bbox (grow b p) q" "in_bbox (grow b p) p"
  by (auto simp: in_bbox_def grow_def)

lemma foldl_grow_in: "in_bbox b q \<Longrightarrow> in_bbox (foldl grow b ps) q"
  by (induction ps arbitrary: b) (auto intro: grow_in)

lemma foldl_grow_all: "q \<in> set ps \<Longrightarrow> in_bbox (foldl grow b ps) q"
  by (induction ps arbitrary: b) (auto intro: foldl_grow_in grow_in)

lemma Bbox_covers:
  assumes "q \<in> set (positions g)"
  shows "in_bbox (Bbox g) q"
proof (cases "positions g")
  case Nil
  with assms show ?thesis by simp
next
  case (Cons p ps)
  have "in_bbox \<lparr>minLat = lat p, minLng = lng p, maxLat = lat p, maxLng = lng p\<rparr> p"
    by (simp add: in_bbox_def)
  from foldl_grow_in [OF this, of ps] have "in_bbox (Bbox g) p" by (simp add: Bbox_def Cons)
  moreover have "in_bbox (Bbox g) q" if "q \<in> set ps"
    using foldl_grow_all [OF that] by (simp add: Bbox_def Cons)
  ultimately show ?thesis using assms Cons by auto
qed

section \<open>Points in polygons\<close>

text \<open>The edges of a ring, closed from the last vertex to the first, as (\<open>j\<close>, \<open>i\<close>) pairs.\<close>

definition ring_edges :: "pos list \<Rightarrow> (pos \<times> pos) list" where
  "ring_edges r = zip (last r # r) r"

definition straddles :: "rat \<Rightarrow> pos \<times> pos \<Rightarrow> bool" where
  "straddles la e = ((lat (snd e) > la) \<noteq> (lat (fst e) > la))"

definition crosses :: "rat \<Rightarrow> rat \<Rightarrow> pos \<times> pos \<Rightarrow> bool" where
  "crosses la lo e = (straddles la e \<and>
     lo < (lng (fst e) - lng (snd e)) * (la - lat (snd e)) / (lat (fst e) - lat (snd e)) + lng (snd e))"

definition ring_toggle :: "rat \<Rightarrow> rat \<Rightarrow> bool \<Rightarrow> pos list \<Rightarrow> bool" where
  "ring_toggle la lo inside r =
     (if length r < 3 then inside
      else foldl (\<lambda>ins e. if crosses la lo e then \<not> ins else ins) inside (ring_edges r))"

definition ringsContain :: "pos list list \<Rightarrow> rat \<Rightarrow> rat \<Rightarrow> bool" where
  "ringsContain rings la lo = foldl (ring_toggle la lo) False rings"

definition outside :: "bbox \<Rightarrow> rat \<Rightarrow> rat \<Rightarrow> bool" where
  "outside b la lo \<longleftrightarrow> la < minLat b \<or> la > maxLat b \<or> lo < minLng b \<or> lo > maxLng b"

definition PointInGeometry :: "rat \<Rightarrow> rat \<Rightarrow> geom option \<Rightarrow> bool" where
  "PointInGeometry la lo g =
     (case g of
        Some (Polygon rs) \<Rightarrow> \<not> outside (Bbox (Polygon rs)) la lo \<and> ringsContain rs la lo
      | Some (MultiPolygon pp) \<Rightarrow>
          \<not> outside (Bbox (MultiPolygon pp)) la lo \<and> list_ex (\<lambda>rs. ringsContain rs la lo) pp
      | _ \<Rightarrow> False)"

text \<open>The even-odd rule counts crossings; a closed ring straddles a latitude an even number of times.\<close>

lemma toggle_count:
  "foldl (\<lambda>ins e. if P e then \<not> ins else ins) b es = (b \<noteq> odd (length (filter P es)))"
  by (induction es arbitrary: b) auto

lemma changes_parity:
  "odd (length (filter (\<lambda>(x, y). b y \<noteq> b x) (zip (a # xs) xs))) \<longleftrightarrow> b a \<noteq> (b (last (a # xs)) :: bool)"
proof (induction xs arbitrary: a)
  case Nil
  then show ?case by simp
next
  case (Cons x xs)
  from Cons.IH [of x] show ?case by auto
qed

lemma even_straddles: "r \<noteq> [] \<Longrightarrow> even (length (filter (straddles la) (ring_edges r)))"
proof -
  assume "r \<noteq> []"
  have "straddles la = (\<lambda>(x, y). (lat y > la) \<noteq> (lat x > la))"
    by (auto simp: straddles_def fun_eq_iff)
  then show ?thesis
    using changes_parity [of "\<lambda>p. lat p > la" "last r" r] \<open>r \<noteq> []\<close> by (simp add: ring_edges_def)
qed

lemma ring_edges_mem: "e \<in> set (ring_edges r) \<Longrightarrow> fst e \<in> set r \<and> snd e \<in> set r"
proof -
  assume e: "e \<in> set (ring_edges r)"
  obtain x y where Pair: "e = (x, y)" by (cases e)
  from e have "x \<in> set (last r # r)" "y \<in> set r"
    unfolding Pair ring_edges_def by (auto dest: set_zip_leftD set_zip_rightD)
  moreover from this have "r \<noteq> []" by auto
  ultimately show ?thesis using Pair by auto
qed

text \<open>Where the line through an edge meets the latitude: between the edge's longitudes.\<close>

lemma crossing_bounds:
  assumes "straddles la e"
  shows "(lng (fst e) - lng (snd e)) * (la - lat (snd e)) / (lat (fst e) - lat (snd e)) + lng (snd e)
      \<le> max (lng (fst e)) (lng (snd e))" (is "?x \<le> _")
    and "min (lng (fst e)) (lng (snd e)) \<le>
      (lng (fst e) - lng (snd e)) * (la - lat (snd e)) / (lat (fst e) - lat (snd e)) + lng (snd e)"
proof -
  let ?d = "lat (fst e) - lat (snd e)"
  let ?t = "(la - lat (snd e)) / ?d"
  have t: "0 \<le> ?t" "?t \<le> 1"
  proof -
    consider "?d > 0" "lat (snd e) \<le> la" "la \<le> lat (fst e)" | "?d < 0" "la \<le> lat (snd e)" "lat (fst e) \<le> la"
      using assms by (auto simp: straddles_def)
    then have "0 \<le> ?t \<and> ?t \<le> 1"
    proof cases
      case 1
      then show ?thesis by (simp add: divide_le_eq)
    next
      case 2
      then show ?thesis by (simp add: divide_le_eq zero_le_divide_iff)
    qed
    then show "0 \<le> ?t" "?t \<le> 1" by auto
  qed
  define t where "t = ?t"
  have "?x = (lng (fst e) - lng (snd e)) * t + lng (snd e)" by (simp add: t_def)
  then have x: "?x = (1 - t) * lng (snd e) + t * lng (fst e)" by (simp add: algebra_simps)
  show "?x \<le> max (lng (fst e)) (lng (snd e))"
    unfolding x by (rule convex_bound_le) (use t in \<open>auto simp: t_def\<close>)
  have "- ?x \<le> - min (lng (fst e)) (lng (snd e))"
  proof -
    have "- ?x = (1 - t) * (- lng (snd e)) + t * (- lng (fst e))" unfolding x by (simp add: algebra_simps)
    also have "\<dots> \<le> - min (lng (fst e)) (lng (snd e))"
      by (rule convex_bound_le) (use t in \<open>auto simp: t_def\<close>)
    finally show ?thesis .
  qed
  then show "min (lng (fst e)) (lng (snd e)) \<le> ?x" by simp
qed

lemma ring_outside:
  assumes "\<And>p. p \<in> set r \<Longrightarrow> in_bbox b p" and "outside b la lo" and "length r \<ge> 3"
  shows "even (length (filter (crosses la lo) (ring_edges r)))"
proof (cases "lo < minLng b \<and> \<not> la < minLat b \<and> \<not> la > maxLat b")
  case True
  have "crosses la lo e = straddles la e" if e: "e \<in> set (ring_edges r)" for e
  proof
    assume s: "straddles la e"
    have "minLng b \<le> lng (fst e)" "minLng b \<le> lng (snd e)"
      using ring_edges_mem [OF e] assms(1) by (auto simp: in_bbox_def)
    with crossing_bounds(2) [OF s] True show "crosses la lo e" using s by (auto simp: crosses_def)
  qed (simp add: crosses_def)
  then have "filter (crosses la lo) (ring_edges r) = filter (straddles la) (ring_edges r)"
    by (rule filter_cong [OF refl])
  moreover have "r \<noteq> []" using assms(3) by auto
  ultimately show ?thesis using even_straddles by simp
next
  case False
  have "\<not> crosses la lo e" if e: "e \<in> set (ring_edges r)" for e
  proof
    assume c: "crosses la lo e"
    then have s: "straddles la e" by (simp add: crosses_def)
    have f: "in_bbox b (fst e)" "in_bbox b (snd e)" using ring_edges_mem [OF e] assms(1) by auto
    with s have la: "\<not> la < minLat b" "\<not> la > maxLat b" by (auto simp: straddles_def in_bbox_def)
    with False assms(2) have "lo > maxLng b" by (auto simp: outside_def)
    with crossing_bounds(1) [OF s] f c show False by (auto simp: crosses_def in_bbox_def)
  qed
  then have "filter (crosses la lo) (ring_edges r) = []" by (simp add: filter_empty_conv)
  then show ?thesis by simp
qed

lemma rings_outside:
  assumes "\<And>p. p \<in> set (concat rs) \<Longrightarrow> in_bbox b p" and "outside b la lo"
  shows "\<not> ringsContain rs la lo"
proof -
  have "ring_toggle la lo ins r = ins" if r: "r \<in> set rs" for ins r
  proof (cases "length r < 3")
    case False
    have "even (length (filter (crosses la lo) (ring_edges r)))"
      by (rule ring_outside [OF _ assms(2)]) (use assms(1) r False in auto)
    then show ?thesis by (simp add: ring_toggle_def toggle_count)
  qed (simp add: ring_toggle_def)
  then have "foldl (ring_toggle la lo) ins rs = ins" for ins
    by (induction rs arbitrary: ins) auto
  then show ?thesis by (simp add: ringsContain_def)
qed

text \<open>
  The bounding-box check in front of the ray cast is only an optimisation. For every
  polygon and multipolygon, whatever its rings, and every point, \<open>PointInGeometry\<close> answers
  what the even-odd rule alone would.
\<close>

theorem bbox_check_exact:
  "PointInGeometry la lo (Some (Polygon rs)) = ringsContain rs la lo \<and>
   PointInGeometry la lo (Some (MultiPolygon pp)) = (\<exists>rs \<in> set pp. ringsContain rs la lo)"
proof
  have "\<not> ringsContain rs la lo" if "outside (Bbox (Polygon rs)) la lo"
    by (rule rings_outside [OF Bbox_covers that]) simp
  then show "PointInGeometry la lo (Some (Polygon rs)) = ringsContain rs la lo"
    by (auto simp: PointInGeometry_def)
  have "\<not> ringsContain rs la lo" if "outside (Bbox (MultiPolygon pp)) la lo" "rs \<in> set pp" for rs
    by (rule rings_outside [OF Bbox_covers that(1)]) (use that(2) in auto)
  then show "PointInGeometry la lo (Some (MultiPolygon pp)) = (\<exists>rs \<in> set pp. ringsContain rs la lo)"
    by (auto simp: PointInGeometry_def list_ex_iff)
qed

section \<open>Intersections\<close>

definition isAreal :: "geom option \<Rightarrow> bool" where
  "isAreal g = (case g of Some (Polygon _) \<Rightarrow> True | Some (MultiPolygon _) \<Rightarrow> True | _ \<Rightarrow> False)"

definition polygonRings :: "geom \<Rightarrow> pos list list" where
  "polygonRings g = (case g of Polygon rs \<Rightarrow> rs | MultiPolygon pp \<Rightarrow> concat pp | _ \<Rightarrow> [])"

definition anyVertexInside :: "pos list list \<Rightarrow> geom \<Rightarrow> bool" where
  "anyVertexInside rings other =
     list_ex (\<lambda>ring. list_ex (\<lambda>p. PointInGeometry (lat p) (lng p) (Some other)) ring) rings"

definition orient :: "pos \<Rightarrow> pos \<Rightarrow> pos \<Rightarrow> rat" where
  "orient a b c = (lng b - lng a) * (lat c - lat a) - (lat b - lat a) * (lng c - lng a)"

definition onSegment :: "pos \<Rightarrow> pos \<Rightarrow> pos \<Rightarrow> bool" where
  "onSegment a b c \<longleftrightarrow> min (lng a) (lng b) \<le> lng c \<and> lng c \<le> max (lng a) (lng b) \<and>
     min (lat a) (lat b) \<le> lat c \<and> lat c \<le> max (lat a) (lat b)"

definition segmentsIntersect :: "pos \<Rightarrow> pos \<Rightarrow> pos \<Rightarrow> pos \<Rightarrow> bool" where
  "segmentsIntersect p1 p2 p3 p4 =
     (let d1 = orient p3 p4 p1; d2 = orient p3 p4 p2; d3 = orient p1 p2 p3; d4 = orient p1 p2 p4 in
      if ((d1 > 0 \<and> d2 < 0) \<or> (d1 < 0 \<and> d2 > 0)) \<and> ((d3 > 0 \<and> d4 < 0) \<or> (d3 < 0 \<and> d4 > 0)) then True
      else if d1 = 0 \<and> onSegment p3 p4 p1 then True
      else if d2 = 0 \<and> onSegment p3 p4 p2 then True
      else if d3 = 0 \<and> onSegment p1 p2 p3 then True
      else if d4 = 0 \<and> onSegment p1 p2 p4 then True
      else False)"

definition ring_lines :: "pos list \<Rightarrow> (pos \<times> pos) list" where
  "ring_lines r = (if length r < 2 then [] else ring_edges r)"

definition ringsCross :: "pos list list \<Rightarrow> pos list list \<Rightarrow> bool" where
  "ringsCross a b =
     list_ex (\<lambda>ra. list_ex (\<lambda>e. list_ex (\<lambda>rb. list_ex (\<lambda>f.
        segmentsIntersect (fst e) (snd e) (fst f) (snd f)) (ring_lines rb)) b) (ring_lines ra)) a"

definition Intersects :: "geom option \<Rightarrow> geom option \<Rightarrow> bool" where
  "Intersects a b =
     (case (a, b) of
        (Some ga, Some gb) \<Rightarrow>
          if \<not> isAreal a \<or> \<not> isAreal b then False
          else if \<not> BboxIntersects (Bbox ga) (Bbox gb) then False
          else (let ra = polygonRings ga; rb = polygonRings gb in
                if anyVertexInside ra gb \<or> anyVertexInside rb ga then True
                else ringsCross ra rb)
      | _ \<Rightarrow> False)"

lemma BboxIntersects_sym: "BboxIntersects a b = BboxIntersects b a"
  by (auto simp: BboxIntersects_def)

lemma segmentsIntersect_sym: "segmentsIntersect a b c d = segmentsIntersect c d a b"
  by (auto simp: segmentsIntersect_def Let_def)

lemma ringsCross_iff: "ringsCross a b \<longleftrightarrow>
    (\<exists>ra \<in> set a. \<exists>e \<in> set (ring_lines ra). \<exists>rb \<in> set b. \<exists>f \<in> set (ring_lines rb).
       segmentsIntersect (fst e) (snd e) (fst f) (snd f))"
  by (simp add: ringsCross_def list_ex_iff)

lemma ringsCross_sym: "ringsCross a b = ringsCross b a"
  unfolding ringsCross_iff using segmentsIntersect_sym by blast

text \<open>
  Two boxes that each hold one of two points no further apart than the padding intersect once
  the first is padded.
\<close>

lemma bbox_near:
  assumes "in_bbox a p" and "in_bbox b q" and "\<bar>lat p - lat q\<bar> \<le> dlat" and "\<bar>lng p - lng q\<bar> \<le> dlng"
  shows "BboxIntersects \<lparr>minLat = minLat a - dlat, minLng = minLng a - dlng,
      maxLat = maxLat a + dlat, maxLng = maxLng a + dlng\<rparr> b"
  using assms by (auto simp: in_bbox_def BboxIntersects_def abs_if split: if_splits)

section \<open>Proximity\<close>

definition metersPerDegreeLat :: rat where "metersPerDegreeLat = 111320"

text \<open>\<open>cosd\<close> is the cosine of an angle in degrees.\<close>

definition minCos :: "(rat \<Rightarrow> rat) \<Rightarrow> rat list \<Rightarrow> rat" where
  "minCos cosd lats = foldl (\<lambda>m l. if cosd l < m then cosd l else m) 1 lats"

definition anyPositionInside :: "geom \<Rightarrow> geom \<Rightarrow> bool" where
  "anyPositionInside g other = list_ex (\<lambda>p. PointInGeometry (lat p) (lng p) (Some other)) (positions g)"

definition project_pos :: "rat \<Rightarrow> pos \<Rightarrow> rat \<times> rat" where
  "project_pos kx p = (lng p * kx, lat p * metersPerDegreeLat)"

definition project :: "geom \<Rightarrow> rat \<Rightarrow> (rat \<times> rat) list" where
  "project g kx = map (project_pos kx) (positions g)"

definition line_edges :: "bool \<Rightarrow> pos list \<Rightarrow> (pos \<times> pos) list" where
  "line_edges shut l =
     (if length l < 2 then []
      else zip l (tl l) @ (if shut then [(last l, hd l)] else []))"

definition geom_lines :: "geom \<Rightarrow> pos list list \<times> bool" where
  "geom_lines g = (case g of
     LineString l \<Rightarrow> ([l], False) | MultiLineString ls \<Rightarrow> (ls, False)
   | Polygon rs \<Rightarrow> (rs, True) | MultiPolygon pp \<Rightarrow> (concat pp, True) | _ \<Rightarrow> ([], False))"

definition projectEdges :: "geom \<Rightarrow> rat \<Rightarrow> ((rat \<times> rat) \<times> (rat \<times> rat)) list" where
  "projectEdges g kx =
     (let (ls, shut) = geom_lines g in
      concat (map (\<lambda>l. map (\<lambda>(p, q). (project_pos kx p, project_pos kx q)) (line_edges shut l)) ls))"

definition pointSegDistSq :: "rat \<times> rat \<Rightarrow> (rat \<times> rat) \<times> (rat \<times> rat) \<Rightarrow> rat" where
  "pointSegDistSq p e =
     (let a = fst e; dx = fst (snd e) - fst a; dy = snd (snd e) - snd a in
      if dx = 0 \<and> dy = 0 then
        (let ux = fst p - fst a; uy = snd p - snd a in ux * ux + uy * uy)
      else
        (let t = ((fst p - fst a) * dx + (snd p - snd a) * dy) / (dx * dx + dy * dy);
             t = (if t < 0 then 0 else if t > 1 then 1 else t);
             cx = fst a + t * dx; cy = snd a + t * dy;
             ux = fst p - cx; uy = snd p - cy
         in ux * ux + uy * uy))"

definition sidesWithin ::
  "(rat \<times> rat) list \<Rightarrow> ((rat \<times> rat) \<times> (rat \<times> rat)) list \<Rightarrow> (rat \<times> rat) list \<Rightarrow> rat \<Rightarrow> bool" where
  "sidesWithin verts edges fallback limit =
     list_ex (\<lambda>p. list_ex (\<lambda>e. pointSegDistSq p e \<le> limit) edges \<or>
       (edges = [] \<and> list_ex (\<lambda>q. (fst p - fst q) * (fst p - fst q) + (snd p - snd q) * (snd p - snd q) \<le> limit) fallback)) verts"

definition separationAtMost :: "geom \<Rightarrow> geom \<Rightarrow> rat \<Rightarrow> rat \<Rightarrow> bool" where
  "separationAtMost a b kx meters =
     (let limit = meters * meters in
      sidesWithin (project a kx) (projectEdges b kx) (project b kx) limit \<or>
      sidesWithin (project b kx) (projectEdges a kx) (project a kx) limit)"

text \<open>The tests \<open>WithinDistance\<close> makes after its prefilter.\<close>

definition near_exact :: "(rat \<Rightarrow> rat) \<Rightarrow> geom \<Rightarrow> geom \<Rightarrow> rat \<Rightarrow> bool" where
  "near_exact cosd a b meters =
     (Intersects (Some a) (Some b) \<or> anyPositionInside a b \<or> anyPositionInside b a \<or>
      (let lat0 = (minLat (Bbox a) + maxLat (Bbox a) + minLat (Bbox b) + maxLat (Bbox b)) / 4 in
       separationAtMost a b (metersPerDegreeLat * cosd lat0) meters))"

definition WithinDistance :: "(rat \<Rightarrow> rat) \<Rightarrow> geom option \<Rightarrow> geom option \<Rightarrow> rat \<Rightarrow> bool" where
  "WithinDistance cosd a b meters =
     (case (a, b) of
        (Some ga, Some gb) \<Rightarrow>
          if meters \<le> 0 then False
          else
            (let ba = Bbox ga; bb = Bbox gb;
                 padLat = meters / metersPerDegreeLat;
                 padLng = padLat / max (minCos cosd [minLat ba, maxLat ba, minLat bb, maxLat bb]) (1 / 1000000)
             in if \<not> BboxIntersects \<lparr>minLat = minLat ba - padLat, minLng = minLng ba - padLng,
                                     maxLat = maxLat ba + padLat, maxLng = maxLng ba + padLng\<rparr> bb
                then False
                else near_exact cosd ga gb meters)
      | _ \<Rightarrow> False)"

text \<open>The squared \<open>MetersBetween\<close>.\<close>

definition metersBetweenSq :: "(rat \<Rightarrow> rat) \<Rightarrow> rat \<Rightarrow> rat \<Rightarrow> rat \<Rightarrow> rat \<Rightarrow> rat" where
  "metersBetweenSq cosd aLat aLng bLat bLng =
     (let kx = metersPerDegreeLat * cosd ((aLat + bLat) / 2);
          dx = (aLng - bLng) * kx; dy = (aLat - bLat) * metersPerDegreeLat
      in dx * dx + dy * dy)"

text \<open>The squared \<open>PointDistanceMeters\<close>; \<open>None\<close> is infinity.\<close>

definition pointDistanceSq :: "(rat \<Rightarrow> rat) \<Rightarrow> rat \<Rightarrow> rat \<Rightarrow> geom option \<Rightarrow> rat option" where
  "pointDistanceSq cosd la lo g =
     (case g of
        None \<Rightarrow> None
      | Some gg \<Rightarrow>
          if PointInGeometry la lo g then Some 0
          else
            (let lat0 = (la + (minLat (Bbox gg) + maxLat (Bbox gg)) / 2) / 2;
                 kx = metersPerDegreeLat * cosd lat0;
                 p = (lo * kx, la * metersPerDegreeLat);
                 edges = projectEdges gg kx;
                 ds = (if edges = [] then map (\<lambda>q. (fst p - fst q) * (fst p - fst q) + (snd p - snd q) * (snd p - snd q)) (project gg kx)
                       else map (pointSegDistSq p) edges)
             in if ds = [] then None else Some (foldl min (hd ds) (tl ds))))"

text \<open>\<open>polyline\<close> is \<open>geo.PointToPolyline\<close>: the distance in metres, or an error.\<close>

definition PointNearLine :: "(rat \<times> rat \<Rightarrow> pos list \<Rightarrow> rat result) \<Rightarrow> rat \<Rightarrow> rat \<Rightarrow> geom option \<Rightarrow> rat \<Rightarrow> bool" where
  "PointNearLine polyline la lo g meters =
     (if meters \<le> 0 then False
      else (case g of
              Some gg \<Rightarrow>
                list_ex (\<lambda>l. \<not> length l < 2 \<and>
                    (case polyline (la, lo) l of Inl _ \<Rightarrow> False | Inr d \<Rightarrow> d \<le> meters))
                  (case gg of LineString l \<Rightarrow> [l] | MultiLineString ls \<Rightarrow> ls | _ \<Rightarrow> [])
            | None \<Rightarrow> False))"

definition PointInOrNearGeometry where
  "PointInOrNearGeometry polyline la lo g meters \<longleftrightarrow>
     PointInGeometry la lo g \<or> PointNearLine polyline la lo g meters"

text \<open>
  Whether two geometries intersect does not depend on which is the event and which the
  place.
\<close>

theorem intersects_symmetric: "Intersects a b = Intersects b a"
proof (cases a; cases b)
  fix ga gb assume "a = Some ga" "b = Some gb"
  then show ?thesis
    using BboxIntersects_sym ringsCross_sym by (auto simp: Intersects_def Let_def)
qed (auto simp: Intersects_def)

lemma in_bbox_convex:
  assumes "in_bbox b p" and "in_bbox b q" and "0 \<le> t" and "t \<le> 1"
  shows "in_bbox b (lng p + t * (lng q - lng p), lat p + t * (lat q - lat p))"
proof -
  have le: "x + t * (y - x) \<le> m" if "x \<le> m" "y \<le> m" for x y m :: rat
  proof -
    have "x + t * (y - x) = (1 - t) * x + t * y" by (simp add: algebra_simps)
    also have "\<dots> \<le> m" by (rule convex_bound_le) (use that assms in auto)
    finally show ?thesis .
  qed
  have ge: "m \<le> x + t * (y - x)" if "m \<le> x" "m \<le> y" for x y m :: rat
  proof -
    have "- x + t * (- y - - x) \<le> - m" by (rule le) (use that in auto)
    then show ?thesis by (simp add: algebra_simps)
  qed
  show ?thesis using assms(1,2) le ge by (auto simp: in_bbox_def)
qed

lemma sum_squares_le:
  fixes x y m :: rat
  assumes "x * x + y * y \<le> m * m" and "0 \<le> m"
  shows "\<bar>x\<bar> \<le> m" "\<bar>y\<bar> \<le> m"
proof -
  have "x\<^sup>2 \<le> m\<^sup>2" "y\<^sup>2 \<le> m\<^sup>2"
    using assms(1) zero_le_square [of x] zero_le_square [of y] by (simp_all add: power2_eq_square, linarith+)
  then show "\<bar>x\<bar> \<le> m" "\<bar>y\<bar> \<le> m"
    using assms(2) power2_le_imp_le [of "\<bar>x\<bar>" m] power2_le_imp_le [of "\<bar>y\<bar>" m] by simp_all
qed

lemma pointSeg_close:
  assumes "pointSegDistSq p e \<le> m * m" and "0 \<le> m"
  shows "\<exists>t. 0 \<le> t \<and> t \<le> 1 \<and>
    \<bar>fst p - (fst (fst e) + t * (fst (snd e) - fst (fst e)))\<bar> \<le> m \<and>
    \<bar>snd p - (snd (fst e) + t * (snd (snd e) - snd (fst e)))\<bar> \<le> m"
proof -
  let ?dx = "fst (snd e) - fst (fst e)" and ?dy = "snd (snd e) - snd (fst e)"
  show ?thesis
  proof (cases "?dx = 0 \<and> ?dy = 0")
    case True
    then have "(fst p - fst (fst e)) * (fst p - fst (fst e)) + (snd p - snd (fst e)) * (snd p - snd (fst e)) \<le> m * m"
      using assms(1) by (simp add: pointSegDistSq_def Let_def)
    from sum_squares_le [OF this assms(2)] True show ?thesis by (intro exI [of _ 0]) simp
  next
    case False
    let ?u = "((fst p - fst (fst e)) * ?dx + (snd p - snd (fst e)) * ?dy) / (?dx * ?dx + ?dy * ?dy)"
    define t where "t = (if ?u < 0 then 0 else if ?u > 1 then 1 else ?u)"
    have t: "0 \<le> t" "t \<le> 1" by (auto simp: t_def)
    have "(fst p - (fst (fst e) + t * ?dx)) * (fst p - (fst (fst e) + t * ?dx)) +
        (snd p - (snd (fst e) + t * ?dy)) * (snd p - (snd (fst e) + t * ?dy)) \<le> m * m"
      using assms(1) False unfolding pointSegDistSq_def Let_def t_def by (simp only: if_False)
    from sum_squares_le [OF this assms(2)] t show ?thesis by blast
  qed
qed

lemma line_edges_mem: "(p, q) \<in> set (line_edges c l) \<Longrightarrow> p \<in> set l \<and> q \<in> set l"
proof (cases "length l < 2")
  case False
  then have "l \<noteq> []" by auto
  assume "(p, q) \<in> set (line_edges c l)"
  with False \<open>l \<noteq> []\<close> show ?thesis
    by (auto simp: line_edges_def split: if_splits dest: set_zip_leftD set_zip_rightD list.set_sel(2))
qed (simp add: line_edges_def)

lemma geom_lines_positions: "l \<in> set (fst (geom_lines g)) \<Longrightarrow> p \<in> set l \<Longrightarrow> p \<in> set (positions g)"
  by (cases g) (auto simp: geom_lines_def)

lemma projectEdges_mem:
  assumes "e \<in> set (projectEdges g kx)"
  shows "\<exists>p q. p \<in> set (positions g) \<and> q \<in> set (positions g) \<and> e = (project_pos kx p, project_pos kx q)"
proof -
  obtain ls c where g: "geom_lines g = (ls, c)" by (cases "geom_lines g")
  obtain l p q where l: "l \<in> set (fst (geom_lines g))" "(p, q) \<in> set (line_edges c l)"
      "e = (project_pos kx p, project_pos kx q)"
    using assms by (auto simp: projectEdges_def g)
  from line_edges_mem [OF l(2)] geom_lines_positions [OF l(1)] l(3) show ?thesis by blast
qed

text \<open>A separation within the limit puts the two boxes within the padding of one another.\<close>

definition boxes_near :: "geom \<Rightarrow> geom \<Rightarrow> rat \<Rightarrow> rat \<Rightarrow> bool" where
  "boxes_near a b dlat dlng \<longleftrightarrow> (\<exists>p q. in_bbox (Bbox a) p \<and> in_bbox (Bbox b) q \<and>
     \<bar>lat p - lat q\<bar> \<le> dlat \<and> \<bar>lng p - lng q\<bar> \<le> dlng)"

lemma boxes_near_sym: "boxes_near a b x y = boxes_near b a x y"
  unfolding boxes_near_def by (metis abs_minus_commute)

lemma scaled_le: "0 < k \<Longrightarrow> \<bar>x * k - y * k\<bar> \<le> m \<Longrightarrow> \<bar>x - y\<bar> \<le> m / (k :: rat)"
  by (simp add: left_diff_distrib [symmetric] abs_mult pos_le_divide_eq)

lemma sides_near:
  assumes "sidesWithin (project a kx) (projectEdges b kx) (project b kx) (m * m)" and "0 \<le> m" and "0 < kx"
  shows "boxes_near a b (m / metersPerDegreeLat) (m / kx)"
proof -
  obtain p where p: "p \<in> set (positions a)"
    and c: "(\<exists>e \<in> set (projectEdges b kx). pointSegDistSq (project_pos kx p) e \<le> m * m) \<or>
      (\<exists>q \<in> set (positions b). (lng p * kx - lng q * kx) * (lng p * kx - lng q * kx) +
         (lat p * metersPerDegreeLat - lat q * metersPerDegreeLat) * (lat p * metersPerDegreeLat - lat q * metersPerDegreeLat) \<le> m * m)"
    using assms(1) by (auto simp: sidesWithin_def list_ex_iff project_def project_pos_def)
  have K: "0 < metersPerDegreeLat" by (simp add: metersPerDegreeLat_def)
  have "\<exists>q. in_bbox (Bbox b) q \<and> \<bar>lng p * kx - lng q * kx\<bar> \<le> m \<and>
      \<bar>lat p * metersPerDegreeLat - lat q * metersPerDegreeLat\<bar> \<le> m"
    using c
  proof
    assume "\<exists>e \<in> set (projectEdges b kx). pointSegDistSq (project_pos kx p) e \<le> m * m"
    then obtain e where e: "e \<in> set (projectEdges b kx)" "pointSegDistSq (project_pos kx p) e \<le> m * m" by blast
    obtain u v where uv: "u \<in> set (positions b)" "v \<in> set (positions b)"
        "e = (project_pos kx u, project_pos kx v)"
      using projectEdges_mem [OF e(1)] by blast
    obtain t where t: "0 \<le> t" "t \<le> 1"
      "\<bar>lng p * kx - (lng u * kx + t * (lng v * kx - lng u * kx))\<bar> \<le> m"
      "\<bar>lat p * metersPerDegreeLat - (lat u * metersPerDegreeLat + t * (lat v * metersPerDegreeLat - lat u * metersPerDegreeLat))\<bar> \<le> m"
      using pointSeg_close [OF e(2) assms(2)] uv(3) by (auto simp: project_pos_def)
    let ?q = "(lng u + t * (lng v - lng u), lat u + t * (lat v - lat u))"
    have "in_bbox (Bbox b) ?q"
      by (rule in_bbox_convex [OF Bbox_covers [OF uv(1)] Bbox_covers [OF uv(2)] t(1,2)])
    moreover have "lng ?q * kx = lng u * kx + t * (lng v * kx - lng u * kx)"
      "lat ?q * metersPerDegreeLat = lat u * metersPerDegreeLat + t * (lat v * metersPerDegreeLat - lat u * metersPerDegreeLat)"
      by (simp_all add: algebra_simps)
    ultimately show ?thesis using t(3,4) by metis
  next
    assume "\<exists>q \<in> set (positions b). (lng p * kx - lng q * kx) * (lng p * kx - lng q * kx) +
         (lat p * metersPerDegreeLat - lat q * metersPerDegreeLat) * (lat p * metersPerDegreeLat - lat q * metersPerDegreeLat) \<le> m * m"
    then obtain q where q: "q \<in> set (positions b)" "(lng p * kx - lng q * kx) * (lng p * kx - lng q * kx) +
         (lat p * metersPerDegreeLat - lat q * metersPerDegreeLat) * (lat p * metersPerDegreeLat - lat q * metersPerDegreeLat) \<le> m * m"
      by blast
    from sum_squares_le [OF q(2) assms(2)] Bbox_covers [OF q(1)] show ?thesis by blast
  qed
  then obtain q where q: "in_bbox (Bbox b) q" "\<bar>lng p * kx - lng q * kx\<bar> \<le> m"
      "\<bar>lat p * metersPerDegreeLat - lat q * metersPerDegreeLat\<bar> \<le> m" by blast
  from scaled_le [OF assms(3) q(2)] scaled_le [OF K q(3)] q(1) Bbox_covers [OF p]
  show ?thesis unfolding boxes_near_def by blast
qed

lemma inside_near: "anyPositionInside a b \<Longrightarrow> 0 \<le> x \<Longrightarrow> 0 \<le> y \<Longrightarrow> boxes_near a b x y"
proof -
  assume "anyPositionInside a b" "0 \<le> x" "0 \<le> y"
  then obtain p where p: "p \<in> set (positions a)" "PointInGeometry (lat p) (lng p) (Some b)"
    by (auto simp: anyPositionInside_def list_ex_iff)
  have "in_bbox (Bbox b) p"
    using p(2) by (auto simp: PointInGeometry_def in_bbox_def outside_def split: geom.splits)
  with Bbox_covers [OF p(1)] \<open>0 \<le> x\<close> \<open>0 \<le> y\<close> show ?thesis
    unfolding boxes_near_def by (intro exI [of _ p] exI [of _ p]) simp
qed

lemma minCos_le_one: "minCos cosd ls \<le> 1"
proof -
  have "foldl (\<lambda>m l. if cosd l < m then cosd l else m) m ls \<le> m" for m
    by (induction ls arbitrary: m) (auto, smt (verit) order_trans less_imp_le)
  then show ?thesis by (simp add: minCos_def)
qed

text \<open>
  C39: the bounding-box prefilter of \<open>WithinDistance\<close> never drops an attachment: away from the
  poles (every cosine at least a millionth), and as long as the cosine at the mean latitude is
  no smaller than the smallest at the four box edges, it answers what the exact tests answer.
\<close>

theorem proximity_prefilter_safe:
  assumes "0 < meters"
    and "1 / 1000000 \<le> minCos cosd [minLat (Bbox a), maxLat (Bbox a), minLat (Bbox b), maxLat (Bbox b)]"
    and "minCos cosd [minLat (Bbox a), maxLat (Bbox a), minLat (Bbox b), maxLat (Bbox b)]
      \<le> cosd ((minLat (Bbox a) + maxLat (Bbox a) + minLat (Bbox b) + maxLat (Bbox b)) / 4)"
  shows "WithinDistance cosd (Some a) (Some b) meters = near_exact cosd a b meters"
proof -
  define mc where "mc = minCos cosd [minLat (Bbox a), maxLat (Bbox a), minLat (Bbox b), maxLat (Bbox b)]"
  define kx where "kx = metersPerDegreeLat *
    cosd ((minLat (Bbox a) + maxLat (Bbox a) + minLat (Bbox b) + maxLat (Bbox b)) / 4)"
  define padLat where "padLat = meters / metersPerDegreeLat"
  define padLng where "padLng = padLat / mc"
  have K: "0 < metersPerDegreeLat" by (simp add: metersPerDegreeLat_def)
  have mc: "0 < mc" "max mc (1 / 1000000) = mc"
    using assms(2) by (auto simp: mc_def max_def)
  have kx: "metersPerDegreeLat * mc \<le> kx" "0 < kx"
  proof -
    show "metersPerDegreeLat * mc \<le> kx"
      unfolding kx_def using assms(3) K by (simp add: mc_def)
    moreover have "0 < metersPerDegreeLat * mc" using K mc(1) by simp
    ultimately show "0 < kx" by linarith
  qed
  have pads: "0 \<le> padLat" "0 \<le> padLng"
    using assms(1) K mc(1) by (simp_all add: padLat_def padLng_def)
  have kxpad: "meters / kx \<le> padLng"
  proof -
    have "meters / kx \<le> meters / (metersPerDegreeLat * mc)"
      using kx mc(1) K assms(1) by (intro divide_left_mono) auto
    then show ?thesis by (simp add: padLng_def padLat_def)
  qed
  have pre: "BboxIntersects \<lparr>minLat = minLat (Bbox a) - padLat, minLng = minLng (Bbox a) - padLng,
      maxLat = maxLat (Bbox a) + padLat, maxLng = maxLng (Bbox a) + padLng\<rparr> (Bbox b)"
    if exact: "near_exact cosd a b meters"
  proof -
    have widen: ?thesis if near: "boxes_near a b padLat x" "x \<le> padLng" for x
    proof -
      obtain p q where "in_bbox (Bbox a) p" "in_bbox (Bbox b) q" "\<bar>lat p - lat q\<bar> \<le> padLat" "\<bar>lng p - lng q\<bar> \<le> x"
        using near(1) unfolding boxes_near_def by blast
      with near(2) show ?thesis by (intro bbox_near) auto
    qed
    consider "Intersects (Some a) (Some b)" | "anyPositionInside a b" | "anyPositionInside b a"
      | "separationAtMost a b kx meters"
      using exact by (auto simp: near_exact_def kx_def Let_def)
    then show ?thesis
    proof cases
      case 1
      then have "BboxIntersects (Bbox a) (Bbox b)" by (auto simp: Intersects_def split: if_splits)
      with pads show ?thesis by (auto simp: BboxIntersects_def)
    next
      case 2
      from widen [OF inside_near [OF 2 pads(1) pads(2)]] show ?thesis by simp
    next
      case 3
      have "boxes_near a b padLat padLng"
        using inside_near [OF 3 pads] by (simp add: boxes_near_sym)
      from widen [OF this] show ?thesis by simp
    next
      case 4
      have "boxes_near a b padLat (meters / kx)"
        using 4 sides_near [of a kx b meters] sides_near [of b kx a meters] assms(1) kx(2)
        by (auto simp: separationAtMost_def padLat_def boxes_near_sym [of b a] Let_def)
      from widen [OF this kxpad] show ?thesis .
    qed
  qed
  have "WithinDistance cosd (Some a) (Some b) meters =
      (if \<not> BboxIntersects \<lparr>minLat = minLat (Bbox a) - padLat, minLng = minLng (Bbox a) - padLng,
          maxLat = maxLat (Bbox a) + padLat, maxLng = maxLng (Bbox a) + padLng\<rparr> (Bbox b)
       then False else near_exact cosd a b meters)"
    using assms(1) mc(2) unfolding WithinDistance_def padLng_def padLat_def Let_def mc_def by simp
  with pre show ?thesis by auto
qed

theorem proximity_prefilter_safe_witness:
  "WithinDistance (\<lambda>_. 1 / 2) (Some (Point (0, 0))) (Some (Point (1 / 100, 0))) 1000 =
   near_exact (\<lambda>_. 1 / 2) (Point (0, 0)) (Point (1 / 100, 0)) 1000"
  by (rule proximity_prefilter_safe) (simp_all add: minCos_def)

fun well_formed :: "geom \<Rightarrow> bool" where
  "well_formed (Point p) = True"
| "well_formed (MultiPoint ps) = (1 \<le> length ps)"
| "well_formed (LineString ps) = (2 \<le> length ps)"
| "well_formed (MultiLineString rs) = (rs \<noteq> [] \<and> list_all (\<lambda>r. 2 \<le> length r) rs)"
| "well_formed (Polygon rs) = (rs \<noteq> [] \<and> list_all (\<lambda>r. 3 \<le> length r) rs)"
| "well_formed (MultiPolygon pp) = (pp \<noteq> [] \<and> list_all (\<lambda>rs. rs \<noteq> [] \<and> list_all (\<lambda>r. 3 \<le> length r) rs) pp)"

lemma parseRings_ok:
  assumes "parseRings m j = Inr rs"
  shows "rs \<noteq> [] \<and> list_all (\<lambda>r. (if m then 2 else 3) \<le> length r) rs"
proof -
  let ?f = "\<lambda>rr. rbind (parsePositions rr) (\<lambda>pts.
      if length pts < (if m then 2 else 3) then Inl ''geojson: ring needs more positions'' else Inr pts)"
  obtain raws where r: "raws \<noteq> []" "rmap ?f raws = Inr rs"
    using assms by (auto simp: parseRings_def rbind_eq_Inr split: if_splits)
  moreover have "list_all (\<lambda>r. (if m then 2 else 3) \<le> length r) rs"
    by (rule rmap_all [OF r(2)]) (auto simp: rbind_eq_Inr not_less split: if_splits)
  ultimately show ?thesis using rmap_Nil_iff by blast
qed

lemma parse_coords_ok: "parse_coords ty c = Inr g \<Longrightarrow> well_formed g"
proof -
  assume p: "parse_coords ty c = Inr g"
  have poly: "list_all (\<lambda>rs. rs \<noteq> [] \<and> list_all (\<lambda>r. 3 \<le> length r) rs) ps"
    if "rmap (parseRings False) raws = Inr ps" for raws ps
    by (rule rmap_all [OF that]) (use parseRings_ok [of False] in auto)
  from p show ?thesis
    unfolding parse_coords_def
    by (simp split: if_splits)
      (auto simp: rbind_eq_Inr rmap_Nil_iff not_less poly Suc_le_eq dest!: parseRings_ok split: if_splits)
qed

lemma well_formed_positions: "well_formed g \<Longrightarrow> positions g \<noteq> []"
  by (cases g) (auto simp: neq_Nil_conv list_all_iff Suc_le_length_iff numeral_eq_Suc)

text \<open>
  A geometry that parses is not empty, its polygons have rings of at least three positions
  and its lines at least two, and its bounding box covers every position it has.
\<close>

theorem parsed_well_formed:
  assumes "Parse unmarshal raw = Inr g"
  shows "well_formed g \<and> positions g \<noteq> [] \<and> (\<forall>p \<in> set (positions g). in_bbox (Bbox g) p)"
proof -
  obtain ty c where "parse_coords ty c = Inr g"
    using assms by (auto simp: Parse_def rbind_eq_Inr split: if_splits)
  then have "well_formed g" by (rule parse_coords_ok)
  with well_formed_positions Bbox_covers show ?thesis by blast
qed

theorem parsed_well_formed_witness:
  "\<exists>g. Parse (\<lambda>_. Inr (''LineString'', Some (JArr [JArr [JNum 1, JNum 2], JArr [JNum 3, JNum 4]]))) [] = Inr g \<and>
     length (positions g) = 2 \<and> in_bbox (Bbox g) (3, 4)"
proof -
  let ?u = "\<lambda>_. Inr (''LineString'', Some (JArr [JArr [JNum 1, JNum 2], JArr [JNum 3, JNum 4]]))"
  have p: "Parse ?u [] = Inr (LineString [(1, 2), (3, 4)])"
    by (simp add: Parse_def parse_coords_def parsePositions_def jnums_def)
  from parsed_well_formed [OF p] p show ?thesis by auto
qed

end
