(* ===== verification/Grid.thy ===== *)
theory Grid
  imports Geojson
begin

text \<open>
  The messages of \<open>grid.v1\<close> that the core passes around (the Go types are generated from
  \<open>api/grid/v1/grid.proto\<close>), the severity order, and \<open>ContentHash\<close> of
  \<open>internal/store/events.go\<close>. A pointer field is an option; sub-messages the core only
  copies and compares are kept as their encoded text.
\<close>

section \<open>Enumerations\<close>

datatype layer = LAYER_UNSPECIFIED | WILDFIRE | EVACUATION | WEATHER_ALERT | FIRE_WEATHER | EARTHQUAKE
  | ROAD_INCIDENT | POWER | GAUGE | AIR_QUALITY | MESH
  | ANNOUNCEMENT | BURN_STATUS

definition all_layers :: "layer list" where
  "all_layers = [LAYER_UNSPECIFIED, WILDFIRE, EVACUATION, WEATHER_ALERT, FIRE_WEATHER, EARTHQUAKE,
     ROAD_INCIDENT, POWER, GAUGE, AIR_QUALITY, MESH, ANNOUNCEMENT, BURN_STATUS]"

lemma all_layers [simp]: "l \<in> set all_layers" "distinct all_layers"
  by (cases l; simp add: all_layers_def) (simp add: all_layers_def)

datatype severity = INFO | MINOR | MODERATE | SEVERE | EXTREME

fun severity_rank :: "severity \<Rightarrow> nat" where
  "severity_rank INFO = 0"
| "severity_rank MINOR = 1"
| "severity_rank MODERATE = 2"
| "severity_rank SEVERE = 3"
| "severity_rank EXTREME = 4"

lemma severity_rank_inj: "severity_rank a = severity_rank b \<longleftrightarrow> a = b"
  by (cases a; cases b) auto

instantiation severity :: linorder
begin

definition less_eq_severity :: "severity \<Rightarrow> severity \<Rightarrow> bool" where
  "a \<le> b \<longleftrightarrow> severity_rank a \<le> severity_rank b"

definition less_severity :: "severity \<Rightarrow> severity \<Rightarrow> bool" where
  "a < b \<longleftrightarrow> severity_rank a < severity_rank b"

instance
  by standard (auto simp: less_eq_severity_def less_severity_def severity_rank_inj)

end

datatype event_status = STATUS_UNSPECIFIED | SCHEDULED | ST_ACTIVE | RESOLVED | EXPIRED

datatype place_kind = KIND_UNSPECIFIED | AREA | COUNTY | TOWN | EVAC_ZONE | CORRIDOR | SITE

datatype source_kind = SOURCE_KIND_UNSPECIFIED | FEED | REPORTER

datatype source_status = SOURCE_STATUS_UNSPECIFIED | OK | STALE | UNAVAILABLE

section \<open>Messages\<close>

record enhancement =
  en_model :: string
  en_enhancedAt :: time
  en_fields :: "string list"
  en_request :: string
  en_response :: string

record provenance =
  pv_sourceId :: string
  pv_sourceName :: string
  pv_attribution :: string
  pv_sourceUrl :: string
  pv_fetchedAt :: "time option"

text \<open>The admin telemetry of a node: its nine gauges, each absent or a reading, and its thirteen counters.\<close>

record mesh_admin =
  ad_reporterId :: string
  ad_pctSource :: string
  ad_gauges :: "rat option list"
  ad_counters :: "int list"
  ad_reportedAt :: "time option"
  ad_lastSuccessAt :: "time option"
  ad_lastAttemptAt :: "time option"

record mesh_telemetry =
  mt_snr :: "rat option"
  mt_rssi :: "int option"
  mt_hopCount :: "nat option"
  mt_gateways :: "string list"
  mt_lastAdvertAt :: "time option"
  mt_admin :: "mesh_admin option"

datatype reachability = REACHABILITY_UNSPECIFIED | REACHABLE | UNREACHABLE

record mesh_detail =
  md_publicKey :: string
  md_nodeType :: string
  md_name :: string
  md_telemetry :: "mesh_telemetry option"
  md_reachability :: reachability

record burn_line =
  bl_id :: string
  bl_burnDay :: nat
  bl_observation :: "string option"

record burn_detail =
  bd_answer :: string                \<comment> \<open>the combined answer and CAL FIRE's status\<close>
  bd_lines :: "burn_line list"
  bd_calfireObservedAt :: "time option"

text \<open>The fire detail; the count is an \<open>int32\<close> the core only compares and prints.\<close>

record wildfire_detail =
  wd_acres :: rat
  wd_containment :: int
  wd_county :: string
  wd_cause :: string
  wd_hasPerimeter :: bool

datatype detail = NoDetail | MeshD mesh_detail | BurnD burn_detail | WildfireD wildfire_detail | OtherD string

record geometry =
  gm_geojson :: string
  gm_bbox :: "bbox option"
  gm_centroid :: "(rat \<times> rat) option"

record event =
  e_id :: string
  e_layer :: layer
  e_category :: string
  e_severity :: severity
  e_status :: event_status
  e_headline :: string
  e_summary :: string
  e_description :: string
  e_areaLabel :: string
  e_canonicalUrl :: string
  e_geometry :: "geometry option"
  e_placeIds :: "string list"
  e_provenance :: "provenance option"
  e_effective :: "time option"
  e_expires :: "time option"
  e_observedAt :: "time option"
  e_ingestedAt :: "time option"
  e_revision :: "32 word"
  e_enhancement :: "enhancement option"
  e_detail :: detail

text \<open>Getters on a nil message return the zero value.\<close>

definition source_id :: "event \<Rightarrow> string" where
  "source_id e = (case e_provenance e of None \<Rightarrow> [] | Some p \<Rightarrow> pv_sourceId p)"

definition fetched_at :: "event \<Rightarrow> time option" where
  "fetched_at e = (case e_provenance e of None \<Rightarrow> None | Some p \<Rightarrow> pv_fetchedAt p)"

definition telemetry :: "event \<Rightarrow> mesh_telemetry option" where
  "telemetry e = (case e_detail e of MeshD m \<Rightarrow> md_telemetry m | _ \<Rightarrow> None)"

section \<open>Content hashes\<close>

text \<open>
  What \<open>ContentHash\<close> zeroes before it marshals. Zeroing is field by field, so that the hash
  of two events is the same exactly when they agree on everything else.
\<close>

definition zero_detail :: "detail \<Rightarrow> detail" where
  "zero_detail d = (case d of
     MeshD m \<Rightarrow> MeshD (m\<lparr>md_telemetry := None\<rparr>)
   | BurnD b \<Rightarrow> BurnD (b\<lparr>bd_lines := map (\<lambda>l. l\<lparr>bl_observation := None\<rparr>) (bd_lines b),
                        bd_calfireObservedAt := None\<rparr>)
   | _ \<Rightarrow> d)"

definition zeroed :: "event \<Rightarrow> event" where
  "zeroed e = e\<lparr>e_revision := 0, e_ingestedAt := None, e_observedAt := None,
     e_provenance := map_option (\<lambda>p. p\<lparr>pv_fetchedAt := None\<rparr>) (e_provenance e),
     e_enhancement := None, e_summary := [], e_placeIds := [], e_detail := zero_detail (e_detail e)\<rparr>"

text \<open>\<open>H\<close> is the hex SHA-256 of the deterministic marshal.\<close>

definition ContentHash :: "(event \<Rightarrow> string) \<Rightarrow> event \<Rightarrow> string" where
  "ContentHash H e = H (zeroed e)"

lemma zero_detail_idem [simp]: "zero_detail (zero_detail d) = zero_detail d"
  by (auto simp: zero_detail_def split: detail.splits)

lemma zeroed_idem [simp]: "zeroed (zeroed e) = zeroed e"
  by (simp add: zeroed_def option.map_comp comp_def)

lemma zeroed_ignores [simp]:
  "zeroed (e\<lparr>e_revision := r\<rparr>) = zeroed e"
  "zeroed (e\<lparr>e_ingestedAt := t\<rparr>) = zeroed e"
  "zeroed (e\<lparr>e_observedAt := t\<rparr>) = zeroed e"
  "zeroed (e\<lparr>e_enhancement := x\<rparr>) = zeroed e"
  "zeroed (e\<lparr>e_summary := s\<rparr>) = zeroed e"
  "zeroed (e\<lparr>e_placeIds := ps\<rparr>) = zeroed e"
  by (simp_all add: zeroed_def)

text \<open>Equal zeroed events agree on every hashed field.\<close>

lemma zeroed_eqD:
  assumes "zeroed a = zeroed b"
  shows "e_id a = e_id b" "e_layer a = e_layer b" "e_severity a = e_severity b"
    "e_status a = e_status b" "e_geometry a = e_geometry b" "e_effective a = e_effective b"
    "e_expires a = e_expires b" "source_id a = source_id b"
    "zero_detail (e_detail a) = zero_detail (e_detail b)"
proof -
  note f = arg_cong [OF assms, of e_id] arg_cong [OF assms, of e_layer] arg_cong [OF assms, of e_severity]
    arg_cong [OF assms, of e_status] arg_cong [OF assms, of e_geometry] arg_cong [OF assms, of e_effective]
    arg_cong [OF assms, of e_expires] arg_cong [OF assms, of e_detail]
    arg_cong [OF assms, of e_provenance]
  show "e_id a = e_id b" "e_layer a = e_layer b" "e_severity a = e_severity b"
    "e_status a = e_status b" "e_geometry a = e_geometry b" "e_effective a = e_effective b"
    "e_expires a = e_expires b" "zero_detail (e_detail a) = zero_detail (e_detail b)"
    using f(1-8) by (simp_all add: zeroed_def)
  have "map_option pv_sourceId (map_option (\<lambda>p. p\<lparr>pv_fetchedAt := None\<rparr>) (e_provenance a)) =
      map_option pv_sourceId (map_option (\<lambda>p. p\<lparr>pv_fetchedAt := None\<rparr>) (e_provenance b))"
    using f(9) by (simp add: zeroed_def)
  then show "source_id a = source_id b"
    by (cases "e_provenance a"; cases "e_provenance b") (simp_all add: source_id_def)
qed

end
