(* ===== verification/EventStore.thy ===== *)
theory EventStore
  imports Grid
begin

text \<open>
  The event store of \<open>internal/store/events.go\<close> over the tables of \<open>schema.sql\<close>. A row's
  \<open>proto\<close> blob is the message it encodes. A write is a function from the state under the
  store's mutex to an error or the committed state: \<open>inTx\<close> rolls back on an error, so an error
  leaves the caller's state. Failing SQL statements are the scheduler's faults; the error
  branches here are those of the code itself and of the primary keys.
\<close>

section \<open>Tables\<close>

record event_row =
  er_id :: string
  er_layer :: layer
  er_severity :: severity
  er_status :: event_status
  er_source :: string
  er_effective :: "int option"
  er_expires :: "int option"
  er_observed :: int
  er_ingested :: int
  er_revision :: "32 word"
  er_hash :: string
  er_proto :: event
  er_lastSeen :: int
  er_refreshes :: int

record rev_row =
  rv_event :: string
  rv_revision :: "32 word"
  rv_observed :: int
  rv_ingested :: int
  rv_proto :: event

record place =
  pl_id :: string
  pl_kind :: place_kind
  pl_name :: string
  pl_slug :: string
  pl_parent :: string
  pl_geojson :: string

record parsed_place =
  pp_id :: string
  pp_kind :: place_kind
  pp_geom :: geom
  pp_bbox :: bbox
  pp_cent :: "rat \<times> rat"
  pp_polygonal :: bool

record source_row =
  sr_id :: string
  sr_name :: string
  sr_attribution :: string
  sr_homepage :: string
  sr_kind :: source_kind
  sr_poll :: int
  sr_stale :: "int option"
  sr_expire :: "int option"
  sr_lastSuccess :: "int option"
  sr_lastAttempt :: "int option"
  sr_lastError :: string
  sr_status :: source_status
  sr_disappearance :: string

record store =
  st_events :: "event_row list"
  st_revisions :: "rev_row list"
  st_eventPlaces :: "(string \<times> string) list"
  st_geo :: "(string \<times> bbox) list"
  st_sources :: "source_row list"
  st_places :: "place list"
  st_placesGeo :: "parsed_place list option"
  st_placesVersion :: "64 word"
  st_wildfireBuffer :: rat
  st_townRadius :: rat
  st_refreshVersions :: "layer \<Rightarrow> int"

text \<open>The geometry functions that are parameters.\<close>

record geolib =
  gl_unmarshal :: "string \<Rightarrow> (string \<times> json option) result"
  gl_cos :: "rat \<Rightarrow> rat"
  gl_polyline :: "rat \<times> rat \<Rightarrow> pos list \<Rightarrow> rat result"

abbreviation gparse :: "geolib \<Rightarrow> string \<Rightarrow> geom result" where
  "gparse gl \<equiv> Parse (gl_unmarshal gl)"

abbreviation get_row :: "store \<Rightarrow> string \<Rightarrow> event_row option" where
  "get_row st i \<equiv> tbl_get er_id i (st_events st)"

definition unixOrNil :: "time option \<Rightarrow> int option" where
  "unixOrNil t = map_option unix t"

section \<open>Places\<close>

definition is_polygonal :: "geom \<Rightarrow> bool" where
  "is_polygonal g = (case g of Polygon _ \<Rightarrow> True | MultiPolygon _ \<Rightarrow> True | _ \<Rightarrow> False)"

definition parse_place :: "geolib \<Rightarrow> place \<Rightarrow> parsed_place option" where
  "parse_place gl p =
     (if pl_geojson p = [] then None
      else case gparse gl (pl_geojson p) of
             Inl _ \<Rightarrow> None
           | Inr g \<Rightarrow> Some \<lparr>pp_id = pl_id p, pp_kind = pl_kind p, pp_geom = g, pp_bbox = Bbox g,
                            pp_cent = Centroid g, pp_polygonal = is_polygonal g\<rparr>)"

text \<open>\<open>loadPlaceGeoms\<close>: the parsed places and the store with its cache filled.\<close>

definition loadPlaceGeoms :: "geolib \<Rightarrow> store \<Rightarrow> parsed_place list \<times> store" where
  "loadPlaceGeoms gl st =
     (case st_placesGeo st of
        Some ps \<Rightarrow> (ps, st)
      | None \<Rightarrow> (let out = List.map_filter (parse_place gl) (st_places st)
                 in (out, st\<lparr>st_placesGeo := Some out\<rparr>)))"

definition wildfireBufferedKind :: "place_kind \<Rightarrow> bool" where
  "wildfireBufferedKind k \<longleftrightarrow> k = AREA \<or> k = TOWN"

definition corridorBufferMeters :: rat where "corridorBufferMeters = 1500"

definition corridorBufferDeg :: rat where
  "corridorBufferDeg = corridorBufferMeters / 111000 * (13 / 10)"

record event_geo =
  eg_geom :: "geom option"
  eg_centroid :: "rat \<times> rat"
  eg_bbox :: bbox
  eg_pointLike :: bool
  eg_polygonal :: bool

definition outside_padded :: "bbox \<Rightarrow> rat \<Rightarrow> rat \<Rightarrow> rat \<Rightarrow> bool" where
  "outside_padded b d la lo \<longleftrightarrow>
     la < minLat b - d \<or> la > maxLat b + d \<or> lo < minLng b - d \<or> lo > maxLng b + d"

text \<open>\<open>eventGeo.matches\<close>: the geometry attachment rules.\<close>

definition place_matches :: "geolib \<Rightarrow> event_geo \<Rightarrow> parsed_place \<Rightarrow> bool" where
  "place_matches gl e pl =
     (let (la, lo) = eg_centroid e in
      if eg_pointLike e then
        if outside_padded (pp_bbox pl) corridorBufferDeg la lo then False
        else PointInOrNearGeometry (gl_polyline gl) la lo (Some (pp_geom pl)) corridorBufferMeters
      else if \<not> BboxIntersects (eg_bbox e) (pp_bbox pl) then False
      else if PointInGeometry la lo (Some (pp_geom pl)) then True
      else if \<not> eg_polygonal e then False
      else if PointInGeometry (fst (pp_cent pl)) (snd (pp_cent pl)) (eg_geom e) then True
      else pp_polygonal pl \<and> Intersects (eg_geom e) (Some (pp_geom pl)))"

definition event_geom :: "geolib \<Rightarrow> geometry \<Rightarrow> geom option" where
  "event_geom gl g =
     (if gm_geojson g = [] then None
      else case gparse gl (gm_geojson g) of Inl _ \<Rightarrow> None | Inr x \<Rightarrow> Some x)"

definition event_geo_of :: "geom option \<Rightarrow> (rat \<times> rat) option \<Rightarrow> event_geo option" where
  "event_geo_of eg cen =
     (case eg of
        None \<Rightarrow>
          (case cen of
             None \<Rightarrow> None
           | Some (la, lo) \<Rightarrow> Some \<lparr>eg_geom = None, eg_centroid = (la, lo),
               eg_bbox = \<lparr>minLat = la, minLng = lo, maxLat = la, maxLng = lo\<rparr>,
               eg_pointLike = True, eg_polygonal = False\<rparr>)
      | Some g \<Rightarrow> Some \<lparr>eg_geom = Some g,
               eg_centroid = (case cen of Some c \<Rightarrow> c | None \<Rightarrow> Centroid g),
               eg_bbox = Bbox g,
               eg_pointLike = (case g of Point _ \<Rightarrow> True | _ \<Rightarrow> False),
               eg_polygonal = is_polygonal g\<rparr>)"

definition near_place :: "geolib \<Rightarrow> rat \<Rightarrow> layer \<Rightarrow> event_geo \<Rightarrow> parsed_place \<Rightarrow> bool" where
  "near_place gl wb l e pl =
     (let buffer = (if l = WILDFIRE \<and> wb > 0 then wb else 0);
          g = (case eg_geom e of Some g \<Rightarrow> g | None \<Rightarrow> Point (snd (eg_centroid e), fst (eg_centroid e)))
      in buffer > 0 \<and> wildfireBufferedKind (pp_kind pl) \<and>
         WithinDistance (gl_cos gl) (Some g) (Some (pp_geom pl)) buffer)"

definition matchPlaces :: "geolib \<Rightarrow> event \<Rightarrow> store \<Rightarrow> string list \<times> store" where
  "matchPlaces gl ev st =
     (case e_geometry ev of
        None \<Rightarrow> ([], st)
      | Some g \<Rightarrow>
          (case event_geo_of (event_geom gl g) (gm_centroid g) of
             None \<Rightarrow> ([], st)
           | Some eg \<Rightarrow>
               (let (places, st) = loadPlaceGeoms gl st in
                (map pp_id (filter (\<lambda>pl. place_matches gl eg pl \<or>
                     near_place gl (st_wildfireBuffer st) (e_layer ev) eg pl) places), st))))"

text \<open>\<open>ensureGeometryIndex\<close> changes the event's geometry only.\<close>

definition index_geometry :: "geolib \<Rightarrow> geometry \<Rightarrow> geometry" where
  "index_geometry gl g =
     (if gm_geojson g = [] then g
      else if gm_bbox g \<noteq> None \<and> gm_centroid g \<noteq> None then g
      else (case gparse gl (gm_geojson g) of
              Inl _ \<Rightarrow> g
            | Inr x \<Rightarrow>
                (let g1 = (if gm_bbox g = None then g\<lparr>gm_bbox := Some (Bbox x)\<rparr> else g)
                 in if gm_centroid g1 = None then g1\<lparr>gm_centroid := Some (Centroid x)\<rparr> else g1)))"

definition ensureGeometryIndex :: "geolib \<Rightarrow> event \<Rightarrow> event" where
  "ensureGeometryIndex gl ev = ev\<lparr>e_geometry := map_option (index_geometry gl) (e_geometry ev)\<rparr>"

text \<open>\<open>unionSorted\<close>: without the empty ids and without duplicates, sorted.\<close>

fun dedup :: "string list \<Rightarrow> string list \<Rightarrow> string list" where
  "dedup seen [] = []"
| "dedup seen (x # xs) = (if x = [] \<or> x \<in> set seen then dedup seen xs else x # dedup (x # seen) xs)"

definition unionSorted :: "string list \<Rightarrow> string list \<Rightarrow> string list" where
  "unionSorted a b = sort (dedup [] (a @ b))"

lemma set_dedup: "set (dedup seen xs) = {x \<in> set xs. x \<noteq> [] \<and> x \<notin> set seen}"
  by (induction seen xs rule: dedup.induct) auto

lemma distinct_dedup: "distinct (dedup seen xs)"
  by (induction seen xs rule: dedup.induct) (auto simp: set_dedup)

lemma unionSorted_props [simp]:
  "distinct (unionSorted a b)" "sorted (unionSorted a b)"
  "set (unionSorted a b) = (set a \<union> set b) - {[]}"
  by (auto simp: unionSorted_def distinct_dedup set_dedup)

section \<open>Writing an event\<close>

definition insertRevision :: "string \<Rightarrow> 32 word \<Rightarrow> int \<Rightarrow> int \<Rightarrow> event \<Rightarrow> store \<Rightarrow> store result" where
  "insertRevision i rn obs ing blob st =
     (if list_ex (\<lambda>r. rv_event r = i \<and> rv_revision r = rn) (st_revisions st)
      then Inl (''store: insert revision '' @ i @ '': UNIQUE constraint failed'')
      else Inr (st\<lparr>st_revisions := st_revisions st @
             [\<lparr>rv_event = i, rv_revision = rn, rv_observed = obs, rv_ingested = ing, rv_proto = blob\<rparr>]\<rparr>))"

definition insert_event_place :: "string \<Rightarrow> string \<Rightarrow> (string \<times> string) list \<Rightarrow> (string \<times> string) list result" where
  "insert_event_place i pid t =
     (if (i, pid) \<in> set t then Inl (''store: insert event_places '' @ i @ '': UNIQUE constraint failed'')
      else Inr (t @ [(i, pid)]))"

definition replaceEventPlaces :: "string \<Rightarrow> string list \<Rightarrow> store \<Rightarrow> store result" where
  "replaceEventPlaces i pids st =
     rbind (rfold (insert_event_place i) pids (filter (\<lambda>r. fst r \<noteq> i) (st_eventPlaces st)))
       (\<lambda>t. Inr (st\<lparr>st_eventPlaces := t\<rparr>))"

definition upsertGeo :: "event \<Rightarrow> store \<Rightarrow> store" where
  "upsertGeo ev st =
     (case Option.bind (e_geometry ev) gm_bbox of
        None \<Rightarrow> st\<lparr>st_geo := tbl_del fst (e_id ev) (st_geo st)\<rparr>
      | Some b \<Rightarrow> st\<lparr>st_geo := tbl_put fst (e_id ev, b) (st_geo st)\<rparr>)"

definition burnVolatile :: "burn_detail \<Rightarrow> time option \<times> (string \<times> string option) list" where
  "burnVolatile b = (bd_calfireObservedAt b, map (\<lambda>l. (bl_id l, bl_observation l)) (bd_lines b))"

definition have_places :: "string \<Rightarrow> store \<Rightarrow> string list" where
  "have_places i st = sort (map snd (filter (\<lambda>r. fst r = i) (st_eventPlaces st)))"

text \<open>Which hash-excluded parts of the incoming event replace the stored ones.\<close>

definition enh_changed :: "event \<Rightarrow> event \<Rightarrow> bool" where
  "enh_changed stored ev \<longleftrightarrow> e_enhancement ev \<noteq> None \<and>
     (e_enhancement stored \<noteq> e_enhancement ev \<or> e_summary stored \<noteq> e_summary ev)"

definition tel_changed :: "event \<Rightarrow> event \<Rightarrow> bool" where
  "tel_changed stored ev \<longleftrightarrow> telemetry ev \<noteq> None \<and>
     (case e_detail stored of MeshD m \<Rightarrow> md_telemetry m \<noteq> telemetry ev | _ \<Rightarrow> False)"

definition burn_changed :: "event \<Rightarrow> event \<Rightarrow> bool" where
  "burn_changed stored ev \<longleftrightarrow>
     (case (e_detail ev, e_detail stored) of
        (BurnD i, BurnD h) \<Rightarrow> burnVolatile i \<noteq> burnVolatile h \<or> e_observedAt ev \<noteq> e_observedAt stored \<or>
          fetched_at ev \<noteq> fetched_at stored
      | _ \<Rightarrow> False)"

definition take_fetched :: "event \<Rightarrow> provenance option \<Rightarrow> provenance option" where
  "take_fetched ev p =
     (case (p, e_provenance ev) of
        (Some sp, Some _) \<Rightarrow> Some (sp\<lparr>pv_fetchedAt := fetched_at ev\<rparr>)
      | _ \<Rightarrow> p)"

definition refresh_blob :: "event \<Rightarrow> string list \<Rightarrow> event \<Rightarrow> event" where
  "refresh_blob ev want stored0 =
     (let stored = stored0\<lparr>e_placeIds := want\<rparr>;
          stored = (if enh_changed stored0 ev
                    then stored\<lparr>e_enhancement := e_enhancement ev, e_summary := e_summary ev\<rparr> else stored);
          stored = (if tel_changed stored0 ev
                    then (case e_detail stored of
                            MeshD m \<Rightarrow> stored\<lparr>e_detail := MeshD (m\<lparr>md_telemetry := telemetry ev\<rparr>)\<rparr>
                          | _ \<Rightarrow> stored)
                    else stored)
      in (if burn_changed stored0 ev
          then stored\<lparr>e_detail := e_detail ev, e_observedAt := e_observedAt ev,
                      e_provenance := take_fetched ev (e_provenance stored)\<rparr>
          else stored))"

definition update_row :: "string \<Rightarrow> (event_row \<Rightarrow> event_row) \<Rightarrow> store \<Rightarrow> store" where
  "update_row i f st = st\<lparr>st_events := map (\<lambda>r. if er_id r = i then f r else r) (st_events st)\<rparr>"

definition refresh_row :: "event \<Rightarrow> event_row \<Rightarrow> event_row" where
  "refresh_row blob r =
     (case e_observedAt blob of
        Some t \<Rightarrow> r\<lparr>er_proto := blob, er_observed := unix t, er_refreshes := er_refreshes r + 1\<rparr>
      | None \<Rightarrow> r\<lparr>er_proto := blob, er_refreshes := er_refreshes r + 1\<rparr>)"

text \<open>\<open>refreshEventPlaces\<close>: whether it rewrote the row, and the state.\<close>

definition refreshEventPlaces :: "geolib \<Rightarrow> event \<Rightarrow> store \<Rightarrow> (bool \<times> store) result" where
  "refreshEventPlaces gl ev st0 =
     (let c = ensureGeometryIndex gl ev; (matched, st) = matchPlaces gl c st0;
          want = unionSorted (e_placeIds ev) matched;
          placesChanged = (want \<noteq> have_places (e_id ev) st) in
      case get_row st (e_id ev) of
        None \<Rightarrow> Inl (''store: load event '' @ e_id ev @ '' for refresh: no rows'')
      | Some row \<Rightarrow>
          (let stored = er_proto row in
           if \<not> placesChanged \<and> \<not> enh_changed stored ev \<and> \<not> tel_changed stored ev \<and> \<not> burn_changed stored ev
           then Inr (False, st)
           else
             rbind (if placesChanged then replaceEventPlaces (e_id ev) want st else Inr st) (\<lambda>st.
               Inr (True, update_row (e_id ev) (refresh_row (refresh_blob ev want stored)) st))))"

record upsert_result =
  ur_changed :: bool
  ur_revision :: "32 word"

definition content_row :: "event \<Rightarrow> string \<Rightarrow> int \<Rightarrow> time \<Rightarrow> event_row option \<Rightarrow> event_row" where
  "content_row c hash obs now old =
     \<lparr>er_id = e_id c, er_layer = e_layer c, er_severity = e_severity c, er_status = e_status c,
      er_source = source_id c, er_effective = unixOrNil (e_effective c), er_expires = unixOrNil (e_expires c),
      er_observed = obs, er_ingested = unix now, er_revision = e_revision c, er_hash = hash, er_proto = c,
      er_lastSeen = unix now, er_refreshes = (case old of None \<Rightarrow> 0 | Some r \<Rightarrow> er_refreshes r)\<rparr>"

text \<open>The statement that writes the row; \<open>source_id\<close> references the sources table.\<close>

definition put_event :: "event_row \<Rightarrow> store \<Rightarrow> store result" where
  "put_event row st =
     (if er_source row \<notin> sr_id ` set (st_sources st)
      then Inl (''store: upsert event '' @ er_id row @ '': FOREIGN KEY constraint failed'')
      else Inr (st\<lparr>st_events := tbl_put er_id row (st_events st)\<rparr>))"

text \<open>The blob a content write stores: geometry indexed, places attached.\<close>

definition content_blob :: "geolib \<Rightarrow> event \<Rightarrow> 32 word \<Rightarrow> time \<Rightarrow> store \<Rightarrow> event" where
  "content_blob gl ev rn now st =
     (let c = ensureGeometryIndex gl (ev\<lparr>e_revision := rn, e_ingestedAt := Some now\<rparr>)
      in c\<lparr>e_placeIds := unionSorted (e_placeIds ev) (fst (matchPlaces gl c st))\<rparr>)"

definition write_content :: "geolib \<Rightarrow> event \<Rightarrow> string \<Rightarrow> 32 word \<Rightarrow> time \<Rightarrow> store \<Rightarrow> store result" where
  "write_content gl ev hash rn now st0 =
     (let c = content_blob gl ev rn now st0; st = snd (matchPlaces gl c st0);
          obs = (case e_observedAt c of Some t \<Rightarrow> unix t | None \<Rightarrow> unix now) in
      rbind (put_event (content_row c hash obs now (get_row st (e_id c))) st) (\<lambda>st.
      rbind (insertRevision (e_id c) rn obs (unix now) c st) (\<lambda>st.
      rbind (replaceEventPlaces (e_id c) (e_placeIds c) st) (\<lambda>st.
      Inr (upsertGeo c st)))))"

definition bumpRefreshVersion :: "layer \<Rightarrow> store \<Rightarrow> store" where
  "bumpRefreshVersion l st = st\<lparr>st_refreshVersions := (st_refreshVersions st)(l := st_refreshVersions st l + 1)\<rparr>"

definition UpsertEvent :: "(event \<Rightarrow> string) \<Rightarrow> geolib \<Rightarrow> event \<Rightarrow> time \<Rightarrow> store \<Rightarrow> (upsert_result \<times> store) result" where
  "UpsertEvent H gl ev now st =
     (if e_id ev = [] then Inl ''store: upsert event with empty id''
      else
        (let hash = ContentHash H ev in
         case get_row st (e_id ev) of
           None \<Rightarrow>
             rbind (write_content gl ev hash 1 now st) (\<lambda>st.
               Inr (\<lparr>ur_changed = True, ur_revision = 1\<rparr>, st))
         | Some old \<Rightarrow>
             if er_hash old = hash then
               rbind (refreshEventPlaces gl ev st) (\<lambda>(rewrote, st).
                 Inr (\<lparr>ur_changed = False, ur_revision = er_revision old\<rparr>,
                      if rewrote then bumpRefreshVersion (e_layer ev) st else st))
             else
               rbind (write_content gl ev hash (er_revision old + 1) now st) (\<lambda>st.
                 Inr (\<lparr>ur_changed = True, ur_revision = er_revision old + 1\<rparr>, st))))"

section \<open>Transitions and liveness\<close>

definition transition_blob :: "event_status \<Rightarrow> time \<Rightarrow> time \<Rightarrow> event \<Rightarrow> event" where
  "transition_blob to obs now ev =
     ev\<lparr>e_status := to, e_observedAt := Some obs, e_ingestedAt := Some now, e_revision := e_revision ev + 1\<rparr>"

definition transition_row :: "(event \<Rightarrow> string) \<Rightarrow> event \<Rightarrow> time \<Rightarrow> time \<Rightarrow> event_row \<Rightarrow> event_row" where
  "transition_row H ev obs now r =
     r\<lparr>er_status := e_status ev, er_observed := unix obs, er_ingested := unix now,
       er_revision := e_revision ev, er_hash := ContentHash H ev, er_proto := ev\<rparr>"

definition transition_one :: "(event \<Rightarrow> string) \<Rightarrow> event_status \<Rightarrow> time \<Rightarrow> time \<Rightarrow> string \<Rightarrow> store \<Rightarrow> store result" where
  "transition_one H to obs now i st =
     (case get_row st i of
        None \<Rightarrow> Inr st
      | Some row \<Rightarrow>
          if e_status (er_proto row) = to then Inr st
          else
            (let ev = transition_blob to obs now (er_proto row) in
             insertRevision i (e_revision ev) (unix obs) (unix now) ev
               (update_row i (transition_row H ev obs now) st)))"

definition TransitionEvents :: "(event \<Rightarrow> string) \<Rightarrow> string list \<Rightarrow> event_status \<Rightarrow> time \<Rightarrow> time \<Rightarrow> store \<Rightarrow> store result" where
  "TransitionEvents H ids to obs now st = rfold (transition_one H to obs now) ids st"

definition touched :: "string list \<Rightarrow> time \<Rightarrow> event_row \<Rightarrow> bool" where
  "touched ids staleBefore r \<longleftrightarrow> er_id r \<in> set ids \<and> er_lastSeen r < unix staleBefore"

definition TouchSeen :: "string list \<Rightarrow> time \<Rightarrow> time \<Rightarrow> store \<Rightarrow> nat \<times> store" where
  "TouchSeen ids t staleBefore st =
     (length (filter (touched ids staleBefore) (st_events st)),
      st\<lparr>st_events := map (\<lambda>r. if touched ids staleBefore r then r\<lparr>er_lastSeen := unix t\<rparr> else r) (st_events st)\<rparr>)"

section \<open>Reading\<close>

text \<open>\<open>ContentHashes\<close>: one query per batch of at most 900 ids.\<close>

definition maxHashBatch :: nat where "maxHashBatch = 900"

definition hash_query :: "string list \<Rightarrow> store \<Rightarrow> (string \<times> string) list" where
  "hash_query chunk st = map (\<lambda>r. (er_id r, er_hash r)) (filter (\<lambda>r. er_id r \<in> set chunk) (st_events st))"

function ContentHashes :: "string list \<Rightarrow> store \<Rightarrow> (string \<rightharpoonup> string) \<Rightarrow> (string \<rightharpoonup> string)" where
  "ContentHashes ids st out =
     (if ids = [] then out
      else ContentHashes (drop maxHashBatch ids) st
             (foldl (\<lambda>m (k, v). m(k \<mapsto> v)) out (hash_query (take maxHashBatch ids) st)))"
  by pat_completeness auto
termination
  by (relation "measure (\<lambda>(ids, _, _). length ids)") (auto simp: maxHashBatch_def)

declare ContentHashes.simps [simp del]

definition NeedsUpdate :: "(event \<Rightarrow> string) \<Rightarrow> event \<Rightarrow> store \<Rightarrow> bool" where
  "NeedsUpdate H ev st = (case get_row st (e_id ev) of None \<Rightarrow> True | Some r \<Rightarrow> er_hash r \<noteq> ContentHash H ev)"

record stored_event =
  se_event :: event
  se_lastSeen :: "time option"

definition is_live :: "event_status \<Rightarrow> bool" where
  "is_live s \<longleftrightarrow> s = ST_ACTIVE \<or> s = SCHEDULED"

definition ActiveEventsBySource :: "string \<Rightarrow> store \<Rightarrow> stored_event list" where
  "ActiveEventsBySource src st =
     map (\<lambda>r. \<lparr>se_event = er_proto r,
               se_lastSeen = (if er_lastSeen r > 0 then Some (fromUnix (er_lastSeen r)) else None)\<rparr>)
       (sort_key er_id (filter (\<lambda>r. er_source r = src \<and> is_live (er_status r)) (st_events st)))"

definition EventsBySourceAndStatus :: "string \<Rightarrow> event_status list \<Rightarrow> store \<Rightarrow> event list" where
  "EventsBySourceAndStatus src statuses st =
     (if statuses = [] then []
      else map er_proto (sort_key er_id
             (filter (\<lambda>r. er_source r = src \<and> er_status r \<in> set statuses) (st_events st))))"

definition GetEvent :: "string \<Rightarrow> store \<Rightarrow> event option" where
  "GetEvent i st = map_option er_proto (get_row st i)"

definition EventVersion :: "string \<Rightarrow> store \<Rightarrow> (32 word \<times> int) option" where
  "EventVersion i st = map_option (\<lambda>r. (er_revision r, er_refreshes r)) (get_row st i)"

definition RefreshVersion :: "layer list \<Rightarrow> store \<Rightarrow> int" where
  "RefreshVersion ls st =
     (if ls = [] then sum_list (map (st_refreshVersions st) all_layers)
      else sum_list (map (st_refreshVersions st) (remdups ls)))"

definition DataVersion :: "store \<Rightarrow> nat" where
  "DataVersion st = length (st_revisions st)"

end
