(* ===== verification/EventHistory.thy ===== *)
theory EventHistory
  imports EventStore
begin

text \<open>
  What the event store keeps: the columns re-derive from the blob, an event's revisions are
  exactly 1 up to its current one, \<open>event_places\<close> and the R*Tree mirror the blob, and every
  write of the scheduler preserves all of it. On that rest the functional behaviour of
  \<open>UpsertEvent\<close> and \<open>TransitionEvents\<close>.
\<close>

section \<open>The invariant\<close>

text \<open>Columns are indexes of the blob.\<close>

definition row_ok :: "event_row \<Rightarrow> bool" where
  "row_ok r \<longleftrightarrow> er_id r = e_id (er_proto r) \<and> er_id r \<noteq> [] \<and> er_layer r = e_layer (er_proto r) \<and>
     er_severity r = e_severity (er_proto r) \<and> er_status r = e_status (er_proto r) \<and>
     er_source r = source_id (er_proto r) \<and> er_effective r = unixOrNil (e_effective (er_proto r)) \<and>
     er_expires r = unixOrNil (e_expires (er_proto r)) \<and> er_revision r = e_revision (er_proto r) \<and>
     unixOrNil (e_ingestedAt (er_proto r)) = Some (er_ingested r) \<and>
     (\<forall>t. e_observedAt (er_proto r) = Some t \<longrightarrow> er_observed r = unix t)"

definition revs_of :: "string \<Rightarrow> store \<Rightarrow> 32 word list" where
  "revs_of i st = map rv_revision (filter (\<lambda>r. rv_event r = i) (st_revisions st))"

definition hist_ok :: "store \<Rightarrow> bool" where
  "hist_ok st \<longleftrightarrow> (\<forall>i. revs_of i st =
     (case get_row st i of None \<Rightarrow> [] | Some r \<Rightarrow> map word_of_nat [1..<Suc (unat (er_revision r))]))"

definition geo_of :: "event \<Rightarrow> bbox option" where
  "geo_of ev = Option.bind (e_geometry ev) gm_bbox"

definition mirror_ok :: "store \<Rightarrow> event_row \<Rightarrow> bool" where
  "mirror_ok st r \<longleftrightarrow> have_places (er_id r) st = e_placeIds (er_proto r) \<and>
     tbl_get fst (er_id r) (st_geo st) = map_option (Pair (er_id r)) (geo_of (er_proto r)) \<and>
     er_source r \<in> sr_id ` set (st_sources st)"

definition places_cached :: "geolib \<Rightarrow> store \<Rightarrow> bool" where
  "places_cached gl st \<longleftrightarrow>
     (\<forall>ps. st_placesGeo st = Some ps \<longrightarrow> ps = List.map_filter (parse_place gl) (st_places st))"

definition store_ok :: "geolib \<Rightarrow> store \<Rightarrow> bool" where
  "store_ok gl st \<longleftrightarrow> tbl_ok er_id (st_events st) \<and> tbl_ok fst (st_geo st) \<and>
     distinct (st_eventPlaces st) \<and> (\<forall>r \<in> set (st_events st). row_ok r \<and> mirror_ok st r) \<and>
     hist_ok st \<and> places_cached gl st \<and> [] \<notin> sr_id ` set (st_sources st)"

definition newStore :: "source_row list \<Rightarrow> place list \<Rightarrow> rat \<Rightarrow> rat \<Rightarrow> store" where
  "newStore srcs places wb tr = \<lparr>st_events = [], st_revisions = [], st_eventPlaces = [], st_geo = [],
     st_sources = srcs, st_places = places, st_placesGeo = None, st_placesVersion = 0,
     st_wildfireBuffer = wb, st_townRadius = tr, st_refreshVersions = (\<lambda>_. 0)\<rparr>"

lemma newStore_ok: "[] \<notin> sr_id ` set srcs \<Longrightarrow> store_ok gl (newStore srcs places wb tr)"
  by (simp add: store_ok_def newStore_def hist_ok_def revs_of_def places_cached_def)

section \<open>Frames\<close>

lemma insertRevision_Inr:
  "insertRevision i rn obs ing blob st = Inr st' \<longleftrightarrow>
     rn \<notin> set (revs_of i st) \<and>
     st' = st\<lparr>st_revisions := st_revisions st @
             [\<lparr>rv_event = i, rv_revision = rn, rv_observed = obs, rv_ingested = ing, rv_proto = blob\<rparr>]\<rparr>"
  by (auto simp: insertRevision_def revs_of_def list_ex_iff)

lemma rfold_insert_places:
  assumes "distinct pids" and "\<forall>p \<in> set pids. (i, p) \<notin> set t"
  shows "rfold (insert_event_place i) pids t = Inr (t @ map (Pair i) pids)"
  using assms
proof (induction pids arbitrary: t)
  case Nil
  then show ?case by simp
next
  case (Cons a pids)
  have "rfold (insert_event_place i) pids (t @ [(i, a)]) = Inr ((t @ [(i, a)]) @ map (Pair i) pids)"
    by (rule Cons.IH) (use Cons.prems in auto)
  moreover have "insert_event_place i a t = Inr (t @ [(i, a)])"
    using Cons.prems by (simp add: insert_event_place_def)
  ultimately show ?case by simp
qed

lemma replaceEventPlaces_distinct:
  assumes "distinct pids"
  shows "replaceEventPlaces i pids st =
    Inr (st\<lparr>st_eventPlaces := filter (\<lambda>r. fst r \<noteq> i) (st_eventPlaces st) @ map (Pair i) pids\<rparr>)"
proof -
  have "\<forall>p \<in> set pids. (i, p) \<notin> set (filter (\<lambda>r. fst r \<noteq> i) (st_eventPlaces st))" by simp
  from rfold_insert_places [OF assms this] show ?thesis by (simp add: replaceEventPlaces_def)
qed

lemma have_places_replaced:
  "have_places j (st\<lparr>st_eventPlaces := filter (\<lambda>r. fst r \<noteq> i) (st_eventPlaces st) @ map (Pair i) pids\<rparr>) =
     (if j = i then sort pids else have_places j st)"
proof (cases "j = i")
  case True
  have "filter (\<lambda>r. fst r = i) (filter (\<lambda>r. fst r \<noteq> i) xs @ map (Pair i) pids) = map (Pair i) pids" for xs
    by (simp add: filter_empty_conv)
  with True show ?thesis by (simp add: have_places_def comp_def)
next
  case False
  have "filter (\<lambda>r. fst r = j) (filter (\<lambda>r. fst r \<noteq> i) xs @ map (Pair i) pids) = filter (\<lambda>r. fst r = j) xs" for xs
    using False by (induction xs) auto
  with False show ?thesis by (simp add: have_places_def)
qed

lemma distinct_replaced:
  "distinct (st_eventPlaces st) \<Longrightarrow> distinct pids \<Longrightarrow>
   distinct (filter (\<lambda>r. fst r \<noteq> i) (st_eventPlaces st) @ map (Pair i) pids)"
  by (auto simp: distinct_map inj_on_def)

text \<open>Matching places changes nothing but the geometry cache, and fills it with the parsed places.\<close>

lemma loadPlaceGeoms_frame:
  assumes "places_cached gl st"
  shows "fst (loadPlaceGeoms gl st) = List.map_filter (parse_place gl) (st_places st)"
    and "\<exists>x. snd (loadPlaceGeoms gl st) = st\<lparr>st_placesGeo := x\<rparr> \<and> places_cached gl (st\<lparr>st_placesGeo := x\<rparr>)"
proof -
  show "fst (loadPlaceGeoms gl st) = List.map_filter (parse_place gl) (st_places st)"
    using assms by (auto simp: loadPlaceGeoms_def places_cached_def Let_def split: option.splits)
  show "\<exists>x. snd (loadPlaceGeoms gl st) = st\<lparr>st_placesGeo := x\<rparr> \<and> places_cached gl (st\<lparr>st_placesGeo := x\<rparr>)"
    using assms
    by (cases "st_placesGeo st")
      (auto simp: loadPlaceGeoms_def places_cached_def Let_def intro: exI [of _ "st_placesGeo st"])
qed

lemma matchPlaces_frame:
  assumes "places_cached gl st"
  shows "\<exists>x. snd (matchPlaces gl c st) = st\<lparr>st_placesGeo := x\<rparr> \<and> places_cached gl (st\<lparr>st_placesGeo := x\<rparr>)"
proof -
  have same: "\<exists>x. st = st\<lparr>st_placesGeo := x\<rparr> \<and> places_cached gl (st\<lparr>st_placesGeo := x\<rparr>)"
    using assms by (intro exI [of _ "st_placesGeo st"]) simp
  show ?thesis
    using same loadPlaceGeoms_frame(2) [OF assms]
    by (auto simp: matchPlaces_def Let_def split: option.splits prod.splits)
qed

text \<open>The matched ids depend only on the places, the buffer and the event.\<close>

definition place_hits :: "geolib \<Rightarrow> event \<Rightarrow> place list \<Rightarrow> rat \<Rightarrow> string list" where
  "place_hits gl ev places wb =
     (case e_geometry ev of
        None \<Rightarrow> []
      | Some g \<Rightarrow>
          (case event_geo_of (event_geom gl g) (gm_centroid g) of
             None \<Rightarrow> []
           | Some eg \<Rightarrow> map pp_id (filter (\<lambda>pl. place_matches gl eg pl \<or> near_place gl wb (e_layer ev) eg pl)
                (List.map_filter (parse_place gl) places))))"

lemma matchPlaces_hits:
  assumes "places_cached gl st"
  shows "fst (matchPlaces gl ev st) = place_hits gl ev (st_places st) (st_wildfireBuffer st)"
proof -
  obtain ps st' where l: "loadPlaceGeoms gl st = (ps, st')" by (cases "loadPlaceGeoms gl st")
  have "ps = List.map_filter (parse_place gl) (st_places st)" "st_wildfireBuffer st' = st_wildfireBuffer st"
    using loadPlaceGeoms_frame [OF assms] l by auto
  then show ?thesis
    by (auto simp: matchPlaces_def place_hits_def l split: option.splits)
qed

text \<open>The geometry cache is invisible to everything else.\<close>

lemma cache_irrelevant [simp]:
  "hist_ok (st\<lparr>st_placesGeo := x\<rparr>) = hist_ok st"
  "mirror_ok (st\<lparr>st_placesGeo := x\<rparr>) r = mirror_ok st r"
  "have_places i (st\<lparr>st_placesGeo := x\<rparr>) = have_places i st"
  by (simp_all add: hist_ok_def revs_of_def mirror_ok_def have_places_def)

lemma matchPlaces_ok:
  assumes "store_ok gl st"
  shows "\<exists>x. snd (matchPlaces gl c st) = st\<lparr>st_placesGeo := x\<rparr> \<and> store_ok gl (st\<lparr>st_placesGeo := x\<rparr>)"
  using matchPlaces_frame [of gl st c] assms by (auto simp: store_ok_def)

section \<open>Content writes\<close>

lemma content_blob_fields [simp]:
  "e_id (content_blob gl ev rn now st) = e_id ev"
  "e_layer (content_blob gl ev rn now st) = e_layer ev"
  "e_status (content_blob gl ev rn now st) = e_status ev"
  "e_severity (content_blob gl ev rn now st) = e_severity ev"
  "e_revision (content_blob gl ev rn now st) = rn"
  "e_ingestedAt (content_blob gl ev rn now st) = Some now"
  "e_observedAt (content_blob gl ev rn now st) = e_observedAt ev"
  "e_enhancement (content_blob gl ev rn now st) = e_enhancement ev"
  "e_summary (content_blob gl ev rn now st) = e_summary ev"
  "e_detail (content_blob gl ev rn now st) = e_detail ev"
  "e_provenance (content_blob gl ev rn now st) = e_provenance ev"
  "source_id (content_blob gl ev rn now st) = source_id ev"
  by (simp_all add: content_blob_def ensureGeometryIndex_def source_id_def Let_def)

lemma content_blob_places:
  "sorted (e_placeIds (content_blob gl ev rn now st)) \<and> distinct (e_placeIds (content_blob gl ev rn now st))"
  by (simp add: content_blob_def Let_def)

lemma sorted_distinct_sort: "sorted xs \<Longrightarrow> sort xs = (xs :: string list)"
  by (simp add: sorted_sort_id)

text \<open>The next revision number, and that it does not wrap before \<open>2 ^ 32\<close> revisions are stored.\<close>

definition next_rev :: "store \<Rightarrow> string \<Rightarrow> 32 word" where
  "next_rev st i = (case get_row st i of None \<Rightarrow> 1 | Some r \<Rightarrow> er_revision r + 1)"

definition room :: "store \<Rightarrow> bool" where
  "room st \<longleftrightarrow> length (st_revisions st) < 2 ^ 32 - 1"

lemma unat_Suc32: "Suc (unat w) < 2 ^ 32 \<Longrightarrow> unat (w + 1 :: 32 word) = Suc (unat w)"
  by (simp add: unat_word_ariths)

lemma hist_length: "hist_ok st \<Longrightarrow> get_row st i = Some r \<Longrightarrow> unat (er_revision r) \<le> length (st_revisions st)"
proof -
  assume "hist_ok st" "get_row st i = Some r"
  then have "revs_of i st = map word_of_nat [1..<Suc (unat (er_revision r))]" by (simp add: hist_ok_def)
  then have "length (filter (\<lambda>r. rv_event r = i) (st_revisions st)) = unat (er_revision r)"
    by (auto simp: revs_of_def dest: arg_cong [of _ _ length])
  then show ?thesis by (metis length_filter_le)
qed

lemma next_rev_history:
  assumes "hist_ok st" and "room st"
  shows "revs_of i st @ [next_rev st i] = map word_of_nat [1..<Suc (unat (next_rev st i))]"
    and "next_rev st i \<notin> set (revs_of i st)"
proof -
  have *: "revs_of i st @ [next_rev st i] = map word_of_nat [1..<Suc (unat (next_rev st i))] \<and>
      revs_of i st = map word_of_nat [1..<unat (next_rev st i)]"
  proof (cases "get_row st i")
    case None
    then show ?thesis using assms(1) by (simp add: hist_ok_def next_rev_def)
  next
    case (Some r)
    have "Suc (unat (er_revision r)) < 2 ^ 32"
      using hist_length [OF assms(1) Some] assms(2) by (simp add: room_def)
    from unat_Suc32 [OF this] have u: "unat (er_revision r + 1) = Suc (unat (er_revision r))" .
    have "revs_of i st = map word_of_nat [1..<Suc (unat (er_revision r))]"
      using assms(1) Some by (simp add: hist_ok_def)
    moreover have "(word_of_nat (Suc (unat (er_revision r))) :: 32 word) = er_revision r + 1"
      by (simp add: add.commute)
    ultimately show ?thesis using Some u by (simp add: next_rev_def)
  qed
  then show "revs_of i st @ [next_rev st i] = map word_of_nat [1..<Suc (unat (next_rev st i))]" by (rule conjunct1)
  show "next_rev st i \<notin> set (revs_of i st)"
  proof
    assume "next_rev st i \<in> set (revs_of i st)"
    then obtain k where k: "k < unat (next_rev st i)" "next_rev st i = word_of_nat k"
      using * by auto
    have "unat (next_rev st i) < 2 ^ LENGTH(32)" by (rule unsigned_less)
    then have "k < 2 ^ 32" using k(1) by simp
    then have "unat (next_rev st i) = k"
      unfolding k(2) by (simp add: unsigned_of_nat take_bit_nat_eq_self)
    with k(1) show False by simp
  qed
qed

lemma row_proto_id: "store_ok gl st \<Longrightarrow> get_row st i = Some r \<Longrightarrow>
    row_ok r \<and> mirror_ok st r \<and> er_id r = i \<and> r \<in> set (st_events st)"
  using tbl_get_Some [of er_id i "st_events st" r] by (auto simp: store_ok_def)

text \<open>
  A content write on a good store: what it returns, field by field. \<open>c\<close> is the blob written.
\<close>

definition written :: "event \<Rightarrow> event_row \<Rightarrow> store \<Rightarrow> store \<Rightarrow> bool" where
  "written c row st st' \<longleftrightarrow> get_row st' (e_id c) = Some row \<and>
     st_events st' = tbl_put er_id row (st_events st) \<and>
     st_revisions st' = st_revisions st @ [\<lparr>rv_event = e_id c, rv_revision = e_revision c,
        rv_observed = er_observed row, rv_ingested = er_ingested row, rv_proto = c\<rparr>] \<and>
     (\<forall>j. have_places j st' = (if j = e_id c then e_placeIds c else have_places j st)) \<and>
     distinct (st_eventPlaces st') \<and>
     (\<forall>j. tbl_get fst j (st_geo st') = (if j = e_id c then map_option (Pair j) (geo_of c) else tbl_get fst j (st_geo st))) \<and>
     tbl_ok fst (st_geo st') \<and>
     st_sources st' = st_sources st \<and> st_places st' = st_places st \<and>
     st_placesVersion st' = st_placesVersion st \<and>
     st_wildfireBuffer st' = st_wildfireBuffer st \<and> st_refreshVersions st' = st_refreshVersions st"

lemma upsertGeo_get:
  "tbl_get fst j (st_geo (upsertGeo c st)) =
     (if j = e_id c then map_option (Pair j) (geo_of c) else tbl_get fst j (st_geo st))"
  by (auto simp: upsertGeo_def geo_of_def split: option.splits)

lemma upsertGeo_frame [simp]:
  "st_events (upsertGeo c st) = st_events st" "st_revisions (upsertGeo c st) = st_revisions st"
  "st_eventPlaces (upsertGeo c st) = st_eventPlaces st" "st_sources (upsertGeo c st) = st_sources st"
  "st_places (upsertGeo c st) = st_places st" "st_placesGeo (upsertGeo c st) = st_placesGeo st"
  "st_placesVersion (upsertGeo c st) = st_placesVersion st"
  "st_wildfireBuffer (upsertGeo c st) = st_wildfireBuffer st"
  "st_refreshVersions (upsertGeo c st) = st_refreshVersions st"
  "have_places j (upsertGeo c st) = have_places j st"
  "tbl_ok fst (st_geo st) \<Longrightarrow> tbl_ok fst (st_geo (upsertGeo c st))"
  by (auto simp: upsertGeo_def have_places_def split: option.splits)

lemma content_row_fields [simp]:
  "er_id (content_row c h obs now old) = e_id c" "er_source (content_row c h obs now old) = source_id c"
  "er_observed (content_row c h obs now old) = obs" "er_ingested (content_row c h obs now old) = unix now"
  "er_revision (content_row c h obs now old) = e_revision c" "er_hash (content_row c h obs now old) = h"
  "er_proto (content_row c h obs now old) = c" "er_lastSeen (content_row c h obs now old) = unix now"
  "er_status (content_row c h obs now old) = e_status c"
  "er_layer (content_row c h obs now old) = e_layer c"
  by (simp_all add: content_row_def)

lemma write_content_written:
  assumes ok: "store_ok gl st" and "source_id ev \<in> sr_id ` set (st_sources st)" and "room st"
    and c: "c = content_blob gl ev (next_rev st (e_id ev)) now st"
  shows "\<exists>st'. write_content gl ev hash (next_rev st (e_id ev)) now st = Inr st' \<and>
    written c (content_row c hash (case e_observedAt ev of Some t \<Rightarrow> unix t | None \<Rightarrow> unix now) now
      (get_row st (e_id ev))) st st' \<and> places_cached gl st'"
proof -
  let ?obs = "case e_observedAt ev of Some t \<Rightarrow> unix t | None \<Rightarrow> unix now"
  let ?row = "content_row c hash ?obs now (get_row st (e_id ev))"
  obtain x where m: "snd (matchPlaces gl c st) = st\<lparr>st_placesGeo := x\<rparr>" "store_ok gl (st\<lparr>st_placesGeo := x\<rparr>)"
    using matchPlaces_ok [OF ok] by blast
  have cf: "e_id c = e_id ev" "source_id c = source_id ev" "e_observedAt c = e_observedAt ev"
    "e_revision c = next_rev st (e_id ev)"
    by (simp_all add: c)
  have rn: "next_rev st (e_id ev) \<notin> set (revs_of (e_id ev) st)"
    using next_rev_history(2) ok assms(3) by (simp add: store_ok_def)
  let ?s1 = "st\<lparr>st_placesGeo := x, st_events := tbl_put er_id ?row (st_events st)\<rparr>"
  let ?s2 = "?s1\<lparr>st_revisions := st_revisions st @ [\<lparr>rv_event = e_id c, rv_revision = e_revision c,
      rv_observed = ?obs, rv_ingested = unix now, rv_proto = c\<rparr>]\<rparr>"
  let ?s3 = "?s2\<lparr>st_eventPlaces := filter (\<lambda>r. fst r \<noteq> e_id c) (st_eventPlaces st) @ map (Pair (e_id c)) (e_placeIds c)\<rparr>"
  have pl: "sorted (e_placeIds c)" "distinct (e_placeIds c)"
    using content_blob_places by (auto simp: c)
  have s1: "put_event ?row (st\<lparr>st_placesGeo := x\<rparr>) = Inr ?s1"
    using assms(2) cf by (auto simp: put_event_def)
  have s2: "insertRevision (e_id c) (e_revision c) ?obs (unix now) c ?s1 = Inr ?s2"
    using rn cf by (auto simp: insertRevision_Inr revs_of_def)
  have s3: "replaceEventPlaces (e_id c) (e_placeIds c) ?s2 = Inr ?s3"
    using replaceEventPlaces_distinct [OF pl(2), of "e_id c" ?s2] by simp
  have w: "write_content gl ev hash (next_rev st (e_id ev)) now st = Inr (upsertGeo c ?s3)"
    using s1 s2 s3 unfolding write_content_def Let_def c [symmetric] m(1) by (simp add: cf)
  have "have_places j ?s3 = (if j = e_id c then e_placeIds c else have_places j st)" for j
    using have_places_replaced [where j = j and st = ?s2 and i = "e_id c" and pids = "e_placeIds c"] pl(1)
    by (simp add: sorted_distinct_sort) (simp add: have_places_def)
  moreover have "distinct (st_eventPlaces ?s3)"
    using distinct_replaced [where st = st and pids = "e_placeIds c" and i = "e_id c"] ok pl(2) by (simp add: store_ok_def)
  moreover have "tbl_ok fst (st_geo st)" using ok by (simp add: store_ok_def)
  ultimately have "written c ?row st (upsertGeo c ?s3)"
    using cf unfolding written_def by (simp add: upsertGeo_get)
  moreover have "places_cached gl (upsertGeo c ?s3)"
    using m(2) by (simp add: store_ok_def places_cached_def)
  ultimately show ?thesis using w by blast
qed

lemma revs_of_append:
  "st_revisions st' = st_revisions st @ [rw] \<Longrightarrow>
   revs_of j st' = revs_of j st @ (if rv_event rw = j then [rv_revision rw] else [])"
  by (simp add: revs_of_def)

lemma written_ok:
  assumes ok: "store_ok gl st" and "room st" and w: "written c row st st'" and "row_ok row"
    and "er_proto row = c" and "e_revision c = next_rev st (e_id c)" and "er_source row \<in> sr_id ` set (st_sources st)"
    and "places_cached gl st'"
  shows "store_ok gl st'"
proof -
  have id: "er_id row = e_id c" using assms(4,5) by (simp add: row_ok_def)
  have ev: "st_events st' = tbl_put er_id row (st_events st)"
    and rv: "st_revisions st' = st_revisions st @ [\<lparr>rv_event = e_id c, rv_revision = e_revision c,
        rv_observed = er_observed row, rv_ingested = er_ingested row, rv_proto = c\<rparr>]"
    and hp: "\<And>j. have_places j st' = (if j = e_id c then e_placeIds c else have_places j st)"
    and ge: "\<And>j. tbl_get fst j (st_geo st') = (if j = e_id c then map_option (Pair j) (geo_of c) else tbl_get fst j (st_geo st))"
    and rest: "distinct (st_eventPlaces st')" "tbl_ok fst (st_geo st')" "st_sources st' = st_sources st"
    using w by (auto simp: written_def)
  have t: "tbl_ok er_id (st_events st)" and h: "hist_ok st" using ok by (simp_all add: store_ok_def)
  have "row_ok r \<and> mirror_ok st' r" if "r \<in> set (st_events st')" for r
  proof -
    have "r = row \<or> r \<in> set (st_events st) \<and> er_id r \<noteq> e_id c"
      using that tbl_put_set_iff [OF t, of r row] id by (simp add: ev)
    then show ?thesis
    proof
      assume "r = row"
      then show ?thesis
        using assms(4,5,7) id hp ge rest(3) by (simp add: mirror_ok_def)
    next
      assume r: "r \<in> set (st_events st) \<and> er_id r \<noteq> e_id c"
      then have "row_ok r" "mirror_ok st r" using ok by (auto simp: store_ok_def)
      with r show ?thesis using hp ge rest(3) by (simp add: mirror_ok_def)
    qed
  qed
  moreover have "hist_ok st'"
    unfolding hist_ok_def
  proof
    fix j
    show "revs_of j st' = (case get_row st' j of None \<Rightarrow> [] | Some r \<Rightarrow> map word_of_nat [1..<Suc (unat (er_revision r))])"
    proof (cases "j = e_id c")
      case True
      have "er_revision row = next_rev st (e_id c)"
        using assms(4-6) by (simp add: row_ok_def)
      then show ?thesis
        using True next_rev_history(1) [OF h assms(2), of j] assms(6)
        by (simp add: revs_of_append [OF rv] ev id del: upt_Suc)
    next
      case False
      then show ?thesis
        using h by (simp add: revs_of_append [OF rv] ev id hist_ok_def del: upt_Suc)
    qed
  qed
  ultimately show ?thesis
    using t rest assms(8) ok by (simp add: store_ok_def ev)
qed

section \<open>Refreshes\<close>

lemma get_row_update:
  assumes "\<And>r. er_id (f r) = er_id r"
  shows "get_row (update_row i f st) j = (if j = i then map_option f (get_row st i) else get_row st j)"
proof -
  have "tbl_get er_id j (map (\<lambda>r. if er_id r = i then f r else r) (st_events st)) =
      map_option (\<lambda>r. if er_id r = i then f r else r) (tbl_get er_id j (st_events st))"
    by (rule tbl_get_map) (simp add: assms)
  then show ?thesis
    using tbl_get_Some [of er_id j "st_events st"]
    by (cases "get_row st j") (auto simp: update_row_def)
qed

lemma update_row_frame [simp]:
  "st_revisions (update_row i f st) = st_revisions st" "st_eventPlaces (update_row i f st) = st_eventPlaces st"
  "st_geo (update_row i f st) = st_geo st" "st_sources (update_row i f st) = st_sources st"
  "st_places (update_row i f st) = st_places st" "st_placesGeo (update_row i f st) = st_placesGeo st"
  "st_placesVersion (update_row i f st) = st_placesVersion st"
  "st_wildfireBuffer (update_row i f st) = st_wildfireBuffer st"
  "st_refreshVersions (update_row i f st) = st_refreshVersions st"
  "have_places j (update_row i f st) = have_places j st"
  "revs_of j (update_row i f st) = revs_of j st"
  by (simp_all add: update_row_def have_places_def revs_of_def)

lemma update_row_tbl:
  "(\<And>r. er_id (f r) = er_id r) \<Longrightarrow> tbl_ok er_id (st_events (update_row i f st)) = tbl_ok er_id (st_events st)"
  unfolding update_row_def by (simp add: tbl_ok_map)

lemma update_row_ok:
  assumes "store_ok gl st" and "get_row st i = Some row" and "\<And>r. er_id (f r) = er_id r"
    and "row_ok (f row)" and "er_revision (f row) = er_revision row"
    and "geo_of (er_proto (f row)) = geo_of (er_proto row)"
    and "e_placeIds (er_proto (f row)) = have_places i st" and "er_source (f row) = er_source row"
  shows "store_ok gl (update_row i f st)"
proof -
  have t: "tbl_ok er_id (st_events st)" using assms(1) by (simp add: store_ok_def)
  note row = row_proto_id [OF assms(1,2)]
  have "row_ok r \<and> mirror_ok (update_row i f st) r" if mem: "r \<in> set (st_events (update_row i f st))" for r
  proof -
    obtain r0 where r0: "r0 \<in> set (st_events st)" "r = (if er_id r0 = i then f r0 else r0)"
      using mem by (auto simp: update_row_def)
    have ok0: "row_ok r0" "mirror_ok st r0" using assms(1) r0(1) by (auto simp: store_ok_def)
    show ?thesis
    proof (cases "er_id r0 = i")
      case True
      then have "r0 = row" using tbl_get_mem [OF t r0(1)] assms(2) by simp
      then show ?thesis
        using r0(2) True ok0 assms(3-8) by (simp add: mirror_ok_def)
    next
      case False
      then show ?thesis using r0(2) ok0 by (simp add: mirror_ok_def)
    qed
  qed
  moreover have "hist_ok (update_row i f st)"
    using assms(1,2,5) get_row_update [where f = f and i = i and st = st, OF assms(3)]
    by (auto simp: store_ok_def hist_ok_def)
  ultimately show ?thesis
    using assms(1) update_row_tbl [where f = f and i = i and st = st, OF assms(3)] by (simp add: store_ok_def places_cached_def)
qed

lemma refresh_row_fields [simp]:
  "er_id (refresh_row b r) = er_id r" "er_layer (refresh_row b r) = er_layer r"
  "er_severity (refresh_row b r) = er_severity r" "er_status (refresh_row b r) = er_status r"
  "er_source (refresh_row b r) = er_source r" "er_effective (refresh_row b r) = er_effective r"
  "er_expires (refresh_row b r) = er_expires r" "er_ingested (refresh_row b r) = er_ingested r"
  "er_revision (refresh_row b r) = er_revision r" "er_hash (refresh_row b r) = er_hash r"
  "er_proto (refresh_row b r) = b" "er_lastSeen (refresh_row b r) = er_lastSeen r"
  "er_refreshes (refresh_row b r) = er_refreshes r + 1"
  by (auto simp: refresh_row_def split: option.splits)

lemma source_id_fetched: "source_id (e\<lparr>e_provenance := take_fetched ev (e_provenance e)\<rparr>) = source_id e"
  by (auto simp: source_id_def take_fetched_def split: option.splits)

lemma source_id_update [simp]:
  "source_id (e\<lparr>e_placeIds := x\<rparr>) = source_id e" "source_id (e\<lparr>e_detail := d\<rparr>) = source_id e"
  "source_id (e\<lparr>e_enhancement := en\<rparr>) = source_id e" "source_id (e\<lparr>e_summary := s\<rparr>) = source_id e"
  "source_id (e\<lparr>e_observedAt := t\<rparr>) = source_id e"
  by (simp_all add: source_id_def)

lemma refresh_blob_fields:
  "e_id (refresh_blob ev w s) = e_id s" "e_layer (refresh_blob ev w s) = e_layer s"
  "e_severity (refresh_blob ev w s) = e_severity s" "e_status (refresh_blob ev w s) = e_status s"
  "e_geometry (refresh_blob ev w s) = e_geometry s" "e_effective (refresh_blob ev w s) = e_effective s"
  "e_expires (refresh_blob ev w s) = e_expires s" "e_ingestedAt (refresh_blob ev w s) = e_ingestedAt s"
  "e_revision (refresh_blob ev w s) = e_revision s" "e_placeIds (refresh_blob ev w s) = w"
  by (simp_all add: refresh_blob_def Let_def split: detail.split)

lemma refresh_blob_source [simp]: "source_id (refresh_blob ev w s) = source_id s"
proof -
  define s1 where "s1 = (if enh_changed s ev then s\<lparr>e_placeIds := w, e_enhancement := e_enhancement ev, e_summary := e_summary ev\<rparr> else s\<lparr>e_placeIds := w\<rparr>)"
  define s2 where "s2 = (if tel_changed s ev then (case e_detail s1 of MeshD m \<Rightarrow> s1\<lparr>e_detail := MeshD (m\<lparr>md_telemetry := telemetry ev\<rparr>)\<rparr> | _ \<Rightarrow> s1) else s1)"
  have "source_id s1 = source_id s" by (simp add: s1_def)
  then have "source_id s2 = source_id s" by (simp add: s2_def split: detail.split)
  then have "source_id (s2\<lparr>e_detail := e_detail ev, e_observedAt := e_observedAt ev,
      e_provenance := take_fetched ev (e_provenance s2)\<rparr>) = source_id s"
    by (auto simp: source_id_def take_fetched_def split: option.splits)
  moreover have "refresh_blob ev w s = (if burn_changed s ev then s2\<lparr>e_detail := e_detail ev, e_observedAt := e_observedAt ev,
      e_provenance := take_fetched ev (e_provenance s2)\<rparr> else s2)"
    unfolding refresh_blob_def s1_def s2_def Let_def by simp
  ultimately show ?thesis using \<open>source_id s2 = source_id s\<close> by simp
qed

lemma refresh_row_ok: "row_ok r \<Longrightarrow> row_ok (refresh_row (refresh_blob ev w (er_proto r)) r)"
  by (auto simp: row_ok_def refresh_blob_fields refresh_row_def split: option.splits)

text \<open>What a refresh of the row \<open>row\<close> leaves behind, and when it rewrites.\<close>

definition wanted :: "geolib \<Rightarrow> event \<Rightarrow> store \<Rightarrow> string list" where
  "wanted gl ev st = unionSorted (e_placeIds ev)
     (place_hits gl (ensureGeometryIndex gl ev) (st_places st) (st_wildfireBuffer st))"

definition needs_refresh :: "geolib \<Rightarrow> event \<Rightarrow> store \<Rightarrow> event_row \<Rightarrow> bool" where
  "needs_refresh gl ev st row \<longleftrightarrow> wanted gl ev st \<noteq> have_places (e_id ev) st \<or>
     enh_changed (er_proto row) ev \<or> tel_changed (er_proto row) ev \<or> burn_changed (er_proto row) ev"

text \<open>The table after a refresh.\<close>

definition events_after :: "geolib \<Rightarrow> event \<Rightarrow> store \<Rightarrow> event_row \<Rightarrow> store \<Rightarrow> bool" where
  "events_after gl ev st row st' \<longleftrightarrow> st_events st' =
     (if needs_refresh gl ev st row
      then map (\<lambda>r. if er_id r = e_id ev then refresh_row (refresh_blob ev (wanted gl ev st) (er_proto row)) r else r)
             (st_events st)
      else st_events st)"

lemma events_after_same: "\<not> needs_refresh gl ev st row \<Longrightarrow> events_after gl ev st row (st\<lparr>st_placesGeo := x\<rparr>)"
  by (simp add: events_after_def)

lemma refresh_result:
  assumes ok: "store_ok gl st" and row: "get_row st (e_id ev) = Some row"
  shows "\<exists>st'. refreshEventPlaces gl ev st = Inr (needs_refresh gl ev st row, st') \<and> store_ok gl st' \<and>
    st_revisions st' = st_revisions st \<and> st_refreshVersions st' = st_refreshVersions st \<and>
    st_sources st' = st_sources st \<and> st_places st' = st_places st \<and>
    st_wildfireBuffer st' = st_wildfireBuffer st \<and>
    events_after gl ev st row st' \<and>
    (\<forall>j. get_row st' j = (if j = e_id ev \<and> needs_refresh gl ev st row
       then Some (refresh_row (refresh_blob ev (wanted gl ev st) (er_proto row)) row) else get_row st j)) \<and>
    (\<not> needs_refresh gl ev st row \<longrightarrow> (\<exists>x. st' = st\<lparr>st_placesGeo := x\<rparr>))"
proof -
  let ?c = "ensureGeometryIndex gl ev"
  let ?w = "wanted gl ev st"
  obtain x where m: "snd (matchPlaces gl ?c st) = st\<lparr>st_placesGeo := x\<rparr>" "store_ok gl (st\<lparr>st_placesGeo := x\<rparr>)"
    using matchPlaces_ok [OF ok] by blast
  let ?s0 = "st\<lparr>st_placesGeo := x\<rparr>"
  have f: "fst (matchPlaces gl ?c st) = place_hits gl ?c (st_places st) (st_wildfireBuffer st)"
    using matchPlaces_hits ok by (simp add: store_ok_def)
  have mp: "matchPlaces gl ?c st = (place_hits gl ?c (st_places st) (st_wildfireBuffer st), ?s0)"
    by (rule prod_eqI) (simp_all add: f m(1))
  show ?thesis
  proof (cases "needs_refresh gl ev st row")
    case False
    then have "refreshEventPlaces gl ev st = Inr (False, ?s0)"
      using row by (simp add: refreshEventPlaces_def mp Let_def needs_refresh_def wanted_def)
    with False m(2) events_after_same [OF False] show ?thesis by auto
  next
    case True
    define s1 where "s1 = (if ?w \<noteq> have_places (e_id ev) st
      then ?s0\<lparr>st_eventPlaces := filter (\<lambda>r. fst r \<noteq> e_id ev) (st_eventPlaces st) @ map (Pair (e_id ev)) ?w\<rparr> else ?s0)"
    have wd: "distinct ?w" "sorted ?w" by (simp_all add: wanted_def)
    have r1: "(if ?w \<noteq> have_places (e_id ev) ?s0 then replaceEventPlaces (e_id ev) ?w ?s0 else Inr ?s0) = Inr s1"
      using replaceEventPlaces_distinct [OF wd(1), of "e_id ev" ?s0] by (simp add: s1_def)
    have hp: "have_places j s1 = (if j = e_id ev then ?w else have_places j st)" for j
      using have_places_replaced [where j = j and st = ?s0 and i = "e_id ev" and pids = ?w]
        sorted_distinct_sort [OF wd(2)]
      by (auto simp: s1_def)
    let ?f = "refresh_row (refresh_blob ev ?w (er_proto row))"
    let ?s2 = "update_row (e_id ev) ?f s1"
    have "refreshEventPlaces gl ev st = Inr (True, ?s2)"
      using r1 True row
      unfolding refreshEventPlaces_def Let_def mp prod.case wanted_def [symmetric]
      by (simp add: needs_refresh_def)
    moreover have frame: "st_events s1 = st_events st" "st_revisions s1 = st_revisions st"
      "st_refreshVersions s1 = st_refreshVersions st" "st_sources s1 = st_sources st"
      "st_places s1 = st_places st" "st_wildfireBuffer s1 = st_wildfireBuffer st" "st_geo s1 = st_geo st"
      by (simp_all add: s1_def)
    moreover have "store_ok gl ?s2"
    proof -
      note ro = row_proto_id [OF ok row]
      have t: "tbl_ok er_id (st_events st)" using ok by (simp add: store_ok_def)
      have d: "distinct (st_eventPlaces s1)"
        using ok distinct_replaced [of st ?w "e_id ev"] wd(1) by (simp add: s1_def store_ok_def)
      have "row_ok r \<and> mirror_ok ?s2 r" if "r \<in> set (st_events ?s2)" for r
      proof -
        obtain r0 where r0: "r0 \<in> set (st_events st)" "r = (if er_id r0 = e_id ev then ?f r0 else r0)"
          using \<open>r \<in> set (st_events ?s2)\<close> frame(1) by (auto simp: update_row_def)
        have ok0: "row_ok r0" "mirror_ok st r0" using ok r0(1) by (auto simp: store_ok_def)
        show ?thesis
        proof (cases "er_id r0 = e_id ev")
          case True
          then have "r0 = row" using tbl_get_mem [OF t r0(1)] row by simp
          then show ?thesis
            using r0(2) True ok0 refresh_row_ok [of row ev ?w] hp frame
            by (simp add: mirror_ok_def refresh_blob_fields geo_of_def)
        next
          case False
          then show ?thesis using r0(2) ok0 hp frame by (simp add: mirror_ok_def)
        qed
      qed
      moreover have "hist_ok ?s2"
        using ok row get_row_update [where f = ?f and i = "e_id ev" and st = s1] frame
        by (auto simp: store_ok_def hist_ok_def revs_of_def)
      moreover have "tbl_ok er_id (st_events ?s2)"
        using update_row_tbl [where f = ?f and i = "e_id ev" and st = s1] t frame(1) by simp
      ultimately show ?thesis
        using d ok frame m(2) by (simp add: store_ok_def places_cached_def s1_def)
    qed
    moreover have "get_row ?s2 j = (if j = e_id ev then Some (?f row) else get_row st j)" for j
      using get_row_update [where f = ?f and i = "e_id ev" and st = s1 and j = j] frame(1) row by simp
    moreover have "events_after gl ev st row ?s2"
      using True by (simp add: update_row_def frame(1) events_after_def)
    ultimately show ?thesis using True by (intro exI [of _ ?s2]) simp
  qed
qed

end
