(* ===== verification/EventProps.thy ===== *)
theory EventProps
  imports EventHistory "HOL-Library.Sublist"
begin

text \<open>
  What the event store guarantees its callers: the outcome of an upsert on every branch, its
  idempotence, what a transition records, and that the validators the API derives from the
  store's counters never vouch for a changed body.
\<close>

section \<open>Upserts\<close>

text \<open>The hash gate: whether the stored hash is that of the event.\<close>

definition hash_equal :: "(event \<Rightarrow> string) \<Rightarrow> event \<Rightarrow> store \<Rightarrow> bool" where
  "hash_equal H ev st \<longleftrightarrow> (\<exists>old. get_row st (e_id ev) = Some old \<and> er_hash old = ContentHash H ev)"

abbreviation observed_or :: "event \<Rightarrow> time \<Rightarrow> int" where
  "observed_or ev now \<equiv> case e_observedAt ev of Some t \<Rightarrow> unix t | None \<Rightarrow> unix now"

lemma UpsertEvent_write:
  assumes "e_id ev \<noteq> []" and "\<not> hash_equal H ev st"
  shows "UpsertEvent H gl ev now st =
    rbind (write_content gl ev (ContentHash H ev) (next_rev st (e_id ev)) now st)
      (\<lambda>st'. Inr (\<lparr>ur_changed = True, ur_revision = next_rev st (e_id ev)\<rparr>, st'))"
  using assms
  by (cases "get_row st (e_id ev)") (auto simp: UpsertEvent_def hash_equal_def next_rev_def)

lemma UpsertEvent_refresh:
  assumes "e_id ev \<noteq> []" and "get_row st (e_id ev) = Some old" and "er_hash old = ContentHash H ev"
  shows "UpsertEvent H gl ev now st =
    rbind (refreshEventPlaces gl ev st) (\<lambda>(rewrote, st').
      Inr (\<lparr>ur_changed = False, ur_revision = er_revision old\<rparr>,
           if rewrote then bumpRefreshVersion (e_layer ev) st' else st'))"
  using assms by (simp add: UpsertEvent_def)

lemma bump_simps [simp]:
  "st_events (bumpRefreshVersion l st) = st_events st" "st_revisions (bumpRefreshVersion l st) = st_revisions st"
  "st_sources (bumpRefreshVersion l st) = st_sources st" "st_places (bumpRefreshVersion l st) = st_places st"
  "st_wildfireBuffer (bumpRefreshVersion l st) = st_wildfireBuffer st"
  "have_places i (bumpRefreshVersion l st) = have_places i st"
  "store_ok gl (bumpRefreshVersion l st) = store_ok gl st"
  "st_refreshVersions (bumpRefreshVersion l st) = (st_refreshVersions st)(l := st_refreshVersions st l + 1)"
  by (simp_all add: bumpRefreshVersion_def have_places_def store_ok_def hist_ok_def revs_of_def
      mirror_ok_def places_cached_def)

text \<open>The two outcomes of an upsert.\<close>

lemma upsert_written:
  assumes "store_ok gl st" and "room st" and "e_id ev \<noteq> []" and "source_id ev \<in> sr_id ` set (st_sources st)"
    and "\<not> hash_equal H ev st"
    and c: "c = content_blob gl ev (next_rev st (e_id ev)) now st"
  shows "\<exists>st'. UpsertEvent H gl ev now st = Inr (\<lparr>ur_changed = True, ur_revision = next_rev st (e_id ev)\<rparr>, st') \<and>
    store_ok gl st' \<and>
    written c (content_row c (ContentHash H ev) (observed_or ev now) now (get_row st (e_id ev))) st st'"
proof -
  let ?row = "content_row c (ContentHash H ev) (observed_or ev now) now (get_row st (e_id ev))"
  obtain st' where w: "write_content gl ev (ContentHash H ev) (next_rev st (e_id ev)) now st = Inr st'"
      "written c ?row st st'" "places_cached gl st'"
    using write_content_written [OF assms(1,4,2) c] by blast
  have "row_ok ?row"
    using assms(3) by (simp add: row_ok_def c content_row_def unixOrNil_def split: option.split)
  then have "store_ok gl st'"
    by (rule written_ok [OF assms(1,2) w(2)]) (use assms(4) w(3) in \<open>simp_all add: c\<close>)
  with w UpsertEvent_write [OF assms(3,5), of gl now] show ?thesis by simp
qed

lemma events_after_bump [simp]: "events_after gl ev st row (bumpRefreshVersion l s) = events_after gl ev st row s"
  by (simp add: events_after_def)

lemma upsert_refreshed:
  assumes "store_ok gl st" and "e_id ev \<noteq> []" and "get_row st (e_id ev) = Some old" and "er_hash old = ContentHash H ev"
  shows "\<exists>st'. UpsertEvent H gl ev now st = Inr (\<lparr>ur_changed = False, ur_revision = er_revision old\<rparr>, st') \<and>
    store_ok gl st' \<and> st_revisions st' = st_revisions st \<and> st_sources st' = st_sources st \<and>
    st_places st' = st_places st \<and> st_wildfireBuffer st' = st_wildfireBuffer st \<and>
    st_refreshVersions st' = (if needs_refresh gl ev st old
      then (st_refreshVersions st)(e_layer ev := st_refreshVersions st (e_layer ev) + 1) else st_refreshVersions st) \<and>
    events_after gl ev st old st' \<and>
    (\<forall>j. get_row st' j = (if j = e_id ev \<and> needs_refresh gl ev st old
       then Some (refresh_row (refresh_blob ev (wanted gl ev st) (er_proto old)) old) else get_row st j)) \<and>
    (\<not> needs_refresh gl ev st old \<longrightarrow> (\<exists>x. st' = st\<lparr>st_placesGeo := x\<rparr>))"
proof -
  obtain s where s: "refreshEventPlaces gl ev st = Inr (needs_refresh gl ev st old, s)" "store_ok gl s"
      "st_revisions s = st_revisions st" "st_refreshVersions s = st_refreshVersions st"
      "st_sources s = st_sources st" "st_places s = st_places st" "st_wildfireBuffer s = st_wildfireBuffer st"
      "events_after gl ev st old s"
      "\<forall>j. get_row s j = (if j = e_id ev \<and> needs_refresh gl ev st old
       then Some (refresh_row (refresh_blob ev (wanted gl ev st) (er_proto old)) old) else get_row st j)"
      "\<not> needs_refresh gl ev st old \<longrightarrow> (\<exists>x. s = st\<lparr>st_placesGeo := x\<rparr>)"
    using refresh_result [OF assms(1,3)] by blast
  let ?s = "if needs_refresh gl ev st old then bumpRefreshVersion (e_layer ev) s else s"
  have "UpsertEvent H gl ev now st = Inr (\<lparr>ur_changed = False, ur_revision = er_revision old\<rparr>, ?s)"
    using UpsertEvent_refresh [OF assms(2-4), of gl now] s(1) by simp
  then show ?thesis
    using s(2-10) by (intro exI [of _ ?s]) simp
qed


section \<open>Examples\<close>

definition ex_gl :: geolib where
  "ex_gl = \<lparr>gl_unmarshal = (\<lambda>_. Inl ''no geometry''), gl_cos = (\<lambda>_. 1), gl_polyline = (\<lambda>_ _. Inl ''no line'')\<rparr>"

definition ex_source :: "string \<Rightarrow> source_row" where
  "ex_source i = \<lparr>sr_id = i, sr_name = i, sr_attribution = [], sr_homepage = [], sr_kind = FEED, sr_poll = 60,
     sr_stale = None, sr_expire = None, sr_lastSuccess = None, sr_lastAttempt = None, sr_lastError = [],
     sr_status = SOURCE_STATUS_UNSPECIFIED, sr_disappearance = ''resolve''\<rparr>"

definition ex_event :: "string \<Rightarrow> event_status \<Rightarrow> string \<Rightarrow> event" where
  "ex_event i s h = \<lparr>e_id = i, e_layer = EARTHQUAKE, e_category = ''earthquake'', e_severity = MINOR, e_status = s,
     e_headline = h, e_summary = [], e_description = [], e_areaLabel = [], e_canonicalUrl = [], e_geometry = None,
     e_placeIds = [''county:a''], e_provenance = Some \<lparr>pv_sourceId = ''usgs'', pv_sourceName = ''USGS'', pv_attribution = [], pv_sourceUrl = [], pv_fetchedAt = None\<rparr>,
     e_effective = None, e_expires = None, e_observedAt = Some 0, e_ingestedAt = None, e_revision = 0,
     e_enhancement = None, e_detail = NoDetail\<rparr>"

definition ex_hash :: "event \<Rightarrow> string" where
  "ex_hash e = e_headline e @ [char_of (severity_rank (e_severity e)), if e_status e = ST_ACTIVE then CHR ''a'' else CHR ''x'']"

definition ex_store :: store where
  "ex_store = newStore [ex_source ''usgs''] [] 0 3000"

lemma ex_store_ok: "store_ok ex_gl ex_store" "room ex_store" "source_id (ex_event i s h) \<in> sr_id ` set (st_sources ex_store)"
proof -
  show "store_ok ex_gl ex_store"
    unfolding ex_store_def by (rule newStore_ok) (simp add: ex_source_def)
qed (simp_all add: ex_store_def room_def newStore_def ex_source_def ex_event_def source_id_def)


section \<open>Idempotence\<close>

lemma place_hits_cong:
  "e_geometry a = e_geometry b \<Longrightarrow> e_layer a = e_layer b \<Longrightarrow> place_hits gl a = place_hits gl b"
  unfolding place_hits_def fun_eq_iff by (simp only: simp_thms)

lemma written_settled:
  assumes "store_ok gl st" and c: "c = content_blob gl ev rn now st" and "written c row st st'" and "er_proto row = c"
  shows "\<not> needs_refresh gl ev st' row"
proof -
  have "wanted gl ev st' = e_placeIds c"
  proof -
    have "e_placeIds c = unionSorted (e_placeIds ev)
        (place_hits gl (ensureGeometryIndex gl (ev\<lparr>e_revision := rn, e_ingestedAt := Some now\<rparr>)) (st_places st) (st_wildfireBuffer st))"
      using matchPlaces_hits [of gl st] assms(1) by (simp add: c content_blob_def store_ok_def Let_def)
    moreover have "place_hits gl (ensureGeometryIndex gl (ev\<lparr>e_revision := rn, e_ingestedAt := Some now\<rparr>)) =
        place_hits gl (ensureGeometryIndex gl ev)"
      by (rule place_hits_cong) (simp_all add: ensureGeometryIndex_def)
    ultimately show ?thesis using assms(3) by (simp add: wanted_def written_def)
  qed
  moreover have "have_places (e_id ev) st' = e_placeIds c" using assms(3) by (simp add: written_def c)
  moreover have "\<not> enh_changed c ev" by (simp add: enh_changed_def c)
  moreover have "\<not> tel_changed c ev"
    by (auto simp: tel_changed_def c telemetry_def split: detail.splits)
  moreover have "\<not> burn_changed c ev"
    by (auto simp: burn_changed_def c fetched_at_def split: detail.splits)
  ultimately show ?thesis using assms(4) by (simp add: needs_refresh_def)
qed

lemma refresh_blob_settles:
  assumes "e_provenance ev \<noteq> None" and "e_provenance s \<noteq> None"
  shows "\<not> enh_changed (refresh_blob ev w s) ev" "\<not> tel_changed (refresh_blob ev w s) ev"
    "\<not> burn_changed (refresh_blob ev w s) ev"
proof -
  define s1 where "s1 = (if enh_changed s ev then s\<lparr>e_placeIds := w, e_enhancement := e_enhancement ev, e_summary := e_summary ev\<rparr> else s\<lparr>e_placeIds := w\<rparr>)"
  define s2 where "s2 = (if tel_changed s ev then (case e_detail s1 of MeshD m \<Rightarrow> s1\<lparr>e_detail := MeshD (m\<lparr>md_telemetry := telemetry ev\<rparr>)\<rparr> | _ \<Rightarrow> s1) else s1)"
  have r: "refresh_blob ev w s = (if burn_changed s ev then s2\<lparr>e_detail := e_detail ev, e_observedAt := e_observedAt ev,
      e_provenance := take_fetched ev (e_provenance s2)\<rparr> else s2)"
    unfolding refresh_blob_def s1_def s2_def Let_def by simp
  have f1: "e_detail s1 = e_detail s" "e_provenance s1 = e_provenance s" "e_observedAt s1 = e_observedAt s"
    by (simp_all add: s1_def)
  have e1: "\<not> enh_changed s1 ev" by (auto simp: enh_changed_def s1_def)
  have f2: "e_enhancement s2 = e_enhancement s1" "e_summary s2 = e_summary s1" "e_provenance s2 = e_provenance s"
    "e_observedAt s2 = e_observedAt s"
    using f1 by (simp_all add: s2_def split: detail.split)
  show "\<not> enh_changed (refresh_blob ev w s) ev"
    using e1 f2 by (simp add: r enh_changed_def)
  have t2: "\<not> tel_changed s2 ev"
    using f1 by (auto simp: tel_changed_def s2_def split: detail.splits)
  show "\<not> tel_changed (refresh_blob ev w s) ev"
    using t2 by (auto simp: r tel_changed_def burn_changed_def telemetry_def split: detail.splits)
  have b2: "burn_changed s2 ev = burn_changed s ev"
    using f1 f2 by (auto simp: burn_changed_def s2_def fetched_at_def tel_changed_def telemetry_def split: detail.splits)
  show "\<not> burn_changed (refresh_blob ev w s) ev"
  proof (cases "burn_changed s ev")
    case True
    have "fetched_at (s2\<lparr>e_detail := e_detail ev, e_observedAt := e_observedAt ev, e_provenance := take_fetched ev (e_provenance s2)\<rparr>) = fetched_at ev"
      using assms f2(3) by (auto simp: fetched_at_def take_fetched_def)
    then show ?thesis using True by (auto simp: r burn_changed_def split: detail.splits)
  next
    case False
    then show ?thesis using b2 by (simp add: r)
  qed
qed

lemma refreshed_settled:
  assumes "store_ok gl st" and "get_row st (e_id ev) = Some old" and "e_provenance ev \<noteq> None"
    and "store_ok gl st'" and "st_places st' = st_places st" and "st_wildfireBuffer st' = st_wildfireBuffer st"
    and "get_row st' (e_id ev) = Some (refresh_row (refresh_blob ev (wanted gl ev st) (er_proto old)) old)"
  shows "\<not> needs_refresh gl ev st' (refresh_row (refresh_blob ev (wanted gl ev st) (er_proto old)) old)"
proof -
  have "mirror_ok st old" "row_ok old" using row_proto_id [OF assms(1,2)] by auto
  then have "source_id (er_proto old) \<noteq> []"
    using assms(1) by (auto simp: mirror_ok_def row_ok_def store_ok_def)
  then have p: "e_provenance (er_proto old) \<noteq> None"
    by (cases "e_provenance (er_proto old)") (auto simp: source_id_def)
  have "mirror_ok st' (refresh_row (refresh_blob ev (wanted gl ev st) (er_proto old)) old)"
    and "er_id old = e_id ev"
    using row_proto_id [OF assms(4,7)] by auto
  then have "have_places (e_id ev) st' = wanted gl ev st"
    by (simp add: mirror_ok_def refresh_blob_fields)
  moreover have "wanted gl ev st' = wanted gl ev st" using assms(5,6) by (simp add: wanted_def)
  ultimately show ?thesis
    using refresh_blob_settles [OF assms(3) p] by (simp add: needs_refresh_def)
qed

text \<open>
  An upsert is idempotent. Upserting the same event again, at any later time, writes no
  revision, reports the same revision as unchanged, and leaves the store as it was (up to the
  cache of parsed place geometries): the hash-equal refresh settles after one rewrite, whether
  the first upsert inserted, revised or refreshed.
\<close>

theorem upsert_idempotent:
  assumes "store_ok gl st" and "room st" and "source_id ev \<in> sr_id ` set (st_sources st)"
    and "UpsertEvent H gl ev now st = Inr (res, st1)"
  shows "\<exists>x. UpsertEvent H gl ev later st1 =
    Inr (\<lparr>ur_changed = False, ur_revision = ur_revision res\<rparr>, st1\<lparr>st_placesGeo := x\<rparr>)"
proof -
  have id: "e_id ev \<noteq> []" using assms(4) by (auto simp: UpsertEvent_def)
  have prov: "e_provenance ev \<noteq> None"
    using assms(1,3) by (auto simp: source_id_def store_ok_def)
  have "\<exists>row. get_row st1 (e_id ev) = Some row \<and> er_hash row = ContentHash H ev \<and>
      er_revision row = ur_revision res \<and> \<not> needs_refresh gl ev st1 row \<and> store_ok gl st1"
  proof (cases "hash_equal H ev st")
    case True
    then obtain old where old: "get_row st (e_id ev) = Some old" "er_hash old = ContentHash H ev"
      by (auto simp: hash_equal_def)
    have u: "res = \<lparr>ur_changed = False, ur_revision = er_revision old\<rparr>" "store_ok gl st1"
      "st_places st1 = st_places st" "st_wildfireBuffer st1 = st_wildfireBuffer st"
      "\<forall>j. get_row st1 j = (if j = e_id ev \<and> needs_refresh gl ev st old
        then Some (refresh_row (refresh_blob ev (wanted gl ev st) (er_proto old)) old) else get_row st j)"
      "\<not> needs_refresh gl ev st old \<longrightarrow> (\<exists>x. st1 = st\<lparr>st_placesGeo := x\<rparr>)"
      using upsert_refreshed [OF assms(1) id old, of now] assms(4) by auto
    show ?thesis
    proof (cases "needs_refresh gl ev st old")
      case True
      then have g: "get_row st1 (e_id ev) = Some (refresh_row (refresh_blob ev (wanted gl ev st) (er_proto old)) old)"
        using u(5) by simp
      from refreshed_settled [OF assms(1) old(1) prov u(2-4) g] g u(1,2) old(2) show ?thesis by simp
    next
      case False
      then have "\<not> needs_refresh gl ev st1 old"
        using u(6) by (auto simp: needs_refresh_def wanted_def)
      with False u old show ?thesis by simp
    qed
  next
    case False
    let ?c = "content_blob gl ev (next_rev st (e_id ev)) now st"
    let ?row = "content_row ?c (ContentHash H ev) (observed_or ev now) now (get_row st (e_id ev))"
    have u: "res = \<lparr>ur_changed = True, ur_revision = next_rev st (e_id ev)\<rparr>" "store_ok gl st1" "written ?c ?row st st1"
      using upsert_written [OF assms(1,2) id assms(3) False refl, of now] assms(4) by auto
    from written_settled [OF assms(1) refl u(3)] u show ?thesis by (auto simp: written_def)
  qed
  then obtain row where row: "get_row st1 (e_id ev) = Some row" "er_hash row = ContentHash H ev"
      "er_revision row = ur_revision res" "\<not> needs_refresh gl ev st1 row" "store_ok gl st1" by blast
  from upsert_refreshed [OF row(5) id row(1,2), of later] row(3,4) show ?thesis by auto
qed

theorem upsert_idempotent_witness:
  "\<exists>res st1 x. UpsertEvent ex_hash ex_gl (ex_event ''usgs:1'' ST_ACTIVE ''M3'') 5 ex_store = Inr (res, st1) \<and>
     UpsertEvent ex_hash ex_gl (ex_event ''usgs:1'' ST_ACTIVE ''M3'') 9 st1 =
       Inr (\<lparr>ur_changed = False, ur_revision = ur_revision res\<rparr>, st1\<lparr>st_placesGeo := x\<rparr>)"
proof -
  let ?ev = "ex_event ''usgs:1'' ST_ACTIVE ''M3''"
  have "e_id ?ev \<noteq> []" "\<not> hash_equal ex_hash ?ev ex_store"
    by (simp_all add: ex_event_def hash_equal_def ex_store_def newStore_def)
  from upsert_written [OF ex_store_ok(1,2) this(1) ex_store_ok(3) this(2) refl, of 5]
  obtain res st1 where u: "UpsertEvent ex_hash ex_gl ?ev 5 ex_store = Inr (res, st1)" by blast
  from upsert_idempotent [OF ex_store_ok(1,2) ex_store_ok(3) u, of 9] u show ?thesis by blast
qed

section \<open>Transitions\<close>

text \<open>What one transition of an event in another status does.\<close>

definition transitioned :: "(event \<Rightarrow> string) \<Rightarrow> event_status \<Rightarrow> time \<Rightarrow> time \<Rightarrow> string \<Rightarrow> event_row \<Rightarrow> store \<Rightarrow> store \<Rightarrow> bool" where
  "transitioned H to obs now i row st st' \<longleftrightarrow>
     (let ev = transition_blob to obs now (er_proto row) in
      st' = (update_row i (transition_row H ev obs now) st)\<lparr>st_revisions := st_revisions st @
        [\<lparr>rv_event = i, rv_revision = e_revision ev, rv_observed = unix obs, rv_ingested = unix now, rv_proto = ev\<rparr>]\<rparr>)"

lemma transition_row_fields [simp]:
  "er_id (transition_row H ev obs now r) = er_id r" "er_proto (transition_row H ev obs now r) = ev"
  "er_revision (transition_row H ev obs now r) = e_revision ev"
  "er_source (transition_row H ev obs now r) = er_source r"
  "er_status (transition_row H ev obs now r) = e_status ev"
  "er_layer (transition_row H ev obs now r) = er_layer r"
  "er_lastSeen (transition_row H ev obs now r) = er_lastSeen r"
  "er_hash (transition_row H ev obs now r) = ContentHash H ev"
  "er_refreshes (transition_row H ev obs now r) = er_refreshes r"
  by (simp_all add: transition_row_def)

lemma transition_blob_fields [simp]:
  "e_id (transition_blob to obs now e) = e_id e" "e_status (transition_blob to obs now e) = to"
  "e_revision (transition_blob to obs now e) = e_revision e + 1"
  "e_placeIds (transition_blob to obs now e) = e_placeIds e" "e_layer (transition_blob to obs now e) = e_layer e"
  "geo_of (transition_blob to obs now e) = geo_of e" "source_id (transition_blob to obs now e) = source_id e"
  by (simp_all add: transition_blob_def geo_of_def source_id_def)

lemma update_all_frame [simp]:
  "get_row (st\<lparr>st_revisions := x\<rparr>) i = get_row st i" "have_places i (st\<lparr>st_revisions := x\<rparr>) = have_places i st"
  "mirror_ok (st\<lparr>st_revisions := x\<rparr>) r = mirror_ok st r"
  by (simp_all add: have_places_def mirror_ok_def)

lemma transition_one_cases:
  assumes ok: "store_ok gl st" and "room st"
  shows "\<exists>st'. transition_one H to obs now i st = Inr st' \<and> store_ok gl st' \<and>
    (case get_row st i of
       None \<Rightarrow> st' = st
     | Some row \<Rightarrow> if er_status row = to then st' = st
         else transitioned H to obs now i row st st')"
proof (cases "get_row st i")
  case None
  with ok show ?thesis by (simp add: transition_one_def)
next
  case (Some row)
  note ro = row_proto_id [OF ok Some]
  have stt: "e_status (er_proto row) = er_status row" using ro by (simp add: row_ok_def)
  show ?thesis
  proof (cases "er_status row = to")
    case True
    with ok Some stt show ?thesis by (simp add: transition_one_def)
  next
    case False
    let ?ev = "transition_blob to obs now (er_proto row)"
    let ?f = "transition_row H ?ev obs now"
    let ?rw = "\<lparr>rv_event = i, rv_revision = e_revision ?ev, rv_observed = unix obs, rv_ingested = unix now, rv_proto = ?ev\<rparr>"
    let ?s1 = "update_row i ?f st"
    let ?s2 = "?s1\<lparr>st_revisions := st_revisions st @ [?rw]\<rparr>"
    have h: "hist_ok st" and t: "tbl_ok er_id (st_events st)" using ok by (simp_all add: store_ok_def)
    have nr: "next_rev st i = e_revision ?ev" using Some ro by (simp add: next_rev_def row_ok_def)
    have "insertRevision i (e_revision ?ev) (unix obs) (unix now) ?ev ?s1 = Inr ?s2"
      using next_rev_history(2) [OF h assms(2), of i] nr by (auto simp: insertRevision_Inr)
    then have step: "transition_one H to obs now i st = Inr ?s2"
      using Some False stt by (simp add: transition_one_def Let_def)
    have g: "get_row ?s2 j = (if j = i then Some (?f row) else get_row st j)" for j
      using get_row_update [where f = ?f and i = i and st = st and j = j] Some by simp
    have rok: "row_ok (?f row)"
      using ro by (auto simp: row_ok_def transition_row_def transition_blob_def unixOrNil_def source_id_def)
    have "row_ok r \<and> mirror_ok ?s2 r" if mem: "r \<in> set (st_events ?s2)" for r
    proof -
      obtain r0 where r0: "r0 \<in> set (st_events st)" "r = (if er_id r0 = i then ?f r0 else r0)"
        using mem by (auto simp: update_row_def)
      have ok0: "row_ok r0" "mirror_ok st r0" using ok r0(1) by (auto simp: store_ok_def)
      show ?thesis
      proof (cases "er_id r0 = i")
        case True
        then have "r0 = row" using tbl_get_mem [OF t r0(1)] Some by simp
        then show ?thesis using r0(2) True ok0 rok by (simp add: mirror_ok_def)
      next
        case False
        then show ?thesis using r0(2) ok0 by (simp add: mirror_ok_def)
      qed
    qed
    moreover have "hist_ok ?s2"
      unfolding hist_ok_def
    proof
      fix j
      have "revs_of j ?s2 = revs_of j st @ (if i = j then [e_revision ?ev] else [])"
        by (simp add: revs_of_def)
      then show "revs_of j ?s2 = (case get_row ?s2 j of None \<Rightarrow> [] | Some r \<Rightarrow> map word_of_nat [1..<Suc (unat (er_revision r))])"
        using next_rev_history(1) [OF h assms(2), of i] h nr unfolding g
        by (cases "j = i") (auto simp: hist_ok_def simp del: upt_Suc transition_blob_fields)
    qed
    moreover have "tbl_ok er_id (st_events ?s2)"
      using update_row_tbl [where f = ?f and i = i and st = st] t by simp
    ultimately have "store_ok gl ?s2"
      using ok by (simp add: store_ok_def places_cached_def)
    moreover have "transitioned H to obs now i row st ?s2"
      by (simp add: transitioned_def Let_def)
    ultimately show ?thesis using step Some False by auto
  qed
qed

lemma transitioned_get:
  "transitioned H to obs now i row st st' \<Longrightarrow> get_row st i = Some row \<Longrightarrow>
   get_row st' j = (if j = i then Some (transition_row H (transition_blob to obs now (er_proto row)) obs now row)
                    else get_row st j) \<and>
   st_revisions st' = st_revisions st @ [\<lparr>rv_event = i, rv_revision = e_revision (er_proto row) + 1,
     rv_observed = unix obs, rv_ingested = unix now, rv_proto = transition_blob to obs now (er_proto row)\<rparr>]"
  using get_row_update [where f = "transition_row H (transition_blob to obs now (er_proto row)) obs now" and i = i and st = st and j = j]
  by (simp add: transitioned_def Let_def)

text \<open>The row of \<open>i\<close> after a sweep to status \<open>to\<close>.\<close>

definition swept :: "(event \<Rightarrow> string) \<Rightarrow> event_status \<Rightarrow> time \<Rightarrow> time \<Rightarrow> event_row \<Rightarrow> event_row" where
  "swept H to obs now r = (if er_status r = to then r
     else transition_row H (transition_blob to obs now (er_proto r)) obs now r)"

lemma swept_status [simp]: "er_status (swept H to obs now r) = to"
  by (simp add: swept_def)

lemma swept_idem [simp]: "swept H to obs now (swept H to obs now r) = swept H to obs now r"
  by (simp add: swept_def)

definition roomy :: "nat \<Rightarrow> store \<Rightarrow> bool" where
  "roomy n st \<longleftrightarrow> length (st_revisions st) + n < 2 ^ 32 - 1"

lemma transition_all:
  assumes "store_ok gl st" and "roomy (length ids) st"
  shows "\<exists>st'. TransitionEvents H ids to obs now st = Inr st' \<and> store_ok gl st' \<and>
    st_refreshVersions st' = st_refreshVersions st \<and>
    (\<forall>j. get_row st' j = (if j \<in> set ids then map_option (swept H to obs now) (get_row st j) else get_row st j)) \<and>
    (\<exists>added. st_revisions st' = st_revisions st @ added \<and> length added \<le> length ids \<and>
       (added = [] \<longrightarrow> st' = st) \<and>
       (\<forall>rw \<in> set added. rv_event rw \<in> set ids \<and> e_status (rv_proto rw) = to))"
  using assms
proof (induction ids arbitrary: st)
  case Nil
  then show ?case by (simp add: TransitionEvents_def)
next
  case (Cons i ids)
  have rm: "room st" using Cons.prems(2) by (simp add: roomy_def room_def)
  obtain s1 where s1: "transition_one H to obs now i st = Inr s1" "store_ok gl s1"
      "case get_row st i of None \<Rightarrow> s1 = st
       | Some row \<Rightarrow> if er_status row = to then s1 = st else transitioned H to obs now i row st s1"
    using transition_one_cases [OF Cons.prems(1) rm] by blast
  have eff: "\<forall>j. get_row s1 j = (if j = i then map_option (swept H to obs now) (get_row st j) else get_row st j)"
    and add: "\<exists>a. st_revisions s1 = st_revisions st @ a \<and> length a \<le> 1 \<and> (a = [] \<longrightarrow> s1 = st) \<and>
      (\<forall>rw \<in> set a. rv_event rw = i \<and> e_status (rv_proto rw) = to)"
  proof -
    have "(\<forall>j. get_row s1 j = (if j = i then map_option (swept H to obs now) (get_row st j) else get_row st j)) \<and>
      (\<exists>a. st_revisions s1 = st_revisions st @ a \<and> length a \<le> 1 \<and> (a = [] \<longrightarrow> s1 = st) \<and>
        (\<forall>rw \<in> set a. rv_event rw = i \<and> e_status (rv_proto rw) = to))"
    proof (cases "get_row st i")
      case None
      with s1(3) show ?thesis by auto
    next
      case (Some row)
      show ?thesis
      proof (cases "er_status row = to")
        case True
        with Some s1(3) show ?thesis by (auto simp: swept_def)
      next
        case False
        with Some s1(3) have tr: "transitioned H to obs now i row st s1" by simp
        show ?thesis using transitioned_get [OF tr Some] False Some by (simp add: swept_def)
      qed
    qed
    then show "\<forall>j. get_row s1 j = (if j = i then map_option (swept H to obs now) (get_row st j) else get_row st j)"
      "\<exists>a. st_revisions s1 = st_revisions st @ a \<and> length a \<le> 1 \<and> (a = [] \<longrightarrow> s1 = st) \<and>
        (\<forall>rw \<in> set a. rv_event rw = i \<and> e_status (rv_proto rw) = to)" by blast+
  qed
  obtain a where a: "st_revisions s1 = st_revisions st @ a" "length a \<le> 1" "a = [] \<longrightarrow> s1 = st"
      "\<forall>rw \<in> set a. rv_event rw = i \<and> e_status (rv_proto rw) = to"
    using add by blast
  have "roomy (length ids) s1" using Cons.prems(2) a(1,2) by (simp add: roomy_def)
  moreover have fr: "st_refreshVersions s1 = st_refreshVersions st"
    using s1(3) by (auto simp: transitioned_def Let_def split: option.splits if_splits)
  ultimately obtain s2 b where s2: "TransitionEvents H ids to obs now s1 = Inr s2" "store_ok gl s2"
      "\<forall>j. get_row s2 j = (if j \<in> set ids then map_option (swept H to obs now) (get_row s1 j) else get_row s1 j)"
      "st_revisions s2 = st_revisions s1 @ b" "length b \<le> length ids" "b = [] \<longrightarrow> s2 = s1"
      "\<forall>rw \<in> set b. rv_event rw \<in> set ids \<and> e_status (rv_proto rw) = to"
      "st_refreshVersions s2 = st_refreshVersions st"
    using Cons.IH [OF s1(2)] by metis
  have "TransitionEvents H (i # ids) to obs now st = Inr s2"
    using s1(1) s2(1) by (simp add: TransitionEvents_def)
  moreover have "get_row s2 j = (if j \<in> set (i # ids) then map_option (swept H to obs now) (get_row st j) else get_row st j)" for j
    using s2(3) eff by (auto simp: option.map_comp comp_def)
  ultimately show ?case
    using s2 a by (intro exI [of _ s2] conjI allI exI [of _ "a @ b"]) auto
qed

lemma transition_settled:
  assumes "store_ok gl st" and "\<forall>i \<in> set ids. \<forall>r. get_row st i = Some r \<longrightarrow> er_status r = to"
  shows "TransitionEvents H ids to obs now st = Inr st"
  using assms(2)
proof (induction ids)
  case Nil
  then show ?case by (simp add: TransitionEvents_def)
next
  case (Cons i ids)
  have "transition_one H to obs now i st = Inr st"
  proof (cases "get_row st i")
    case (Some r)
    then have "e_status (er_proto r) = to"
      using Cons.prems row_proto_id [OF assms(1) Some] by (auto simp: row_ok_def)
    with Some show ?thesis by (simp add: transition_one_def)
  qed (simp add: transition_one_def)
  with Cons show ?case by (simp add: TransitionEvents_def)
qed

text \<open>
  C34: a transition of any list of ids, with duplicates, unknown ids and events already in that
  status among them, succeeds on a good store with room for the revisions, and does what a
  sweep means: every listed event ends in the status, with its revision one more and one
  snapshot appended to the history, unless it was in it already; no other event changes; and
  doing it again changes nothing.
\<close>

theorem transitions_specification:
  assumes "store_ok gl st" and "roomy (length ids) st"
  shows "\<exists>st'. TransitionEvents H ids to obs now st = Inr st' \<and> store_ok gl st' \<and>
    (\<forall>j. get_row st' j = (if j \<in> set ids then map_option (swept H to obs now) (get_row st j) else get_row st j)) \<and>
    prefix (st_revisions st) (st_revisions st') \<and>
    TransitionEvents H ids to obs2 now2 st' = Inr st'"
proof -
  obtain st' added where t: "TransitionEvents H ids to obs now st = Inr st'" "store_ok gl st'"
      "\<forall>j. get_row st' j = (if j \<in> set ids then map_option (swept H to obs now) (get_row st j) else get_row st j)"
      "st_revisions st' = st_revisions st @ added"
    using transition_all [OF assms, of H to obs now] by blast
  have "TransitionEvents H ids to obs2 now2 st' = Inr st'"
    by (rule transition_settled [OF t(2)]) (use t(3) in auto)
  with t show ?thesis by auto
qed

theorem transitions_specification_witness:
  "\<exists>st'. TransitionEvents ex_hash [''usgs:1'', ''usgs:1''] RESOLVED 7 8 ex_store = Inr st' \<and>
     TransitionEvents ex_hash [''usgs:1'', ''usgs:1''] RESOLVED 9 10 st' = Inr st'"
proof -
  have "roomy (length [''usgs:1'', ''usgs:1'']) ex_store" by (simp add: roomy_def ex_store_def newStore_def)
  from transitions_specification [OF ex_store_ok(1) this, of ex_hash RESOLVED 7 8 9 10]
  show ?thesis by blast
qed

section \<open>Validators\<close>

text \<open>The writes the ingest scheduler makes to events; one that fails leaves the store alone.\<close>

datatype store_op = OpUpsert event time | OpTransition "string list" event_status time time
  | OpTouch "string list" time time

definition store_apply :: "(event \<Rightarrow> string) \<Rightarrow> geolib \<Rightarrow> store_op \<Rightarrow> store \<Rightarrow> store" where
  "store_apply H gl op st = (case op of
     OpUpsert ev now \<Rightarrow> (case UpsertEvent H gl ev now st of Inl _ \<Rightarrow> st | Inr (_, st') \<Rightarrow> st')
   | OpTransition ids to obs now \<Rightarrow> (case TransitionEvents H ids to obs now st of Inl _ \<Rightarrow> st | Inr st' \<Rightarrow> st')
   | OpTouch ids t stale \<Rightarrow> snd (TouchSeen ids t stale st))"

definition op_revs :: "store_op \<Rightarrow> nat" where
  "op_revs op = (case op of OpUpsert _ _ \<Rightarrow> 1 | OpTransition ids _ _ _ \<Rightarrow> length ids | OpTouch _ _ _ \<Rightarrow> 0)"

text \<open>An event's row as a reader sees it: without the two bookkeeping columns.\<close>

definition served :: "event_row \<Rightarrow> event_row" where
  "served r = r\<lparr>er_lastSeen := 0, er_refreshes := 0\<rparr>"

text \<open>
  How a row may evolve: its revision and its refresh count never go down, and while both stay the
  same so does everything a reader sees.
\<close>

definition row_le :: "event_row \<Rightarrow> event_row \<Rightarrow> bool" where
  "row_le r r' \<longleftrightarrow> unat (er_revision r) \<le> unat (er_revision r') \<and> er_refreshes r \<le> er_refreshes r' \<and>
     (er_revision r = er_revision r' \<and> er_refreshes r = er_refreshes r' \<longrightarrow> served r = served r')"

lemma row_le_refl [simp]: "row_le r r"
  by (simp add: row_le_def)

lemma row_le_trans: "row_le a b \<Longrightarrow> row_le b c \<Longrightarrow> row_le a c"
proof -
  assume ab: "row_le a b" and bc: "row_le b c"
  have "served a = served c" if eq: "er_revision a = er_revision c" "er_refreshes a = er_refreshes c"
  proof -
    have "unat (er_revision a) = unat (er_revision b)" "er_refreshes a = er_refreshes b"
      using ab bc eq by (auto simp: row_le_def)
    then have "er_revision a = er_revision b" "er_refreshes a = er_refreshes b"
      by (auto intro: unsigned_word_eqI)
    with ab bc eq show ?thesis by (simp add: row_le_def)
  qed
  with ab bc show ?thesis by (auto simp: row_le_def)
qed

definition layer_view :: "layer \<Rightarrow> store \<Rightarrow> event_row list" where
  "layer_view l st = map served (filter (\<lambda>r. er_layer r = l) (st_events st))"

definition store_le :: "store \<Rightarrow> store \<Rightarrow> bool" where
  "store_le st st' \<longleftrightarrow>
     (\<forall>i r. get_row st i = Some r \<longrightarrow> (\<exists>r'. get_row st' i = Some r' \<and> row_le r r')) \<and>
     prefix (st_revisions st) (st_revisions st') \<and>
     (\<forall>l. st_refreshVersions st l \<le> st_refreshVersions st' l) \<and>
     (\<forall>l. DataVersion st = DataVersion st' \<and> st_refreshVersions st l = st_refreshVersions st' l \<longrightarrow>
        layer_view l st = layer_view l st')"

lemma store_le_refl [simp]: "store_le st st"
  by (auto simp: store_le_def)

lemma store_le_trans:
  assumes "store_le a b" and "store_le b c"
  shows "store_le a c"
proof -
  have p: "prefix (st_revisions a) (st_revisions b)" "prefix (st_revisions b) (st_revisions c)"
    and m: "\<And>l. st_refreshVersions a l \<le> st_refreshVersions b l" "\<And>l. st_refreshVersions b l \<le> st_refreshVersions c l"
    using assms by (auto simp: store_le_def)
  have "\<exists>r'. get_row c i = Some r' \<and> row_le r r'" if ra: "get_row a i = Some r" for i r
  proof -
    obtain rb where rb: "get_row b i = Some rb" "row_le r rb"
      using assms(1) ra unfolding store_le_def by blast
    obtain rc where rc: "get_row c i = Some rc" "row_le rb rc"
      using assms(2) rb(1) unfolding store_le_def by blast
    from row_le_trans [OF rb(2) rc(2)] rc(1) show ?thesis by blast
  qed
  moreover have "layer_view l a = layer_view l c"
    if eq: "DataVersion a = DataVersion c" "st_refreshVersions a l = st_refreshVersions c l" for l
  proof -
    have "DataVersion a = DataVersion b"
      using eq(1) p prefix_length_le [OF p(1)] prefix_length_le [OF p(2)] by (simp add: DataVersion_def)
    moreover have "st_refreshVersions a l = st_refreshVersions b l" using eq(2) m [of l] by simp
    ultimately show ?thesis using assms eq unfolding store_le_def by metis
  qed
  ultimately show ?thesis
    using p m unfolding store_le_def by (meson order_trans prefix_order.order_trans)
qed

definition hashes_ok :: "(event \<Rightarrow> string) \<Rightarrow> store \<Rightarrow> bool" where
  "hashes_ok H st \<longleftrightarrow> (\<forall>r \<in> set (st_events st). \<exists>orig. er_hash r = ContentHash H orig \<and> e_layer orig = er_layer r)"

text \<open>Collision-freeness as far as the validators need it: equal hashes, equal layers.\<close>

definition hash_layer :: "(event \<Rightarrow> string) \<Rightarrow> bool" where
  "hash_layer H \<longleftrightarrow> (\<forall>a b. H (zeroed a) = H (zeroed b) \<longrightarrow> e_layer a = e_layer b)"

lemma hash_layerD: "hash_layer H \<Longrightarrow> ContentHash H a = ContentHash H b \<Longrightarrow> e_layer a = e_layer b"
  unfolding hash_layer_def ContentHash_def by blast

lemma layer_view_map:
  assumes "\<And>r. r \<in> set (st_events st) \<Longrightarrow> er_id r = i \<Longrightarrow> er_layer r \<noteq> l \<and> er_layer (f r) \<noteq> l"
    and "st_events st' = map (\<lambda>r. if er_id r = i then f r else r) (st_events st)"
  shows "layer_view l st' = layer_view l st"
proof -
  have "map served (filter (\<lambda>r. er_layer r = l) (map (\<lambda>r. if er_id r = i then f r else r) xs)) =
      map served (filter (\<lambda>r. er_layer r = l) xs)"
    if "\<And>r. r \<in> set xs \<Longrightarrow> er_id r = i \<Longrightarrow> er_layer r \<noteq> l \<and> er_layer (f r) \<noteq> l" for xs
    using that by (induction xs) auto
  with assms show ?thesis by (simp add: layer_view_def)
qed

definition evolves :: "(event \<Rightarrow> string) \<Rightarrow> geolib \<Rightarrow> nat \<Rightarrow> store \<Rightarrow> store \<Rightarrow> bool" where
  "evolves H gl n st st' \<longleftrightarrow> store_ok gl st' \<and> hashes_ok H st' \<and> store_le st st' \<and>
     length (st_revisions st') \<le> length (st_revisions st) + n"

lemma evolvesI:
  assumes "store_ok gl st'" and "hashes_ok H st'" and "prefix (st_revisions st) (st_revisions st')"
    and "length (st_revisions st') \<le> length (st_revisions st) + n"
    and "\<And>i r. get_row st i = Some r \<Longrightarrow> \<exists>r'. get_row st' i = Some r' \<and> row_le r r'"
    and "\<And>l. st_refreshVersions st l \<le> st_refreshVersions st' l"
    and "\<And>l. DataVersion st = DataVersion st' \<Longrightarrow> st_refreshVersions st l = st_refreshVersions st' l \<Longrightarrow>
      layer_view l st = layer_view l st'"
  shows "evolves H gl n st st'"
  using assms(1-4) unfolding evolves_def store_le_def
  by (intro conjI allI impI) (simp_all add: assms(5-7))

lemma evolves_refl: "store_ok gl st \<Longrightarrow> hashes_ok H st \<Longrightarrow> evolves H gl n st st"
  by (simp add: evolves_def)

lemma UpsertEvent_rejected:
  assumes "e_id ev = [] \<or> \<not> hash_equal H ev st \<and> source_id ev \<notin> sr_id ` set (st_sources st)" and "store_ok gl st"
  shows "\<exists>e. UpsertEvent H gl ev now st = Inl e"
proof (cases "e_id ev = []")
  case True
  then show ?thesis by (simp add: UpsertEvent_def)
next
  case False
  with assms(1) have n: "\<not> hash_equal H ev st" "source_id ev \<notin> sr_id ` set (st_sources st)" by auto
  obtain x where x: "snd (matchPlaces gl (content_blob gl ev (next_rev st (e_id ev)) now st) st) = st\<lparr>st_placesGeo := x\<rparr>"
    using matchPlaces_ok [OF assms(2)] by blast
  have "put_event (content_row (content_blob gl ev (next_rev st (e_id ev)) now st) h obs now old) (st\<lparr>st_placesGeo := x\<rparr>) =
      Inl (''store: upsert event '' @ e_id ev @ '': FOREIGN KEY constraint failed'')" for h obs old
    using n(2) by (simp add: put_event_def)
  then show ?thesis
    using UpsertEvent_write [OF False n(1), of gl now] by (simp add: write_content_def x Let_def)
qed

lemma upsert_evolves:
  assumes ok: "store_ok gl st" and hs: "hashes_ok H st" and "room st" and hl: "hash_layer H"
  shows "evolves H gl 1 st (store_apply H gl (OpUpsert ev now) st)"
proof (cases "e_id ev = [] \<or> \<not> hash_equal H ev st \<and> source_id ev \<notin> sr_id ` set (st_sources st)")
  case True
  from UpsertEvent_rejected [OF True ok, of now] obtain e where "UpsertEvent H gl ev now st = Inl e" by blast
  then have "store_apply H gl (OpUpsert ev now) st = st" by (simp add: store_apply_def)
  with ok hs show ?thesis by (simp add: evolves_refl)
next
  case False
  then have id: "e_id ev \<noteq> []" by simp
  show ?thesis
  proof (cases "hash_equal H ev st")
    case True
    then obtain old where old: "get_row st (e_id ev) = Some old" "er_hash old = ContentHash H ev"
      by (auto simp: hash_equal_def)
    let ?b = "refresh_blob ev (wanted gl ev st) (er_proto old)"
    obtain s where s: "UpsertEvent H gl ev now st = Inr (\<lparr>ur_changed = False, ur_revision = er_revision old\<rparr>, s)"
      "store_ok gl s" "st_revisions s = st_revisions st"
      "st_refreshVersions s = (if needs_refresh gl ev st old
        then (st_refreshVersions st)(e_layer ev := st_refreshVersions st (e_layer ev) + 1) else st_refreshVersions st)"
      "events_after gl ev st old s"
      "\<forall>j. get_row s j = (if j = e_id ev \<and> needs_refresh gl ev st old then Some (refresh_row ?b old) else get_row st j)"
      using upsert_refreshed [OF ok id old, of now] by blast
    have ap: "store_apply H gl (OpUpsert ev now) st = s" using s(1) by (simp add: store_apply_def)
    note ro = row_proto_id [OF ok old(1)]
    obtain orig where orig: "er_hash old = ContentHash H orig" "e_layer orig = er_layer old"
      using hs ro by (auto simp: hashes_ok_def)
    have lay: "er_layer old = e_layer ev"
      using hash_layerD [OF hl, of orig ev] old(2) orig by simp
    have t: "tbl_ok er_id (st_events st)" using ok by (simp add: store_ok_def)
    have uniq: "r = old" if "r \<in> set (st_events st)" "er_id r = e_id ev" for r
      using tbl_get_mem [OF t that(1)] that(2) old(1) by simp
    have refr: "st_refreshVersions s l = (if needs_refresh gl ev st old \<and> l = e_layer ev
        then st_refreshVersions st l + 1 else st_refreshVersions st l)" for l
      using s(4) by simp
    show ?thesis
      unfolding ap
    proof (rule evolvesI)
      show "store_ok gl s" by (rule s(2))
      show "hashes_ok H s"
        using hs s(5) by (auto simp: hashes_ok_def events_after_def split: if_splits)
      show "prefix (st_revisions st) (st_revisions s)" "length (st_revisions s) \<le> length (st_revisions st) + 1"
        by (simp_all add: s(3))
      show "\<exists>r'. get_row s i = Some r' \<and> row_le r r'" if "get_row st i = Some r" for i r
        using that s(6) old(1) by (auto simp: row_le_def)
      show "st_refreshVersions st l \<le> st_refreshVersions s l" for l
        by (simp add: refr)
      show "layer_view l st = layer_view l s" if eq: "st_refreshVersions st l = st_refreshVersions s l" for l
      proof (cases "needs_refresh gl ev st old")
        case True
        then have "l \<noteq> e_layer ev" using eq refr by auto
        moreover have "st_events s = map (\<lambda>r. if er_id r = e_id ev then refresh_row ?b r else r) (st_events st)"
          using True s(5) by (simp add: events_after_def)
        ultimately have "layer_view l s = layer_view l st"
          by (intro layer_view_map [of st "e_id ev" l "refresh_row ?b" s]) (auto dest!: uniq simp: lay)
        then show ?thesis by simp
      next
        case False
        then show ?thesis using s(5) by (simp add: events_after_def layer_view_def)
      qed
    qed
  next
    case no: False
    with False have src: "source_id ev \<in> sr_id ` set (st_sources st)" by simp
    let ?c = "content_blob gl ev (next_rev st (e_id ev)) now st"
    let ?row = "content_row ?c (ContentHash H ev) (observed_or ev now) now (get_row st (e_id ev))"
    obtain s where s: "UpsertEvent H gl ev now st = Inr (\<lparr>ur_changed = True, ur_revision = next_rev st (e_id ev)\<rparr>, s)"
        "store_ok gl s" "written ?c ?row st s"
      using upsert_written [OF ok assms(3) id src no refl, of now] by blast
    have ap: "store_apply H gl (OpUpsert ev now) st = s" using s(1) by (simp add: store_apply_def)
    have ev: "st_events s = tbl_put er_id ?row (st_events st)" using s(3) by (simp add: written_def)
    have t: "tbl_ok er_id (st_events st)" using ok by (simp add: store_ok_def)
    have "hashes_ok H s"
      unfolding hashes_ok_def
    proof
      fix r assume "r \<in> set (st_events s)"
      then have "r = ?row \<or> r \<in> set (st_events st)" by (auto simp: ev dest: tbl_put_set)
      then show "\<exists>orig. er_hash r = ContentHash H orig \<and> e_layer orig = er_layer r"
        using hs by (auto simp: hashes_ok_def)
    qed
    moreover have "\<exists>r'. get_row s i = Some r' \<and> row_le r r'" if g: "get_row st i = Some r" for i r
    proof (cases "i = e_id ev")
      case True
      have h: "hist_ok st" using ok by (simp add: store_ok_def)
      have "Suc (unat (er_revision r)) < 2 ^ 32"
        using hist_length [OF h g] assms(3) by (simp add: room_def)
      then have "unat (next_rev st (e_id ev)) = Suc (unat (er_revision r))"
        using unat_Suc32 g True by (simp add: next_rev_def)
      then show ?thesis using True g ev by (auto simp: row_le_def content_row_def)
    next
      case False
      then show ?thesis using g ev by simp
    qed
    ultimately show ?thesis
      unfolding ap by (intro evolvesI) (use s(2,3) in \<open>simp_all add: written_def DataVersion_def\<close>)
  qed
qed

lemma transition_evolves:
  assumes ok: "store_ok gl st" and hs: "hashes_ok H st" and "roomy (length ids) st"
  shows "evolves H gl (length ids) st (store_apply H gl (OpTransition ids to obs now) st)"
proof -
  obtain s a where s: "TransitionEvents H ids to obs now st = Inr s" "store_ok gl s"
      "st_refreshVersions s = st_refreshVersions st"
      "\<forall>j. get_row s j = (if j \<in> set ids then map_option (swept H to obs now) (get_row st j) else get_row st j)"
      "st_revisions s = st_revisions st @ a" "length a \<le> length ids" "a = [] \<longrightarrow> s = st"
    using transition_all [OF assms(1,3), of H to obs now] by blast
  have ap: "store_apply H gl (OpTransition ids to obs now) st = s" using s(1) by (simp add: store_apply_def)
  have sw: "row_le r (swept H to obs now r)" if g: "get_row st i = Some r" "i \<in> set ids" for i r
  proof (cases "er_status r = to")
    case False
    have h: "hist_ok st" using ok by (simp add: store_ok_def)
    have "length ids \<ge> 1" using g(2) by (cases ids) auto
    then have "Suc (unat (er_revision r)) < 2 ^ 32"
      using hist_length [OF h g(1)] assms(3) by (simp add: roomy_def)
    moreover have "e_revision (er_proto r) = er_revision r" using row_proto_id [OF ok g(1)] by (simp add: row_ok_def)
    ultimately have "unat (er_revision (swept H to obs now r)) = Suc (unat (er_revision r))"
      "er_refreshes (swept H to obs now r) = er_refreshes r"
      using False unat_Suc32 [of "er_revision r"] by (simp_all add: swept_def)
    then show ?thesis by (auto simp: row_le_def)
  qed (simp add: swept_def)
  have "hashes_ok H s"
    unfolding hashes_ok_def
  proof
    fix r assume r: "r \<in> set (st_events s)"
    have t: "tbl_ok er_id (st_events s)" using s(2) by (simp add: store_ok_def)
    have "get_row s (er_id r) = Some r" by (rule tbl_get_mem [OF t r])
    then obtain r0 where r0: "get_row st (er_id r) = Some r0" "r = r0 \<or> r = swept H to obs now r0"
      using s(4) by (auto split: if_splits)
    obtain orig where "er_hash r0 = ContentHash H orig" "e_layer orig = er_layer r0"
      using hs row_proto_id [OF ok r0(1)] by (auto simp: hashes_ok_def)
    moreover have "er_layer r0 = e_layer (er_proto r0)"
      using row_proto_id [OF ok r0(1)] by (simp add: row_ok_def)
    ultimately show "\<exists>orig. er_hash r = ContentHash H orig \<and> e_layer orig = er_layer r"
      using r0(2) by (cases "er_status r0 = to")
        (auto simp: swept_def intro: exI [of _ "transition_blob to obs now (er_proto r0)"])
  qed
  moreover have "\<exists>r'. get_row s i = Some r' \<and> row_le r r'" if "get_row st i = Some r" for i r
    using that s(4) sw by auto
  moreover have "layer_view l st = layer_view l s" if "DataVersion st = DataVersion s" for l
    using that s(5,7) by (auto simp: DataVersion_def)
  ultimately show ?thesis
    unfolding ap by (intro evolvesI) (use s in simp_all)
qed

lemma touch_get:
  "get_row (snd (TouchSeen ids tm stale st)) i =
     map_option (\<lambda>r. if touched ids stale r then r\<lparr>er_lastSeen := unix tm\<rparr> else r) (get_row st i)"
  using tbl_get_map [of er_id "\<lambda>r. if touched ids stale r then r\<lparr>er_lastSeen := unix tm\<rparr> else r" i "st_events st"]
  by (simp add: TouchSeen_def)

lemma touch_ok:
  assumes ok: "store_ok gl st"
  shows "store_ok gl (snd (TouchSeen ids tm stale st))"
proof -
  define f where "f = (\<lambda>r. if touched ids stale r then r\<lparr>er_lastSeen := unix tm\<rparr> else r)"
  define s where "s = st\<lparr>st_events := map f (st_events st)\<rparr>"
  have s: "snd (TouchSeen ids tm stale st) = s" by (simp add: TouchSeen_def s_def f_def)
  have g: "get_row s i = map_option f (get_row st i)" for i
    using touch_get [where ids = ids and tm = tm and stale = stale and st = st and i = i] by (simp add: s f_def)
  have same: "row_ok (f r) = row_ok r" "mirror_ok s (f r) = mirror_ok st r" "er_revision (f r) = er_revision r"
    "er_id (f r) = er_id r" for r
    by (simp_all add: f_def s_def row_ok_def mirror_ok_def have_places_def)
  have "revs_of i s = revs_of i st" for i by (simp add: revs_of_def s_def)
  then have "hist_ok s"
    using ok same(3) unfolding store_ok_def hist_ok_def g by (auto split: option.splits)
  moreover have "tbl_ok er_id (map f (st_events st))"
    using ok tbl_ok_map [of er_id f "st_events st"] by (simp add: store_ok_def same(4))
  moreover have "\<forall>r \<in> set (st_events s). row_ok r \<and> mirror_ok s r"
    using ok same(1,2) by (auto simp: store_ok_def s_def [THEN arg_cong [of _ _ st_events]])
  ultimately show ?thesis unfolding s using ok by (simp add: store_ok_def places_cached_def s_def)
qed

lemma touch_evolves:
  assumes ok: "store_ok gl st" and hs: "hashes_ok H st"
  shows "evolves H gl 0 st (store_apply H gl (OpTouch ids tm stale) st)"
proof -
  define f where "f = (\<lambda>r. if touched ids stale r then r\<lparr>er_lastSeen := unix tm\<rparr> else r)"
  define s where "s = st\<lparr>st_events := map f (st_events st)\<rparr>"
  have s: "snd (TouchSeen ids tm stale st) = s" by (simp add: TouchSeen_def s_def f_def)
  then have ap: "store_apply H gl (OpTouch ids tm stale) st = s" by (simp add: store_apply_def)
  have g: "get_row s i = map_option f (get_row st i)" for i
    using touch_get [where ids = ids and tm = tm and stale = stale and st = st and i = i] by (simp add: s f_def)
  have same: "row_le r (f r)" "served (f r) = served r" "er_layer (f r) = er_layer r" "er_hash (f r) = er_hash r" for r
    by (simp_all add: f_def row_le_def served_def)
  have "hashes_ok H s" using hs same(3,4) by (auto simp: hashes_ok_def s_def)
  moreover have "layer_view l st = layer_view l s" for l
    using same(2,3) by (simp add: layer_view_def filter_map comp_def s_def)
  ultimately show ?thesis
    unfolding ap using touch_ok [OF ok, where ids = ids and tm = tm and stale = stale]
    by (intro evolvesI) (simp_all add: g same(1) s, simp_all add: s_def)
qed

definition run_ops :: "(event \<Rightarrow> string) \<Rightarrow> geolib \<Rightarrow> store_op list \<Rightarrow> store \<Rightarrow> store" where
  "run_ops H gl ops st = fold (store_apply H gl) ops st"

definition total_revs :: "store_op list \<Rightarrow> nat" where
  "total_revs ops = sum_list (map op_revs ops)"

lemma run_evolves:
  assumes "store_ok gl st" and "hashes_ok H st" and "hash_layer H" and "roomy (total_revs ops) st"
  shows "evolves H gl (total_revs ops) st (run_ops H gl ops st)"
  using assms
proof (induction ops arbitrary: st)
  case Nil
  then show ?case by (simp add: run_ops_def evolves_refl)
next
  case (Cons op ops)
  have "evolves H gl (op_revs op) st (store_apply H gl op st)"
  proof (cases op)
    case (OpUpsert ev now)
    have "room st" using Cons.prems(4) OpUpsert by (simp add: roomy_def room_def total_revs_def op_revs_def)
    from upsert_evolves [OF Cons.prems(1,2) this Cons.prems(3)] OpUpsert show ?thesis by (simp add: op_revs_def)
  next
    case (OpTransition ids to obs now)
    have "roomy (length ids) st" using Cons.prems(4) OpTransition by (simp add: roomy_def total_revs_def op_revs_def)
    from transition_evolves [OF Cons.prems(1,2) this] OpTransition show ?thesis by (simp add: op_revs_def)
  next
    case (OpTouch ids t stale)
    from touch_evolves [OF Cons.prems(1,2)] OpTouch show ?thesis by (simp add: op_revs_def)
  qed
  then have s1: "store_ok gl (store_apply H gl op st)" "hashes_ok H (store_apply H gl op st)"
      "store_le st (store_apply H gl op st)"
      "length (st_revisions (store_apply H gl op st)) \<le> length (st_revisions st) + op_revs op"
    by (simp_all add: evolves_def)
  have "roomy (total_revs ops) (store_apply H gl op st)"
    using Cons.prems(4) s1(4) by (simp add: roomy_def total_revs_def)
  from Cons.IH [OF s1(1,2) Cons.prems(3) this] s1
  show ?case
    using store_le_trans [OF s1(3)] by (auto simp: evolves_def run_ops_def total_revs_def)
qed

text \<open>
  C3: over any run of the scheduler's writes (upserts, transitions, sweeps' touches, failing ones
  among them) the store keeps its invariant, no event disappears, and the history is append-only:
  the revisions stored before are a prefix of those stored after.
\<close>

theorem history_append_only:
  assumes "store_ok gl st" and "hashes_ok H st" and "hash_layer H" and "roomy (total_revs ops) st"
  shows "store_ok gl (run_ops H gl ops st) \<and>
    prefix (st_revisions st) (st_revisions (run_ops H gl ops st)) \<and>
    (\<forall>i. GetEvent i st \<noteq> None \<longrightarrow> GetEvent i (run_ops H gl ops st) \<noteq> None)"
proof -
  have e: "store_ok gl (run_ops H gl ops st)" "store_le st (run_ops H gl ops st)"
    using run_evolves [OF assms] by (simp_all add: evolves_def)
  have "GetEvent i (run_ops H gl ops st) \<noteq> None" if n: "GetEvent i st \<noteq> None" for i
  proof -
    obtain r where "get_row st i = Some r" using n by (auto simp: GetEvent_def)
    with e(2) obtain r' where "get_row (run_ops H gl ops st) i = Some r'" unfolding store_le_def by blast
    then show ?thesis by (simp add: GetEvent_def)
  qed
  moreover have "prefix (st_revisions st) (st_revisions (run_ops H gl ops st))"
    using e(2) by (simp add: store_le_def)
  ultimately show ?thesis using e(1) by blast
qed

definition ex_layer_hash :: "event \<Rightarrow> string" where
  "ex_layer_hash e = map (\<lambda>l. if l = e_layer e then CHR ''1'' else CHR ''0'') all_layers @ e_headline e"

lemma ex_layer_hash_ok: "hash_layer ex_layer_hash"
  unfolding hash_layer_def
proof (intro allI impI)
  fix a b assume "ex_layer_hash (zeroed a) = ex_layer_hash (zeroed b)"
  then have "map (\<lambda>l. if l = e_layer a then CHR ''1'' else CHR ''0'') all_layers =
      map (\<lambda>l. if l = e_layer b then CHR ''1'' else CHR ''0'') all_layers"
    by (simp add: ex_layer_hash_def zeroed_def)
  then have "\<forall>l \<in> set all_layers. (if l = e_layer a then CHR ''1'' else CHR ''0'') = (if l = e_layer b then CHR ''1'' else CHR ''0'')"
    by (simp only: map_eq_conv)
  then have "(if e_layer a = e_layer a then CHR ''1'' else CHR ''0'') = (if e_layer a = e_layer b then CHR ''1'' else CHR ''0'')"
    by (rule bspec) simp
  then show "e_layer a = e_layer b" by (simp split: if_splits)
qed

definition ex_ops :: "store_op list" where
  "ex_ops = [OpUpsert (ex_event ''usgs:1'' ST_ACTIVE ''M3'') 5, OpTouch [''usgs:1''] 6 7, OpTransition [''usgs:1''] RESOLVED 8 9]"

lemma ex_ops_ok: "hashes_ok H ex_store" "roomy (total_revs ex_ops) ex_store" "roomy (total_revs [OpTouch is a b]) ex_store"
  by (simp_all add: hashes_ok_def ex_store_def newStore_def roomy_def total_revs_def op_revs_def ex_ops_def)

theorem history_append_only_witness:
  "store_ok ex_gl (run_ops ex_layer_hash ex_gl ex_ops ex_store)"
  using history_append_only [OF ex_store_ok(1) ex_ops_ok(1) ex_layer_hash_ok ex_ops_ok(2)] by blast



end
