(* ===== verification/Query.thy ===== *)
theory Query
  imports EventProps "HOL-Library.Product_Lexorder"
begin

text \<open>
  The paged reads of \<open>internal/store/query.go\<close>. A page token is the JSON of a cursor in
  base64url; its two functions are parameters, used only through their round trip. The keyset
  pages share one scheme, and one argument: read to the end, every row that was there all along
  is returned exactly once, whatever else is inserted or removed between the pages.
\<close>

section \<open>Keyset pages\<close>

definition after_cursor :: "('r \<Rightarrow> 'k::linorder) \<Rightarrow> 'k option \<Rightarrow> 'r \<Rightarrow> bool" where
  "after_cursor key cur r = (case cur of None \<Rightarrow> True | Some c \<Rightarrow> c < key r)"

text \<open>One row over the page size is fetched; it tells whether there is a next page.\<close>

definition keyset_page :: "('r \<Rightarrow> 'k::linorder) \<Rightarrow> nat \<Rightarrow> 'k option \<Rightarrow> 'r list \<Rightarrow> 'r list \<times> 'k option" where
  "keyset_page key p cur rows =
     (let rs = take (p + 1) (sort_key key (filter (after_cursor key cur) rows)) in
      if length rs > p then (take p rs, Some (key (rs ! (p - 1)))) else (rs, None))"

text \<open>Reading pages until there is no next one; \<open>rows k\<close> is the table at the \<open>k\<close>-th read.\<close>

fun read_pages :: "('r \<Rightarrow> 'k::linorder) \<Rightarrow> nat \<Rightarrow> (nat \<Rightarrow> 'r list) \<Rightarrow> nat \<Rightarrow> nat \<Rightarrow> 'k option \<Rightarrow> 'r list option" where
  "read_pages key p rows 0 k cur = None"
| "read_pages key p rows (Suc n) k cur =
     (case keyset_page key p cur (rows k) of
        (page, None) \<Rightarrow> Some page
      | (page, Some c) \<Rightarrow> map_option ((@) page) (read_pages key p rows n (Suc k) (Some c)))"

lemma sort_key_nth_mono:
  "i \<le> j \<Longrightarrow> j < length xs \<Longrightarrow> key (sort_key key xs ! i) \<le> key (sort_key key xs ! j)"
  using sorted_sort_key [of key xs] by (auto simp: sorted_iff_nth_mono)

lemma sort_key_strict:
  assumes "distinct (map key xs)" and "i < j" and "j < length xs"
  shows "key (sort_key key xs ! i) < key (sort_key key xs ! j)"
proof -
  have d: "distinct (map key (sort_key key xs))"
    using assms(1) by (simp add: distinct_map)
  have "key (sort_key key xs ! i) \<noteq> key (sort_key key xs ! j)"
    using d assms(2,3) by (auto simp: distinct_conv_nth)
  then show ?thesis using sort_key_nth_mono [of i j xs key] assms(2,3) by simp
qed

lemma keyset_page_cases:
  assumes "0 < p" and "distinct (map key rows)"
  shows "case keyset_page key p cur rows of
      (page, None) \<Rightarrow> page = sort_key key (filter (after_cursor key cur) rows)
    | (page, Some c) \<Rightarrow> (\<exists>rest. sort_key key (filter (after_cursor key cur) rows) = page @ rest \<and> rest \<noteq> []) \<and>
        length page = p \<and> c \<in> key ` set page \<and> (\<forall>r \<in> set page. after_cursor key cur r \<and> key r \<le> c) \<and>
        (\<forall>r \<in> set rows. after_cursor key cur r \<and> r \<notin> set page \<longrightarrow> c < key r) \<and> distinct page"
proof -
  let ?S = "sort_key key (filter (after_cursor key cur) rows)"
  let ?F = "filter (after_cursor key cur) rows"
  have df: "distinct (map key ?F)" using assms(2) by (simp add: distinct_map_filter)
  show ?thesis
  proof (cases "length ?S > p")
    case False
    then show ?thesis by (simp add: keyset_page_def)
  next
    case True
    then have page: "keyset_page key p cur rows = (take p ?S, Some (key (?S ! (p - 1))))"
      using assms(1) by (simp add: keyset_page_def Let_def)
    have last: "?S ! (p - 1) \<in> set (take p ?S)"
      using True assms(1) by (auto simp: in_set_conv_nth intro!: exI [of _ "p - 1"])
    have le: "key r \<le> key (?S ! (p - 1))" if r: "r \<in> set (take p ?S)" for r
    proof -
      obtain i where i: "i < p" "i < length ?S" "r = ?S ! i" using r by (auto simp: in_set_conv_nth)
      then show ?thesis using sort_key_nth_mono [of i "p - 1" ?F key] True by simp
    qed
    have gt: "key (?S ! (p - 1)) < key r" if r: "r \<in> set rows" "after_cursor key cur r" "r \<notin> set (take p ?S)" for r
    proof -
      have "r \<in> set ?S" using r(1,2) by simp
      then obtain i where i: "i < length ?S" "r = ?S ! i" by (metis in_set_conv_nth)
      have "p \<le> i"
      proof (rule ccontr)
        assume "\<not> p \<le> i"
        then have "r \<in> set (take p ?S)" using i by (auto simp: in_set_conv_nth intro!: exI [of _ i])
        with r(3) show False by simp
      qed
      then show ?thesis using sort_key_strict [OF df, of "p - 1" i] i assms(1) by simp
    qed
    have "distinct ?S" using df by (simp add: distinct_map)
    then have d: "distinct (take p ?S)" by simp
    have mem: "after_cursor key cur r" if "r \<in> set (take p ?S)" for r
      using set_take_subset [of p ?S] that by auto
    show ?thesis unfolding page prod.case option.case
    proof (intro conjI ballI impI)
      show "\<exists>rest. ?S = take p ?S @ rest \<and> rest \<noteq> []"
        using True by (intro exI [of _ "drop p ?S"]) simp
      show "length (take p ?S) = p" using True by simp
      show "key (?S ! (p - 1)) \<in> key ` set (take p ?S)" using last by (rule imageI)
      show "distinct (take p ?S)" by (rule d)
      show "key (?S ! (p - 1)) < key r"
        if r: "r \<in> set rows" "after_cursor key cur r \<and> r \<notin> set (take p ?S)" for r
        using gt [of r] r by blast
    qed (erule mem, erule le)
  qed
qed

lemma distinct_count_in: "distinct xs \<Longrightarrow> x \<in> set xs \<Longrightarrow> count_list xs x = 1"
  by (induction xs) (auto simp: count_list_0_iff)

text \<open>Every row present at every read, and after the cursor, is returned exactly once.\<close>

lemma read_pages_once:
  assumes "0 < p" and "\<And>k. distinct (map key (rows k))" and "\<And>k. r \<in> set (rows k)"
    and "read_pages key p rows n k cur = Some out"
  shows "count_list out r = (if after_cursor key cur r then 1 else 0)"
  using assms(4)
proof (induction n arbitrary: k cur out)
  case 0
  then show ?case by simp
next
  case (Suc n)
  note c = keyset_page_cases [OF assms(1,2), of cur k]
  obtain page nxt where pg: "keyset_page key p cur (rows k) = (page, nxt)" by (cases "keyset_page key p cur (rows k)")
  have df: "distinct (filter (after_cursor key cur) (rows k))"
    using assms(2) [of k] by (simp add: distinct_map)
  show ?case
  proof (cases nxt)
    case None
    then have "out = sort_key key (filter (after_cursor key cur) (rows k))" using Suc.prems c pg by simp
    moreover have "distinct (sort_key key (filter (after_cursor key cur) (rows k)))" using df by simp
    ultimately show ?thesis
      using assms(3) [of k] by (simp add: count_list_0_iff distinct_count_in)
  next
    case (Some x)
    then obtain rest where rest: "read_pages key p rows n (Suc k) (Some x) = Some rest" "out = page @ rest"
      using Suc.prems pg by auto
    have IH: "count_list rest r = (if x < key r then 1 else 0)"
      using Suc.IH [OF rest(1)] by (simp add: after_cursor_def)
    have pc: "\<forall>r \<in> set page. after_cursor key cur r \<and> key r \<le> x"
      "\<forall>r \<in> set (rows k). after_cursor key cur r \<and> r \<notin> set page \<longrightarrow> x < key r" "distinct page" "x \<in> key ` set page"
      using c pg Some by auto
    show ?thesis
    proof (cases "r \<in> set page")
      case True
      then have "count_list page r = 1" using pc(3) by (simp add: distinct_count_in)
      moreover have "\<not> x < key r" "after_cursor key cur r" using pc(1) True by auto
      ultimately show ?thesis using IH rest(2) by simp
    next
      case False
      then have 0: "count_list page r = 0" by (simp add: count_list_0_iff)
      show ?thesis
      proof (cases "after_cursor key cur r")
        case True
        then have "x < key r" using pc(2) assms(3) [of k] False by blast
        then show ?thesis using IH 0 True rest(2) by simp
      next
        case no: False
        obtain q where q: "q \<in> set page" "x = key q" using pc(4) by auto
        have "\<not> x < key r"
        proof
          assume "x < key r"
          then have "after_cursor key cur r" using pc(1) q by (auto simp: after_cursor_def split: option.splits)
          with no show False by simp
        qed
        then show ?thesis using IH 0 no rest(2) by simp
      qed
    qed
  qed
qed

text \<open>On a table that does not change, the pages are the whole sorted table.\<close>

lemma read_pages_static:
  assumes "0 < p" and "distinct (map key rows)" and "length (filter (after_cursor key cur) rows) < n"
  shows "read_pages key p (\<lambda>_. rows) n k cur = Some (sort_key key (filter (after_cursor key cur) rows))"
  using assms(3)
proof (induction n arbitrary: k cur)
  case 0
  then show ?case by simp
next
  case (Suc n)
  note c = keyset_page_cases [OF assms(1,2), of cur]
  let ?S = "sort_key key (filter (after_cursor key cur) rows)"
  obtain page nxt where pg: "keyset_page key p cur rows = (page, nxt)" by (cases "keyset_page key p cur rows")
  show ?case
  proof (cases nxt)
    case None
    then show ?thesis using c pg by simp
  next
    case (Some x)
    obtain rest where S: "?S = page @ rest" "length page = p" "x \<in> key ` set page"
        "\<forall>r \<in> set page. after_cursor key cur r \<and> key r \<le> x"
        "\<forall>r \<in> set rows. after_cursor key cur r \<and> r \<notin> set page \<longrightarrow> x < key r"
      using c pg Some by auto
    have iff: "after_cursor key (Some x) r \<longleftrightarrow> after_cursor key cur r \<and> r \<notin> set page" if "r \<in> set rows" for r
    proof
      assume a: "after_cursor key (Some x) r"
      obtain q where q: "q \<in> set page" "x = key q" using S(3) by auto
      have "after_cursor key cur r" using a q S(4) by (auto simp: after_cursor_def split: option.splits)
      moreover have "r \<notin> set page" using a S(4) by (auto simp: after_cursor_def)
      ultimately show "after_cursor key cur r \<and> r \<notin> set page" by simp
    qed (use S(5) that in \<open>auto simp: after_cursor_def\<close>)
    have df: "distinct ?S" using assms(2) by (simp add: distinct_map)
    have rest: "sort_key key (filter (after_cursor key (Some x)) rows) = rest"
    proof -
      have dm: "distinct (map key ?S)"
        using distinct_map_filter [OF assms(2)] by (simp add: distinct_map)
      have sm: "sorted (map key ?S)" by (rule sorted_sort_key)
      have ds: "distinct (map key rest)" "sorted (map key rest)"
        using dm sm unfolding S(1) by (simp_all add: sorted_append)
      have "set rest = set (filter (after_cursor key (Some x)) rows)"
      proof -
        have "set page \<union> set rest = {r \<in> set rows. after_cursor key cur r}"
          using arg_cong [OF S(1), of set] by auto
        moreover have "set page \<inter> set rest = {}" using df S(1) by simp
        ultimately show ?thesis using iff by auto
      qed
      then show ?thesis
        using ds assms(2)
        by (intro map_sorted_distinct_set_unique [of key]) (auto simp: distinct_map intro: inj_on_subset)
    qed
    have "length (filter (after_cursor key (Some x)) rows) < n"
      using arg_cong [OF rest, of length] arg_cong [OF S(1), of length] S(2) assms(1) Suc.prems by simp
    from Suc.IH [OF this] rest show ?thesis using pg Some S(1) by simp
  qed
qed

section \<open>Page tokens\<close>

text \<open>\<open>base64.RawURLEncoding\<close>: three bytes are four characters, a rest is two or three.\<close>

definition b64_char :: "nat \<Rightarrow> char" where
  "b64_char n = (if n < 26 then char_of (n + 65) else if n < 52 then char_of (n + 71)
     else if n < 62 then char_of (n - 4) else if n = 62 then CHR ''-'' else CHR ''_'')"

definition b64_val :: "char \<Rightarrow> nat option" where
  "b64_val c = (let n = (of_char c :: nat) in
     if 65 \<le> n \<and> n \<le> 90 then Some (n - 65)
     else if 97 \<le> n \<and> n \<le> 122 then Some (n - 71)
     else if 48 \<le> n \<and> n \<le> 57 then Some (n + 4)
     else if n = 45 then Some 62 else if n = 95 then Some 63 else None)"

abbreviation ord :: "char \<Rightarrow> nat" where "ord c \<equiv> of_char c"

fun b64_encode :: "string \<Rightarrow> string" where
  "b64_encode [] = []"
| "b64_encode [a] = [b64_char (ord a div 4), b64_char (ord a mod 4 * 16)]"
| "b64_encode [a, b] =
     [b64_char (ord a div 4), b64_char (ord a mod 4 * 16 + ord b div 16), b64_char (ord b mod 16 * 4)]"
| "b64_encode (a # b # c # s) =
     b64_char (ord a div 4) # b64_char (ord a mod 4 * 16 + ord b div 16) #
     b64_char (ord b mod 16 * 4 + ord c div 64) # b64_char (ord c mod 64) # b64_encode s"

text \<open>The decoder skips line ends; leftover bits of the last character are not checked.\<close>

fun b64_groups :: "nat list \<Rightarrow> string option" where
  "b64_groups [] = Some []"
| "b64_groups [u] = None"
| "b64_groups [u, v] = Some [char_of (u * 4 + v div 16)]"
| "b64_groups [u, v, w] = Some [char_of (u * 4 + v div 16), char_of (v mod 16 * 16 + w div 4)]"
| "b64_groups (u # v # w # x # s) =
     map_option (\<lambda>t. char_of (u * 4 + v div 16) # char_of (v mod 16 * 16 + w div 4) #
                     char_of (w mod 4 * 64 + x) # t) (b64_groups s)"

definition b64_decode :: "string \<Rightarrow> string option" where
  "b64_decode s = (let vs = map b64_val (filter (\<lambda>c. ord c \<noteq> 10 \<and> ord c \<noteq> 13) s) in
     if None \<in> set vs then None else b64_groups (map the vs))"

lemma b64_val_char: "n < 64 \<Longrightarrow> b64_val (b64_char n) = Some n"
  by (auto simp: b64_val_def b64_char_def Let_def)

lemma b64_char_plain: "n < 64 \<Longrightarrow> ord (b64_char n) \<noteq> 10 \<and> ord (b64_char n) \<noteq> 13"
  by (auto simp: b64_char_def)

fun b64_digits :: "string \<Rightarrow> nat list" where
  "b64_digits [] = []"
| "b64_digits [a] = [ord a div 4, ord a mod 4 * 16]"
| "b64_digits [a, b] = [ord a div 4, ord a mod 4 * 16 + ord b div 16, ord b mod 16 * 4]"
| "b64_digits (a # b # c # s) =
     [ord a div 4, ord a mod 4 * 16 + ord b div 16, ord b mod 16 * 4 + ord c div 64, ord c mod 64] @ b64_digits s"

lemma b64_encode_digits: "b64_encode s = map b64_char (b64_digits s)"
  by (induction s rule: b64_digits.induct) simp_all

text \<open>The two halves of a byte.\<close>

lemma halves_nat:
  assumes "n < (256 :: nat)"
  shows "n div 16 < 16" "n div 4 < 64" "n div 64 < 4" "n div 16 div 16 = 0"
  "n div 64 div 4 = 0" "n div 16 mod 16 = n div 16" "n div 64 mod 4 = n div 64"
  "n div 16 * 16 + n mod 16 = n" "n div 64 * 64 + n mod 64 = n" "n div 4 * 4 + n mod 4 = n"
  using assms by auto

lemmas halves = halves_nat [OF nat_of_char_less_256]

lemma b64_digits_less: "d \<in> set (b64_digits s) \<Longrightarrow> d < 64"
proof -
  have m: "x mod 4 * 16 + y < 64" if "y < 16" for x y :: nat using that mod_less_divisor [of 4 x] by linarith
  have n: "x mod 16 * 4 + y < 64" if "y < 4" for x y :: nat using that mod_less_divisor [of 16 x] by linarith
  show "d \<in> set (b64_digits s) \<Longrightarrow> d < 64"
    by (induction s rule: b64_digits.induct) (auto simp: halves m n m [of 0, simplified] n [of 0, simplified])
qed

lemma b64_groups_digits: "b64_groups (b64_digits s) = Some s"
proof -
  have q: "(x mod 4 * 16 + ord c div 16) div 16 = x mod 4" "(x mod 4 * 16 + ord c div 16) mod 16 = ord c div 16"
    "(x mod 16 * 4 + ord c div 64) div 4 = x mod 16" "(x mod 16 * 4 + ord c div 64) mod 4 = ord c div 64" for x c
    using halves [of c] by simp_all
  show ?thesis
    by (induction s rule: b64_digits.induct) (simp_all only: b64_digits.simps b64_groups.simps append.simps q halves
        option.map nonzero_mult_div_cancel_right, simp_all add: halves)
qed

lemma b64_roundtrip: "b64_decode (b64_encode s) = Some s"
proof -
  have *: "filter (\<lambda>c. ord c \<noteq> 10 \<and> ord c \<noteq> 13) (b64_encode s) = b64_encode s"
    by (auto simp: b64_encode_digits b64_char_plain b64_digits_less intro!: filter_True)
  have "map b64_val (b64_encode s) = map Some (b64_digits s)"
    by (simp add: b64_encode_digits b64_val_char b64_digits_less)
  with * show ?thesis by (auto simp: b64_decode_def Let_def comp_def b64_groups_digits)
qed

section \<open>The queries\<close>

definition DefaultPageSize :: nat where "DefaultPageSize = 50"
definition MaxPageSize :: nat where "MaxPageSize = 200"

definition clampPageSize :: "int \<Rightarrow> nat" where
  "clampPageSize n = (if n \<le> 0 then DefaultPageSize else if n > int MaxPageSize then MaxPageSize else nat n)"

lemma clampPageSize_pos [simp]: "0 < clampPageSize n"
  by (simp add: clampPageSize_def DefaultPageSize_def MaxPageSize_def)

lemma clampPageSize_max: "clampPageSize n \<le> MaxPageSize"
  by (auto simp add: clampPageSize_def DefaultPageSize_def MaxPageSize_def)

record event_query =
  eq_place :: string
  eq_layers :: "layer list"
  eq_statuses :: "event_status list"
  eq_minSeverity :: severity
  eq_since :: time
  eq_pageSize :: int
  eq_token :: string

record history_query =
  hq_place :: string
  hq_layers :: "layer list"
  hq_from :: time
  hq_to :: time
  hq_pageSize :: int
  hq_token :: string

record eventCursor =
  ec_s :: int
  ec_o :: int
  ec_id :: string

record historyCursor =
  hc_o :: int
  hc_id :: string
  hc_r :: "32 word"

text \<open>\<open>json.Marshal\<close> and \<open>json.Unmarshal\<close> of the two cursors.\<close>

record cursor_json =
  cj_event :: "eventCursor \<Rightarrow> string"
  cj_unevent :: "string \<Rightarrow> eventCursor option"
  cj_history :: "historyCursor \<Rightarrow> string"
  cj_unhistory :: "string \<Rightarrow> historyCursor option"

definition encodeToken :: "('c \<Rightarrow> string) \<Rightarrow> 'c \<Rightarrow> string" where
  "encodeToken marshal c = b64_encode (marshal c)"

definition decodeToken :: "(string \<Rightarrow> 'c option) \<Rightarrow> string \<Rightarrow> 'c result" where
  "decodeToken unmarshal tok =
     (case b64_decode tok of
        None \<Rightarrow> Inl ''store: invalid page token: illegal base64 data''
      | Some b \<Rightarrow> (case unmarshal b of None \<Rightarrow> Inl ''store: invalid page token'' | Some c \<Rightarrow> Inr c))"

text \<open>An empty token starts at the beginning.\<close>

definition token_cursor :: "(string \<Rightarrow> 'c option) \<Rightarrow> string \<Rightarrow> 'c option result" where
  "token_cursor unmarshal tok = (if tok = [] then Inr None else rbind (decodeToken unmarshal tok) (\<lambda>c. Inr (Some c)))"

text \<open>The scan loops: a row beyond the page size ends the page with the last row's cursor.\<close>

fun scan_page :: "nat \<Rightarrow> ('r \<Rightarrow> 'c) \<Rightarrow> 'r list \<Rightarrow> 'c option \<Rightarrow> 'r list \<Rightarrow> 'r list \<times> 'c option" where
  "scan_page p cur_of out lst [] = (out, None)"
| "scan_page p cur_of out lst (r # rs) =
     (if length out = p then (out, lst) else scan_page p cur_of (out @ [r]) (Some (cur_of r)) rs)"

definition event_cursor :: "event_row \<Rightarrow> eventCursor" where
  "event_cursor r = \<lparr>ec_s = int (severity_rank (er_severity r)), ec_o = er_observed r, ec_id = er_id r\<rparr>"

definition event_after :: "eventCursor option \<Rightarrow> event_row \<Rightarrow> bool" where
  "event_after cur r =
     (case cur of
        None \<Rightarrow> True
      | Some c \<Rightarrow>
          (let s = int (severity_rank (er_severity r)); ob = er_observed r in
           s < ec_s c \<or> (s = ec_s c \<and> ob < ec_o c) \<or> (s = ec_s c \<and> ob = ec_o c \<and> er_id r > ec_id c)))"

text \<open>\<open>ORDER BY e.severity DESC, e.observed_at DESC, e.id ASC\<close>\<close>

definition event_key :: "event_row \<Rightarrow> int \<times> int \<times> string" where
  "event_key r = (- int (severity_rank (er_severity r)), - er_observed r, er_id r)"

definition event_filter :: "event_query \<Rightarrow> store \<Rightarrow> event_row \<Rightarrow> bool" where
  "event_filter q st r \<longleftrightarrow>
     (eq_place q \<noteq> [] \<longrightarrow> (er_id r, eq_place q) \<in> set (st_eventPlaces st)) \<and>
     er_status r \<in> set (if eq_statuses q = [] then [ST_ACTIVE, SCHEDULED] else eq_statuses q) \<and>
     (eq_layers q \<noteq> [] \<longrightarrow> er_layer r \<in> set (eq_layers q)) \<and>
     (eq_minSeverity q > INFO \<longrightarrow> er_severity r \<ge> eq_minSeverity q) \<and>
     (\<not> isZero (eq_since q) \<longrightarrow> er_observed r \<ge> unix (eq_since q))"

definition events_page :: "event_query \<Rightarrow> eventCursor option \<Rightarrow> store \<Rightarrow> event_row list \<times> eventCursor option" where
  "events_page q cur st =
     (let p = clampPageSize (eq_pageSize q) in
      scan_page p event_cursor [] None
        (take (p + 1) (sort_key event_key (filter (event_after cur) (filter (event_filter q st) (st_events st))))))"

definition token_of :: "('c \<Rightarrow> string) \<Rightarrow> 'c option \<Rightarrow> string" where
  "token_of marshal c = (case c of None \<Rightarrow> [] | Some c \<Rightarrow> encodeToken marshal c)"

definition QueryEvents :: "cursor_json \<Rightarrow> event_query \<Rightarrow> store \<Rightarrow> (event list \<times> string) result" where
  "QueryEvents js q st =
     rbind (token_cursor (cj_unevent js) (eq_token q)) (\<lambda>cur.
       let (rows, nxt) = events_page q cur st in Inr (map er_proto rows, token_of (cj_event js) nxt))"

record revision_doc =
  rd_revision :: "32 word"
  rd_observedAt :: time
  rd_ingestedAt :: time
  rd_event :: event

definition scanRevision :: "rev_row \<Rightarrow> revision_doc" where
  "scanRevision r = \<lparr>rd_revision = rv_revision r, rd_observedAt = fromUnix (rv_observed r),
     rd_ingestedAt = fromUnix (rv_ingested r), rd_event = rv_proto r\<rparr>"

text \<open>\<open>EventHistory\<close>: one event's revisions, newest first.\<close>

definition revision_key :: "rev_row \<Rightarrow> int" where
  "revision_key r = - uint (rv_revision r)"

definition rev_cursor :: "rev_row \<Rightarrow> historyCursor" where
  "rev_cursor r = \<lparr>hc_o = 0, hc_id = [], hc_r = rv_revision r\<rparr>"

definition revisions_page :: "string \<times> int \<Rightarrow> historyCursor option \<Rightarrow> store \<Rightarrow> rev_row list \<times> historyCursor option" where
  "revisions_page q cur st =
     (let p = clampPageSize (snd q) in
      scan_page p rev_cursor [] None
        (take (p + 1) (sort_key revision_key
          (filter (\<lambda>r. case cur of None \<Rightarrow> True | Some c \<Rightarrow> rv_revision r < hc_r c)
            (filter (\<lambda>r. rv_event r = fst q) (st_revisions st))))))"

definition EventHistory_q :: "cursor_json \<Rightarrow> string \<Rightarrow> int \<Rightarrow> string \<Rightarrow> store \<Rightarrow> (revision_doc list \<times> string) result" where
  "EventHistory_q js i pageSize tok st =
     rbind (token_cursor (cj_unhistory js) tok) (\<lambda>cur.
       let (rows, nxt) = revisions_page (i, pageSize) cur st
       in Inr (map scanRevision rows, token_of (cj_history js) nxt))"

text \<open>\<open>QueryHistory\<close>: the revisions of all events, joined with the current rows.\<close>

definition history_key :: "rev_row \<Rightarrow> int \<times> string \<times> int" where
  "history_key r = (- rv_observed r, rv_event r, - uint (rv_revision r))"

definition history_cursor :: "rev_row \<Rightarrow> historyCursor" where
  "history_cursor r = \<lparr>hc_o = unix (rd_observedAt (scanRevision r)), hc_id = rv_event r, hc_r = rd_revision (scanRevision r)\<rparr>"

definition history_after :: "historyCursor option \<Rightarrow> rev_row \<Rightarrow> bool" where
  "history_after cur r =
     (case cur of
        None \<Rightarrow> True
      | Some c \<Rightarrow> rv_observed r < hc_o c \<or> (rv_observed r = hc_o c \<and> rv_event r > hc_id c) \<or>
                  (rv_observed r = hc_o c \<and> rv_event r = hc_id c \<and> rv_revision r < hc_r c))"

definition history_filter :: "history_query \<Rightarrow> store \<Rightarrow> rev_row \<Rightarrow> bool" where
  "history_filter q st r \<longleftrightarrow>
     (case get_row st (rv_event r) of
        None \<Rightarrow> False
      | Some e \<Rightarrow> hq_layers q \<noteq> [] \<longrightarrow> er_layer e \<in> set (hq_layers q)) \<and>
     (hq_place q \<noteq> [] \<longrightarrow> (rv_event r, hq_place q) \<in> set (st_eventPlaces st)) \<and>
     (\<not> isZero (hq_from q) \<longrightarrow> rv_observed r \<ge> unix (hq_from q)) \<and>
     (\<not> isZero (hq_to q) \<longrightarrow> rv_observed r < unix (hq_to q))"

definition history_page :: "history_query \<Rightarrow> historyCursor option \<Rightarrow> store \<Rightarrow> rev_row list \<times> historyCursor option" where
  "history_page q cur st =
     (let p = clampPageSize (hq_pageSize q) in
      scan_page p history_cursor [] None
        (take (p + 1) (sort_key history_key (filter (history_after cur) (filter (history_filter q st) (st_revisions st))))))"

definition QueryHistory :: "cursor_json \<Rightarrow> history_query \<Rightarrow> store \<Rightarrow> (revision_doc list \<times> string) result" where
  "QueryHistory js q st =
     rbind (token_cursor (cj_unhistory js) (hq_token q)) (\<lambda>cur.
       let (rows, nxt) = history_page q cur st
       in Inr (map scanRevision rows, token_of (cj_history js) nxt))"

text \<open>The scan loop stops where the limit does.\<close>

lemma scan_page_limit:
  assumes "length out \<le> p" and "0 < p" and "out \<noteq> [] \<longrightarrow> lst = Some (cur_of (last out))"
  shows "scan_page p cur_of out lst rs =
     (if length (out @ rs) > p then (take p (out @ rs), Some (cur_of ((out @ rs) ! (p - 1)))) else (out @ rs, None))"
  using assms
proof (induction rs arbitrary: out lst)
  case Nil
  then show ?case by simp
next
  case (Cons r rs)
  show ?case
  proof (cases "length out = p")
    case True
    then have "out \<noteq> []" using Cons.prems(2) by auto
    then have "(out @ r # rs) ! (p - 1) = last out"
      using True Cons.prems(2) by (simp add: nth_append last_conv_nth)
    then show ?thesis using True Cons.prems \<open>out \<noteq> []\<close> by simp
  next
    case False
    then show ?thesis using Cons.prems Cons.IH [of "out @ [r]" "Some (cur_of r)"] by simp
  qed
qed

lemma scan_keyset:
  assumes "0 < p" and "\<And>r. ckey (cur_of r) = key r"
    and "\<And>r. after cur r \<longleftrightarrow> after_cursor key (map_option ckey cur) r"
  shows "map_prod id (map_option ckey)
       (scan_page p cur_of [] None (take (p + 1) (sort_key key (filter (after cur) rows)))) =
     keyset_page key p (map_option ckey cur) rows"
proof -
  have "after cur = after_cursor key (map_option ckey cur)" using assms(3) by auto
  then show ?thesis
    using assms(1) by (simp add: scan_page_limit keyset_page_def Let_def assms(2))
qed

section \<open>The contract of a paged read\<close>

text \<open>A client following cursors; \<open>sts k\<close> is the state its \<open>k\<close>-th request sees.\<close>

fun read_rows :: "('c option \<Rightarrow> 's \<Rightarrow> 'r list \<times> 'c option) \<Rightarrow> (nat \<Rightarrow> 's) \<Rightarrow> nat \<Rightarrow> nat \<Rightarrow> 'c option \<Rightarrow> 'r list option" where
  "read_rows page sts 0 k cur = None"
| "read_rows page sts (Suc n) k cur =
     (case page cur (sts k) of
        (rs, None) \<Rightarrow> Some rs
      | (rs, Some c) \<Rightarrow> map_option ((@) rs) (read_rows page sts n (Suc k) (Some c)))"

locale keyset_read =
  fixes page :: "'q \<Rightarrow> 'c option \<Rightarrow> 's \<Rightarrow> 'r list \<times> 'c option"
    and rows_of :: "'q \<Rightarrow> 's \<Rightarrow> 'r list"
    and key :: "'r \<Rightarrow> 'k::linorder"
    and cur_of :: "'r \<Rightarrow> 'c"
    and ckey :: "'c \<Rightarrow> 'k"
    and size_of :: "'q \<Rightarrow> nat"
    and good :: "'s \<Rightarrow> bool"
  assumes size_pos: "0 < size_of q"
    and keys_distinct: "good st \<Longrightarrow> distinct (map key (rows_of q st))"
    and page_is: "map_prod id (map_option ckey) (page q cur st) =
          keyset_page key (size_of q) (map_option ckey cur) (rows_of q st)"
    and page_cursor: "page q cur st = (rs, Some c) \<Longrightarrow> \<exists>r \<in> set (rows_of q st). c = cur_of r"
begin

lemma read_rows_pages:
  "read_rows (page q) sts n k cur =
     read_pages key (size_of q) (\<lambda>k. rows_of q (sts k)) n k (map_option ckey cur)"
proof (induction n arbitrary: k cur)
  case (Suc n)
  obtain rs nxt where p: "page q cur (sts k) = (rs, nxt)" by (cases "page q cur (sts k)")
  then have "keyset_page key (size_of q) (map_option ckey cur) (rows_of q (sts k)) = (rs, map_option ckey nxt)"
    using page_is [of q cur "sts k"] by simp
  then show ?case using p Suc.IH [of "Suc k" nxt] by (cases nxt) simp_all
qed simp

lemma page_rows: "set (fst (page q cur st)) \<subseteq> set (rows_of q st)"
proof -
  have "fst (page q cur st) = fst (keyset_page key (size_of q) (map_option ckey cur) (rows_of q st))"
    using arg_cong [OF page_is [of q cur st], of fst] by simp
  then show ?thesis
    by (auto simp: keyset_page_def Let_def dest: in_set_takeD)
qed

lemma read_rows_subset:
  "read_rows (page q) sts n k cur = Some out \<Longrightarrow> r \<in> set out \<Longrightarrow> \<exists>j. r \<in> set (rows_of q (sts j))"
proof (induction n arbitrary: k cur out)
  case (Suc n)
  obtain rs nxt where p: "page q cur (sts k) = (rs, nxt)" by (cases "page q cur (sts k)")
  have s: "set rs \<subseteq> set (rows_of q (sts k))" using page_rows [of q cur "sts k"] p by simp
  show ?case
  proof (cases nxt)
    case None
    then show ?thesis using Suc.prems p s by auto
  next
    case (Some c)
    then obtain rest where "read_rows (page q) sts n (Suc k) (Some c) = Some rest" "out = rs @ rest"
      using Suc.prems(1) p by auto
    then show ?thesis using Suc.IH [of "Suc k" "Some c" rest] Suc.prems(2) s by auto
  qed
qed simp

text \<open>A row there at every request is read exactly once, whatever else changes meanwhile.\<close>

lemma each_once:
  assumes "\<And>k. good (sts k)" and "\<And>k. r \<in> set (rows_of q (sts k))"
    and "read_rows (page q) sts n 0 None = Some out"
  shows "count_list out r = 1"
  using read_pages_once [OF size_pos [of q] keys_distinct [OF assms(1)] assms(2), where n = n and k = 0 and cur = None and out = out] assms(3)
  by (simp add: read_rows_pages after_cursor_def)

text \<open>On a state that does not change the pages are the rows in their order.\<close>

lemma all_in_order:
  assumes "good st" and "length (rows_of q st) < n"
  shows "read_rows (page q) (\<lambda>_. st) n 0 None = Some (sort_key key (rows_of q st))"
  using read_pages_static [OF size_pos [of q] keys_distinct [OF assms(1), of q], where cur = None and n = n and k = 0] assms(2)
  by (simp add: read_rows_pages after_cursor_def)

end

lemma scan_page_cursor:
  assumes "scan_page p cur_of [] None (take n (sort_key key (filter P rows))) = (out, Some c)" and "0 < p"
  shows "\<exists>r \<in> set rows. c = cur_of r"
proof -
  let ?rs = "take n (sort_key key (filter P rows))"
  have "c = cur_of (?rs ! (p - 1))" "p - 1 < length ?rs"
    using assms by (auto simp: scan_page_limit split: if_splits)
  moreover have "?rs ! (p - 1) \<in> set ?rs" by (rule nth_mem) fact
  then have "?rs ! (p - 1) \<in> set rows" using in_set_takeD by fastforce
  ultimately show ?thesis by blast
qed

definition rev_keys_ok :: "store \<Rightarrow> bool" where
  "rev_keys_ok st \<longleftrightarrow> distinct (map (\<lambda>r. (rv_event r, rv_revision r)) (st_revisions st))"

definition event_ckey :: "eventCursor \<Rightarrow> int \<times> int \<times> string" where
  "event_ckey c = (- ec_s c, - ec_o c, ec_id c)"

definition history_ckey :: "historyCursor \<Rightarrow> int \<times> string \<times> int" where
  "history_ckey c = (- hc_o c, hc_id c, - uint (hc_r c))"

lemma distinct_finer:
  assumes "distinct (map g xs)" and "\<And>x y. f x = f y \<Longrightarrow> g x = g y"
  shows "distinct (map f (filter P xs))"
proof -
  have "distinct xs" "inj_on g (set xs)" using assms(1) by (simp_all add: distinct_map)
  moreover from this(2) have "inj_on f {x \<in> set xs. P x}"
    unfolding inj_on_def using assms(2) by blast
  ultimately show ?thesis by (simp add: distinct_map)
qed

interpretation events_read: keyset_read events_page "\<lambda>q st. filter (event_filter q st) (st_events st)"
  event_key event_cursor event_ckey "\<lambda>q. clampPageSize (eq_pageSize q)" "\<lambda>st. tbl_ok er_id (st_events st)"
proof unfold_locales
  fix q cur and st :: store and rs c
  show "distinct (map event_key (filter (event_filter q st) (st_events st)))" if "tbl_ok er_id (st_events st)"
    by (rule distinct_finer [of er_id]) (use that in \<open>auto simp: tbl_ok_def event_key_def\<close>)
  show "map_prod id (map_option event_ckey) (events_page q cur st) =
      keyset_page event_key (clampPageSize (eq_pageSize q)) (map_option event_ckey cur)
        (filter (event_filter q st) (st_events st))"
    unfolding events_page_def Let_def
    by (rule scan_keyset)
      (auto simp: event_ckey_def event_key_def event_cursor_def event_after_def after_cursor_def Let_def
        less_prod_def split: option.splits)
  show "\<exists>r \<in> set (filter (event_filter q st) (st_events st)). c = event_cursor r"
    if "events_page q cur st = (rs, Some c)"
    by (rule scan_page_cursor [OF that [unfolded events_page_def Let_def]]) simp
qed simp

interpretation revisions_read: keyset_read revisions_page "\<lambda>q st. filter (\<lambda>r. rv_event r = fst q) (st_revisions st)"
  revision_key rev_cursor "\<lambda>c. - uint (hc_r c)" "\<lambda>q. clampPageSize (snd q)" rev_keys_ok
proof unfold_locales
  fix q :: "string \<times> int" and cur and st :: store and rs c
  let ?rows = "filter (\<lambda>r. rv_event r = fst q) (st_revisions st)"
  show "distinct (map revision_key ?rows)" if "rev_keys_ok st"
  proof -
    have k: "rv_revision x = rv_revision y" if "revision_key x = revision_key y" for x y
      using that by (auto simp: revision_key_def intro: unsigned_word_eqI)
    show ?thesis using that unfolding rev_keys_ok_def distinct_map inj_on_def by (auto dest: k)
  qed
  show "map_prod id (map_option (\<lambda>c. - uint (hc_r c))) (revisions_page q cur st) =
      keyset_page revision_key (clampPageSize (snd q)) (map_option (\<lambda>c. - uint (hc_r c)) cur) ?rows"
    unfolding revisions_page_def Let_def
    by (rule scan_keyset [where after = "\<lambda>cur r. case cur of None \<Rightarrow> True | Some c \<Rightarrow> rv_revision r < hc_r c"])
      (auto simp: rev_cursor_def revision_key_def after_cursor_def word_less_def split: option.splits)
  show "\<exists>r \<in> set ?rows. c = rev_cursor r" if "revisions_page q cur st = (rs, Some c)"
    by (rule scan_page_cursor [OF that [unfolded revisions_page_def Let_def]]) simp
qed simp

interpretation history_read: keyset_read history_page "\<lambda>q st. filter (history_filter q st) (st_revisions st)"
  history_key history_cursor history_ckey "\<lambda>q. clampPageSize (hq_pageSize q)" rev_keys_ok
proof unfold_locales
  fix q cur and st :: store and rs c
  show "distinct (map history_key (filter (history_filter q st) (st_revisions st)))" if "rev_keys_ok st"
    by (rule distinct_finer [of "\<lambda>r. (rv_event r, rv_revision r)"])
      (use that in \<open>auto simp: rev_keys_ok_def history_key_def intro: unsigned_word_eqI\<close>)
  show "map_prod id (map_option history_ckey) (history_page q cur st) =
      keyset_page history_key (clampPageSize (hq_pageSize q)) (map_option history_ckey cur)
        (filter (history_filter q st) (st_revisions st))"
    unfolding history_page_def Let_def
    by (rule scan_keyset)
      (auto simp: history_ckey_def history_key_def history_cursor_def history_after_def after_cursor_def
        scanRevision_def less_prod_def word_less_def split: option.splits)
  show "\<exists>r \<in> set (filter (history_filter q st) (st_revisions st)). c = history_cursor r"
    if "history_page q cur st = (rs, Some c)"
    by (rule scan_page_cursor [OF that [unfolded history_page_def Let_def]]) simp
qed simp

section \<open>Reading by tokens\<close>

definition token_law :: "('c \<Rightarrow> string) \<Rightarrow> (string \<Rightarrow> 'c option) \<Rightarrow> 'c \<Rightarrow> bool" where
  "token_law marshal unmarshal c \<longleftrightarrow> marshal c \<noteq> [] \<and> unmarshal (marshal c) = Some c"

lemma b64_encode_Nil: "b64_encode s = [] \<longleftrightarrow> s = []"
  by (cases s rule: b64_encode.cases) auto

lemma token_roundtrip:
  assumes "\<And>c. nxt = Some c \<Longrightarrow> token_law m u c"
  shows "token_cursor u (token_of m nxt) = Inr nxt" and "token_of m nxt = [] \<longleftrightarrow> nxt = None"
  using assms
  by (auto simp: token_cursor_def token_of_def token_law_def encodeToken_def decodeToken_def
      b64_encode_Nil b64_roundtrip split: option.splits)

text \<open>A client of the API: it sends back the token of each page until it gets none.\<close>

fun read_tokens :: "(string \<Rightarrow> 's \<Rightarrow> ('a list \<times> string) result) \<Rightarrow> (nat \<Rightarrow> 's) \<Rightarrow> nat \<Rightarrow> nat \<Rightarrow> string \<Rightarrow> 'a list result" where
  "read_tokens req sts 0 k tok = Inl ''out of requests''"
| "read_tokens req sts (Suc n) k tok =
     rbind (req tok (sts k)) (\<lambda>(xs, nxt).
       if nxt = [] then Inr xs
       else rbind (read_tokens req sts n (Suc k) nxt) (\<lambda>rest. Inr (xs @ rest)))"

lemma read_tokens_rows:
  assumes req: "\<And>tok st. req tok st =
      rbind (token_cursor u tok) (\<lambda>cur. let (rows, nxt) = page cur st in Inr (map f rows, token_of m nxt))"
    and law: "\<And>k cur rs c. page cur (sts k) = (rs, Some c) \<Longrightarrow> token_law m u c"
    and "token_cursor u tok = Inr cur"
  shows "read_tokens req sts n k tok =
    (case read_rows page sts n k cur of None \<Rightarrow> Inl ''out of requests'' | Some out \<Rightarrow> Inr (map f out))"
  using assms(3)
proof (induction n arbitrary: k tok cur)
  case (Suc n)
  obtain rs nxt where p: "page cur (sts k) = (rs, nxt)" by (cases "page cur (sts k)")
  note rt = token_roundtrip [where nxt = nxt and m = m and u = u, OF law [where cur = cur and k = k and rs = rs]]
  show ?case
  proof (cases nxt)
    case None
    then show ?thesis using Suc.prems p by (simp add: req token_of_def)
  next
    case (Some c)
    then have "token_cursor u (token_of m nxt) = Inr (Some c)" "token_of m nxt \<noteq> []"
      using rt p by auto
    then show ?thesis
      using Suc.prems p Some Suc.IH [of "token_of m nxt" "Some c" "Suc k"]
      by (simp add: req split: option.split)
  qed
qed simp

lemma count_map_once:
  assumes "count_list xs r = 1" and "\<And>x. x \<in> set xs \<Longrightarrow> f x = f r \<Longrightarrow> x = r"
  shows "count_list (map f xs) (f r) = 1"
proof -
  have "count_list (map f ys) (f r) = count_list ys r" if "set ys \<subseteq> set xs" for ys
    using that assms(2) by (induction ys) auto
  then show ?thesis using assms(1) by simp
qed

text \<open>The requests of one listing: the same query with the token of the page before.\<close>

abbreviation event_pages :: "cursor_json \<Rightarrow> event_query \<Rightarrow> string \<Rightarrow> store \<Rightarrow> (event list \<times> string) result" where
  "event_pages js q tok st \<equiv> QueryEvents js (q\<lparr>eq_token := tok\<rparr>) st"

definition event_tokens_ok :: "cursor_json \<Rightarrow> store \<Rightarrow> bool" where
  "event_tokens_ok js st \<longleftrightarrow>
     (\<forall>r \<in> set (st_events st). token_law (cj_event js) (cj_unevent js) (event_cursor r))"

lemma event_pages_read:
  assumes "\<And>k. event_tokens_ok js (sts k)"
  shows "read_tokens (event_pages js q) sts n 0 [] =
    (case read_rows (events_page q) sts n 0 None of
       None \<Rightarrow> Inl ''out of requests'' | Some out \<Rightarrow> Inr (map er_proto out))"
proof (rule read_tokens_rows [where u = "cj_unevent js" and m = "cj_event js"])
  have "event_filter (q\<lparr>eq_token := tok\<rparr>) st = event_filter q st" for tok st
    by (rule ext) (simp add: event_filter_def)
  then have same: "events_page (q\<lparr>eq_token := tok\<rparr>) cur st = events_page q cur st" for tok cur st
    by (simp add: events_page_def)
  show "event_pages js q tok st = rbind (token_cursor (cj_unevent js) tok)
      (\<lambda>cur. let (rows, nxt) = events_page q cur st in Inr (map er_proto rows, token_of (cj_event js) nxt))" for tok st
    by (simp add: QueryEvents_def same)
  show "token_law (cj_event js) (cj_unevent js) c" if p: "events_page q cur (sts k) = (rs, Some c)" for k cur rs c
    using events_read.page_cursor [OF p] assms [of k] by (auto simp: event_tokens_ok_def)
qed (simp add: token_cursor_def)

text \<open>C17: Paging through \<open>QueryEvents\<close> with its tokens returns an event exactly once when its row
  is in the table and passes the filters at every request, however other events come, change
  and go between the requests.\<close>

theorem events_paged_once:
  assumes "\<And>k. store_ok gl (sts k)" and "\<And>k. event_tokens_ok js (sts k)"
    and "\<And>k. r \<in> set (st_events (sts k)) \<and> event_filter q (sts k) r"
    and "read_tokens (\<lambda>tok. QueryEvents js (q\<lparr>eq_token := tok\<rparr>)) sts n 0 [] = Inr out"
  shows "count_list out (er_proto r) = 1"
proof -
  obtain rows where rows: "read_rows (events_page q) sts n 0 None = Some rows" "out = map er_proto rows"
    using assms(4) event_pages_read [OF assms(2), where q = q and n = n] by (auto split: option.splits)
  have ok: "tbl_ok er_id (st_events (sts k))" for k using assms(1) [of k] by (simp add: store_ok_def)
  have "count_list rows r = 1"
  proof (rule events_read.each_once [where sts = sts and q = q and n = n])
    show "r \<in> set (filter (event_filter q (sts k)) (st_events (sts k)))" for k using assms(3) [of k] by simp
  qed (rule ok, rule rows(1))
  moreover have "x = r" if x: "x \<in> set rows" "er_proto x = er_proto r" for x
  proof -
    obtain j where j: "x \<in> set (st_events (sts j))"
      using events_read.read_rows_subset [OF rows(1) x(1)] by auto
    have x': "get_row (sts j) (er_id x) = Some x" by (rule tbl_get_mem [OF ok j])
    have r': "get_row (sts j) (er_id r) = Some r" by (rule tbl_get_mem [OF ok]) (use assms(3) [of j] in simp)
    have "er_id x = e_id (er_proto x)" "er_id r = e_id (er_proto r)"
      using row_proto_id [OF assms(1) x'] row_proto_id [OF assms(1) r'] by (simp_all add: row_ok_def)
    then have same: "er_id x = er_id r" using x(2) by simp
    have "Some x = Some r" using x' [unfolded same] r' by (rule trans [OF sym])
    then show ?thesis by (rule option.inject [THEN iffD1])
  qed
  ultimately show ?thesis unfolding rows(2) by (rule count_map_once)
qed

lemma event_rows_read:
  assumes "tbl_ok er_id (st_events st)" and "length (st_events st) < n"
  shows "read_rows (events_page q) (\<lambda>_. st) n 0 None =
    Some (sort_key event_key (filter (event_filter q st) (st_events st)))"
  by (rule events_read.all_in_order)
    (use assms le_less_trans [OF length_filter_le] in auto)

text \<open>On a table that does not change meanwhile, following the tokens to the end returns the
  events that pass the filters, all of them and only those, most severe first, then the latest
  observed, then by id; one request more than there are events is enough.\<close>

theorem events_listing_complete:
  assumes "tbl_ok er_id (st_events st)" and "event_tokens_ok js st" and "length (st_events st) < n"
  shows "read_tokens (\<lambda>tok. QueryEvents js (q\<lparr>eq_token := tok\<rparr>)) (\<lambda>_. st) n 0 [] =
    Inr (map er_proto (sort_key event_key (filter (event_filter q st) (st_events st))))"
  using event_pages_read [where sts = "\<lambda>_. st" and q = q and n = n, OF assms(2)]
    event_rows_read [OF assms(1,3), of q] by simp

section \<open>Reading histories\<close>

lemma hist_revisions:
  assumes "hist_ok st" and "get_row st i = Some r"
  shows "map rv_revision (filter (\<lambda>x. rv_event x = i) (st_revisions st)) =
    map word_of_nat [1..<Suc (unat (er_revision r))]"
  using assms by (simp add: hist_ok_def revs_of_def)

lemma revision_numbers_distinct: "distinct (map word_of_nat [1..<Suc (unat (w :: 32 word))] :: 32 word list)"
proof -
  have "inj_on (word_of_nat :: nat \<Rightarrow> 32 word) {1..<Suc (unat w)}"
  proof (rule inj_onI)
    fix a b :: nat assume ab: "a \<in> {1..<Suc (unat w)}" "b \<in> {1..<Suc (unat w)}" and e: "(word_of_nat a :: 32 word) = word_of_nat b"
    have "unat w < 2 ^ LENGTH(32)" by (rule unsigned_less)
    then have "a < 2 ^ 32" "b < 2 ^ 32" using ab by auto
    then show "a = b" using arg_cong [OF e, of unat] by (simp add: unsigned_of_nat take_bit_nat_eq_self)
  qed
  then show ?thesis by (simp add: distinct_map del: upt_Suc)
qed

lemma descending_unique:
  fixes xs ys :: "32 word list"
  assumes "distinct xs" and "distinct ys" and "set xs = set ys"
    and "sorted (map (\<lambda>w. - uint w) xs)" and "sorted (map (\<lambda>w. - uint w) ys)"
  shows "xs = ys"
proof -
  have inj: "inj_on (\<lambda>w :: 32 word. - uint w) A" for A
    by (auto simp: inj_on_def intro: unsigned_word_eqI)
  show ?thesis
    by (rule map_sorted_distinct_set_unique [of "\<lambda>w. - uint w"])
      (use assms inj in \<open>simp_all add: distinct_map\<close>)
qed

lemma hist_rev_keys:
  assumes "hist_ok st"
  shows "rev_keys_ok st"
proof -
  have d: "distinct (map rv_revision (filter (\<lambda>x. rv_event x = i) (st_revisions st)))" for i
  proof (cases "get_row st i")
    case None
    then show ?thesis using assms by (simp add: hist_ok_def revs_of_def)
  next
    case (Some r)
    show ?thesis unfolding hist_revisions [OF assms Some] by (rule revision_numbers_distinct)
  qed
  have "distinct (map (\<lambda>r. (rv_event r, rv_revision r)) rs)"
    if "\<And>i. distinct (map rv_revision (filter (\<lambda>x. rv_event x = i) rs))" for rs
    using that
  proof (induction rs)
    case (Cons x xs)
    have "distinct (map rv_revision (filter (\<lambda>y. rv_event y = i) xs))" for i
      using Cons.prems [of i] by (auto split: if_splits)
    moreover have "(rv_event x, rv_revision x) \<notin> (\<lambda>r. (rv_event r, rv_revision r)) ` set xs"
      using Cons.prems [of "rv_event x"] by auto
    ultimately show ?case using Cons.IH by simp
  qed simp
  from this [OF d] show ?thesis by (simp only: rev_keys_ok_def)
qed

text \<open>C18: Following the tokens of \<open>EventHistory\<close> returns the whole history of an event, newest
  revision first: the revisions from its current one down to 1, without a gap.\<close>

theorem event_history_complete:
  assumes "store_ok gl st" and "get_row st i = Some r" and "unat (er_revision r) < n"
    and "\<And>w. token_law (cj_history js) (cj_unhistory js) \<lparr>hc_o = 0, hc_id = [], hc_r = w\<rparr>"
  shows "\<exists>out. read_tokens (EventHistory_q js i ps) (\<lambda>_. st) n 0 [] = Inr out \<and>
    map rd_revision out = rev (map word_of_nat [1..<Suc (unat (er_revision r))])"
proof -
  let ?rows = "filter (\<lambda>x. rv_event x = i) (st_revisions st)"
  let ?ns = "map word_of_nat [1..<Suc (unat (er_revision r))] :: 32 word list"
  have hist: "hist_ok st" using assms(1) by (simp add: store_ok_def)
  note rows = hist_revisions [OF hist assms(2)]
  have len: "length ?rows = unat (er_revision r)" using arg_cong [OF rows, of length] by simp
  have read: "read_rows (revisions_page (i, ps)) (\<lambda>_. st) n 0 None = Some (sort_key revision_key ?rows)"
    using revisions_read.all_in_order [OF hist_rev_keys [OF hist], of "(i, ps)" n] assms(3) len by simp
  have "read_tokens (EventHistory_q js i ps) (\<lambda>_. st) n 0 [] = Inr (map scanRevision (sort_key revision_key ?rows))"
  proof (subst read_tokens_rows [where u = "cj_unhistory js" and m = "cj_history js"
        and page = "revisions_page (i, ps)" and f = scanRevision and cur = None])
    show "token_law (cj_history js) (cj_unhistory js) c" if "revisions_page (i, ps) cur st = (rs, Some c)" for cur rs c
      using revisions_read.page_cursor [OF that] assms(4) by (auto simp: rev_cursor_def)
  qed (simp_all add: EventHistory_q_def token_cursor_def read)
  moreover have "map rv_revision (sort_key revision_key ?rows) = rev ?ns"
  proof -
    have key: "revision_key = (\<lambda>x. - uint (rv_revision x))" by (rule ext) (simp add: revision_key_def)
    have s: "sorted (map (\<lambda>w. - uint w) (map rv_revision (sort_key revision_key ?rows)))"
      using sorted_sort_key [of revision_key ?rows] unfolding map_map comp_def key .
    have u: "uint (word_of_nat k :: 32 word) = int k" if "k \<in> set [1..<Suc (unat (er_revision r))]" for k
    proof -
      have "unat (er_revision r) < 2 ^ LENGTH(32)" by (rule unsigned_less)
      then have "k < 2 ^ 32" using that by auto
      then show ?thesis by (simp add: unsigned_of_nat take_bit_nat_eq_self flip: uint_nat)
    qed
    have "map (\<lambda>w. - uint w) ?ns = map (\<lambda>k. - int k) [1..<Suc (unat (er_revision r))]"
      using u by (simp add: comp_def)
    then have m: "map (\<lambda>w. - uint w) (rev ?ns) = rev (map (\<lambda>k. - int k) [1..<Suc (unat (er_revision r))])"
      by (simp only: rev_map [symmetric])
    have "sorted (map (\<lambda>w. - uint w) (rev ?ns))"
      unfolding m by (simp add: sorted_wrt_rev sorted_wrt_map sorted_wrt_upt del: upt_Suc)
    moreover have "distinct ?ns" by (rule revision_numbers_distinct)
    moreover have "distinct (map rv_revision (sort_key revision_key ?rows))"
      using revision_numbers_distinct [of "er_revision r"] unfolding rows [symmetric] by (simp add: distinct_map)
    moreover have "set (map rv_revision (sort_key revision_key ?rows)) = set (rev ?ns)"
      using arg_cong [OF rows, of set] by simp
    ultimately show ?thesis
      using s by (intro descending_unique) simp_all
  qed
  ultimately show ?thesis by (auto simp: scanRevision_def comp_def)
qed

section \<open>Examples\<close>

definition ex_s1 :: store where
  "ex_s1 = run_ops ex_layer_hash ex_gl [OpUpsert (ex_event ''usgs:1'' ST_ACTIVE ''M3'') 5] ex_store"

definition ex_s2 :: store where
  "ex_s2 = run_ops ex_layer_hash ex_gl [OpUpsert (ex_event ''usgs:1'' ST_ACTIVE ''M3'') 5,
     OpUpsert (ex_event ''usgs:0'' ST_ACTIVE ''M4'') 6, OpTransition [''usgs:0''] RESOLVED 8 9] ex_store"

definition ex_query :: event_query where
  "ex_query = \<lparr>eq_place = ''county:a'', eq_layers = [EARTHQUAKE], eq_statuses = [ST_ACTIVE, RESOLVED], eq_minSeverity = INFO,
     eq_since = zeroTime, eq_pageSize = 1, eq_token = []\<rparr>"

definition ex_cursors :: cursor_json where
  "ex_cursors = \<lparr>cj_event = (\<lambda>c. ''{0'' @ ec_id c),
     cj_unevent = (\<lambda>s. if length s < 2 then None else Some \<lparr>ec_s = 1, ec_o = 0, ec_id = drop 2 s\<rparr>),
     cj_history = (\<lambda>c. CHR ''{'' # replicate (unat (hc_r c)) CHR ''1''),
     cj_unhistory = (\<lambda>s. Some \<lparr>hc_o = 0, hc_id = [], hc_r = word_of_nat (length s - 1)\<rparr>)\<rparr>"

lemma ex_s_ok: "store_ok ex_gl ex_s1" "store_ok ex_gl ex_s2"
proof -
  show "store_ok ex_gl ex_s1" unfolding ex_s1_def
    by (rule evolves_def [THEN iffD1, THEN conjunct1, OF run_evolves [OF ex_store_ok(1) ex_ops_ok(1) ex_layer_hash_ok]])
      (simp add: ex_store_def newStore_def roomy_def total_revs_def op_revs_def)
  show "store_ok ex_gl ex_s2" unfolding ex_s2_def
    by (rule evolves_def [THEN iffD1, THEN conjunct1, OF run_evolves [OF ex_store_ok(1) ex_ops_ok(1) ex_layer_hash_ok]])
      (simp add: ex_store_def newStore_def roomy_def total_revs_def op_revs_def)
qed

lemma ex_s_events: "map er_id (st_events ex_s2) = [''usgs:1'', ''usgs:0'']"
  by code_simp

lemma ex_tokens_ok: "event_tokens_ok ex_cursors ex_s1" "event_tokens_ok ex_cursors ex_s2"
  by code_simp+

lemma ex_row: "hd (st_events ex_s1) \<in> set (st_events ex_s1)" "hd (st_events ex_s2) = hd (st_events ex_s1)"
  "hd (st_events ex_s2) \<in> set (st_events ex_s2)"
  "event_filter ex_query ex_s1 (hd (st_events ex_s1))" "event_filter ex_query ex_s2 (hd (st_events ex_s1))"
  by code_simp+

text \<open>The second request sees another event, and the first page's.\<close>

theorem events_paged_once_witness:
  "\<exists>out. read_tokens (\<lambda>tok. QueryEvents ex_cursors (ex_query\<lparr>eq_token := tok\<rparr>))
      (\<lambda>k. if k = 0 then ex_s1 else ex_s2) 3 0 [] = Inr out \<and>
    count_list out (er_proto (hd (st_events ex_s1))) = 1"
proof -
  let ?sts = "\<lambda>k::nat. if k = 0 then ex_s1 else ex_s2"
  have "\<not> is_err (read_tokens (\<lambda>tok. QueryEvents ex_cursors (ex_query\<lparr>eq_token := tok\<rparr>)) ?sts 3 0 [])"
    by code_simp
  then obtain out where out: "read_tokens (\<lambda>tok. QueryEvents ex_cursors (ex_query\<lparr>eq_token := tok\<rparr>)) ?sts 3 0 [] = Inr out"
    by (auto simp: is_err_def split: sum.splits)
  have "store_ok ex_gl (?sts k)" "event_tokens_ok ex_cursors (?sts k)"
    "hd (st_events ex_s1) \<in> set (st_events (?sts k)) \<and> event_filter ex_query (?sts k) (hd (st_events ex_s1))" for k
    using ex_s_ok ex_tokens_ok ex_row by auto
  from events_paged_once [where sts = ?sts, OF this out] out show ?thesis by blast
qed

theorem events_listing_complete_witness:
  "read_tokens (\<lambda>tok. QueryEvents ex_cursors (ex_query\<lparr>eq_token := tok\<rparr>)) (\<lambda>_. ex_s2) 3 0 [] =
    Inr (map er_proto (sort_key event_key (filter (event_filter ex_query ex_s2) (st_events ex_s2)))) \<and>
   length (filter (event_filter ex_query ex_s2) (st_events ex_s2)) = 2"
proof -
  have "tbl_ok er_id (st_events ex_s2)" "length (st_events ex_s2) < 3"
    "length (filter (event_filter ex_query ex_s2) (st_events ex_s2)) = 2"
    by code_simp+
  from events_listing_complete [OF this(1) ex_tokens_ok(2) this(2), of ex_query] this(3) show ?thesis by blast
qed

theorem event_history_complete_witness:
  "\<exists>out. read_tokens (EventHistory_q ex_cursors ''usgs:0'' 1) (\<lambda>_. ex_s2) 4 0 [] = Inr out \<and> map rd_revision out = [2, 1]"
proof -
  let ?r = "the (get_row ex_s2 ''usgs:0'')"
  have r: "get_row ex_s2 ''usgs:0'' \<noteq> None" "er_revision ?r = 2" by code_simp+
  have "token_law (cj_history ex_cursors) (cj_unhistory ex_cursors) \<lparr>hc_o = 0, hc_id = [], hc_r = w\<rparr>" for w
    by (simp add: token_law_def ex_cursors_def)
  moreover have "get_row ex_s2 ''usgs:0'' = Some ?r" using r(1) by simp
  moreover have "unat (er_revision ?r) < 4" by (simp add: r(2))
  ultimately have "\<exists>out. read_tokens (EventHistory_q ex_cursors ''usgs:0'' 1) (\<lambda>_. ex_s2) 4 0 [] = Inr out \<and>
      map rd_revision out = rev (map word_of_nat [1..<Suc (unat (er_revision ?r))])"
    by (intro event_history_complete [OF ex_s_ok(2)])
  then show ?thesis by (simp add: r(2) upt_rec)
qed

end
