(* ===== verification/Sources.thy ===== *)
theory Sources
  imports EventProps
begin

text \<open>
  The source registry of \<open>internal/store/sources.go\<close> and the retirement of sources at boot (\<open>cmd/server/main.go\<close>).
  \<open>events.source_id\<close> references \<open>sources(id)\<close>, and foreign keys are enforced.
\<close>

section \<open>The registry\<close>

record source_seed =
  ss_id :: string
  ss_name :: string
  ss_attribution :: string
  ss_homepage :: string
  ss_kind :: source_kind
  ss_pollInterval :: duration
  ss_staleAfter :: duration
  ss_expireAfter :: duration
  ss_disappearance :: string

text \<open>\<open>int64(d.Seconds())\<close> truncates.\<close>

definition whole_seconds :: "duration \<Rightarrow> int" where
  "whole_seconds d = quot d second"

definition seed_row :: "source_seed \<Rightarrow> source_row option \<Rightarrow> source_row" where
  "seed_row s old =
     \<lparr>sr_id = ss_id s, sr_name = ss_name s, sr_attribution = ss_attribution s, sr_homepage = ss_homepage s,
      sr_kind = (if ss_kind s = SOURCE_KIND_UNSPECIFIED then FEED else ss_kind s),
      sr_poll = whole_seconds (ss_pollInterval s),
      sr_stale = (if ss_staleAfter s > 0 then Some (whole_seconds (ss_staleAfter s)) else None),
      sr_expire = (if ss_expireAfter s > 0 then Some (whole_seconds (ss_expireAfter s)) else None),
      sr_lastSuccess = (case old of None \<Rightarrow> None | Some r \<Rightarrow> sr_lastSuccess r),
      sr_lastAttempt = (case old of None \<Rightarrow> None | Some r \<Rightarrow> sr_lastAttempt r),
      sr_lastError = (case old of None \<Rightarrow> [] | Some r \<Rightarrow> sr_lastError r),
      sr_status = (case old of None \<Rightarrow> SOURCE_STATUS_UNSPECIFIED | Some r \<Rightarrow> sr_status r),
      sr_disappearance = (if ss_disappearance s = [] then ''resolve'' else ss_disappearance s)\<rparr>"

definition seed_one :: "source_seed \<Rightarrow> source_row list \<Rightarrow> source_row list result" where
  "seed_one s t =
     (if ss_id s = [] then Inl ''store: source seed with empty id''
      else Inr (tbl_put sr_id (seed_row s (tbl_get sr_id (ss_id s) t)) t))"

definition SeedSources :: "source_seed list \<Rightarrow> store \<Rightarrow> store result" where
  "SeedSources seeds st = rbind (rfold seed_one seeds (st_sources st)) (\<lambda>t. Inr (st\<lparr>st_sources := t\<rparr>))"

definition DeleteSource :: "string \<Rightarrow> store \<Rightarrow> store result" where
  "DeleteSource i st =
     (if list_ex (\<lambda>r. er_source r = i) (st_events st) \<and> i \<in> sr_id ` set (st_sources st)
      then Inl (''store: delete source '' @ i @ '': FOREIGN KEY constraint failed'')
      else Inr (st\<lparr>st_sources := tbl_del sr_id i (st_sources st)\<rparr>))"

definition staleWindow :: "source_row \<Rightarrow> int" where
  "staleWindow r = (case sr_stale r of Some w \<Rightarrow> w | None \<Rightarrow> 3 * sr_poll r)"

definition attempt_row :: "time \<Rightarrow> string option \<Rightarrow> source_row \<Rightarrow> source_row" where
  "attempt_row now err r =
     (case err of
        None \<Rightarrow> r\<lparr>sr_lastAttempt := Some (unix now), sr_lastSuccess := Some (unix now),
                  sr_lastError := [], sr_status := OK\<rparr>
      | Some e \<Rightarrow> r\<lparr>sr_lastAttempt := Some (unix now), sr_lastError := e,
                  sr_status := (case sr_lastSuccess r of
                                  Some s \<Rightarrow> if unix now - s \<le> staleWindow r then STALE else UNAVAILABLE
                                | None \<Rightarrow> UNAVAILABLE)\<rparr>)"

definition RecordAttempt :: "string \<Rightarrow> string option \<Rightarrow> time \<Rightarrow> store \<Rightarrow> store result" where
  "RecordAttempt i err now st =
     (case tbl_get sr_id i (st_sources st) of
        None \<Rightarrow> Inl (''store: record attempt for unseeded source '' @ i)
      | Some _ \<Rightarrow> Inr (st\<lparr>st_sources :=
          map (\<lambda>r. if sr_id r = i then attempt_row now err r else r) (st_sources st)\<rparr>))"

record source_doc =
  sd_id :: string
  sd_kind :: source_kind
  sd_pollSeconds :: "32 word"
  sd_staleSeconds :: "32 word"
  sd_expireSeconds :: "32 word"
  sd_lastSuccess :: "time option"
  sd_lastAttempt :: "time option"
  sd_lastError :: string
  sd_srcStatus :: source_status

definition source_doc_of :: "source_row \<Rightarrow> source_doc" where
  "source_doc_of r = \<lparr>sd_id = sr_id r, sd_kind = sr_kind r, sd_pollSeconds = word_of_int (sr_poll r),
     sd_staleSeconds = word_of_int (staleWindow r),
     sd_expireSeconds = (case sr_expire r of Some e \<Rightarrow> word_of_int e | None \<Rightarrow> 0),
     sd_lastSuccess = map_option fromUnix (sr_lastSuccess r),
     sd_lastAttempt = map_option fromUnix (sr_lastAttempt r),
     sd_lastError = sr_lastError r, sd_srcStatus = sr_status r\<rparr>"

definition ListSources :: "store \<Rightarrow> source_doc list" where
  "ListSources st = map source_doc_of (sort_key sr_id (st_sources st))"

section \<open>Retiring sources at boot\<close>

definition retiredSourceIDs :: "string list" where "retiredSourceIDs = [''wfigs'']"

definition retire_one :: "(event \<Rightarrow> string) \<Rightarrow> time \<Rightarrow> string \<Rightarrow> store \<Rightarrow> store" where
  "retire_one H now src st =
     (let evs = ActiveEventsBySource src st in
      case (if evs = [] then Inr st
            else TransitionEvents H (map (e_id \<circ> se_event) evs) EXPIRED now now st) of
        Inl _ \<Rightarrow> st
      | Inr st1 \<Rightarrow> (case DeleteSource src st1 of Inl _ \<Rightarrow> st1 | Inr st2 \<Rightarrow> st2))"

definition retireOrphanedSources :: "(event \<Rightarrow> string) \<Rightarrow> time \<Rightarrow> store \<Rightarrow> store" where
  "retireOrphanedSources H now st = fold (retire_one H now) retiredSourceIDs st"

section \<open>Seeding and health\<close>

lemma seed_row_runtime:
  "sr_lastSuccess (seed_row s (Some r)) = sr_lastSuccess r" "sr_lastAttempt (seed_row s (Some r)) = sr_lastAttempt r"
  "sr_lastError (seed_row s (Some r)) = sr_lastError r" "sr_status (seed_row s (Some r)) = sr_status r"
  "sr_id (seed_row s x) = ss_id s"
  by (simp_all add: seed_row_def)

text \<open>The runtime fields of a source: what seeding must not touch.\<close>

definition health :: "source_row \<Rightarrow> int option \<times> int option \<times> string \<times> source_status" where
  "health r = (sr_lastSuccess r, sr_lastAttempt r, sr_lastError r, sr_status r)"

lemma seed_one_get:
  assumes "seed_one s t = Inr t'"
  shows "tbl_get sr_id i t' = (if i = ss_id s then Some (seed_row s (tbl_get sr_id i t)) else tbl_get sr_id i t)"
    and "ss_id s \<noteq> []"
  using assms by (auto simp: seed_one_def seed_row_runtime split: if_splits)

lemma seed_fold_health:
  "rfold seed_one seeds t = Inr t' \<Longrightarrow> tbl_get sr_id i t = Some r \<Longrightarrow>
   \<exists>r'. tbl_get sr_id i t' = Some r' \<and> health r' = health r"
proof (induction seeds arbitrary: t r)
  case Nil
  then show ?case by simp
next
  case (Cons s seeds)
  then obtain t1 where t1: "seed_one s t = Inr t1" "rfold seed_one seeds t1 = Inr t'"
    by (auto simp: rbind_eq_Inr)
  have "\<exists>r1. tbl_get sr_id i t1 = Some r1 \<and> health r1 = health r"
    using seed_one_get(1) [OF t1(1), of i] Cons.prems(2) by (auto simp: health_def seed_row_runtime)
  with Cons.IH [OF t1(2)] show ?case by fastforce
qed

lemma seed_fold_ids: "rfold seed_one seeds t = Inr t' \<Longrightarrow> sr_id ` set t' = sr_id ` set t \<union> ss_id ` set seeds"
proof (induction seeds arbitrary: t)
  case Nil
  then show ?case by simp
next
  case (Cons s seeds)
  then obtain t1 where t1: "seed_one s t = Inr t1" "rfold seed_one seeds t1 = Inr t'"
    by (auto simp: rbind_eq_Inr)
  have "sr_id ` set t1 = insert (ss_id s) (sr_id ` set t)"
    using t1(1) keys_put [of sr_id "seed_row s (tbl_get sr_id (ss_id s) t)" t]
    by (simp add: seed_one_def seed_row_runtime split: if_splits)
  with Cons.IH [OF t1(2)] show ?case by auto
qed

lemma seed_fold_nonempty: "rfold seed_one seeds t = Inr t' \<Longrightarrow> [] \<notin> ss_id ` set seeds"
  by (induction seeds arbitrary: t) (auto simp: rbind_eq_Inr seed_one_def split: if_splits)

text \<open>
  Seeding the registry at boot keeps the store good and every source's health (last success,
  last attempt, last error, status) as it was, adds every seeded id, and drops none.
\<close>

theorem seeding_keeps_health:
  assumes "store_ok gl st" and "SeedSources seeds st = Inr st'"
  shows "store_ok gl st' \<and> sr_id ` set (st_sources st') = sr_id ` set (st_sources st) \<union> ss_id ` set seeds \<and>
    (\<forall>i r. tbl_get sr_id i (st_sources st) = Some r \<longrightarrow>
       (\<exists>r'. tbl_get sr_id i (st_sources st') = Some r' \<and> health r' = health r))"
proof -
  obtain t where t: "rfold seed_one seeds (st_sources st) = Inr t" "st' = st\<lparr>st_sources := t\<rparr>"
    using assms(2) by (auto simp: SeedSources_def rbind_eq_Inr)
  note ids = seed_fold_ids [OF t(1)]
  have "mirror_ok st' r" if "mirror_ok st r" for r
    using that ids by (auto simp: mirror_ok_def t(2) have_places_def)
  then have "store_ok gl st'"
    using assms(1) ids seed_fold_nonempty [OF t(1)]
    by (auto simp: store_ok_def t(2) hist_ok_def revs_of_def places_cached_def)
  with ids seed_fold_health [OF t(1)] show ?thesis by (simp add: t(2))
qed

definition ex_seed :: source_seed where
  "ex_seed = \<lparr>ss_id = ''usgs'', ss_name = ''USGS'', ss_attribution = [], ss_homepage = [],
     ss_kind = SOURCE_KIND_UNSPECIFIED, ss_pollInterval = minute, ss_staleAfter = 0, ss_expireAfter = 0,
     ss_disappearance = []\<rparr>"

theorem seeding_keeps_health_witness:
  "\<exists>st' r'. SeedSources [ex_seed] ex_store = Inr st' \<and> tbl_get sr_id ''usgs'' (st_sources st') = Some r' \<and>
     health r' = health (ex_source ''usgs'')"
proof -
  obtain st' where s: "SeedSources [ex_seed] ex_store = Inr st'"
    by (simp add: SeedSources_def seed_one_def ex_seed_def)
  have g: "tbl_get sr_id ''usgs'' (st_sources ex_store) = Some (ex_source ''usgs'')"
    by (simp add: ex_store_def newStore_def ex_source_def)
  from seeding_keeps_health [OF ex_store_ok(1) s] g s show ?thesis by blast
qed

text \<open>A source's row over a sequence of polls: when, and the error if it failed.\<close>

definition run_attempts :: "(time \<times> string option) list \<Rightarrow> source_row \<Rightarrow> source_row" where
  "run_attempts as r = fold (\<lambda>(t, e). attempt_row t e) as r"

definition successes :: "(time \<times> string option) list \<Rightarrow> time list" where
  "successes as = map fst (filter (\<lambda>(t, e). e = None) as)"

lemma run_attempts_snoc: "run_attempts (as @ [a]) r = attempt_row (fst a) (snd a) (run_attempts as r)"
  by (simp add: run_attempts_def split: prod.split)

lemma attempt_config [simp]:
  "sr_id (attempt_row t e r) = sr_id r" "sr_stale (attempt_row t e r) = sr_stale r" "sr_poll (attempt_row t e r) = sr_poll r"
  "staleWindow (attempt_row t e r) = staleWindow r"
  by (simp_all add: attempt_row_def staleWindow_def split: option.split)

lemma run_attempts_window [simp]: "staleWindow (run_attempts as r) = staleWindow r"
  by (induction as rule: rev_induct) (simp_all add: run_attempts_snoc, simp add: run_attempts_def)

lemma run_attempts_success:
  "sr_lastSuccess (run_attempts as r) = (if successes as = [] then sr_lastSuccess r else Some (unix (last (successes as))))"
proof (induction as rule: rev_induct)
  case Nil
  then show ?case by (simp add: run_attempts_def successes_def)
next
  case (snoc a as)
  then show ?case
    by (cases "snd a") (auto simp: run_attempts_snoc attempt_row_def successes_def split: prod.splits)
qed

text \<open>
  A source's health after any sequence of polls of a newly seeded source is what its last
  poll and its last success say: \<open>OK\<close> exactly when the last poll succeeded; after a failed one
  \<open>STALE\<close> when some poll has succeeded and the last success lies at most \<open>stale_after\<close> (3 poll
  intervals by default) back, in whole seconds, and \<open>UNAVAILABLE\<close> otherwise. The error shown is
  the last poll's.
\<close>

theorem health_after_polls:
  assumes "sr_lastSuccess r = None"
  shows "let s = run_attempts (as @ [(now, err)]) r in
    sr_status s = (case err of None \<Rightarrow> OK
      | Some _ \<Rightarrow> if successes as \<noteq> [] \<and> unix now - unix (last (successes as)) \<le> staleWindow r
                  then STALE else UNAVAILABLE) \<and>
    sr_lastError s = (case err of None \<Rightarrow> [] | Some e \<Rightarrow> e) \<and>
    sr_lastAttempt s = Some (unix now)"
  using assms run_attempts_success [of as r]
  by (auto simp: run_attempts_snoc attempt_row_def Let_def split: option.split)

theorem health_after_polls_witness:
  "sr_status (run_attempts ([(0, None), (60 * second, Some ''x'')] @ [(100 * second, Some ''y'')]) (ex_source ''usgs'')) = STALE"
  using health_after_polls [of "ex_source ''usgs''" "[(0, None), (60 * second, Some ''x'')]" "100 * second" "Some ''y''"]
  by (simp add: ex_source_def successes_def staleWindow_def unix_def Let_def)

text \<open>
  The registry row of a retired source outlives the retirement. Whenever the store has an
  event of the source, whatever its status, the foreign key refuses the delete: after
  \<open>retireOrphanedSources\<close> the source is still listed.
\<close>

theorem retired_source_still_listed:
  assumes "store_ok gl st" and "roomy (length (st_events st)) st"
    and "r \<in> set (st_events st)" and "er_source r = ''wfigs''"
  shows "\<exists>d \<in> set (ListSources (retireOrphanedSources H now st)). sd_id d = ''wfigs''"
proof -
  have src: "''wfigs'' \<in> sr_id ` set (st_sources st)"
  proof -
    have "mirror_ok st r" using assms(1,3) by (simp add: store_ok_def)
    then show ?thesis unfolding mirror_ok_def assms(4) by blast
  qed
  have t: "tbl_ok er_id (st_events st)" using assms(1) by (simp add: store_ok_def)
  have rr: "get_row st (er_id r) = Some r" by (rule tbl_get_mem [OF t assms(3)])
  have listed: "\<exists>d \<in> set (ListSources s). sd_id d = ''wfigs''" if "''wfigs'' \<in> sr_id ` set (st_sources s)" for s
    using that by (force simp: ListSources_def source_doc_of_def)
  let ?evs = "ActiveEventsBySource ''wfigs'' st"
  let ?ids = "map (e_id \<circ> se_event) ?evs"
  have "\<exists>s1. (if ?evs = [] then Inr st else TransitionEvents H ?ids EXPIRED now now st) = Inr s1 \<and>
      store_ok gl s1 \<and> (\<exists>r1. get_row s1 (er_id r) = Some r1 \<and> er_source r1 = ''wfigs'')"
  proof (cases "?evs = []")
    case True
    with assms(1,4) rr show ?thesis by simp
  next
    case False
    have "length ?ids \<le> length (st_events st)" by (simp add: ActiveEventsBySource_def)
    then have "roomy (length ?ids) st" using assms(2) by (simp add: roomy_def)
    from transition_all [OF assms(1) this, of H EXPIRED now now] obtain s1 where
      "TransitionEvents H ?ids EXPIRED now now st = Inr s1" "store_ok gl s1"
      "\<forall>j. get_row s1 j = (if j \<in> set ?ids then map_option (swept H EXPIRED now now) (get_row st j) else get_row st j)"
      by blast
    with False rr assms(4) show ?thesis by (auto simp: swept_def)
  qed
  then obtain s1 r1 where s1: "(if ?evs = [] then Inr st else TransitionEvents H ?ids EXPIRED now now st) = Inr s1"
      "store_ok gl s1" "get_row s1 (er_id r) = Some r1" "er_source r1 = ''wfigs''" by blast
  have r1: "r1 \<in> set (st_events s1)" "''wfigs'' \<in> sr_id ` set (st_sources s1)"
    using row_proto_id [OF s1(2,3)] s1(4) by (auto simp: mirror_ok_def)
  then have "DeleteSource ''wfigs'' s1 = Inl (''store: delete source '' @ ''wfigs'' @ '': FOREIGN KEY constraint failed'')"
    using s1(4) by (auto simp: DeleteSource_def list_ex_iff)
  then have "retireOrphanedSources H now st = s1"
    using s1(1) by (simp add: retireOrphanedSources_def retiredSourceIDs_def retire_one_def Let_def)
  with listed [OF r1(2)] show ?thesis by simp
qed

definition ex_wfigs :: event where
  "ex_wfigs = (ex_event ''wfigs:1'' EXPIRED ''fire'')\<lparr>e_provenance :=
     Some \<lparr>pv_sourceId = ''wfigs'', pv_sourceName = [], pv_attribution = [], pv_sourceUrl = [], pv_fetchedAt = None\<rparr>\<rparr>"

theorem retired_source_still_listed_witness:
  "\<exists>st r. r \<in> set (st_events st) \<and> e_status (er_proto r) = EXPIRED \<and>
     (\<exists>d \<in> set (ListSources (retireOrphanedSources ex_hash 9 st)). sd_id d = ''wfigs'')"
proof -
  let ?st = "newStore [ex_source ''wfigs''] [] 0 3000"
  have ok: "store_ok ex_gl ?st" by (rule newStore_ok) (simp add: ex_source_def)
  have h: "room ?st" "e_id ex_wfigs \<noteq> []" "source_id ex_wfigs \<in> sr_id ` set (st_sources ?st)"
    "\<not> hash_equal ex_hash ex_wfigs ?st"
    by (simp_all add: room_def newStore_def ex_wfigs_def ex_event_def source_id_def ex_source_def hash_equal_def)
  let ?c = "content_blob ex_gl ex_wfigs (next_rev ?st (e_id ex_wfigs)) 5 ?st"
  let ?row = "content_row ?c (ContentHash ex_hash ex_wfigs) (observed_or ex_wfigs 5) 5 (get_row ?st (e_id ex_wfigs))"
  obtain s where s: "store_ok ex_gl s" "written ?c ?row ?st s"
    using upsert_written [OF ok h refl, of 5] by blast
  have ev: "st_events s = [?row]" and rv: "length (st_revisions s) = 1"
    using s(2) by (auto simp: written_def newStore_def)
  have src: "er_source ?row = ''wfigs''" "e_status (er_proto ?row) = EXPIRED"
    by (simp_all add: ex_wfigs_def source_id_def ex_event_def)
  have mem: "?row \<in> set (st_events s)" using ev by simp
  have "roomy (length (st_events s)) s" using ev rv by (simp add: roomy_def)
  from retired_source_still_listed [OF s(1) this mem src(1), of ex_hash 9] src(2) mem
  show ?thesis by blast
qed

end
