(* ===== verification/Places.thy ===== *)
theory Places
  imports EventHistory "HOL-Library.Product_Lexorder"
begin

text \<open>
  The places of \<open>internal/store/places.go\<close>: seeding, listing, lookup and the resolution of a
  location to the places that contain it. \<open>st_placesGeo\<close> is the parsed-geometry cache
  (\<open>None\<close> is \<open>placesGeoValid = false\<close>) and \<open>st_placesVersion\<close> the 64-bit counter
  the scheduler reconciles on. Distances are compared squared.
\<close>

section \<open>Operations\<close>

fun kind_number :: "place_kind \<Rightarrow> nat" where
  "kind_number KIND_UNSPECIFIED = 0"
| "kind_number AREA = 1"
| "kind_number COUNTY = 2"
| "kind_number TOWN = 3"
| "kind_number EVAC_ZONE = 4"
| "kind_number CORRIDOR = 5"
| "kind_number SITE = 6"

text \<open>A kind the map has no entry for reads 0.\<close>

fun placeSpecificity :: "place_kind \<Rightarrow> nat" where
  "placeSpecificity SITE = 0"
| "placeSpecificity EVAC_ZONE = 1"
| "placeSpecificity TOWN = 2"
| "placeSpecificity CORRIDOR = 3"
| "placeSpecificity COUNTY = 4"
| "placeSpecificity AREA = 5"
| "placeSpecificity KIND_UNSPECIFIED = 0"

definition UpsertPlace :: "place \<Rightarrow> store \<Rightarrow> store result" where
  "UpsertPlace p st =
     (if pl_id p = [] \<or> pl_slug p = [] then Inl ''store: place requires id and slug''
      else if list_ex (\<lambda>q. pl_slug q = pl_slug p \<and> pl_id q \<noteq> pl_id p) (st_places st)
      then Inl (''store: upsert place '' @ pl_id p @ '': UNIQUE constraint failed'')
      else Inr (st\<lparr>st_places := tbl_put pl_id p (st_places st), st_placesGeo := None,
                   st_placesVersion := st_placesVersion st + 1\<rparr>))"

definition PlacesVersion :: "store \<Rightarrow> 64 word" where "PlacesVersion st = st_placesVersion st"

definition ListPlaces :: "place_kind \<Rightarrow> string \<Rightarrow> store \<Rightarrow> place list" where
  "ListPlaces kind q st =
     sort_key (\<lambda>p. (kind_number (pl_kind p), pl_name p, pl_id p))
       (filter (\<lambda>p. (kind = KIND_UNSPECIFIED \<or> pl_kind p = kind) \<and>
                    (q = [] \<or> contains (toLower (pl_name p)) (toLower q))) (st_places st))"

definition GetPlace :: "string \<Rightarrow> store \<Rightarrow> place option" where
  "GetPlace slugOrID st =
     (if CHR '':'' \<in> set slugOrID then tbl_get pl_id slugOrID (st_places st)
      else tbl_get pl_slug slugOrID (st_places st))"

text \<open>Whether a place is returned for a location, and a matched town's squared distance from it.\<close>

definition is_town_point :: "place \<Rightarrow> geom \<Rightarrow> bool" where
  "is_town_point p g \<longleftrightarrow> pl_kind p = TOWN \<and> (case g of Point _ \<Rightarrow> True | _ \<Rightarrow> False)"

definition town_dist :: "geolib \<Rightarrow> rat \<Rightarrow> rat \<Rightarrow> geom \<Rightarrow> rat" where
  "town_dist gl la lo g = (case g of Point q \<Rightarrow> metersBetweenSq (gl_cos gl) la lo (lat q) (lng q) | _ \<Rightarrow> 0)"

definition place_contains :: "geolib \<Rightarrow> rat \<Rightarrow> rat \<Rightarrow> rat \<Rightarrow> place \<Rightarrow> bool" where
  "place_contains gl radius la lo p =
     (if pl_geojson p = [] then False
      else case gparse gl (pl_geojson p) of
             Inl _ \<Rightarrow> False
           | Inr g \<Rightarrow>
               if is_town_point p g then 0 \<le> radius \<and> town_dist gl la lo g \<le> radius * radius
               else if outside_padded (Bbox g) corridorBufferDeg la lo then False
               else PointInOrNearGeometry (gl_polyline gl) la lo (Some g) corridorBufferMeters)"

definition townDist :: "geolib \<Rightarrow> rat \<Rightarrow> rat \<Rightarrow> place \<Rightarrow> rat" where
  "townDist gl la lo p =
     (case gparse gl (pl_geojson p) of
        Inr g \<Rightarrow> if is_town_point p g then town_dist gl la lo g else 0
      | Inl _ \<Rightarrow> 0)"

definition PlacesContaining :: "geolib \<Rightarrow> rat \<Rightarrow> rat \<Rightarrow> store \<Rightarrow> place list" where
  "PlacesContaining gl la lo st =
     sort_key (\<lambda>p. (placeSpecificity (pl_kind p), townDist gl la lo p, pl_name p))
       (filter (place_contains gl (st_townRadius st) la lo) (st_places st))"

section \<open>Lookups\<close>

definition places_ok :: "store \<Rightarrow> bool" where
  "places_ok st \<longleftrightarrow> tbl_ok pl_id (st_places st) \<and> distinct (map pl_slug (st_places st))"

lemma slugs_put:
  assumes "tbl_ok pl_id t" and "distinct (map pl_slug t)" and "\<forall>q \<in> set t. pl_slug q = pl_slug p \<longrightarrow> pl_id q = pl_id p"
  shows "distinct (map pl_slug (tbl_put pl_id p t))"
  using assms
proof (induction t)
  case Nil
  then show ?case by simp
next
  case (Cons x xs)
  show ?case
  proof (cases "pl_id x = pl_id p")
    case True
    have x: "pl_id x \<notin> pl_id ` set xs" using Cons.prems(1) unfolding tbl_ok_Cons by (rule conjunct1)
    have "pl_slug p \<notin> pl_slug ` set xs"
    proof
      assume "pl_slug p \<in> pl_slug ` set xs"
      then obtain q where q: "q \<in> set xs" "pl_slug p = pl_slug q" by (rule imageE)
      have "pl_id q = pl_id p" by (rule Cons.prems(3) [rule_format]) (use q in simp_all)
      then have "pl_id x \<in> pl_id ` set xs" using q(1) True by (intro image_eqI [of _ _ q]) simp_all
      with x show False ..
    qed
    with True Cons.prems(2) show ?thesis by simp
  next
    case False
    then have "pl_slug x \<noteq> pl_slug p" using Cons.prems by auto
    then have "pl_slug x \<notin> pl_slug ` set (tbl_put pl_id p xs)"
      using Cons.prems by (auto dest!: tbl_put_set)
    with False Cons show ?thesis by (simp add: tbl_ok_Cons)
  qed
qed

lemma UpsertPlace_ok: "UpsertPlace p st = Inr st' \<Longrightarrow> places_ok st \<Longrightarrow> places_ok st'"
  by (auto simp: UpsertPlace_def places_ok_def list_ex_iff intro!: slugs_put split: if_splits)

text \<open>
  Seeding a place fails exactly when its id or slug is empty or another place holds its slug,
  and then it changes nothing. When it succeeds, the place is found under its slug and, since
  place ids are namespaced, under its id; every other place is still found under its own; the
  geometry cache is dropped and the places version moves, so the next tick reconciles every event.
\<close>

theorem place_seeded_found:
  assumes "places_ok st" and "CHR '':'' \<in> set (pl_id p)" and "CHR '':'' \<notin> set (pl_slug p)"
  shows "if pl_slug p = [] \<or> (\<exists>q \<in> set (st_places st). pl_slug q = pl_slug p \<and> pl_id q \<noteq> pl_id p)
    then is_err (UpsertPlace p st)
    else \<exists>st'. UpsertPlace p st = Inr st' \<and> places_ok st' \<and>
      GetPlace (pl_id p) st' = Some p \<and> GetPlace (pl_slug p) st' = Some p \<and>
      (\<forall>i. CHR '':'' \<in> set i \<longrightarrow> i \<noteq> pl_id p \<longrightarrow> GetPlace i st' = GetPlace i st) \<and>
      st_placesGeo st' = None \<and> PlacesVersion st' \<noteq> PlacesVersion st \<and> st_events st' = st_events st"
proof (cases "pl_slug p = [] \<or> (\<exists>q \<in> set (st_places st). pl_slug q = pl_slug p \<and> pl_id q \<noteq> pl_id p)")
  case True
  then show ?thesis by (auto simp: UpsertPlace_def list_ex_iff)
next
  case False
  let ?st' = "st\<lparr>st_places := tbl_put pl_id p (st_places st), st_placesGeo := None,
      st_placesVersion := st_placesVersion st + 1\<rparr>"
  have u: "UpsertPlace p st = Inr ?st'"
    using False assms(2) by (auto simp: UpsertPlace_def list_ex_iff)
  have ok: "places_ok ?st'" by (rule UpsertPlace_ok [OF u assms(1)])
  have ids: "tbl_ok pl_id (st_places st)" using assms(1) by (simp add: places_ok_def)
  then have "p \<in> set (st_places ?st')" by (simp add: tbl_put_set_iff)
  moreover have "tbl_ok pl_slug (st_places ?st')" using ok by (simp add: places_ok_def tbl_ok_def)
  ultimately have "tbl_get pl_slug (pl_slug p) (st_places ?st') = Some p" by (rule tbl_get_mem [rotated])
  then have "GetPlace (pl_slug p) ?st' = Some p" using assms(3) by (simp add: GetPlace_def)
  with u ok assms(2) False show ?thesis by (auto simp: GetPlace_def PlacesVersion_def)
qed

section \<open>Resolving a location\<close>

text \<open>The bounding-box prefilter never drops a place that contains the point.\<close>

lemma padded_prefilter:
  assumes "PointInGeometry la lo (Some g)"
  shows "\<not> outside_padded (Bbox g) corridorBufferDeg la lo"
proof -
  have "0 \<le> corridorBufferDeg" by (simp add: corridorBufferDeg_def corridorBufferMeters_def)
  moreover have "\<not> outside (Bbox g) la lo" using assms by (auto simp: PointInGeometry_def Let_def split: geom.splits)
  ultimately show ?thesis by (auto simp: outside_padded_def outside_def)
qed

text \<open>
  A location resolves to every place whose polygon contains it and to every town whose point is
  within the radius; to nothing else but corridors it is near to; and the answer is ordered most
  specific first, towns nearest first, then by name.
\<close>

theorem places_resolved:
  "(\<forall>p \<in> set (st_places st). \<forall>g. pl_geojson p \<noteq> [] \<longrightarrow> gparse gl (pl_geojson p) = Inr g \<longrightarrow>
      (if is_town_point p g
       then p \<in> set (PlacesContaining gl la lo st) \<longleftrightarrow>
         0 \<le> st_townRadius st \<and> town_dist gl la lo g \<le> st_townRadius st * st_townRadius st
       else (PointInGeometry la lo (Some g) \<longrightarrow> p \<in> set (PlacesContaining gl la lo st)) \<and>
         (p \<in> set (PlacesContaining gl la lo st) \<longrightarrow> PointInGeometry la lo (Some g) \<or>
            PointNearLine (gl_polyline gl) la lo (Some g) corridorBufferMeters)))
    \<and> (\<forall>p \<in> set (PlacesContaining gl la lo st). p \<in> set (st_places st) \<and> pl_geojson p \<noteq> [] \<and>
          \<not> is_err (gparse gl (pl_geojson p)))
    \<and> sorted (map (\<lambda>p. (placeSpecificity (pl_kind p), townDist gl la lo p, pl_name p)) (PlacesContaining gl la lo st))"
  (is "?complete \<and> ?sound \<and> ?sorted")
proof (intro conjI)
  have mem: "p \<in> set (PlacesContaining gl la lo st) \<longleftrightarrow>
      p \<in> set (st_places st) \<and> place_contains gl (st_townRadius st) la lo p" for p
    by (simp add: PlacesContaining_def)
  show ?complete
    using padded_prefilter by (auto simp: mem place_contains_def PointInOrNearGeometry_def)
  show ?sound by (auto simp: mem place_contains_def split: if_splits sum.splits)
  show ?sorted unfolding PlacesContaining_def by (rule sorted_sort_key)
qed

section \<open>Examples\<close>

definition ex_county :: place where
  "ex_county = \<lparr>pl_id = ''county:c'', pl_kind = COUNTY, pl_name = ''C'', pl_slug = ''c'', pl_parent = [], pl_geojson = ''square''\<rparr>"

definition ex_town :: place where
  "ex_town = \<lparr>pl_id = ''town:t'', pl_kind = TOWN, pl_name = ''T'', pl_slug = ''t'', pl_parent = ''county:c'', pl_geojson = ''point''\<rparr>"

definition ex_places_gl :: geolib where
  "ex_places_gl = \<lparr>gl_unmarshal = (\<lambda>s. if s = ''point'' then Inr (''Point'', Some (JArr [JNum 1, JNum 1]))
       else Inr (''Polygon'', Some (JArr [JArr [JArr [JNum 0, JNum 0], JArr [JNum 4, JNum 0], JArr [JNum 4, JNum 4], JArr [JNum 0, JNum 4]]]))),
     gl_cos = (\<lambda>_. 1), gl_polyline = (\<lambda>_ _. Inl ''no line'')\<rparr>"

definition ex_places_store :: store where "ex_places_store = newStore [] [ex_county, ex_town] 0 3000"

theorem place_seeded_found_witness:
  "is_err (UpsertPlace (ex_town\<lparr>pl_id := ''town:u''\<rparr>) ex_places_store) \<and>
   (\<exists>st'. UpsertPlace (ex_town\<lparr>pl_slug := ''u''\<rparr>) ex_places_store = Inr st' \<and>
      GetPlace ''u'' st' = Some (ex_town\<lparr>pl_slug := ''u''\<rparr>) \<and> GetPlace ''county:c'' st' = Some ex_county)"
proof
  have ok: "places_ok ex_places_store"
    by (simp add: places_ok_def ex_places_store_def newStore_def tbl_ok_def ex_county_def ex_town_def)
  show "is_err (UpsertPlace (ex_town\<lparr>pl_id := ''town:u''\<rparr>) ex_places_store)"
    using place_seeded_found [OF ok, of "ex_town\<lparr>pl_id := ''town:u''\<rparr>"]
    by (simp add: ex_town_def ex_places_store_def newStore_def)
  have "GetPlace ''county:c'' ex_places_store = Some ex_county"
    by (simp add: GetPlace_def ex_places_store_def newStore_def ex_county_def)
  then show "\<exists>st'. UpsertPlace (ex_town\<lparr>pl_slug := ''u''\<rparr>) ex_places_store = Inr st' \<and>
      GetPlace ''u'' st' = Some (ex_town\<lparr>pl_slug := ''u''\<rparr>) \<and> GetPlace ''county:c'' st' = Some ex_county"
    using place_seeded_found [OF ok, of "ex_town\<lparr>pl_slug := ''u''\<rparr>"]
    by (auto simp: ex_town_def ex_county_def ex_places_store_def newStore_def)
qed

theorem places_resolved_witness:
  "ex_county \<in> set (PlacesContaining ex_places_gl 1 (101/100) ex_places_store) \<and>
   ex_town \<in> set (PlacesContaining ex_places_gl 1 (101/100) ex_places_store) \<and>
   ex_town \<notin> set (PlacesContaining ex_places_gl 3 3 ex_places_store)"
proof -
  obtain sq where sq: "gparse ex_places_gl (pl_geojson ex_county) = Inr sq"
    "\<not> is_town_point ex_county sq" "PointInGeometry 1 (101/100) (Some sq)"
  proof
    show "gparse ex_places_gl (pl_geojson ex_county) = Inr (Polygon [[(0, 0), (4, 0), (4, 4), (0, 4)]])" by code_simp
    show "PointInGeometry 1 (101/100) (Some (Polygon [[(0, 0), (4, 0), (4, 4), (0, 4)]]))" by code_simp
  qed (simp add: is_town_point_def)
  obtain pt where pt: "gparse ex_places_gl (pl_geojson ex_town) = Inr pt" "is_town_point ex_town pt"
    "town_dist ex_places_gl 1 (101/100) pt \<le> 3000 * 3000" "\<not> town_dist ex_places_gl 3 3 pt \<le> 3000 * 3000"
  proof
    show "gparse ex_places_gl (pl_geojson ex_town) = Inr (Point (1, 1))" by code_simp
    show "town_dist ex_places_gl 1 (101/100) (Point (1, 1)) \<le> 3000 * 3000"
      "\<not> town_dist ex_places_gl 3 3 (Point (1, 1)) \<le> 3000 * 3000"
      by (simp_all add: town_dist_def metersBetweenSq_def metersPerDegreeLat_def ex_places_gl_def)
  qed (simp add: is_town_point_def ex_town_def)
  have st: "ex_county \<in> set (st_places ex_places_store)" "ex_town \<in> set (st_places ex_places_store)"
    "st_townRadius ex_places_store = 3000" "pl_geojson ex_county \<noteq> []" "pl_geojson ex_town \<noteq> []"
    by (simp_all add: ex_places_store_def newStore_def ex_county_def ex_town_def)
  note near = conjunct1 [OF places_resolved [of ex_places_store ex_places_gl 1 "101/100"], rule_format]
  note far = conjunct1 [OF places_resolved [of ex_places_store ex_places_gl 3 3], rule_format]
  show ?thesis
    using near [OF st(1,4) sq(1)] near [OF st(2,5) pt(1)] far [OF st(2,5) pt(1)] sq(2,3) pt(2-4) st(3) by simp
qed

end
