(* ===== verification/MeshStore.thy ===== *)
theory MeshStore
  imports Prelude Complex_Main "HOL-Library.Product_Lexorder" "HOL-Library.Multiset"
begin

text \<open>
  The MeshCore tables of \<open>internal/store/mesh.go\<close>, \<open>mesh_activity.go\<close> and
  \<open>mesh_telemetry.go\<close>: the reception firehose and its compaction into a per-link, per-day
  rollup, the topology read that merges the two, the activity clocks and the telemetry archive.
  The main result is a refinement: whatever has been compacted or pruned, \<open>MeshLinks\<close> is the
  topology of every reception ever recorded, as long as row ids only grow; and ids do not only
  grow, which is a finding.
\<close>

section \<open>Tables\<close>

definition secondsPerDay :: int where "secondsPerDay = 86400"
definition maxCompactBatch :: nat where "maxCompactBatch = 5000"

record mesh_observation =
  mo_pubKey :: string
  mo_heardAt :: time
  mo_broker :: string
  mo_gateway :: string
  mo_snr :: rat
  mo_rssi :: int
  mo_hopCount :: nat
  mo_path :: "string list"
  mo_pathNodes :: "string list"

record obs_row =
  or_id :: int
  or_pubkey :: string
  or_heard :: int
  or_broker :: string
  or_gateway :: string
  or_snr :: "rat option"
  or_rssi :: int
  or_hops :: nat
  or_path :: string
  or_pathNodes :: string

type_synonym edge_key = "(string \<times> string) \<times> int"

record rollup_row =
  rr_edge :: "string \<times> string"
  rr_bucket :: int
  rr_observations :: int
  rr_bestSNR :: "rat option"
  rr_first :: int
  rr_last :: int

record activity_row =
  ma_pubkey :: string
  ma_heard :: int
  ma_relayed :: int

record mesh_activity =
  ac_pubKey :: string
  ac_lastHeardAt :: time
  ac_lastRelayedAt :: time

record telemetry_sample =
  ts_pubKey :: string
  ts_reportedAt :: time
  ts_receivedAt :: time
  ts_reporter :: string
  ts_lastSuccessAt :: time
  ts_lastAttemptAt :: time
  ts_gauges :: "rat option list"      \<comment> \<open>battery to queue length; unread is \<open>None\<close>\<close>
  ts_pctSource :: string
  ts_counters :: "int list"           \<comment> \<open>uptime to receive errors\<close>

record telemetry_row =
  tm_pubkey :: string
  tm_reported :: int
  tm_received :: int
  tm_reporter :: string
  tm_lastSuccess :: "int option"
  tm_lastAttempt :: "int option"
  tm_gauges :: "rat option list"
  tm_pctSource :: string
  tm_counters :: "int list"

record mesh_store =
  ms_observations :: "obs_row list"
  ms_rollup :: "rollup_row list"
  ms_watermark :: "int option"
  ms_activity :: "activity_row list"
  ms_activityVersion :: int
  ms_telemetry :: "telemetry_row list"

definition newMeshStore :: mesh_store where
  "newMeshStore = \<lparr>ms_observations = [], ms_rollup = [], ms_watermark = None, ms_activity = [],
     ms_activityVersion = 0, ms_telemetry = []\<rparr>"

section \<open>Recording a tick\<close>

text \<open>\<open>id INTEGER PRIMARY KEY\<close> without \<open>AUTOINCREMENT\<close>: one more than the largest id there is.\<close>

definition next_id :: "obs_row list \<Rightarrow> int" where
  "next_id t = foldr (\<lambda>r m. max (or_id r) m) t 0 + 1"

definition insert_observation :: "mesh_observation \<Rightarrow> obs_row list \<Rightarrow> obs_row list" where
  "insert_observation ob t = t @ [\<lparr>or_id = next_id t, or_pubkey = mo_pubKey ob, or_heard = unix (mo_heardAt ob),
     or_broker = mo_broker ob, or_gateway = mo_gateway ob, or_snr = Some (mo_snr ob), or_rssi = mo_rssi ob,
     or_hops = mo_hopCount ob, or_path = join_with CHR '','' (mo_path ob),
     or_pathNodes = join_with CHR '','' (mo_pathNodes ob)\<rparr>]"

definition insertMeshObservations :: "mesh_observation list \<Rightarrow> mesh_store \<Rightarrow> mesh_store" where
  "insertMeshObservations obs st = st\<lparr>ms_observations := fold insert_observation obs (ms_observations st)\<rparr>"

definition unixOrZero :: "time \<Rightarrow> int" where
  "unixOrZero t = (if isZero t then 0 else unix t)"

definition timeOrZero :: "int \<Rightarrow> time" where
  "timeOrZero u = (if u \<le> 0 then zeroTime else fromUnix u)"

definition upsert_activity :: "mesh_activity \<Rightarrow> activity_row list \<Rightarrow> activity_row list" where
  "upsert_activity a t =
     (let pk = toLower (ac_pubKey a) in
      if pk = [] then t
      else
        (let h = unixOrZero (ac_lastHeardAt a); r = unixOrZero (ac_lastRelayedAt a) in
         tbl_put ma_pubkey
           (case tbl_get ma_pubkey pk t of
              None \<Rightarrow> \<lparr>ma_pubkey = pk, ma_heard = h, ma_relayed = r\<rparr>
            | Some old \<Rightarrow> \<lparr>ma_pubkey = pk, ma_heard = max (ma_heard old) h, ma_relayed = max (ma_relayed old) r\<rparr>) t))"

definition upsertMeshActivity :: "mesh_activity list \<Rightarrow> mesh_store \<Rightarrow> mesh_store" where
  "upsertMeshActivity act st = st\<lparr>ms_activity := fold upsert_activity act (ms_activity st)\<rparr>"

definition RecordMeshTick :: "mesh_observation list \<Rightarrow> mesh_activity list \<Rightarrow> mesh_store \<Rightarrow> mesh_store" where
  "RecordMeshTick obs act st =
     (if obs = [] \<and> act = [] then st
      else
        (let st = upsertMeshActivity act (insertMeshObservations obs st) in
         if act \<noteq> [] then st\<lparr>ms_activityVersion := ms_activityVersion st + 1\<rparr> else st))"

definition InsertMeshObservations :: "mesh_observation list \<Rightarrow> mesh_store \<Rightarrow> mesh_store" where
  "InsertMeshObservations obs st = RecordMeshTick obs [] st"

definition activity_doc :: "activity_row \<Rightarrow> mesh_activity" where
  "activity_doc r = \<lparr>ac_pubKey = ma_pubkey r, ac_lastHeardAt = timeOrZero (ma_heard r),
     ac_lastRelayedAt = timeOrZero (ma_relayed r)\<rparr>"

definition MeshActivityFor :: "string list \<Rightarrow> mesh_store \<Rightarrow> (string \<rightharpoonup> mesh_activity)" where
  "MeshActivityFor pubkeys st =
     (\<lambda>pk. if pk \<noteq> [] \<and> pk \<in> toLower ` set pubkeys
           then map_option activity_doc (tbl_get ma_pubkey pk (ms_activity st)) else None)"

definition splitList :: "string \<Rightarrow> string list" where
  "splitList s = (if s = [] then [] else split_on CHR '','' s)"

definition keep_last :: "nat \<Rightarrow> 'a list \<Rightarrow> 'a list" where
  "keep_last n xs = (if n > 0 \<and> length xs > n then drop (length xs - n) xs else xs)"

definition MeshNodeHeardTimes :: "nat \<Rightarrow> mesh_store \<Rightarrow> (string \<rightharpoonup> time list)" where
  "MeshNodeHeardTimes maxPerNode st pk =
     (let ts = map (fromUnix \<circ> or_heard) (sort_key or_heard (filter (\<lambda>r. or_pubkey r = pk) (ms_observations st))) in
      if ts = [] then None else Some (keep_last maxPerNode ts))"

definition MeshObservationPaths :: "time \<Rightarrow> mesh_store \<Rightarrow> mesh_observation list" where
  "MeshObservationPaths since st =
     map (\<lambda>r. \<lparr>mo_pubKey = or_pubkey r, mo_heardAt = fromUnix (or_heard r), mo_broker = or_broker r,
              mo_gateway = or_gateway r, mo_snr = 0, mo_rssi = 0, mo_hopCount = 0,
              mo_path = splitList (or_path r), mo_pathNodes = []\<rparr>)
       (sort_key or_heard (filter (\<lambda>r. or_heard r \<ge> unix since \<and> or_path r \<noteq> []) (ms_observations st)))"

definition CountMeshObservations :: "mesh_store \<Rightarrow> nat" where
  "CountMeshObservations st = length (ms_observations st)"

section \<open>Compaction\<close>

text \<open>\<open>eachEdge\<close>: the canonical edges of a relay chain, without unresolved hops and self-loops.\<close>

fun eachEdge :: "string \<Rightarrow> string list \<Rightarrow> (string \<times> string) list" where
  "eachEdge prev [] = []"
| "eachEdge prev (hop # hops) =
     (if prev = [] \<or> hop = [] \<or> prev = hop then []
      else [if prev > hop then (hop, prev) else (prev, hop)]) @ eachEdge hop hops"

definition day_of :: "int \<Rightarrow> int" where
  "day_of heard = heard - rem heard secondsPerDay"

text \<open>One traversal of a link: its key, when it was heard and with what SNR.\<close>

record hop =
  hp_edge :: "string \<times> string"
  hp_heard :: int
  hp_snr :: "rat option"

definition obs_hops :: "obs_row \<Rightarrow> hop list" where
  "obs_hops r = map (\<lambda>e. \<lparr>hp_edge = e, hp_heard = or_heard r, hp_snr = or_snr r\<rparr>)
     (eachEdge (or_pubkey r) (splitList (or_pathNodes r)))"

definition hop_key :: "hop \<Rightarrow> edge_key" where "hop_key h = (hp_edge h, day_of (hp_heard h))"
definition rollup_key :: "rollup_row \<Rightarrow> edge_key" where "rollup_key r = (rr_edge r, rr_bucket r)"

text \<open>The zero value of a NULL reading.\<close>

definition float64 :: "rat option \<Rightarrow> rat" where
  "float64 s = (case s of None \<Rightarrow> 0 | Some x \<Rightarrow> x)"

definition agg_hop :: "hop \<Rightarrow> rollup_row list \<Rightarrow> rollup_row list" where
  "agg_hop h agg =
     (let e = (case tbl_get rollup_key (hop_key h) agg of
                 Some e \<Rightarrow> e
               | None \<Rightarrow> \<lparr>rr_edge = hp_edge h, rr_bucket = day_of (hp_heard h), rr_observations = 0,
                          rr_bestSNR = Some (float64 (hp_snr h)), rr_first = hp_heard h, rr_last = hp_heard h\<rparr>);
          best = float64 (rr_bestSNR e) in
      tbl_put rollup_key
        (e\<lparr>rr_observations := rr_observations e + 1,
           rr_bestSNR := Some (case hp_snr h of Some x \<Rightarrow> (if x > best then x else best) | None \<Rightarrow> best),
           rr_first := (if hp_heard h < rr_first e then hp_heard h else rr_first e),
           rr_last := (if hp_heard h > rr_last e then hp_heard h else rr_last e)\<rparr>) agg)"

text \<open>SQLite's scalar \<open>max\<close> is NULL when an argument is.\<close>

definition sql_max :: "rat option \<Rightarrow> rat option \<Rightarrow> rat option" where
  "sql_max a b = (case (a, b) of (Some x, Some y) \<Rightarrow> Some (max x y) | _ \<Rightarrow> None)"

definition upsert_rollup :: "rollup_row \<Rightarrow> rollup_row list \<Rightarrow> rollup_row list" where
  "upsert_rollup e t =
     tbl_put rollup_key
       (case tbl_get rollup_key (rollup_key e) t of
          None \<Rightarrow> e
        | Some old \<Rightarrow> old\<lparr>rr_observations := rr_observations old + rr_observations e,
            rr_bestSNR := sql_max (rr_bestSNR old) (rr_bestSNR e),
            rr_first := min (rr_first old) (rr_first e), rr_last := max (rr_last old) (rr_last e)\<rparr>) t"

definition readWatermark :: "mesh_store \<Rightarrow> int" where
  "readWatermark st = (case ms_watermark st of None \<Rightarrow> 0 | Some v \<Rightarrow> v)"

definition chunk_rows :: "mesh_store \<Rightarrow> obs_row list" where
  "chunk_rows st = take maxCompactBatch (sort_key or_id (filter (\<lambda>r. or_id r > readWatermark st) (ms_observations st)))"

definition compactChunk :: "mesh_store \<Rightarrow> nat \<times> mesh_store" where
  "compactChunk st =
     (let rows = chunk_rows st; agg = fold agg_hop (concat (map obs_hops rows)) [] in
      if rows = [] then (0, st)
      else (length rows, st\<lparr>ms_rollup := fold upsert_rollup agg (ms_rollup st),
                           ms_watermark := Some (or_id (last rows))\<rparr>))"

lemma next_id_greater: "r \<in> set t \<Longrightarrow> or_id r < next_id t"
  by (induction t) (auto simp: next_id_def)

lemma length_filter_less:
  assumes "\<And>x. Q x \<Longrightarrow> P x" and "y \<in> set xs" and "P y" and "\<not> Q y"
  shows "length (filter Q xs) < length (filter P xs)"
proof -
  have le: "length (filter Q ys) \<le> length (filter P ys)" for ys
    using assms(1) by (induction ys) auto
  obtain us vs where "xs = us @ y # vs" using split_list [OF assms(2)] by blast
  then show ?thesis using le [of us] le [of vs] assms(3,4) by simp
qed

text \<open>A full chunk moves the watermark past its rows, so the loop ends.\<close>

lemma chunk_progress:
  assumes "compactChunk st = (n, st')" and "\<not> n < maxCompactBatch"
  shows "length (filter (\<lambda>r. or_id r > readWatermark st') (ms_observations st')) <
    length (filter (\<lambda>r. or_id r > readWatermark st) (ms_observations st))"
proof -
  let ?rows = "chunk_rows st"
  have ne: "?rows \<noteq> []" using assms by (auto simp: compactChunk_def maxCompactBatch_def)
  have st': "ms_observations st' = ms_observations st" "readWatermark st' = or_id (last ?rows)"
    using assms ne by (auto simp: compactChunk_def Let_def readWatermark_def)
  have "last ?rows \<in> set ?rows" using ne by simp
  then have l: "last ?rows \<in> set (ms_observations st)" "or_id (last ?rows) > readWatermark st"
    using in_set_takeD by (fastforce simp: chunk_rows_def)+
  show ?thesis unfolding st'
    by (rule length_filter_less [where y = "last ?rows"]) (use l in auto)
qed

function CompactMeshObservations :: "mesh_store \<Rightarrow> nat \<times> mesh_store" where
  "CompactMeshObservations st =
     (let (n, st') = compactChunk st in
      if n < maxCompactBatch then (n, st')
      else (let (total, st'') = CompactMeshObservations st' in (n + total, st'')))"
  by pat_completeness auto
termination
  by (relation "measure (\<lambda>st. length (filter (\<lambda>r. or_id r > readWatermark st) (ms_observations st)))")
    (auto dest!: chunk_progress [OF sym] simp: not_less)

declare CompactMeshObservations.simps [simp del]

definition PruneMeshObservations :: "time \<Rightarrow> mesh_store \<Rightarrow> nat \<times> mesh_store" where
  "PruneMeshObservations cutoff st =
     (let gone = (\<lambda>r. or_heard r < unix cutoff \<and> or_id r \<le> readWatermark st) in
      (length (filter gone (ms_observations st)),
       st\<lparr>ms_observations := filter (\<lambda>r. \<not> gone r) (ms_observations st)\<rparr>))"

definition PruneMeshLinkRollup :: "time \<Rightarrow> mesh_store \<Rightarrow> nat \<times> mesh_store" where
  "PruneMeshLinkRollup cutoff st =
     (length (filter (\<lambda>r. rr_bucket r < unix cutoff) (ms_rollup st)),
      st\<lparr>ms_rollup := filter (\<lambda>r. \<not> rr_bucket r < unix cutoff) (ms_rollup st)\<rparr>)"

section \<open>Links\<close>

record mesh_link =
  ml_edge :: "string \<times> string"
  ml_observations :: int
  ml_bestSNR :: rat
  ml_firstSeen :: time
  ml_lastSeen :: time
  ml_daysActive :: nat

record link_acc =
  la_edge :: "string \<times> string"
  la_observations :: int
  la_bestSNR :: rat
  la_haveSNR :: bool
  la_first :: int
  la_last :: int
  la_days :: "int set"

definition new_acc :: "string \<times> string \<Rightarrow> link_acc" where
  "new_acc e = \<lparr>la_edge = e, la_observations = 0, la_bestSNR = 0, la_haveSNR = False,
     la_first = 2 ^ 62, la_last = 0, la_days = {}\<rparr>"

definition note_link :: "int \<Rightarrow> rat option \<Rightarrow> int \<Rightarrow> int \<Rightarrow> int \<Rightarrow> link_acc \<Rightarrow> link_acc" where
  "note_link cnt snr first lst day e =
     (let e = e\<lparr>la_observations := la_observations e + cnt\<rparr>;
          e = (case snr of
                 Some x \<Rightarrow> if \<not> la_haveSNR e \<or> x > la_bestSNR e then e\<lparr>la_bestSNR := x, la_haveSNR := True\<rparr> else e
               | None \<Rightarrow> e);
          e = (if first < la_first e then e\<lparr>la_first := first\<rparr> else e);
          e = (if lst > la_last e then e\<lparr>la_last := lst\<rparr> else e)
      in e\<lparr>la_days := insert day (la_days e)\<rparr>)"

definition get_acc :: "string \<times> string \<Rightarrow> link_acc list \<Rightarrow> link_acc" where
  "get_acc e t = (case tbl_get la_edge e t of Some a \<Rightarrow> a | None \<Rightarrow> new_acc e)"

definition note_rollup :: "rollup_row \<Rightarrow> link_acc list \<Rightarrow> link_acc list" where
  "note_rollup r t = tbl_put la_edge
     (note_link (rr_observations r) (rr_bestSNR r) (rr_first r) (rr_last r) (rr_bucket r) (get_acc (rr_edge r) t)) t"

definition note_hop :: "hop \<Rightarrow> link_acc list \<Rightarrow> link_acc list" where
  "note_hop h t = tbl_put la_edge
     (note_link 1 (hp_snr h) (hp_heard h) (hp_heard h) (day_of (hp_heard h)) (get_acc (hp_edge h) t)) t"

definition link_of_acc :: "link_acc \<Rightarrow> mesh_link" where
  "link_of_acc e = \<lparr>ml_edge = la_edge e, ml_observations = la_observations e, ml_bestSNR = la_bestSNR e,
     ml_firstSeen = fromUnix (la_first e), ml_lastSeen = fromUnix (la_last e), ml_daysActive = card (la_days e)\<rparr>"

text \<open>Strongest first, then by the link's ends.\<close>

definition link_key :: "mesh_link \<Rightarrow> int \<times> string \<times> string" where
  "link_key l = (- ml_observations l, ml_edge l)"

definition MeshLinks :: "time \<Rightarrow> mesh_store \<Rightarrow> mesh_link list" where
  "MeshLinks since st =
     (let sinceBucket = unix since - rem (unix since) secondsPerDay;
          acc = fold note_rollup (filter (\<lambda>r. rr_bucket r \<ge> sinceBucket) (ms_rollup st)) [];
          rows = filter (\<lambda>r. or_id r > readWatermark st \<and> or_heard r \<ge> unix since) (ms_observations st);
          acc = fold note_hop (concat (map obs_hops rows)) acc
      in sort_key link_key (map link_of_acc acc))"

section \<open>Tables that group\<close>

text \<open>A table that holds, per key, a summary of the items with that key.\<close>

definition groups :: "('r \<Rightarrow> 'k) \<Rightarrow> ('e \<Rightarrow> 'k) \<Rightarrow> ('k \<Rightarrow> 'e list \<Rightarrow> 'r) \<Rightarrow> 'e list \<Rightarrow> 'r list \<Rightarrow> bool" where
  "groups key ekey f es t \<longleftrightarrow> tbl_ok key t \<and>
     (\<forall>k. tbl_get key k t = (let g = filter (\<lambda>e. ekey e = k) es in if g = [] then None else Some (f k g)))"

lemma groups_get: "groups key ekey f es t \<Longrightarrow>
    tbl_get key k t = (if filter (\<lambda>e. ekey e = k) es = [] then None else Some (f k (filter (\<lambda>e. ekey e = k) es)))"
  by (simp add: groups_def Let_def)

lemma groups_Nil: "groups key ekey f [] []"
  by (simp add: groups_def)

lemma groups_put:
  assumes "groups key ekey f es t" and "bs \<noteq> []" and "\<And>b. b \<in> set bs \<Longrightarrow> ekey b = key r"
    and "r = f (key r) (filter (\<lambda>e. ekey e = key r) es @ bs)"
  shows "groups key ekey f (es @ bs) (tbl_put key r t)"
proof -
  have "filter (\<lambda>e. ekey e = k) bs = (if k = key r then bs else [])" for k
    using assms(3) by (auto simp: filter_empty_conv intro!: filter_True)
  then show ?thesis using assms by (auto simp: groups_def Let_def)
qed

lemma groups_mset:
  assumes "groups key ekey f es t" and "mset es = mset es'"
    and "\<And>k g g'. mset g = mset g' \<Longrightarrow> f k g = f k g'"
  shows "groups key ekey f es' t"
proof -
  have "mset (filter P es) = mset (filter P es')" for P using assms(2) by simp
  then have "f k (filter P es) = f k (filter P es')" "filter P es = [] \<longleftrightarrow> filter P es' = []" for k P
    by (metis assms(3), metis mset_zero_iff)
  then show ?thesis using assms(1) by (simp add: groups_def Let_def)
qed

lemma mset_blocks:
  "tbl_ok key rs \<Longrightarrow>
   mset (concat (map (\<lambda>r. filter (\<lambda>e. ekey e = key r) es) rs)) = mset (filter (\<lambda>e. ekey e \<in> key ` set rs) es)"
proof (induction rs)
  case (Cons r rs)
  have "mset (filter (\<lambda>e. ekey e \<in> key ` set (r # rs)) es) =
      mset (filter (\<lambda>e. ekey e = key r) es) + mset (filter (\<lambda>e. ekey e \<in> key ` set rs) es)"
    using Cons.prems by (induction es) (auto simp: tbl_ok_Cons)
  then show ?case using Cons by (simp add: tbl_ok_Cons)
qed simp

lemma groups_keys: "groups key ekey f es t \<Longrightarrow> key ` set t = ekey ` set es"
proof -
  assume g: "groups key ekey f es t"
  have "k \<in> key ` set t \<longleftrightarrow> k \<in> ekey ` set es" for k
  proof -
    have "k \<in> key ` set t \<longleftrightarrow> tbl_get key k t \<noteq> None" by (simp add: tbl_get_None)
    also have "\<dots> \<longleftrightarrow> filter (\<lambda>e. ekey e = k) es \<noteq> []" using g by (simp add: groups_def Let_def)
    also have "\<dots> \<longleftrightarrow> k \<in> ekey ` set es" by (auto simp: filter_empty_conv)
    finally show ?thesis .
  qed
  then show ?thesis by blast
qed

lemma groups_row:
  assumes "groups key ekey f es t" and "r \<in> set t"
  shows "r = f (key r) (filter (\<lambda>e. ekey e = key r) es) \<and> filter (\<lambda>e. ekey e = key r) es \<noteq> []"
proof -
  have "tbl_get key (key r) t = Some r" using assms by (intro tbl_get_mem) (simp_all add: groups_def)
  then show ?thesis using assms(1) by (auto simp: groups_def Let_def split: if_splits)
qed

section \<open>Summaries\<close>

text \<open>The readings the store holds: measured, and from a sane clock.\<close>

definition hop_ok :: "hop \<Rightarrow> bool" where
  "hop_ok h \<longleftrightarrow> hp_snr h \<noteq> None \<and> 0 \<le> hp_heard h \<and> hp_heard h < 2 ^ 62"

abbreviation snrs :: "hop list \<Rightarrow> rat set" where "snrs hs \<equiv> (float64 \<circ> hp_snr) ` set hs"
abbreviation heards :: "hop list \<Rightarrow> int set" where "heards hs \<equiv> hp_heard ` set hs"

definition rollup_of :: "edge_key \<Rightarrow> hop list \<Rightarrow> rollup_row" where
  "rollup_of k hs = \<lparr>rr_edge = fst k, rr_bucket = snd k, rr_observations = int (length hs),
     rr_bestSNR = Some (Max (snrs hs)), rr_first = Min (heards hs), rr_last = Max (heards hs)\<rparr>"

definition acc_of :: "string \<times> string \<Rightarrow> hop list \<Rightarrow> link_acc" where
  "acc_of e hs = (if hs = [] then new_acc e else
     \<lparr>la_edge = e, la_observations = int (length hs), la_bestSNR = Max (snrs hs), la_haveSNR = True,
      la_first = Min (heards hs), la_last = Max (heards hs), la_days = day_of ` heards hs\<rparr>)"

lemma rollup_of_key [simp]: "rollup_key (rollup_of k hs) = k"
  by (simp add: rollup_key_def rollup_of_def)

lemma acc_of_edge [simp]: "la_edge (acc_of e hs) = e"
  by (simp add: acc_of_def new_acc_def)

lemma summary_mset:
  "mset g = mset g' \<Longrightarrow> rollup_of k g = rollup_of k g'"
  "mset g = mset g' \<Longrightarrow> acc_of e g = acc_of e g'"
proof -
  assume m: "mset g = mset g'"
  have "set g = set g'" "length g = length g'" "g = [] \<longleftrightarrow> g' = []"
    using m mset_eq_setD mset_eq_length by (blast, blast, metis mset_zero_iff)
  then show "rollup_of k g = rollup_of k g'" "acc_of e g = acc_of e g'"
    by (simp_all add: rollup_of_def acc_of_def)
qed

lemma rollup_merge:
  assumes "g \<noteq> []" and "h \<noteq> []"
  shows "(rollup_of k g)\<lparr>rr_observations := rr_observations (rollup_of k g) + rr_observations (rollup_of k h),
       rr_bestSNR := sql_max (rr_bestSNR (rollup_of k g)) (rr_bestSNR (rollup_of k h)),
       rr_first := min (rr_first (rollup_of k g)) (rr_first (rollup_of k h)),
       rr_last := max (rr_last (rollup_of k g)) (rr_last (rollup_of k h))\<rparr> = rollup_of k (g @ h)"
  using assms by (simp add: rollup_of_def sql_max_def image_Un Max_Un Min_Un)

lemma float64_Some [simp]: "float64 (Some x) = x"
  by (simp add: float64_def)

lemma max_if: "max a b = (if a > b then a else b)" "min a b = (if a < b then a else b)" for a b :: "'b::linorder"
  by (auto simp: max_def min_def)

lemma Max_snoc:
  fixes f :: "'a \<Rightarrow> 'b::linorder"
  assumes "xs \<noteq> []"
  shows "Max (f ` set (xs @ [x])) = (if f x > Max (f ` set xs) then f x else Max (f ` set xs))"
    and "Min (f ` set (xs @ [x])) = (if f x < Min (f ` set xs) then f x else Min (f ` set xs))"
proof -
  have "f ` set (xs @ [x]) = insert (f x) (f ` set xs)" "f ` set xs \<noteq> {}" using assms by auto
  then show "Max (f ` set (xs @ [x])) = (if f x > Max (f ` set xs) then f x else Max (f ` set xs))"
    "Min (f ` set (xs @ [x])) = (if f x < Min (f ` set xs) then f x else Min (f ` set xs))"
    using Max_insert [of "f ` set xs" "f x"] Min_insert [of "f ` set xs" "f x"] by (simp_all only: max_if finite_imageI finite_set simp_thms)
qed

lemma agg_step:
  assumes "g \<noteq> []" and "hp_snr h = Some x" and "e = rollup_of k g"
  shows "e\<lparr>rr_observations := rr_observations e + 1,
      rr_bestSNR := Some (if x > float64 (rr_bestSNR e) then x else float64 (rr_bestSNR e)),
      rr_first := (if hp_heard h < rr_first e then hp_heard h else rr_first e),
      rr_last := (if hp_heard h > rr_last e then hp_heard h else rr_last e)\<rparr> = rollup_of k (g @ [h])"
  unfolding assms(3) rollup_of_def
  by (simp add: Max_snoc [OF assms(1)] assms(2) del: set_append Max_less_iff Min_less_iff Max_gr_iff Min_gr_iff)

lemma agg_hop_groups:
  assumes "groups rollup_key hop_key rollup_of hs t" and "hop_ok h"
  shows "groups rollup_key hop_key rollup_of (hs @ [h]) (agg_hop h t)"
proof -
  let ?g = "filter (\<lambda>e. hop_key e = hop_key h) hs"
  obtain x where x: "hp_snr h = Some x" using assms(2) by (auto simp: hop_ok_def)
  let ?new = "\<lparr>rr_edge = hp_edge h, rr_bucket = day_of (hp_heard h), rr_observations = 0,
     rr_bestSNR = Some (float64 (hp_snr h)), rr_first = hp_heard h, rr_last = hp_heard h\<rparr>"
  let ?e = "case tbl_get rollup_key (hop_key h) t of Some e \<Rightarrow> e | None \<Rightarrow> ?new"
  have e: "?e = (if ?g = [] then ?new else rollup_of (hop_key h) ?g)"
    using groups_get [OF assms(1), of "hop_key h"] by simp
  have "agg_hop h t = tbl_put rollup_key (rollup_of (hop_key h) (?g @ [h])) t"
  proof (cases "?g = []")
    case True
    then show ?thesis
      unfolding agg_hop_def Let_def e by (simp add: rollup_of_def hop_key_def x)
  next
    case False
    then have "?e = rollup_of (hop_key h) ?g" using e by simp
    from agg_step [OF False x this] show ?thesis unfolding agg_hop_def Let_def by (simp add: x)
  qed
  then show ?thesis using groups_put [OF assms(1), of "[h]" "rollup_of (hop_key h) (?g @ [h])"] by simp
qed

lemma agg_groups:
  assumes "list_all hop_ok hs"
  shows "groups rollup_key hop_key rollup_of hs (fold agg_hop hs [])"
  using assms
proof (induction hs rule: rev_induct)
  case (snoc h hs)
  then show ?case using agg_hop_groups [of hs _ h] by simp
qed (simp add: groups_Nil)

lemma upsert_rollup_groups:
  assumes t: "groups rollup_key hop_key rollup_of hs t"
    and e: "e = rollup_of (rollup_key e) bs" "bs \<noteq> []" "\<And>b. b \<in> set bs \<Longrightarrow> hop_key b = rollup_key e"
  shows "groups rollup_key hop_key rollup_of (hs @ bs) (upsert_rollup e t)"
proof -
  let ?k = "rollup_key e"
  let ?g = "filter (\<lambda>h. hop_key h = ?k) hs"
  have "tbl_get rollup_key ?k t = (if ?g = [] then None else Some (rollup_of ?k ?g))"
    by (rule groups_get [OF t])
  then have "upsert_rollup e t = tbl_put rollup_key (rollup_of ?k (?g @ bs)) t"
    using rollup_merge [of ?g bs ?k] e(1,2) by (simp add: upsert_rollup_def)
  then show ?thesis using groups_put [OF t e(2), of "rollup_of ?k (?g @ bs)"] e(3) by simp
qed

text \<open>Merging a chunk's aggregate into the rollup rolls up the chunk's hops.\<close>

lemma rollup_chunk:
  assumes "groups rollup_key hop_key rollup_of hs t" and "groups rollup_key hop_key rollup_of cs agg"
  shows "groups rollup_key hop_key rollup_of (hs @ cs) (fold upsert_rollup agg t)"
proof -
  let ?block = "\<lambda>r. filter (\<lambda>e. hop_key e = rollup_key r) cs"
  have "groups rollup_key hop_key rollup_of (hs @ concat (map ?block rs)) (fold upsert_rollup rs t)"
    if "set rs \<subseteq> set agg" for rs
    using that
  proof (induction rs rule: rev_induct)
    case (snoc r rs)
    have r: "r = rollup_of (rollup_key r) (?block r) \<and> ?block r \<noteq> []"
      by (rule groups_row [OF assms(2)]) (use snoc.prems in simp)
    have IH: "groups rollup_key hop_key rollup_of (hs @ concat (map ?block rs)) (fold upsert_rollup rs t)"
      by (rule snoc.IH) (use snoc.prems in simp)
    have "groups rollup_key hop_key rollup_of ((hs @ concat (map ?block rs)) @ ?block r) (upsert_rollup r (fold upsert_rollup rs t))"
      by (rule upsert_rollup_groups [OF IH conjunct1 [OF r] conjunct2 [OF r]]) simp
    then show ?case by simp
  qed (use assms(1) in simp)
  from this [OF order_refl] have g: "groups rollup_key hop_key rollup_of (hs @ concat (map ?block agg)) (fold upsert_rollup agg t)" .
  have "mset (concat (map ?block agg)) = mset (filter (\<lambda>e. hop_key e \<in> rollup_key ` set agg) cs)"
    by (rule mset_blocks) (use assms(2) in \<open>simp add: groups_def\<close>)
  also have "filter (\<lambda>e. hop_key e \<in> rollup_key ` set agg) cs = cs"
    unfolding groups_keys [OF assms(2)] by (simp add: filter_id_conv)
  finally have "mset (hs @ concat (map ?block agg)) = mset (hs @ cs)" by simp
  then show ?thesis by (rule groups_mset [OF g _ summary_mset(1)])
qed

lemma note_link_closed:
  "note_link cnt (Some x) f l d e =
     e\<lparr>la_observations := la_observations e + cnt, la_bestSNR := (if la_haveSNR e then max (la_bestSNR e) x else x),
       la_haveSNR := True, la_first := min (la_first e) f, la_last := max (la_last e) l, la_days := insert d (la_days e)\<rparr>"
  by (cases e) (auto simp: note_link_def Let_def max_def min_def)

text \<open>Noting the summary of some hops of one day is noting the hops.\<close>

lemma note_acc:
  assumes bs: "bs \<noteq> []" "list_all hop_ok bs" and day: "\<And>b. b \<in> set bs \<Longrightarrow> day_of (hp_heard b) = d"
  shows "note_link (int (length bs)) (Some (Max (snrs bs))) (Min (heards bs)) (Max (heards bs)) d (acc_of e g) =
    acc_of e (g @ bs)"
proof -
  have days: "day_of ` heards bs = {d}" using bs(1) day by (cases bs) auto
  have range: "0 \<le> Max (heards bs)" "Min (heards bs) < 2 ^ 62"
    using bs by (cases bs; auto simp: hop_ok_def list_all_iff Max_ge_iff Min_less_iff)+
  show ?thesis
  proof (cases "g = []")
    case True
    have "min (2 ^ 62) (Min (heards bs)) = Min (heards bs)" "max 0 (Max (heards bs)) = Max (heards bs)"
      using range by (simp_all only: min_absorb2 max_absorb2 less_imp_le)
    with True show ?thesis using bs(1) days
      by (simp add: acc_of_def new_acc_def note_link_closed del: Max_less_iff Min_less_iff Min_le_iff Max_ge_iff)
  next
    case False
    have un: "snrs (g @ bs) = snrs g \<union> snrs bs" "heards (g @ bs) = heards g \<union> heards bs" by auto
    have "Max (snrs (g @ bs)) = max (Max (snrs g)) (Max (snrs bs))"
      "Max (heards (g @ bs)) = max (Max (heards g)) (Max (heards bs))"
      "Min (heards (g @ bs)) = min (Min (heards g)) (Min (heards bs))"
      unfolding un using False bs(1) by (simp_all add: Max_Un Min_Un)
    moreover have "day_of ` heards (g @ bs) = insert d (day_of ` heards g)"
      unfolding un image_Un days by auto
    ultimately show ?thesis using False bs(1) by (simp add: note_link_closed acc_of_def del: set_append)
  qed
qed

lemma get_acc_groups: "groups la_edge hp_edge acc_of hs t \<Longrightarrow> get_acc e t = acc_of e (filter (\<lambda>h. hp_edge h = e) hs)"
  by (simp add: get_acc_def groups_get acc_of_def)

lemma note_rollup_groups:
  assumes t: "groups la_edge hp_edge acc_of hs t" and r: "r = rollup_of (rollup_key r) bs"
    and bs: "bs \<noteq> []" "list_all hop_ok bs" "\<And>b. b \<in> set bs \<Longrightarrow> hop_key b = rollup_key r"
  shows "groups la_edge hp_edge acc_of (hs @ bs) (note_rollup r t)"
proof -
  let ?e = "rr_edge r"
  have k: "hp_edge b = ?e" "day_of (hp_heard b) = rr_bucket r" if "b \<in> set bs" for b
    using bs(3) [OF that] by (simp_all add: hop_key_def rollup_key_def)
  have f: "rr_observations r = int (length bs)" "rr_bestSNR r = Some (Max (snrs bs))"
    "rr_first r = Min (heards bs)" "rr_last r = Max (heards bs)"
    by (subst r, simp add: rollup_of_def)+
  have "note_rollup r t = tbl_put la_edge (acc_of ?e (filter (\<lambda>h. hp_edge h = ?e) hs @ bs)) t"
    unfolding note_rollup_def f get_acc_groups [OF t]
    by (rule arg_cong [of _ _ "\<lambda>a. tbl_put la_edge a t"], rule note_acc) (use bs k(2) in auto)
  then show ?thesis
    using groups_put [OF t bs(1), of "acc_of ?e (filter (\<lambda>h. hp_edge h = ?e) hs @ bs)"] k(1) by simp
qed

lemma note_hop_groups:
  assumes t: "groups la_edge hp_edge acc_of hs t" and h: "hop_ok h"
  shows "groups la_edge hp_edge acc_of (hs @ [h]) (note_hop h t)"
proof -
  let ?e = "hp_edge h"
  obtain x where x: "hp_snr h = Some x" using h by (auto simp: hop_ok_def)
  have "note_hop h t = tbl_put la_edge (acc_of ?e (filter (\<lambda>h. hp_edge h = ?e) hs @ [h])) t"
    using note_acc [of "[h]" "day_of (hp_heard h)" ?e "filter (\<lambda>h. hp_edge h = ?e) hs"] h
    by (simp add: note_hop_def get_acc_groups [OF t] x)
  then show ?thesis
    using groups_put [OF t, of "[h]" "acc_of ?e (filter (\<lambda>h. hp_edge h = ?e) hs @ [h])"] by simp
qed

lemma note_hops_groups:
  "groups la_edge hp_edge acc_of hs t \<Longrightarrow> list_all hop_ok ys \<Longrightarrow>
   groups la_edge hp_edge acc_of (hs @ ys) (fold note_hop ys t)"
proof (induction ys arbitrary: hs t)
  case (Cons y ys)
  from Cons.IH [OF note_hop_groups [OF Cons.prems(1)], of y] Cons.prems(2) show ?case by simp
qed simp

lemma note_rollups_groups:
  assumes g: "groups rollup_key hop_key rollup_of dn t" and ok: "list_all hop_ok dn" and rs: "set rs \<subseteq> set t"
  shows "groups la_edge hp_edge acc_of (concat (map (\<lambda>r. filter (\<lambda>h. hop_key h = rollup_key r) dn) rs))
    (fold note_rollup rs [])"
  using rs
proof (induction rs rule: rev_induct)
  case Nil
  then show ?case by (simp add: groups_Nil)
next
  case (snoc r rs)
  let ?block = "\<lambda>r. filter (\<lambda>h. hop_key h = rollup_key r) dn"
  have IH: "groups la_edge hp_edge acc_of (concat (map ?block rs)) (fold note_rollup rs [])"
    by (rule snoc.IH) (use snoc.prems in simp)
  have r: "r = rollup_of (rollup_key r) (?block r) \<and> ?block r \<noteq> []"
    by (rule groups_row [OF g]) (use snoc.prems in simp)
  have "groups la_edge hp_edge acc_of (concat (map ?block rs) @ ?block r) (note_rollup r (fold note_rollup rs []))"
    by (rule note_rollup_groups [OF IH conjunct1 [OF r] conjunct2 [OF r]])
      (use ok in \<open>auto simp: list_all_iff\<close>)
  then show ?case by simp
qed

section \<open>The topology\<close>

text \<open>What \<open>MeshLinks\<close> promises: the links of a set of traversals, each summarised.\<close>

definition link_of :: "string \<times> string \<Rightarrow> hop list \<Rightarrow> mesh_link" where
  "link_of e hs = \<lparr>ml_edge = e, ml_observations = int (length hs), ml_bestSNR = Max (snrs hs),
     ml_firstSeen = fromUnix (Min (heards hs)), ml_lastSeen = fromUnix (Max (heards hs)),
     ml_daysActive = card (day_of ` heards hs)\<rparr>"

definition topology :: "hop list \<Rightarrow> mesh_link list" where
  "topology hs = sort_key link_key
     (map (\<lambda>e. link_of e (filter (\<lambda>h. hp_edge h = e) hs)) (remdups (map hp_edge hs)))"

lemma link_of_mset: "mset g = mset g' \<Longrightarrow> link_of e g = link_of e g'"
  using mset_eq_setD [of g g'] mset_eq_length [of g g'] by (simp add: link_of_def)

lemma link_of_acc: "hs \<noteq> [] \<Longrightarrow> link_of_acc (acc_of e hs) = link_of e hs"
  by (simp add: link_of_acc_def acc_of_def link_of_def)

lemma link_sort_unique:
  assumes "mset ls = mset ls'" and "inj_on ml_edge (set ls)"
  shows "sort_key link_key ls = sort_key link_key ls'"
proof (rule sort_key_inj_key_eq)
  show "mset ls = mset (sort_key link_key ls')" using assms(1) by simp
  show "inj_on link_key (set ls)" using assms(2) by (auto simp: inj_on_def link_key_def)
  show "sorted (map link_key (sort_key link_key ls'))" by simp
qed

lemma topology_table:
  assumes g: "groups la_edge hp_edge acc_of hs t"
  shows "sort_key link_key (map link_of_acc t) = topology hs"
  unfolding topology_def
proof (rule link_sort_unique)
  let ?f = "\<lambda>e. filter (\<lambda>h. hp_edge h = e) hs"
  have row: "link_of_acc r = link_of (la_edge r) (?f (la_edge r))" if "r \<in> set t" for r
  proof -
    note gr = groups_row [OF g that]
    have "link_of_acc r = link_of_acc (acc_of (la_edge r) (?f (la_edge r)))"
      by (rule arg_cong [OF conjunct1 [OF gr]])
    then show ?thesis using link_of_acc [OF conjunct2 [OF gr]] by simp
  qed
  have d: "distinct (map la_edge t)" using g by (simp add: groups_def tbl_ok_def)
  have "mset (map link_of_acc t) = image_mset (\<lambda>e. link_of e (?f e)) (mset (map la_edge t))"
  proof -
    have "map link_of_acc t = map (\<lambda>e. link_of e (?f e)) (map la_edge t)" by (simp add: row)
    then show ?thesis by (simp only: mset_map)
  qed
  also have "mset (map la_edge t) = mset (remdups (map hp_edge hs))"
    using d groups_keys [OF g] by (intro set_eq_iff_mset_eq_distinct [THEN iffD1]) simp_all
  finally show "mset (map link_of_acc t) = mset (map (\<lambda>e. link_of e (?f e)) (remdups (map hp_edge hs)))"
    by (simp only: mset_map)
  show "inj_on ml_edge (set (map link_of_acc t))"
    using d by (auto simp: inj_on_def row link_of_def)
qed

lemma topology_mset:
  assumes "mset hs = mset hs'"
  shows "topology hs = topology hs'"
  unfolding topology_def
proof (rule link_sort_unique)
  have "link_of e (filter (\<lambda>h. hp_edge h = e) hs) = link_of e (filter (\<lambda>h. hp_edge h = e) hs')" for e
    by (rule link_of_mset) (simp add: assms)
  moreover have "mset (remdups (map hp_edge hs)) = mset (remdups (map hp_edge hs'))"
    using mset_eq_setD [OF assms] by (intro set_eq_iff_mset_eq_distinct [THEN iffD1]) simp_all
  ultimately show "mset (map (\<lambda>e. link_of e (filter (\<lambda>h. hp_edge h = e) hs)) (remdups (map hp_edge hs))) =
      mset (map (\<lambda>e. link_of e (filter (\<lambda>h. hp_edge h = e) hs')) (remdups (map hp_edge hs')))"
    by (simp only: mset_map)
qed (auto simp: inj_on_def link_of_def)

section \<open>The refinement\<close>

text \<open>
  \<open>hs\<close> is every traversal ever recorded: those rolled up, and those of the receptions past the
  watermark.
\<close>

definition tail_hops :: "mesh_store \<Rightarrow> hop list" where
  "tail_hops st = concat (map obs_hops (filter (\<lambda>r. or_id r > readWatermark st) (ms_observations st)))"

definition mesh_rel :: "hop list \<Rightarrow> mesh_store \<Rightarrow> bool" where
  "mesh_rel hs st \<longleftrightarrow> list_all hop_ok hs \<and> distinct (map or_id (ms_observations st)) \<and>
     readWatermark st < next_id (ms_observations st) \<and>
     (\<exists>dn. groups rollup_key hop_key rollup_of dn (ms_rollup st) \<and> mset hs = mset (dn @ tail_hops st))"

lemma newMeshStore_rel: "mesh_rel [] newMeshStore"
  by (simp add: mesh_rel_def newMeshStore_def readWatermark_def next_id_def tail_hops_def groups_Nil)

text \<open>The traversals of a reception to be recorded.\<close>

definition hops_of :: "mesh_observation \<Rightarrow> hop list" where
  "hops_of ob = map (\<lambda>e. \<lparr>hp_edge = e, hp_heard = unix (mo_heardAt ob), hp_snr = Some (mo_snr ob)\<rparr>)
     (eachEdge (mo_pubKey ob) (splitList (join_with CHR '','' (mo_pathNodes ob))))"

definition obs_ok :: "mesh_observation \<Rightarrow> bool" where
  "obs_ok ob \<longleftrightarrow> 0 \<le> unix (mo_heardAt ob) \<and> unix (mo_heardAt ob) < 2 ^ 62"

lemma next_id_append: "next_id (t @ [r]) = max (next_id t) (or_id r + 1)" if "0 \<le> or_id r"
proof -
  have "foldr (\<lambda>r m. max (or_id r) m) t (max (or_id r) 0) = max (foldr (\<lambda>r m. max (or_id r) m) t 0) (or_id r)"
    using that by (induction t) auto
  then show ?thesis by (simp add: next_id_def)
qed

lemma next_id_pos: "0 < next_id t"
proof -
  have "0 \<le> foldr (\<lambda>r m. max (or_id r) m) t 0" by (induction t) auto
  then show ?thesis by (simp add: next_id_def)
qed

lemma watermark_frame [simp]: "readWatermark (st\<lparr>ms_observations := t\<rparr>) = readWatermark st"
  by (simp add: readWatermark_def)

lemma insert_rel:
  assumes "mesh_rel hs st" and "obs_ok ob"
  shows "mesh_rel (hs @ hops_of ob) (st\<lparr>ms_observations := insert_observation ob (ms_observations st)\<rparr>)"
proof -
  let ?st = "st\<lparr>ms_observations := insert_observation ob (ms_observations st)\<rparr>"
  let ?n = "next_id (ms_observations st)"
  have n: "next_id (ms_observations ?st) = ?n + 1"
    using next_id_pos [of "ms_observations st"] by (simp add: insert_observation_def next_id_append)
  have "?n \<notin> or_id ` set (ms_observations st)" using next_id_greater by force
  then have d: "distinct (map or_id (ms_observations ?st))"
    using assms(1) by (simp add: mesh_rel_def insert_observation_def)
  have t: "tail_hops ?st = tail_hops st @ hops_of ob"
    using assms(1) by (simp add: tail_hops_def insert_observation_def mesh_rel_def obs_hops_def hops_of_def)
  have "list_all hop_ok (hops_of ob)"
    using assms(2) by (simp add: hops_of_def obs_ok_def hop_ok_def list_all_iff)
  moreover have "readWatermark ?st < next_id (ms_observations ?st)"
    using assms(1) unfolding n by (simp add: mesh_rel_def)
  ultimately show ?thesis
    using assms(1) d t unfolding mesh_rel_def by auto
qed

lemma inserts_rel:
  assumes "mesh_rel hs st" and "list_all obs_ok obs"
  shows "mesh_rel (hs @ concat (map hops_of obs)) (insertMeshObservations obs st)"
proof -
  have "mesh_rel (hs @ concat (map hops_of obs)) (st\<lparr>ms_observations := fold insert_observation obs (ms_observations st)\<rparr>)"
    using assms
  proof (induction obs arbitrary: hs st)
    case (Cons ob obs)
    have "mesh_rel (hs @ hops_of ob) (st\<lparr>ms_observations := insert_observation ob (ms_observations st)\<rparr>)"
      by (rule insert_rel) (use Cons.prems in simp_all)
    from Cons.IH [OF this] Cons.prems(2) show ?case by simp
  qed simp
  then show ?thesis by (simp add: insertMeshObservations_def)
qed

lemma rel_frame:
  "ms_observations st' = ms_observations st \<Longrightarrow> ms_rollup st' = ms_rollup st \<Longrightarrow> ms_watermark st' = ms_watermark st \<Longrightarrow>
   mesh_rel hs st' = mesh_rel hs st"
  by (simp add: mesh_rel_def tail_hops_def readWatermark_def)

lemma record_rel:
  assumes "mesh_rel hs st" and "list_all obs_ok obs"
  shows "mesh_rel (hs @ concat (map hops_of obs)) (RecordMeshTick obs act st)"
proof -
  have "mesh_rel (hs @ concat (map hops_of obs)) (RecordMeshTick obs act st) =
      mesh_rel (hs @ concat (map hops_of obs)) (insertMeshObservations obs st)"
    by (rule rel_frame) (auto simp: RecordMeshTick_def upsertMeshActivity_def insertMeshObservations_def Let_def)
  with inserts_rel [OF assms] show ?thesis by simp
qed

text \<open>A chunk is the receptions just past the watermark.\<close>

lemma sorted_take_drop:
  fixes key :: "'a \<Rightarrow> int"
  assumes "distinct (map key xs)" and "sorted (map key xs)" and "ys = take n xs" and "ys \<noteq> []"
  shows "filter (\<lambda>x. key (last ys) < key x) xs = drop n xs"
proof -
  have xs: "xs = ys @ drop n xs" using assms(3) by simp
  have le: "key y \<le> key (last ys)" if "y \<in> set ys" for y
  proof -
    have "sorted (map key ys)" using assms(2,3) by (simp add: sorted_wrt_take flip: take_map)
    moreover have "ys = butlast ys @ [last ys]" using assms(4) by simp
    ultimately have "sorted (map key (butlast ys) @ [key (last ys)])" by (metis map_append list.map)
    then have "\<forall>z \<in> set (butlast ys). key z \<le> key (last ys)" by (simp add: sorted_append)
    then show ?thesis using that \<open>ys = butlast ys @ [last ys]\<close> by (metis UnE empty_iff insert_iff list.set order_refl set_append)
  qed
  have gt: "key (last ys) < key z" if "z \<in> set (drop n xs)" for z
  proof -
    have l: "last ys \<in> set ys" using assms(4) by simp
    have "sorted (map key ys @ map key (drop n xs))" "distinct (map key ys @ map key (drop n xs))"
      using assms(1,2) xs by (metis map_append)+
    then have "key (last ys) \<le> key z" "key (last ys) \<noteq> key z"
      using that l by (auto simp: sorted_append dest: imageI [of _ _ key])
    then show ?thesis by simp
  qed
  have "filter (\<lambda>x. key (last ys) < key x) ys = []" using le by (auto simp: filter_empty_conv not_less)
  moreover have "filter (\<lambda>x. key (last ys) < key x) (drop n xs) = drop n xs" using gt by simp
  ultimately show ?thesis using xs by (metis append_Nil filter_append)
qed

lemma mset_concat_map: "mset xs = mset ys \<Longrightarrow> mset (concat (map f xs)) = mset (concat (map f ys))"
proof -
  have "mset (concat (map f zs)) = sum_mset (image_mset (\<lambda>x. mset (f x)) (mset zs))" for zs
    by (induction zs) auto
  then show "mset xs = mset ys \<Longrightarrow> mset (concat (map f xs)) = mset (concat (map f ys))" by simp
qed

lemma chunk_rel:
  assumes rel: "mesh_rel hs st"
  shows "mesh_rel hs (snd (compactChunk st))"
proof (cases "chunk_rows st = []")
  case True
  then show ?thesis using rel by (simp add: compactChunk_def)
next
  case False
  let ?rows = "chunk_rows st" and ?w = "readWatermark st"
  let ?F = "filter (\<lambda>r. or_id r > ?w) (ms_observations st)"
  let ?S = "sort_key or_id ?F"
  let ?st = "snd (compactChunk st)"
  obtain dn where dn: "groups rollup_key hop_key rollup_of dn (ms_rollup st)" "mset hs = mset (dn @ tail_hops st)"
    and ok: "list_all hop_ok hs" and d: "distinct (map or_id (ms_observations st))"
    using rel by (auto simp: mesh_rel_def)
  have st: "ms_rollup ?st = fold upsert_rollup (fold agg_hop (concat (map obs_hops ?rows)) []) (ms_rollup st)"
    "ms_observations ?st = ms_observations st" "readWatermark ?st = or_id (last ?rows)"
    using False by (simp_all add: compactChunk_def Let_def readWatermark_def)
  have rows: "?rows = take maxCompactBatch ?S" by (simp add: chunk_rows_def)
  have "last ?rows \<in> set ?S" unfolding rows using last_in_set [OF False [unfolded rows]] by (rule in_set_takeD)
  then have l: "last ?rows \<in> set (ms_observations st)" "?w < or_id (last ?rows)" by simp_all
  have dS: "distinct (map or_id ?S)" "sorted (map or_id ?S)"
    using distinct_map_filter [OF d] by (simp_all add: distinct_map)
  have rest: "filter (\<lambda>r. or_id (last ?rows) < or_id r) ?S = drop maxCompactBatch ?S"
    by (rule sorted_take_drop [OF dS rows False])
  have "mset (filter (\<lambda>r. or_id (last ?rows) < or_id r) (ms_observations st)) = mset (drop maxCompactBatch ?S)"
  proof -
    have "filter (\<lambda>r. or_id (last ?rows) < or_id r) (ms_observations st) =
        filter (\<lambda>r. or_id (last ?rows) < or_id r) ?F"
      using l(2) by (auto intro!: filter_cong)
    then have "mset (filter (\<lambda>r. or_id (last ?rows) < or_id r) (ms_observations st)) =
        mset (filter (\<lambda>r. or_id (last ?rows) < or_id r) ?S)"
      by (simp only: mset_filter mset_sort)
    then show ?thesis by (simp only: rest)
  qed
  then have tail': "mset (tail_hops ?st) = mset (concat (map obs_hops (drop maxCompactBatch ?S)))"
    unfolding tail_hops_def st by (rule mset_concat_map)
  have "mset (tail_hops st) = mset (concat (map obs_hops ?S))"
    unfolding tail_hops_def by (rule mset_concat_map) simp
  also have "concat (map obs_hops ?S) = concat (map obs_hops ?rows) @ concat (map obs_hops (drop maxCompactBatch ?S))"
    unfolding rows by (simp only: append_take_drop_id flip: concat_append map_append)
  finally have tail: "mset (tail_hops st) = mset (concat (map obs_hops ?rows) @ tail_hops ?st)"
    using tail' by simp
  have all: "mset hs = mset ((dn @ concat (map obs_hops ?rows)) @ tail_hops ?st)"
    using dn(2) tail by simp
  have "set (concat (map obs_hops ?rows)) \<subseteq> set hs"
    using mset_eq_setD [OF all] by auto
  then have "list_all hop_ok (concat (map obs_hops ?rows))" using ok by (auto simp: list_all_iff)
  then have "groups rollup_key hop_key rollup_of (dn @ concat (map obs_hops ?rows)) (ms_rollup ?st)"
    unfolding st by (intro rollup_chunk dn(1) agg_groups)
  moreover have "readWatermark ?st < next_id (ms_observations ?st)"
    unfolding st by (rule next_id_greater [OF l(1)])
  ultimately show ?thesis using ok d all unfolding mesh_rel_def st(2) by blast
qed

lemma compact_rel: "mesh_rel hs st \<Longrightarrow> mesh_rel hs (snd (CompactMeshObservations st))"
proof (induction st rule: CompactMeshObservations.induct)
  case (1 st)
  obtain n st' where c: "compactChunk st = (n, st')" by (cases "compactChunk st")
  have r: "mesh_rel hs st'" using chunk_rel [OF 1(2)] c by simp
  show ?case
  proof (cases "n < maxCompactBatch")
    case True
    then show ?thesis using c r by (simp add: CompactMeshObservations.simps [of st])
  next
    case False
    have "mesh_rel hs (snd (CompactMeshObservations st'))" by (rule 1(1) [OF c [symmetric] refl False r])
    then show ?thesis using c False by (simp add: CompactMeshObservations.simps [of st] split_def Let_def)
  qed
qed

text \<open>The prune keeps the row with the largest id, or ids start over below the watermark.\<close>

definition prune_safe :: "time \<Rightarrow> mesh_store \<Rightarrow> bool" where
  "prune_safe cutoff st \<longleftrightarrow>
     readWatermark st < next_id (ms_observations (snd (PruneMeshObservations cutoff st)))"

lemma prune_rel:
  assumes "mesh_rel hs st" and "prune_safe cutoff st"
  shows "mesh_rel hs (snd (PruneMeshObservations cutoff st))"
proof -
  let ?st = "snd (PruneMeshObservations cutoff st)"
  have f: "ms_rollup ?st = ms_rollup st" "readWatermark ?st = readWatermark st"
    "ms_observations ?st = filter (\<lambda>r. \<not> (or_heard r < unix cutoff \<and> or_id r \<le> readWatermark st)) (ms_observations st)"
    by (simp_all add: PruneMeshObservations_def Let_def)
  have "tail_hops ?st = tail_hops st"
    unfolding tail_hops_def f by (auto intro!: arg_cong [of _ _ "\<lambda>x. concat (map obs_hops x)"] filter_cong simp: not_le)
  moreover have "distinct (map or_id (ms_observations ?st))"
    using assms(1) unfolding f mesh_rel_def by (simp add: distinct_map_filter)
  ultimately show ?thesis using assms f(1,2) by (simp add: mesh_rel_def prune_safe_def)
qed

lemma day_of_nonneg: "0 \<le> h \<Longrightarrow> day_of h = h - h mod secondsPerDay"
  by (simp add: day_of_def secondsPerDay_def)

lemma day_window:
  assumes "0 \<le> h" and "0 \<le> s" and "rem s secondsPerDay = 0"
  shows "s \<le> h \<longleftrightarrow> s \<le> day_of h"
proof -
  have "s mod 86400 = 0" using assms(2,3) by (simp add: secondsPerDay_def)
  then have k: "s = s div 86400 * 86400" using div_mult_mod_eq [of s 86400] by simp
  show ?thesis
  proof
    assume "s \<le> h"
    then have "s div 86400 \<le> h div 86400" by (rule zdiv_mono1) simp
    then have "s \<le> h div 86400 * 86400" using k by linarith
    then show "s \<le> day_of h" unfolding day_of_nonneg [OF assms(1)] secondsPerDay_def
      by (simp add: minus_mod_eq_div_mult)
  next
    assume "s \<le> day_of h"
    moreover have "day_of h \<le> h" using assms(1) by (simp add: day_of_nonneg secondsPerDay_def)
    ultimately show "s \<le> h" by simp
  qed
qed

text \<open>For a window that starts with a day.\<close>

lemma MeshLinks_topology:
  assumes rel: "mesh_rel hs st" and since: "0 \<le> unix since" "rem (unix since) secondsPerDay = 0"
  shows "MeshLinks since st = topology (filter (\<lambda>h. unix since \<le> hp_heard h) hs)"
proof -
  let ?s = "unix since"
  obtain dn where dn: "groups rollup_key hop_key rollup_of dn (ms_rollup st)" "mset hs = mset (dn @ tail_hops st)"
    and ok: "list_all hop_ok hs"
    using rel by (auto simp: mesh_rel_def)
  let ?rs = "filter (\<lambda>r. ?s \<le> rr_bucket r) (ms_rollup st)"
  let ?rows = "filter (\<lambda>r. or_id r > readWatermark st \<and> or_heard r \<ge> ?s) (ms_observations st)"
  let ?hist = "concat (map (\<lambda>r. filter (\<lambda>h. hop_key h = rollup_key r) dn) ?rs)"
  let ?tail = "concat (map obs_hops ?rows)"
  have okd: "list_all hop_ok dn" "list_all hop_ok (tail_hops st)"
    using ok mset_eq_setD [OF dn(2)] by (auto simp: list_all_iff)
  have tail: "?tail = filter (\<lambda>h. ?s \<le> hp_heard h) (tail_hops st)"
  proof -
    have "filter (\<lambda>h. ?s \<le> hp_heard h) (obs_hops r) = (if ?s \<le> or_heard r then obs_hops r else [])" for r
      by (auto simp: obs_hops_def filter_empty_conv)
    then have "filter (\<lambda>h. ?s \<le> hp_heard h) (concat (map obs_hops rs)) =
        concat (map obs_hops (filter (\<lambda>r. ?s \<le> or_heard r) rs))" for rs
      by (induction rs) auto
    then show ?thesis by (simp add: tail_hops_def conj_commute)
  qed
  have "list_all hop_ok ?tail" using okd(2) unfolding tail by (auto simp: list_all_iff)
  then have g: "groups la_edge hp_edge acc_of (?hist @ ?tail) (fold note_hop ?tail (fold note_rollup ?rs []))"
    by (intro note_hops_groups note_rollups_groups [OF dn(1) okd(1)]) auto
  have "mset ?hist = mset (filter (\<lambda>h. hop_key h \<in> rollup_key ` set ?rs) dn)"
    by (rule mset_blocks) (use dn(1) in \<open>simp add: groups_def tbl_ok_filter\<close>)
  also have "filter (\<lambda>h. hop_key h \<in> rollup_key ` set ?rs) dn = filter (\<lambda>h. ?s \<le> hp_heard h) dn"
  proof (rule filter_cong [OF refl])
    fix h assume h: "h \<in> set dn"
    have "hop_key h \<in> rollup_key ` set (ms_rollup st)" using groups_keys [OF dn(1)] h by auto
    then have "hop_key h \<in> rollup_key ` set ?rs \<longleftrightarrow> ?s \<le> day_of (hp_heard h)"
      by (force simp: hop_key_def rollup_key_def)
    then show "hop_key h \<in> rollup_key ` set ?rs \<longleftrightarrow> ?s \<le> hp_heard h"
      using day_window [OF _ since, of "hp_heard h"] okd(1) h by (auto simp: list_all_iff hop_ok_def)
  qed
  finally have "mset (?hist @ ?tail) = mset (filter (\<lambda>h. ?s \<le> hp_heard h) hs)"
    using dn(2) tail by simp
  from topology_mset [OF this] topology_table [OF g] since(2) show ?thesis
    by (simp add: MeshLinks_def Let_def)
qed

section \<open>Runs\<close>

datatype mesh_op = MRecord "mesh_observation list" "mesh_activity list" | MCompact | MPrune time

definition mesh_apply :: "mesh_op \<Rightarrow> mesh_store \<Rightarrow> mesh_store" where
  "mesh_apply op st = (case op of
     MRecord obs act \<Rightarrow> RecordMeshTick obs act st
   | MCompact \<Rightarrow> snd (CompactMeshObservations st)
   | MPrune cutoff \<Rightarrow> snd (PruneMeshObservations cutoff st))"

definition run_mesh :: "mesh_op list \<Rightarrow> mesh_store \<Rightarrow> mesh_store" where
  "run_mesh ops st = fold mesh_apply ops st"

definition recorded :: "mesh_op list \<Rightarrow> hop list" where
  "recorded ops = concat (map (\<lambda>op. case op of MRecord obs _ \<Rightarrow> concat (map hops_of obs) | _ \<Rightarrow> []) ops)"

fun mesh_ops_ok :: "mesh_op list \<Rightarrow> mesh_store \<Rightarrow> bool" where
  "mesh_ops_ok [] st = True"
| "mesh_ops_ok (op # ops) st =
     ((case op of MRecord obs _ \<Rightarrow> list_all obs_ok obs | MCompact \<Rightarrow> True | MPrune cutoff \<Rightarrow> prune_safe cutoff st) \<and>
      mesh_ops_ok ops (mesh_apply op st))"

lemma run_mesh_rel:
  "mesh_rel hs st \<Longrightarrow> mesh_ops_ok ops st \<Longrightarrow> mesh_rel (hs @ recorded ops) (run_mesh ops st)"
proof (induction ops arbitrary: hs st)
  case Nil
  then show ?case by (simp add: run_mesh_def recorded_def)
next
  case (Cons op ops)
  have "mesh_rel (hs @ recorded [op]) (mesh_apply op st)"
    using Cons.prems
    by (cases op) (simp_all add: mesh_apply_def recorded_def record_rel compact_rel prune_rel)
  from Cons.IH [OF this] Cons.prems(2) show ?case by (simp add: run_mesh_def recorded_def)
qed

text \<open>
  C19: compaction and pruning are invisible in the topology. After any run of recorded ticks,
  compactions and prunes that never delete the newest reception, the links of a window that
  starts with a day are exactly the links of the receptions ever recorded in that window, with
  their counts, best SNR, first and last time and active days; and pruning the rollup before the
  window changes nothing.
\<close>

theorem mesh_links_refine:
  assumes "mesh_ops_ok ops newMeshStore" and "0 \<le> unix since" and "rem (unix since) secondsPerDay = 0"
  shows "MeshLinks since (run_mesh ops newMeshStore) =
      topology (filter (\<lambda>h. unix since \<le> hp_heard h) (recorded ops)) \<and>
    (unix cutoff \<le> unix since \<longrightarrow>
      MeshLinks since (snd (PruneMeshLinkRollup cutoff (run_mesh ops newMeshStore))) =
      MeshLinks since (run_mesh ops newMeshStore))"
proof -
  have "MeshLinks since (snd (PruneMeshLinkRollup cutoff st)) = MeshLinks since st" if "unix cutoff \<le> unix since" for st
  proof -
    have "filter (\<lambda>r. unix since \<le> rr_bucket r) (filter (\<lambda>r. \<not> rr_bucket r < unix cutoff) t) =
        filter (\<lambda>r. unix since \<le> rr_bucket r) t" for t :: "rollup_row list"
      using that by (auto intro!: filter_cong)
    then show ?thesis using assms(3)
      by (simp add: MeshLinks_def PruneMeshLinkRollup_def readWatermark_def del: filter_filter)
  qed
  then show ?thesis
    using MeshLinks_topology [OF run_mesh_rel [OF newMeshStore_rel assms(1)] assms(2,3)] by simp
qed

definition ex_reception :: "string \<Rightarrow> string \<Rightarrow> time \<Rightarrow> mesh_observation" where
  "ex_reception pk gw t = \<lparr>mo_pubKey = pk, mo_heardAt = t, mo_broker = ''b'', mo_gateway = gw, mo_snr = 5, mo_rssi = -90,
     mo_hopCount = 1, mo_path = [''a1''], mo_pathNodes = [gw]\<rparr>"

definition ex_mesh_ops :: "mesh_op list" where
  "ex_mesh_ops = [MRecord [ex_reception ''n1'' ''n2'' (hour), ex_reception ''n2'' ''n1'' (30 * hour)] [], MCompact,
     MPrune (20 * hour), MRecord [ex_reception ''n1'' ''n3'' (31 * hour)] []]"

theorem mesh_links_refine_witness:
  "map ml_edge (MeshLinks 0 (run_mesh ex_mesh_ops newMeshStore)) = [(''n1'', ''n2''), (''n1'', ''n3'')] \<and>
   map ml_daysActive (MeshLinks 0 (run_mesh ex_mesh_ops newMeshStore)) = [2, 1]"
proof -
  have "mesh_ops_ok ex_mesh_ops newMeshStore" "0 \<le> unix 0" "rem (unix 0) secondsPerDay = 0" by code_simp+
  from mesh_links_refine [OF this, of 0]
  have "MeshLinks 0 (run_mesh ex_mesh_ops newMeshStore) = topology (filter (\<lambda>h. unix 0 \<le> hp_heard h) (recorded ex_mesh_ops))"
    by blast
  moreover have "map ml_edge (topology (filter (\<lambda>h. unix 0 \<le> hp_heard h) (recorded ex_mesh_ops))) = [(''n1'', ''n2''), (''n1'', ''n3'')]"
    "map ml_daysActive (topology (filter (\<lambda>h. unix 0 \<le> hp_heard h) (recorded ex_mesh_ops))) = [2, 1]"
    by code_simp+
  ultimately show ?thesis by simp
qed

text \<open>
  Row ids are not monotonic. Without AUTOINCREMENT, a prune that empties the table (an outage
  longer than the retention) makes ids start over at 1, below the watermark. The next reception
  is then in no window's links, no compaction rolls it up, and the next prune deletes it.
\<close>

theorem mesh_ids_reused:
  "\<exists>st st'. st = run_mesh [MRecord [ex_reception ''n1'' ''n2'' hour, ex_reception ''n2'' ''n1'' (2 * hour)] [], MCompact,
       MPrune (100 * hour)] newMeshStore \<and>
     st' = run_mesh [MRecord [ex_reception ''n3'' ''n4'' (101 * hour)] [], MCompact, MPrune (200 * hour)] st \<and>
     ms_observations st = [] \<and>
     map or_id (ms_observations (RecordMeshTick [ex_reception ''n3'' ''n4'' (101 * hour)] [] st)) = [1] \<and>
     readWatermark st = 2 \<and>
     MeshLinks 0 (RecordMeshTick [ex_reception ''n3'' ''n4'' (101 * hour)] [] st) = MeshLinks 0 st \<and>
     ms_observations st' = [] \<and> MeshLinks 0 st' = MeshLinks 0 st"
proof (intro exI conjI)
  let ?st = "run_mesh [MRecord [ex_reception ''n1'' ''n2'' hour, ex_reception ''n2'' ''n1'' (2 * hour)] [], MCompact,
       MPrune (100 * hour)] newMeshStore"
  let ?st' = "run_mesh [MRecord [ex_reception ''n3'' ''n4'' (101 * hour)] [], MCompact, MPrune (200 * hour)] ?st"
  show "?st = ?st" "?st' = ?st'" by (rule refl)+
  show "ms_observations ?st = []" "readWatermark ?st = 2" "ms_observations ?st' = []" by code_simp+
  show "map or_id (ms_observations (RecordMeshTick [ex_reception ''n3'' ''n4'' (101 * hour)] [] ?st)) = [1]" by code_simp
  show "MeshLinks 0 (RecordMeshTick [ex_reception ''n3'' ''n4'' (101 * hour)] [] ?st) = MeshLinks 0 ?st"
    "MeshLinks 0 ?st' = MeshLinks 0 ?st" by code_simp+
qed

section \<open>The telemetry archive\<close>

definition maxTelemetryRows :: nat where "maxTelemetryRows = 20000"

definition unixTimeOrNil :: "time \<Rightarrow> int option" where
  "unixTimeOrNil t = (if isZero t then None else Some (unix t))"

definition telemetry_row_of :: "telemetry_sample \<Rightarrow> telemetry_row" where
  "telemetry_row_of s = \<lparr>tm_pubkey = ts_pubKey s, tm_reported = unix (ts_reportedAt s),
     tm_received = unix (ts_receivedAt s), tm_reporter = ts_reporter s,
     tm_lastSuccess = unixTimeOrNil (ts_lastSuccessAt s), tm_lastAttempt = unixTimeOrNil (ts_lastAttemptAt s),
     tm_gauges = ts_gauges s, tm_pctSource = ts_pctSource s, tm_counters = ts_counters s\<rparr>"

text \<open>The reporter's row before a time, and whether the sample repeats its reading.\<close>

definition previous_row :: "string \<Rightarrow> string \<Rightarrow> int \<Rightarrow> telemetry_row list \<Rightarrow> telemetry_row option" where
  "previous_row pk rep before t =
     (let rs = sort_key tm_reported (filter (\<lambda>r. tm_pubkey r = pk \<and> tm_reporter r = rep \<and> tm_reported r < before) t)
      in if rs = [] then None else Some (last rs))"

definition repeated_read :: "telemetry_sample \<Rightarrow> telemetry_row list \<Rightarrow> bool" where
  "repeated_read s t \<longleftrightarrow> \<not> isZero (ts_lastSuccessAt s) \<and>
     (case previous_row (ts_pubKey s) (ts_reporter s) (unix (ts_reportedAt s)) t of
        None \<Rightarrow> False
      | Some r \<Rightarrow> tm_lastSuccess r = Some (unix (ts_lastSuccessAt s)))"

definition insert_telemetry :: "telemetry_sample \<Rightarrow> telemetry_row list \<Rightarrow> telemetry_row list" where
  "insert_telemetry s t =
     (if ts_pubKey s = [] \<or> isZero (ts_reportedAt s) then t
      else if repeated_read s t then t
      else if list_ex (\<lambda>r. tm_pubkey r = ts_pubKey s \<and> tm_reported r = unix (ts_reportedAt s)) t then t
      else t @ [telemetry_row_of s])"

definition InsertMeshTelemetry :: "telemetry_sample list \<Rightarrow> mesh_store \<Rightarrow> mesh_store" where
  "InsertMeshTelemetry samples st =
     (if samples = [] then st else st\<lparr>ms_telemetry := fold insert_telemetry samples (ms_telemetry st)\<rparr>)"

definition sample_of_row :: "telemetry_row \<Rightarrow> telemetry_sample" where
  "sample_of_row r = \<lparr>ts_pubKey = tm_pubkey r, ts_reportedAt = fromUnix (tm_reported r),
     ts_receivedAt = fromUnix (tm_received r), ts_reporter = tm_reporter r,
     ts_lastSuccessAt = (case tm_lastSuccess r of Some u \<Rightarrow> fromUnix u | None \<Rightarrow> zeroTime),
     ts_lastAttemptAt = (case tm_lastAttempt r of Some u \<Rightarrow> fromUnix u | None \<Rightarrow> zeroTime),
     ts_gauges = tm_gauges r, ts_pctSource = tm_pctSource r, ts_counters = tm_counters r\<rparr>"

definition MeshTelemetry :: "string \<Rightarrow> time \<Rightarrow> time \<Rightarrow> mesh_store \<Rightarrow> telemetry_sample list \<times> bool" where
  "MeshTelemetry pk from to st =
     (let out = map sample_of_row (take (maxTelemetryRows + 1) (sort_key tm_reported
            (filter (\<lambda>r. tm_pubkey r = pk \<and> unix from \<le> tm_reported r \<and> tm_reported r < unix to) (ms_telemetry st))))
      in if length out > maxTelemetryRows then (take maxTelemetryRows out, True) else (out, False))"

definition MeshTelemetryCoverage :: "string \<Rightarrow> mesh_store \<Rightarrow> time \<times> time \<times> nat" where
  "MeshTelemetryCoverage pk st =
     (let ts = map tm_reported (filter (\<lambda>r. tm_pubkey r = pk) (ms_telemetry st)) in
      if ts = [] then (zeroTime, zeroTime, 0)
      else (fromUnix (Min (set ts)), fromUnix (Max (set ts)), length ts))"

definition PruneMeshTelemetry :: "time \<Rightarrow> mesh_store \<Rightarrow> nat \<times> mesh_store" where
  "PruneMeshTelemetry cutoff st =
     (length (filter (\<lambda>r. tm_reported r < unix cutoff) (ms_telemetry st)),
      st\<lparr>ms_telemetry := filter (\<lambda>r. \<not> tm_reported r < unix cutoff) (ms_telemetry st)\<rparr>)"

text \<open>\<open>UPDATE OR IGNORE\<close> row by row, then the \<open>DELETE\<close> of what is left under the old key.\<close>

fun rename_rows :: "string \<Rightarrow> string \<Rightarrow> telemetry_row list \<Rightarrow> telemetry_row list \<Rightarrow> nat \<times> telemetry_row list" where
  "rename_rows from to done [] = (0, done)"
| "rename_rows from to done (r # rs) =
     (if tm_pubkey r \<noteq> from then rename_rows from to (done @ [r]) rs
      else if list_ex (\<lambda>q. tm_pubkey q = to \<and> tm_reported q = tm_reported r) (done @ rs)
      then rename_rows from to (done @ [r]) rs
      else (let (n, t) = rename_rows from to (done @ [r\<lparr>tm_pubkey := to\<rparr>]) rs in (n + 1, t)))"

definition RenameMeshTelemetryPubKey :: "string \<Rightarrow> string \<Rightarrow> mesh_store \<Rightarrow> nat \<times> mesh_store" where
  "RenameMeshTelemetryPubKey from to st =
     (if from = [] \<or> to = [] \<or> from = to then (0, st)
      else (let (n, t) = rename_rows from to [] (ms_telemetry st)
            in (n, st\<lparr>ms_telemetry := filter (\<lambda>r. tm_pubkey r \<noteq> from) t\<rparr>)))"

abbreviation instants :: "string \<Rightarrow> telemetry_row list \<Rightarrow> int set" where
  "instants pk t \<equiv> tm_reported ` {r \<in> set t. tm_pubkey r = pk}"

lemma insert_telemetry_other:
  assumes "ts_pubKey s \<noteq> pk"
  shows "filter (\<lambda>r. tm_pubkey r = pk) (insert_telemetry s t) = filter (\<lambda>r. tm_pubkey r = pk) t"
  using assms by (simp add: insert_telemetry_def telemetry_row_of_def)

text \<open>What an insert does depends on the node's own rows only.\<close>

lemma insert_telemetry_own:
  assumes "filter (\<lambda>r. tm_pubkey r = ts_pubKey s) t = filter (\<lambda>r. tm_pubkey r = ts_pubKey s) u"
  shows "insert_telemetry s t = t \<longleftrightarrow> insert_telemetry s u = u"
proof -
  have "filter (\<lambda>r. tm_pubkey r = ts_pubKey s \<and> P r) t = filter (\<lambda>r. tm_pubkey r = ts_pubKey s \<and> P r) u" for P
    using arg_cong [OF assms, of "filter P"] by (simp add: conj_commute)
  then have "repeated_read s t = repeated_read s u"
    by (simp add: repeated_read_def previous_row_def)
  moreover have "list_ex (\<lambda>r. tm_pubkey r = ts_pubKey s \<and> P r) t = list_ex (\<lambda>r. tm_pubkey r = ts_pubKey s \<and> P r) u" for P
    using arg_cong [OF assms, of set] by (auto simp: list_ex_iff set_eq_iff)
  ultimately show ?thesis by (simp add: insert_telemetry_def)
qed

lemma insert_telemetry_again: "insert_telemetry s (insert_telemetry s t) = insert_telemetry s t"
proof (cases "insert_telemetry s t = t")
  case False
  then have i: "insert_telemetry s t = t @ [telemetry_row_of s]"
    by (auto simp: insert_telemetry_def split: if_splits)
  show ?thesis unfolding i by (simp add: insert_telemetry_def telemetry_row_of_def)
qed simp

lemma insert_telemetry_settled:
  assumes "ts_pubKey s \<notin> ts_pubKey ` set ss" and "insert_telemetry s t = t"
  shows "insert_telemetry s (fold insert_telemetry ss t) = fold insert_telemetry ss t"
  using assms
proof (induction ss arbitrary: t)
  case (Cons x ss)
  have "filter (\<lambda>r. tm_pubkey r = ts_pubKey s) (insert_telemetry x t) = filter (\<lambda>r. tm_pubkey r = ts_pubKey s) t"
    by (rule insert_telemetry_other) (use Cons.prems(1) in auto)
  then have "insert_telemetry s (insert_telemetry x t) = insert_telemetry x t"
    using insert_telemetry_own Cons.prems(2) by blast
  with Cons show ?case by simp
qed simp

text \<open>
  A poller re-offers the same samples every tick; offering a batch again, one sample per
  node, changes nothing, and no offer ever changes or drops a row that is already there.
\<close>

theorem telemetry_reoffer:
  assumes "distinct (map ts_pubKey samples)"
  shows "InsertMeshTelemetry samples (InsertMeshTelemetry samples st) = InsertMeshTelemetry samples st \<and>
    (\<exists>added. ms_telemetry (InsertMeshTelemetry samples st) = ms_telemetry st @ added)"
proof -
  have "fold insert_telemetry ss (fold insert_telemetry ss t) = fold insert_telemetry ss t"
    if "distinct (map ts_pubKey ss)" for ss t
  proof -
    have "insert_telemetry s (fold insert_telemetry ss t) = fold insert_telemetry ss t"
      if s: "s \<in> set ss" "distinct (map ts_pubKey ss)" for s
      using s
    proof (induction ss arbitrary: t)
      case (Cons x ss)
      show ?case
      proof (cases "s = x")
        case True
        then show ?thesis
          using insert_telemetry_settled [of x ss "insert_telemetry x t"] insert_telemetry_again [of x t] Cons.prems(2)
          by simp
      next
        case False
        then show ?thesis using Cons by simp
      qed
    qed simp
    then have "fold insert_telemetry qs (fold insert_telemetry ss t) = fold insert_telemetry ss t" if "set qs \<subseteq> set ss" for qs
      using that \<open>distinct (map ts_pubKey ss)\<close> by (induction qs) auto
    then show ?thesis by simp
  qed
  moreover have "\<exists>added. fold insert_telemetry ss t = t @ added" for ss t
  proof (induction ss arbitrary: t)
    case (Cons x ss)
    have "\<exists>a. insert_telemetry x t = t @ a" by (simp add: insert_telemetry_def)
    then show ?case using Cons.IH [of "insert_telemetry x t"] by auto
  qed simp
  ultimately show ?thesis using assms by (simp add: InsertMeshTelemetry_def)
qed

definition ex_sample :: "string \<Rightarrow> time \<Rightarrow> telemetry_sample" where
  "ex_sample pk t = \<lparr>ts_pubKey = pk, ts_reportedAt = t, ts_receivedAt = t, ts_reporter = ''m'', ts_lastSuccessAt = 5 * second,
     ts_lastAttemptAt = t, ts_gauges = [Some 4], ts_pctSource = [], ts_counters = [0]\<rparr>"

theorem telemetry_reoffer_witness:
  "length (ms_telemetry (InsertMeshTelemetry [ex_sample ''n1'' (60 * second), ex_sample ''n2'' (60 * second)]
     (InsertMeshTelemetry [ex_sample ''n1'' (60 * second), ex_sample ''n2'' (60 * second)] newMeshStore))) = 2"
proof -
  let ?b = "[ex_sample ''n1'' (60 * second), ex_sample ''n2'' (60 * second)]"
  have "distinct (map ts_pubKey ?b)" by code_simp
  from telemetry_reoffer [OF this, of newMeshStore]
  have "InsertMeshTelemetry ?b (InsertMeshTelemetry ?b newMeshStore) = InsertMeshTelemetry ?b newMeshStore" by blast
  moreover have "length (ms_telemetry (InsertMeshTelemetry ?b newMeshStore)) = 2" by code_simp
  ultimately show ?thesis by simp
qed

text \<open>A tick never moves an activity clock back.\<close>

lemma upsert_activity_mono:
  assumes "tbl_get ma_pubkey pk t = Some r"
  shows "\<exists>r'. tbl_get ma_pubkey pk (upsert_activity a t) = Some r' \<and> ma_heard r \<le> ma_heard r' \<and> ma_relayed r \<le> ma_relayed r'"
  using assms by (auto simp: upsert_activity_def Let_def split: option.splits)

lemma activity_never_back:
  assumes "tbl_get ma_pubkey pk (ms_activity st) = Some r"
  shows "\<exists>r'. tbl_get ma_pubkey pk (ms_activity (RecordMeshTick obs act st)) = Some r' \<and>
    ma_heard r \<le> ma_heard r' \<and> ma_relayed r \<le> ma_relayed r'"
proof -
  have "\<exists>r'. tbl_get ma_pubkey pk (fold upsert_activity as t) = Some r' \<and> ma_heard r \<le> ma_heard r' \<and> ma_relayed r \<le> ma_relayed r'"
    if "tbl_get ma_pubkey pk t = Some r" for as t r
    using that
  proof (induction as arbitrary: t r)
    case (Cons a as)
    obtain q where q: "tbl_get ma_pubkey pk (upsert_activity a t) = Some q" "ma_heard r \<le> ma_heard q" "ma_relayed r \<le> ma_relayed q"
      using upsert_activity_mono [OF Cons.prems] by blast
    from Cons.IH [OF q(1)] q(2,3) show ?case by force
  qed auto
  from this [OF assms, of act] have "\<exists>r'. tbl_get ma_pubkey pk (ms_activity (upsertMeshActivity act (insertMeshObservations obs st))) = Some r' \<and>
      ma_heard r \<le> ma_heard r' \<and> ma_relayed r \<le> ma_relayed r'"
    by (simp add: upsertMeshActivity_def insertMeshObservations_def)
  then show ?thesis using assms by (auto simp: RecordMeshTick_def Let_def)
qed

end
