(* ===== verification/Scheduler.thy ===== *)
theory Scheduler
  imports Sources Places MeshStore
begin

text \<open>
  The ingest scheduler of \<open>internal/ingest/scheduler.go\<close>: one poller's tick, from the poll to the
  disappearance sweep and the source health, over the event store and the mesh tables. A
  normalizer's \<open>Poll\<close> and the enhancer are parameters. \<open>te_fails\<close> says which calls of
  the store return an error (their transaction is rolled back), \<open>te_clock\<close> what the clock reads
  inside each call and \<open>te_now\<close> the tick's own \<open>now\<close>. Ticks of different pollers are taken
  one after the other. Logging and timing are left out.
\<close>

section \<open>Configuration and results\<close>

record source_tuning =
  tu_pollInterval :: duration
  tu_staleAfter :: duration
  tu_expireAfter :: duration
  tu_disappearance :: string

record nws_enhancement =
  ne_summary :: string
  ne_request :: string
  ne_response :: string

record mesh_maintenance =
  mm_observationRetention :: duration
  mm_rollupRetention :: duration
  mm_telemetryRetention :: duration

text \<open>The enhancer takes the position of the event in the poll first, so two calls may answer differently.\<close>

type_synonym enhancer = "nat \<Rightarrow> string \<Rightarrow> string \<Rightarrow> string list \<Rightarrow> nws_enhancement result"

record scheduler =
  sx_tuning :: "string \<rightharpoonup> source_tuning"
  sx_enhancer :: "enhancer option"
  sx_enhancerModel :: string
  sx_budgetPerTick :: int
  sx_meshMaint :: mesh_maintenance

record poll_result =
  pr_events :: "event list"
  pr_perSource :: "string \<rightharpoonup> string"
  pr_sweepSuppress :: "string list"
  pr_superseded :: "string list"
  pr_observations :: "mesh_observation list"
  pr_activity :: "mesh_activity list"
  pr_activityUnwritten :: bool         \<comment> \<open>whether the callback is set\<close>
  pr_telemetry :: "telemetry_sample list"
  pr_renames :: "(string \<times> string) list"
  pr_forceWrite :: "string list"

datatype poll_outcome = PollPanic | PollError string | PollOK poll_result

record poller_state =
  ps_placesVersion :: "64 word"
  ps_reconciled :: bool

text \<open>What a tick acts on; the two counters count the calls of the enhancer and of the callback.\<close>

record ingest =
  ig_store :: store
  ig_mesh :: mesh_store
  ig_enhanceCalls :: nat
  ig_unwrittenCalls :: nat

datatype sweep_phase = Supersede | Sweep

datatype store_call = CPrior string | CHashes | CNeeds nat | CPlace nat string | CEnhance nat | CUpsert nat
  | CTouch | CMeshTick | CRename nat | CTelemetry | CActive sweep_phase string
  | CTransition sweep_phase string | CAttempt string

record tick_env =
  te_now :: time
  te_clock :: "store_call \<Rightarrow> time"
  te_fails :: "store_call \<Rightarrow> bool"

section \<open>Before the writes\<close>

record prior_events =
  pe_byID :: "string \<rightharpoonup> event"
  pe_bySource :: "string \<Rightarrow> event list"

definition load_source :: "tick_env \<Rightarrow> store \<Rightarrow> string \<Rightarrow> prior_events \<Rightarrow> prior_events" where
  "load_source env st src p =
     (if te_fails env (CPrior src) then p
      else fold (\<lambda>se p. p\<lparr>pe_byID := (pe_byID p)(e_id (se_event se) \<mapsto> se_event se),
                          pe_bySource := (pe_bySource p)(src := pe_bySource p src @ [se_event se])\<rparr>)
             (ActiveEventsBySource src st) p)"

definition loadPrior :: "tick_env \<Rightarrow> string list \<Rightarrow> store \<Rightarrow> prior_events" where
  "loadPrior env srcs st = fold (load_source env st) srcs \<lparr>pe_byID = Map.empty, pe_bySource = (\<lambda>_. [])\<rparr>"

definition storedHashes :: "tick_env \<Rightarrow> event list \<Rightarrow> store \<Rightarrow> (string \<rightharpoonup> string) option" where
  "storedHashes env evs st =
     (if evs = [] then Some Map.empty
      else if te_fails env CHashes then None
      else Some (ContentHashes (map e_id evs) st Map.empty))"

definition shouldUpsert :: "(event \<Rightarrow> string) \<Rightarrow> event \<Rightarrow> bool \<Rightarrow> (string \<rightharpoonup> string) option \<Rightarrow> string list \<Rightarrow> bool" where
  "shouldUpsert H ev fullReconcile stored forceWrite =
     (if fullReconcile \<or> e_enhancement ev \<noteq> None \<or> stored = None \<or> e_id ev \<in> set forceWrite then True
      else case the stored (e_id ev) of None \<Rightarrow> True | Some h \<Rightarrow> h \<noteq> ContentHash H ev)"

section \<open>Enhancement\<close>

definition placeNames :: "tick_env \<Rightarrow> nat \<Rightarrow> event \<Rightarrow> store \<Rightarrow> string list" where
  "placeNames env k ev st =
     List.map_filter (\<lambda>i. if te_fails env (CPlace k i) then None
        else case GetPlace i st of None \<Rightarrow> None | Some p \<Rightarrow> if pl_name p \<noteq> [] then Some (pl_name p) else None)
       (e_placeIds ev)"

text \<open>The event, the budget left and the number of calls made (0 or 1).\<close>

definition maybeEnhance :: "(event \<Rightarrow> string) \<Rightarrow> scheduler \<Rightarrow> tick_env \<Rightarrow> store \<Rightarrow> nat \<Rightarrow> event \<Rightarrow> int \<Rightarrow> event \<times> int \<times> nat" where
  "maybeEnhance H s env st k ev budget =
     (case sx_enhancer s of
        None \<Rightarrow> (ev, budget, 0)
      | Some enhance \<Rightarrow>
          if e_layer ev \<noteq> WEATHER_ALERT \<or> budget \<le> 0 then (ev, budget, 0)
          else if te_fails env (CNeeds k) then (ev, budget, 0)
          else if \<not> NeedsUpdate H ev st then (ev, budget, 0)
          else (case enhance k (e_headline ev) (e_description ev) (placeNames env k ev st) of
                  Inl _ \<Rightarrow> (ev, budget - 1, 1)
                | Inr enh \<Rightarrow>
                    (ev\<lparr>e_summary := ne_summary enh,
                        e_enhancement := Some \<lparr>en_model = sx_enhancerModel s, en_enhancedAt = te_clock env (CEnhance k),
                          en_fields = [''summary''], en_request = ne_request enh, en_response = ne_response enh\<rparr>\<rparr>,
                     budget - 1, 1)))"

section \<open>The write phase\<close>

definition touchSeenCoalesce :: duration where "touchSeenCoalesce = 10 * minute"

definition upsert_or_log :: "(event \<Rightarrow> string) \<Rightarrow> geolib \<Rightarrow> tick_env \<Rightarrow> nat \<Rightarrow> event \<Rightarrow> store \<Rightarrow> store" where
  "upsert_or_log H gl env k ev st =
     (if te_fails env (CUpsert k) then st
      else case UpsertEvent H gl ev (te_clock env (CUpsert k)) st of Inl _ \<Rightarrow> st | Inr (_, st') \<Rightarrow> st')"

definition write_event :: "(event \<Rightarrow> string) \<Rightarrow> geolib \<Rightarrow> scheduler \<Rightarrow> tick_env \<Rightarrow> bool \<Rightarrow> (string \<rightharpoonup> string) option \<Rightarrow>
    string list \<Rightarrow> nat \<times> event \<Rightarrow> ingest \<times> int \<Rightarrow> ingest \<times> int" where
  "write_event H gl s env fr stored force = (\<lambda>(k, ev) (ig, budget).
     let (ev, budget, calls) = maybeEnhance H s env (ig_store ig) k ev budget;
         ig = ig\<lparr>ig_enhanceCalls := ig_enhanceCalls ig + calls\<rparr>
     in if \<not> shouldUpsert H ev fr stored force then (ig, budget)
        else (ig\<lparr>ig_store := upsert_or_log H gl env k ev (ig_store ig)\<rparr>, budget))"

text \<open>The ids a clean fetch confirmed, and a source's polled ids.\<close>

definition polledIDs :: "poll_result \<Rightarrow> string list" where
  "polledIDs r = map e_id (filter (\<lambda>ev. pr_perSource r (source_id ev) = None) (pr_events r))"

definition polled_of :: "poll_result \<Rightarrow> string \<Rightarrow> string list" where
  "polled_of r src = map e_id (filter (\<lambda>ev. source_id ev = src) (pr_events r))"

definition touch_seen :: "tick_env \<Rightarrow> string list \<Rightarrow> ingest \<Rightarrow> ingest" where
  "touch_seen env ids ig =
     (if te_fails env CTouch then ig
      else ig\<lparr>ig_store := snd (TouchSeen ids (te_now env) (te_now env - touchSeenCoalesce) (ig_store ig))\<rparr>)"

definition flush_mesh :: "tick_env \<Rightarrow> poll_result \<Rightarrow> ingest \<Rightarrow> ingest" where
  "flush_mesh env r ig =
     (if pr_observations r = [] \<and> pr_activity r = [] then ig
      else if te_fails env CMeshTick
      then ig\<lparr>ig_unwrittenCalls := ig_unwrittenCalls ig + (if pr_activityUnwritten r then 1 else 0)\<rparr>
      else ig\<lparr>ig_mesh := RecordMeshTick (pr_observations r) (pr_activity r) (ig_mesh ig)\<rparr>)"

definition apply_rename :: "tick_env \<Rightarrow> nat \<times> (string \<times> string) \<Rightarrow> ingest \<Rightarrow> ingest" where
  "apply_rename env = (\<lambda>(k, (from, to)) ig.
     if te_fails env (CRename k) then ig
     else ig\<lparr>ig_mesh := snd (RenameMeshTelemetryPubKey from to (ig_mesh ig))\<rparr>)"

definition archive_telemetry :: "tick_env \<Rightarrow> poll_result \<Rightarrow> ingest \<Rightarrow> ingest" where
  "archive_telemetry env r ig =
     (if pr_telemetry r = [] \<or> te_fails env CTelemetry then ig
      else ig\<lparr>ig_mesh := InsertMeshTelemetry (pr_telemetry r) (ig_mesh ig)\<rparr>)"

section \<open>Disappearance\<close>

definition transition_or_log :: "(event \<Rightarrow> string) \<Rightarrow> tick_env \<Rightarrow> sweep_phase \<Rightarrow> string \<Rightarrow> string list \<Rightarrow> event_status \<Rightarrow> store \<Rightarrow> store" where
  "transition_or_log H env ph src ids to st =
     (if te_fails env (CTransition ph src) then st
      else case TransitionEvents H ids to (te_now env) (te_clock env (CTransition ph src)) st of
             Inl _ \<Rightarrow> st | Inr st' \<Rightarrow> st')"

definition supersede :: "(event \<Rightarrow> string) \<Rightarrow> tick_env \<Rightarrow> string list \<Rightarrow> string \<Rightarrow> store \<Rightarrow> store" where
  "supersede H env ids src st =
     (if ids = [] then st
      else if te_fails env (CActive Supersede src) then st
      else (let matched = filter (\<lambda>i. i \<in> set ids) (map (e_id \<circ> se_event) (ActiveEventsBySource src st)) in
            if matched = [] then st else transition_or_log H env Supersede src matched RESOLVED st))"

text \<open>A missing tuning entry reads as the zero value: the resolve policy.\<close>

definition tuning_of :: "scheduler \<Rightarrow> string \<Rightarrow> source_tuning" where
  "tuning_of s src = (case sx_tuning s src of Some t \<Rightarrow> t
     | None \<Rightarrow> \<lparr>tu_pollInterval = 0, tu_staleAfter = 0, tu_expireAfter = 0, tu_disappearance = []\<rparr>)"

definition last_confirmed :: "stored_event \<Rightarrow> time option" where
  "last_confirmed se =
     (case se_lastSeen se of
        Some t \<Rightarrow> Some t
      | None \<Rightarrow> (case e_observedAt (se_event se) of Some t \<Rightarrow> Some t | None \<Rightarrow> e_ingestedAt (se_event se)))"

definition shouldExpire :: "stored_event \<Rightarrow> duration \<Rightarrow> time \<Rightarrow> bool" where
  "shouldExpire se expireAfter now =
     (if (case e_expires (se_event se) of Some t \<Rightarrow> now > t | None \<Rightarrow> False) then True
      else if expireAfter \<le> 0 then False
      else case last_confirmed se of
             None \<Rightarrow> False
           | Some t \<Rightarrow> \<not> isZero t \<and> now - t > expireAfter)"

definition sweep_ids :: "source_tuning \<Rightarrow> time \<Rightarrow> stored_event list \<Rightarrow> string list" where
  "sweep_ids tu now disappeared =
     map (e_id \<circ> se_event)
       (if tu_disappearance tu = ''expire'' then filter (\<lambda>se. shouldExpire se (tu_expireAfter tu) now) disappeared
        else disappeared)"

definition sweepDisappeared :: "(event \<Rightarrow> string) \<Rightarrow> scheduler \<Rightarrow> tick_env \<Rightarrow> string list \<Rightarrow> string \<Rightarrow> store \<Rightarrow> store" where
  "sweepDisappeared H s env polled src st =
     (if te_fails env (CActive Sweep src) then st
      else (let disappeared = filter (\<lambda>se. e_id (se_event se) \<notin> set polled) (ActiveEventsBySource src st);
                tu = tuning_of s src; ids = sweep_ids tu (te_now env) disappeared in
            if disappeared = [] \<or> ids = [] then st
            else transition_or_log H env Sweep src ids (if tu_disappearance tu = ''expire'' then EXPIRED else RESOLVED) st))"

definition sweep_source :: "(event \<Rightarrow> string) \<Rightarrow> scheduler \<Rightarrow> tick_env \<Rightarrow> poll_result \<Rightarrow> string \<Rightarrow> store \<Rightarrow> store" where
  "sweep_source H s env r src st =
     (if pr_perSource r src \<noteq> None \<or> src \<in> set (pr_sweepSuppress r) then st
      else sweepDisappeared H s env (polled_of r src) src (supersede H env (pr_superseded r) src st))"

definition recordAttempt :: "tick_env \<Rightarrow> string \<Rightarrow> string option \<Rightarrow> store \<Rightarrow> store" where
  "recordAttempt env src err st =
     (if te_fails env (CAttempt src) then st
      else case RecordAttempt src err (te_clock env (CAttempt src)) st of Inl _ \<Rightarrow> st | Inr st' \<Rightarrow> st')"

section \<open>The tick\<close>

text \<open>The writes of a successful poll, phase by phase.\<close>

definition write_phase :: "(event \<Rightarrow> string) \<Rightarrow> geolib \<Rightarrow> scheduler \<Rightarrow> tick_env \<Rightarrow> poll_result \<Rightarrow> bool \<Rightarrow> ingest \<Rightarrow> ingest" where
  "write_phase H gl s env r fr ig =
     fst (fold (write_event H gl s env fr (storedHashes env (pr_events r) (ig_store ig)) (pr_forceWrite r))
            (List.enumerate 0 (pr_events r)) (ig, sx_budgetPerTick s))"

definition mesh_phase :: "tick_env \<Rightarrow> poll_result \<Rightarrow> ingest \<Rightarrow> ingest" where
  "mesh_phase env r ig =
     archive_telemetry env r (fold (apply_rename env) (List.enumerate 0 (pr_renames r)) (flush_mesh env r ig))"

definition sweep_phase :: "(event \<Rightarrow> string) \<Rightarrow> scheduler \<Rightarrow> tick_env \<Rightarrow> string list \<Rightarrow> poll_result \<Rightarrow> ingest \<Rightarrow> ingest" where
  "sweep_phase H s env srcs r ig = ig\<lparr>ig_store := fold (sweep_source H s env r) srcs (ig_store ig)\<rparr>"

definition attempt_phase :: "tick_env \<Rightarrow> string list \<Rightarrow> (string \<Rightarrow> string option) \<Rightarrow> ingest \<Rightarrow> ingest" where
  "attempt_phase env srcs errs ig =
     ig\<lparr>ig_store := fold (\<lambda>src. recordAttempt env src (errs src)) srcs (ig_store ig)\<rparr>"

text \<open>\<open>poll\<close> is the normalizer's \<open>Poll\<close> in this tick; a panic unwinds the tick up to \<open>safeTick\<close>.\<close>

definition safeTick :: "(event \<Rightarrow> string) \<Rightarrow> geolib \<Rightarrow> scheduler \<Rightarrow> tick_env \<Rightarrow> string list \<Rightarrow> (prior_events \<Rightarrow> poll_outcome) \<Rightarrow>
    ingest \<times> poller_state \<Rightarrow> ingest \<times> poller_state" where
  "safeTick H gl s env srcs poll = (\<lambda>(ig, ps).
     case poll (loadPrior env srcs (ig_store ig)) of
       PollPanic \<Rightarrow> (ig, ps)
     | PollError e \<Rightarrow> (attempt_phase env srcs (\<lambda>_. Some e) ig, ps)
     | PollOK r \<Rightarrow>
         (let version = PlacesVersion (ig_store ig);
              fr = (\<not> ps_reconciled ps \<or> version \<noteq> ps_placesVersion ps);
              ig1 = touch_seen env (polledIDs r) (write_phase H gl s env r fr ig);
              ig2 = sweep_phase H s env srcs r (mesh_phase env r ig1)
          in (attempt_phase env srcs (pr_perSource r) ig2, \<lparr>ps_placesVersion = version, ps_reconciled = True\<rparr>)))"

text \<open>
  \<open>run\<close>: what a poller's goroutine receives, in order. The first signal ends the start jitter: the
  timer (which ticks at once), or one of the two that end the poller.
\<close>

datatype run_signal = SigTick tick_env "prior_events \<Rightarrow> poll_outcome" | SigWake tick_env "prior_events \<Rightarrow> poll_outcome"
  | SigDone | SigStopping

fun run_poller :: "(event \<Rightarrow> string) \<Rightarrow> geolib \<Rightarrow> scheduler \<Rightarrow> string list \<Rightarrow> run_signal list \<Rightarrow> ingest \<times> poller_state \<Rightarrow> ingest \<times> poller_state" where
  "run_poller H gl s srcs [] x = x"
| "run_poller H gl s srcs (SigTick env poll # sigs) x = run_poller H gl s srcs sigs (safeTick H gl s env srcs poll x)"
| "run_poller H gl s srcs (SigWake env poll # sigs) x = run_poller H gl s srcs sigs (safeTick H gl s env srcs poll x)"
| "run_poller H gl s srcs (SigDone # sigs) x = x"
| "run_poller H gl s srcs (SigStopping # sigs) x = x"

definition newPoller :: poller_state where
  "newPoller = \<lparr>ps_placesVersion = 0, ps_reconciled = False\<rparr>"

section \<open>Maintenance\<close>

text \<open>One cycle; \<open>fails\<close> says which of its four steps return an error.\<close>

definition safeMeshMaintenance :: "scheduler \<Rightarrow> time \<Rightarrow> (nat \<Rightarrow> bool) \<Rightarrow> mesh_store \<Rightarrow> mesh_store" where
  "safeMeshMaintenance s now fails m =
     (let mm = sx_meshMaint s;
          m = (if fails 0 then m else snd (CompactMeshObservations m));
          m = (if fails 1 then m else snd (PruneMeshObservations (now - mm_observationRetention mm) m));
          m = (if fails 2 then m else snd (PruneMeshLinkRollup (now - mm_rollupRetention mm) m))
      in if fails 3 then m else snd (PruneMeshTelemetry (now - mm_telemetryRetention mm) m))"

end
