(* ===== verification/SchedulerProps.thy ===== *)
theory SchedulerProps
  imports Scheduler
begin

text \<open>
  What a tick guarantees. \<open>moves\<close> is the frame every write of a tick respects: the store's invariant
  survives, the history is append-only and grows by at most \<open>n\<close> revisions, and only the rows of the
  ids in \<open>X\<close> change. From it: a source that failed or could not prove absence loses no event, what
  the sweep does to the events of a source that answered, the grace an event that was just confirmed has,
  and that a hash-equal event the tick skips would not have been written anyway.
\<close>

section \<open>The frame of a write\<close>

definition moves :: "geolib \<Rightarrow> nat \<Rightarrow> nat \<Rightarrow> string set \<Rightarrow> store \<Rightarrow> store \<Rightarrow> bool" where
  "moves gl n k X st st' \<longleftrightarrow> store_ok gl st' \<and> prefix (st_revisions st) (st_revisions st') \<and>
     length (st_revisions st') \<le> length (st_revisions st) + n \<and>
     length (st_events st') \<le> length (st_events st) + k \<and>
     (\<forall>j. j \<notin> X \<longrightarrow> get_row st' j = get_row st j) \<and>
     (\<forall>j. get_row st j \<noteq> None \<longrightarrow> get_row st' j \<noteq> None)"

lemma moves_refl: "store_ok gl st \<Longrightarrow> moves gl n k X st st"
  by (simp add: moves_def)

lemma moves_trans:
  "moves gl n k X a b \<Longrightarrow> moves gl m l Y b c \<Longrightarrow> moves gl (n + m) (k + l) (X \<union> Y) a c"
  unfolding moves_def using prefix_order.order_trans by (auto; metis)

lemma moves_mono: "moves gl n k X a b \<Longrightarrow> n \<le> n' \<Longrightarrow> k \<le> k' \<Longrightarrow> X \<subseteq> X' \<Longrightarrow> moves gl n' k' X' a b"
  unfolding moves_def by auto

lemma moves_ok: "moves gl n k X a b \<Longrightarrow> store_ok gl b"
  by (simp add: moves_def)

lemma moves_frame: "moves gl n k X a b \<Longrightarrow> j \<notin> X \<Longrightarrow> get_row b j = get_row a j"
  by (simp add: moves_def)

lemma moves_roomy: "moves gl n k X a b \<Longrightarrow> roomy (n + m) a \<Longrightarrow> roomy m b"
  by (simp add: moves_def roomy_def)

lemma roomy_mono: "roomy n st \<Longrightarrow> m \<le> n \<Longrightarrow> roomy m st"
  by (simp add: roomy_def)

lemma length_put: "length (tbl_put key r t) \<le> length t + 1"
  by (induction t) auto

section \<open>Each write\<close>

text \<open>An upsert that returned, one that failed and one that was never made look the same from here.\<close>

lemma upsert_moves:
  assumes ok: "store_ok gl st" and "roomy 1 st"
  shows "moves gl 1 1 {e_id ev} st (upsert_or_log H gl env k ev st)"
proof -
  let ?now = "te_clock env (CUpsert k)"
  have rm: "room st" using assms(2) by (simp add: roomy_def room_def)
  consider (skip) "upsert_or_log H gl env k ev st = st"
    | (wrote) s res where "UpsertEvent H gl ev ?now st = Inr (res, s)" "upsert_or_log H gl env k ev st = s" "e_id ev \<noteq> []"
        "hash_equal H ev st \<or> source_id ev \<in> sr_id ` set (st_sources st)"
  proof (cases "te_fails env (CUpsert k) \<or> e_id ev = [] \<or> \<not> hash_equal H ev st \<and> source_id ev \<notin> sr_id ` set (st_sources st)")
    case True
    then have "upsert_or_log H gl env k ev st = st"
      using UpsertEvent_rejected [OF _ ok, of ev H ?now] by (auto simp: upsert_or_log_def)
    then show ?thesis by (rule skip)
  next
    case False
    show ?thesis
    proof (cases "UpsertEvent H gl ev ?now st")
      case (Inl e)
      then show ?thesis by (intro skip) (simp add: upsert_or_log_def)
    next
      case (Inr x)
      then show ?thesis using False by (cases x) (auto intro: wrote simp: upsert_or_log_def)
    qed
  qed
  then show ?thesis
  proof cases
    case skip
    with ok show ?thesis by (simp add: moves_refl)
  next
    case wrote
    show ?thesis
    proof (cases "hash_equal H ev st")
      case True
      then obtain old where old: "get_row st (e_id ev) = Some old" "er_hash old = ContentHash H ev"
        by (auto simp: hash_equal_def)
      from upsert_refreshed [OF ok wrote(3) old, of ?now] wrote(1)
      have s: "store_ok gl s" "st_revisions s = st_revisions st" "events_after gl ev st old s"
        "\<forall>j. get_row s j = (if j = e_id ev \<and> needs_refresh gl ev st old
           then Some (refresh_row (refresh_blob ev (wanted gl ev st) (er_proto old)) old) else get_row st j)"
        by auto
      have "length (st_events s) = length (st_events st)" using s(3) by (simp add: events_after_def)
      with s wrote(2) show ?thesis by (simp add: moves_def)
    next
      case False
      with wrote(4) have "source_id ev \<in> sr_id ` set (st_sources st)" by simp
      from upsert_written [OF ok rm wrote(3) this False refl, of ?now] wrote(1)
      have s: "store_ok gl s" "written (content_blob gl ev (next_rev st (e_id ev)) ?now st)
          (content_row (content_blob gl ev (next_rev st (e_id ev)) ?now st) (ContentHash H ev) (observed_or ev ?now) ?now
             (get_row st (e_id ev))) st s"
        by auto
      with wrote(2) length_put show ?thesis by (auto simp: moves_def written_def)
    qed
  qed
qed

lemma transition_moves:
  assumes "store_ok gl st" and "roomy (length ids) st"
  shows "moves gl (length ids) 0 (set ids) st (transition_or_log H env ph src ids to st)"
    and "\<not> te_fails env (CTransition ph src) \<Longrightarrow>
      get_row (transition_or_log H env ph src ids to st) j =
        (if j \<in> set ids then map_option (swept H to (te_now env) (te_clock env (CTransition ph src))) (get_row st j) else get_row st j)"
proof -
  obtain s a where s: "TransitionEvents H ids to (te_now env) (te_clock env (CTransition ph src)) st = Inr s" "store_ok gl s"
      "\<forall>j. get_row s j = (if j \<in> set ids then map_option (swept H to (te_now env) (te_clock env (CTransition ph src))) (get_row st j)
         else get_row st j)"
      "st_revisions s = st_revisions st @ a" "length a \<le> length ids"
    using transition_all [OF assms, of H to "te_now env" "te_clock env (CTransition ph src)"] by blast
  have keys: "er_id ` set (st_events s) = er_id ` set (st_events st)"
    using s(3) by (metis (no_types, lifting) map_option_is_None set_eqI tbl_get_None)
  have "distinct (map er_id (st_events s))" "distinct (map er_id (st_events st))"
    using s(2) assms(1) by (simp_all add: store_ok_def tbl_ok_def)
  then have "length (st_events s) = length (st_events st)"
    using keys by (metis distinct_card length_map list.set_map)
  with s assms(1) show "moves gl (length ids) 0 (set ids) st (transition_or_log H env ph src ids to st)"
    by (auto simp: moves_def transition_or_log_def)
  show "get_row (transition_or_log H env ph src ids to st) j =
      (if j \<in> set ids then map_option (swept H to (te_now env) (te_clock env (CTransition ph src))) (get_row st j) else get_row st j)"
    if "\<not> te_fails env (CTransition ph src)"
    using that s(1,3) by (simp add: transition_or_log_def)
qed

lemma touch_moves:
  assumes "store_ok gl (ig_store ig)"
  shows "moves gl 0 0 (set ids) (ig_store ig) (ig_store (touch_seen env ids ig))"
    and "ig_mesh (touch_seen env ids ig) = ig_mesh ig" "ig_enhanceCalls (touch_seen env ids ig) = ig_enhanceCalls ig"
proof -
  have "get_row (snd (TouchSeen ids t u st)) j = get_row st j" if "j \<notin> set ids" for t u j st
    using that tbl_get_Some [of er_id j "st_events st"] by (cases "get_row st j") (auto simp: touch_get touched_def)
  with assms show "moves gl 0 0 (set ids) (ig_store ig) (ig_store (touch_seen env ids ig))"
    by (simp add: touch_seen_def moves_def touch_ok touch_get) (simp add: TouchSeen_def)
  show "ig_mesh (touch_seen env ids ig) = ig_mesh ig" "ig_enhanceCalls (touch_seen env ids ig) = ig_enhanceCalls ig"
    by (simp_all add: touch_seen_def)
qed

lemma sources_ok:
  assumes "store_ok gl st" and "sr_id ` set t = sr_id ` set (st_sources st)"
  shows "store_ok gl (st\<lparr>st_sources := t\<rparr>)"
  using assms by (simp add: store_ok_def hist_ok_def revs_of_def mirror_ok_def have_places_def places_cached_def)

lemma attempt_shape:
  "\<exists>t. recordAttempt env src err st = st\<lparr>st_sources := t\<rparr> \<and> sr_id ` set t = sr_id ` set (st_sources st)"
proof (cases "te_fails env (CAttempt src) \<or> tbl_get sr_id src (st_sources st) = None")
  case True
  then show ?thesis by (intro exI [of _ "st_sources st"]) (auto simp: recordAttempt_def RecordAttempt_def)
next
  case False
  define f where "f = (\<lambda>r. if sr_id r = src then attempt_row (te_clock env (CAttempt src)) err r else r)"
  have "recordAttempt env src err st = st\<lparr>st_sources := map f (st_sources st)\<rparr>"
    using False by (auto simp: recordAttempt_def RecordAttempt_def f_def)
  moreover have "sr_id (f r) = sr_id r" for r by (simp add: f_def attempt_row_def split: option.split)
  then have "sr_id ` set (map f (st_sources st)) = sr_id ` set (st_sources st)" by (simp add: image_image)
  ultimately show ?thesis by blast
qed

lemma attempt_moves: "store_ok gl st \<Longrightarrow> moves gl 0 0 {} st (recordAttempt env src err st)"
  using attempt_shape [of env src err st] sources_ok by (auto simp: moves_def)

section \<open>The phases\<close>

lemma maybeEnhance_frame:
  assumes "maybeEnhance H s env st k ev budget = (ev', budget', calls)"
  shows "e_id ev' = e_id ev" "source_id ev' = source_id ev" "ContentHash H ev' = ContentHash H ev"
    "budget' = budget - int calls" "0 \<le> budget \<Longrightarrow> 0 \<le> budget'" "budget \<le> 0 \<Longrightarrow> calls = 0"
  using assms by (auto simp: maybeEnhance_def ContentHash_def source_id_def zeroed_def split: option.splits if_splits sum.splits)

lemma write_events_moves:
  assumes "store_ok gl (ig_store ig)" and "roomy (length evs) (ig_store ig)"
    and "fold (write_event H gl s env fr stored force) (List.enumerate m evs) (ig, budget) = (ig', budget')"
  shows "moves gl (length evs) (length evs) (e_id ` set evs) (ig_store ig) (ig_store ig') \<and> ig_mesh ig' = ig_mesh ig \<and>
    int (ig_enhanceCalls ig') = int (ig_enhanceCalls ig) + (budget - budget') \<and> (0 \<le> budget \<longrightarrow> 0 \<le> budget') \<and>
    (budget \<le> 0 \<longrightarrow> budget' = budget)"
  using assms
proof (induction evs arbitrary: m ig budget)
  case Nil
  then show ?case by (simp add: moves_refl)
next
  case (Cons ev evs)
  obtain ev1 b1 c where me: "maybeEnhance H s env (ig_store ig) m ev budget = (ev1, b1, c)" by (metis prod_cases3)
  note mf = maybeEnhance_frame [OF me]
  define ig1 where "ig1 = fst (write_event H gl s env fr stored force (m, ev) (ig, budget))"
  have step: "write_event H gl s env fr stored force (m, ev) (ig, budget) = (ig1, b1)"
    by (simp add: ig1_def write_event_def me Let_def)
  have rm: "roomy 1 (ig_store ig)" using Cons.prems(2) by (rule roomy_mono) simp
  have mv: "moves gl 1 1 {e_id ev} (ig_store ig) (ig_store ig1)"
    using upsert_moves [OF Cons.prems(1) rm, of ev1 H env m] Cons.prems(1) mf(1)
    by (simp add: ig1_def write_event_def me Let_def moves_refl)
  have fr: "ig_mesh ig1 = ig_mesh ig" "ig_enhanceCalls ig1 = ig_enhanceCalls ig + c"
    by (simp_all add: ig1_def write_event_def me Let_def)
  have rest: "fold (write_event H gl s env fr stored force) (List.enumerate (Suc m) evs) (ig1, b1) = (ig', budget')"
    using Cons.prems(3) step by simp
  have rm1: "roomy (length evs) (ig_store ig1)" using moves_roomy [OF mv] Cons.prems(2) by simp
  note ih = Cons.IH [OF moves_ok [OF mv] rm1 rest]
  have "moves gl (1 + length evs) (1 + length evs) ({e_id ev} \<union> e_id ` set evs) (ig_store ig) (ig_store ig')"
    using moves_trans [OF mv] ih by blast
  then show ?case using ih fr mf(4-6) by auto
qed

lemma mesh_phase_store [simp]:
  "ig_store (mesh_phase env r ig) = ig_store ig" "ig_enhanceCalls (mesh_phase env r ig) = ig_enhanceCalls ig"
proof -
  have f: "ig_store (fold (apply_rename env) xs i) = ig_store i \<and> ig_enhanceCalls (fold (apply_rename env) xs i) = ig_enhanceCalls i" for xs i
    by (induction xs arbitrary: i) (auto simp: apply_rename_def)
  show "ig_store (mesh_phase env r ig) = ig_store ig" "ig_enhanceCalls (mesh_phase env r ig) = ig_enhanceCalls ig"
    by (simp_all add: mesh_phase_def archive_telemetry_def flush_mesh_def f)
qed

section \<open>Sweeps\<close>

definition stored_of :: "event_row \<Rightarrow> stored_event" where
  "stored_of r = \<lparr>se_event = er_proto r, se_lastSeen = (if er_lastSeen r > 0 then Some (fromUnix (er_lastSeen r)) else None)\<rparr>"

text \<open>The rows of a source the sweeps may touch.\<close>

definition live_ids :: "string \<Rightarrow> store \<Rightarrow> string set" where
  "live_ids src st = {i. \<exists>r. get_row st i = Some r \<and> er_source r = src \<and> is_live (er_status r)}"

lemma active_stored: "ActiveEventsBySource src st =
    map stored_of (sort_key er_id (filter (\<lambda>r. er_source r = src \<and> is_live (er_status r)) (st_events st)))"
  by (simp add: ActiveEventsBySource_def stored_of_def)

lemma active_ids:
  assumes "store_ok gl st"
  shows "(e_id \<circ> se_event) ` {se \<in> set (ActiveEventsBySource src st). P se} =
    {i. \<exists>r. get_row st i = Some r \<and> er_source r = src \<and> is_live (er_status r) \<and> P (stored_of r)}"
proof -
  have t: "tbl_ok er_id (st_events st)" using assms by (simp add: store_ok_def)
  have id: "e_id (er_proto r) = er_id r" if "r \<in> set (st_events st)" for r
    using assms that by (auto simp: store_ok_def row_ok_def)
  show ?thesis
  proof (intro set_eqI iffI)
    fix i assume "i \<in> (e_id \<circ> se_event) ` {se \<in> set (ActiveEventsBySource src st). P se}"
    then obtain r where r: "r \<in> set (st_events st)" "er_source r = src" "is_live (er_status r)" "P (stored_of r)" "i = er_id r"
      using id by (auto simp: active_stored stored_of_def)
    then have "get_row st i = Some r" by (simp add: tbl_get_mem [OF t])
    with r show "i \<in> {i. \<exists>r. get_row st i = Some r \<and> er_source r = src \<and> is_live (er_status r) \<and> P (stored_of r)}" by blast
  next
    fix i assume "i \<in> {i. \<exists>r. get_row st i = Some r \<and> er_source r = src \<and> is_live (er_status r) \<and> P (stored_of r)}"
    then obtain r where r: "get_row st i = Some r" "er_source r = src" "is_live (er_status r)" "P (stored_of r)" by blast
    then have mem: "r \<in> set (st_events st)" "er_id r = i" by (auto dest: tbl_get_Some)
    then have "stored_of r \<in> {se \<in> set (ActiveEventsBySource src st). P se}" "(e_id \<circ> se_event) (stored_of r) = i"
      using r id by (auto simp: active_stored stored_of_def)
    then show "i \<in> (e_id \<circ> se_event) ` {se \<in> set (ActiveEventsBySource src st). P se}" by blast
  qed
qed

lemma active_length: "length (filter P (ActiveEventsBySource src st)) \<le> length (st_events st)"
  by (simp add: active_stored) (metis (no_types, lifting) length_filter_le length_map length_sort order_trans)

text \<open>A transition of the events of a source that satisfy a predicate.\<close>

lemma selected_transition:
  assumes "store_ok gl st" and "roomy (length (st_events st)) st"
    and ids: "ids = map (e_id \<circ> se_event) (filter P (ActiveEventsBySource src st))"
  shows "moves gl (length (st_events st)) 0 (live_ids src st) st (if ids = [] then st else transition_or_log H env ph src ids to st)"
    and "\<not> te_fails env (CTransition ph src) \<Longrightarrow> get_row st j = Some r \<Longrightarrow>
      get_row (if ids = [] then st else transition_or_log H env ph src ids to st) j =
        Some (if er_source r = src \<and> is_live (er_status r) \<and> P (stored_of r)
              then swept H to (te_now env) (te_clock env (CTransition ph src)) r else r)"
proof -
  have S: "set ids = {i. \<exists>r. get_row st i = Some r \<and> er_source r = src \<and> is_live (er_status r) \<and> P (stored_of r)}"
    using active_ids [OF assms(1), of src P] by (simp add: ids)
  have l: "length ids \<le> length (st_events st)" using active_length by (simp add: ids)
  have rm: "roomy (length ids) st" using assms(2) l by (rule roomy_mono)
  have sub: "set ids \<subseteq> live_ids src st" by (auto simp: S live_ids_def)
  show "moves gl (length (st_events st)) 0 (live_ids src st) st (if ids = [] then st else transition_or_log H env ph src ids to st)"
    using moves_mono [OF transition_moves(1) [OF assms(1) rm] l _ sub] moves_refl [OF assms(1)] by simp
  show "get_row (if ids = [] then st else transition_or_log H env ph src ids to st) j =
      Some (if er_source r = src \<and> is_live (er_status r) \<and> P (stored_of r)
            then swept H to (te_now env) (te_clock env (CTransition ph src)) r else r)"
    if nf: "\<not> te_fails env (CTransition ph src)" and g: "get_row st j = Some r"
  proof -
    have "j \<in> set ids \<longleftrightarrow> er_source r = src \<and> is_live (er_status r) \<and> P (stored_of r)" using g by (simp add: S)
    then show ?thesis
      using transition_moves(2) [OF assms(1) rm nf] g by (cases "ids = []") auto
  qed
qed

lemma supersede_selected:
  "supersede H env ids src st =
     (if ids = [] \<or> te_fails env (CActive Supersede src) then st
      else let sel = map (e_id \<circ> se_event) (filter (\<lambda>se. e_id (se_event se) \<in> set ids) (ActiveEventsBySource src st))
           in if sel = [] then st else transition_or_log H env Supersede src sel RESOLVED st)"
  by (simp add: supersede_def filter_map comp_def Let_def)

definition departs :: "source_tuning \<Rightarrow> time \<Rightarrow> string list \<Rightarrow> stored_event \<Rightarrow> bool" where
  "departs tu now polled se \<longleftrightarrow> e_id (se_event se) \<notin> set polled \<and>
     (tu_disappearance tu = ''expire'' \<longrightarrow> shouldExpire se (tu_expireAfter tu) now)"

definition gone_status :: "source_tuning \<Rightarrow> event_status" where
  "gone_status tu = (if tu_disappearance tu = ''expire'' then EXPIRED else RESOLVED)"

lemma sweep_selected:
  "sweepDisappeared H s env polled src st =
     (if te_fails env (CActive Sweep src) then st
      else let sel = map (e_id \<circ> se_event) (filter (departs (tuning_of s src) (te_now env) polled) (ActiveEventsBySource src st))
           in if sel = [] then st else transition_or_log H env Sweep src sel (gone_status (tuning_of s src)) st)"
proof -
  have "sweep_ids tu now (filter (\<lambda>se. e_id (se_event se) \<notin> set polled) xs) = map (e_id \<circ> se_event) (filter (departs tu now polled) xs)"
    for tu now xs
    by (auto simp: sweep_ids_def departs_def intro!: arg_cong [where f = "map _"] filter_cong)
  note sel = this
  show ?thesis
  proof (cases "filter (\<lambda>se. e_id (se_event se) \<notin> set polled) (ActiveEventsBySource src st) = []")
    case True
    then have "filter (departs (tuning_of s src) (te_now env) polled) (ActiveEventsBySource src st) = []"
      by (simp add: filter_empty_conv departs_def)
    with True show ?thesis by (simp add: sweepDisappeared_def)
  next
    case False
    then show ?thesis by (simp add: sweepDisappeared_def Let_def gone_status_def sel)
  qed
qed

text \<open>The sources of a poll that prove nothing about what is missing.\<close>

definition silent :: "poll_result \<Rightarrow> string \<Rightarrow> bool" where
  "silent r src \<longleftrightarrow> pr_perSource r src \<noteq> None \<or> src \<in> set (pr_sweepSuppress r)"

lemma sweep_source_moves:
  assumes "store_ok gl st" and "roomy (2 * length (st_events st)) st"
  shows "moves gl (2 * length (st_events st)) 0 (if silent r src then {} else live_ids src st) st (sweep_source H s env r src st)"
proof (cases "silent r src")
  case True
  then show ?thesis using assms(1) by (simp add: sweep_source_def silent_def moves_refl)
next
  case False
  let ?n = "length (st_events st)"
  define st1 where "st1 = supersede H env (pr_superseded r) src st"
  have rm: "roomy ?n st" using assms(2) by (rule roomy_mono) simp
  have m1: "moves gl ?n 0 (live_ids src st) st st1"
    using selected_transition(1) [OF assms(1) rm refl, where src = src and H = H and env = env and ph = Supersede and to = RESOLVED] moves_refl [OF assms(1)]
    by (simp add: st1_def supersede_selected Let_def)
  have ok1: "store_ok gl st1" by (rule moves_ok [OF m1])
  have len1: "length (st_events st1) \<le> ?n" using m1 by (simp add: moves_def)
  have "roomy ?n st1" by (rule moves_roomy [OF m1]) (use assms(2) in \<open>simp add: mult_2\<close>)
  then have rm1: "roomy (length (st_events st1)) st1" using len1 by (rule roomy_mono)
  have sub: "live_ids src st1 \<subseteq> live_ids src st"
    using moves_frame [OF m1] by (auto simp: live_ids_def) (metis (mono_tags, lifting) live_ids_def mem_Collect_eq)
  have m2: "moves gl (length (st_events st1)) 0 (live_ids src st1) st1 (sweepDisappeared H s env (polled_of r src) src st1)"
    using selected_transition(1) [OF ok1 rm1 refl, where src = src and H = H and env = env and ph = Sweep and to = "gone_status (tuning_of s src)"] moves_refl [OF ok1]
    by (simp add: sweep_selected Let_def)
  have "moves gl (2 * ?n) 0 (live_ids src st) st (sweepDisappeared H s env (polled_of r src) src st1)"
    by (rule moves_mono [OF moves_trans [OF m1 m2]]) (use len1 sub in auto)
  with False show ?thesis by (simp add: sweep_source_def silent_def st1_def)
qed

lemma sweep_fold_moves:
  assumes "store_ok gl st" and "length (st_events st) \<le> n" and "roomy (length srcs * (2 * n)) st"
  shows "moves gl (length srcs * (2 * n)) 0 UNIV st (fold (sweep_source H s env r) srcs st) \<and>
    (\<forall>i row. get_row st i = Some row \<longrightarrow> silent r (er_source row) \<or> er_source row \<notin> set srcs \<longrightarrow>
       get_row (fold (sweep_source H s env r) srcs st) i = Some row)"
  using assms
proof (induction srcs arbitrary: st)
  case Nil
  then show ?case by (simp add: moves_refl)
next
  case (Cons src srcs)
  define st1 where "st1 = sweep_source H s env r src st"
  have "roomy (2 * length (st_events st)) st" using Cons.prems(3) by (rule roomy_mono) (use Cons.prems(2) in simp)
  then have m: "moves gl (2 * length (st_events st)) 0 (if silent r src then {} else live_ids src st) st st1"
    unfolding st1_def by (rule sweep_source_moves [OF Cons.prems(1)])
  have m': "moves gl (2 * n) 0 UNIV st st1" by (rule moves_mono [OF m]) (use Cons.prems(2) in simp_all)
  have n1: "length (st_events st1) \<le> n" using m Cons.prems(2) by (simp add: moves_def)
  have "roomy (length srcs * (2 * n)) st1" by (rule moves_roomy [OF m']) (use Cons.prems(3) in \<open>simp add: algebra_simps\<close>)
  note ih = Cons.IH [OF moves_ok [OF m] n1 this]
  have "get_row st1 i = Some row" if "get_row st i = Some row" "silent r (er_source row) \<or> er_source row \<notin> set (src # srcs)" for i row
  proof -
    have "i \<notin> (if silent r src then {} else live_ids src st)" using that by (auto simp: live_ids_def)
    with that(1) show ?thesis using moves_frame [OF m] by simp
  qed
  then have "\<forall>i row. get_row st i = Some row \<longrightarrow> silent r (er_source row) \<or> er_source row \<notin> set (src # srcs) \<longrightarrow>
      get_row (fold (sweep_source H s env r) (src # srcs) st) i = Some row"
    using ih unfolding st1_def by auto
  moreover have "moves gl (length (src # srcs) * (2 * n)) 0 UNIV st (fold (sweep_source H s env r) (src # srcs) st)"
    using moves_mono [OF moves_trans [OF m' conjunct1 [OF ih]], where n' = "length (src # srcs) * (2 * n)" and k' = 0 and X' = UNIV]
    by (simp add: st1_def)
  ultimately show ?case by blast
qed

lemma attempt_fold_events:
  "\<exists>t. fold (\<lambda>src. recordAttempt env src (errs src)) srcs st = st\<lparr>st_sources := t\<rparr>"
proof (induction srcs arbitrary: st)
  case Nil
  show ?case by (intro exI [of _ "st_sources st"]) simp
next
  case (Cons src srcs)
  obtain t where "recordAttempt env src (errs src) st = st\<lparr>st_sources := t\<rparr>"
    using attempt_shape by blast
  with Cons [of "recordAttempt env src (errs src) st"] show ?case by auto
qed

lemma attempt_phase_moves:
  assumes "store_ok gl (ig_store ig)"
  shows "moves gl 0 0 {} (ig_store ig) (ig_store (attempt_phase env srcs errs ig))"
proof -
  have "store_ok gl st \<Longrightarrow> moves gl 0 0 {} st (fold (\<lambda>src. recordAttempt env src (errs src)) srcs st)" for st
  proof (induction srcs arbitrary: st)
    case (Cons src srcs)
    have m: "moves gl 0 0 {} st (recordAttempt env src (errs src) st)" by (rule attempt_moves [OF Cons.prems])
    from moves_trans [OF m Cons.IH [OF moves_ok [OF m]]] show ?case by simp
  qed (simp add: moves_refl)
  with assms show ?thesis by (simp add: attempt_phase_def)
qed

section \<open>A tick as a whole\<close>

definition tick_room :: "string list \<Rightarrow> poll_result \<Rightarrow> store \<Rightarrow> bool" where
  "tick_room srcs r st \<longleftrightarrow>
     roomy (length (pr_events r) + length srcs * (2 * (length (st_events st) + length (pr_events r)))) st"

text \<open>\<open>st1\<close> is the store after the upserts and \<open>TouchSeen\<close>, before the sweeps.\<close>

lemma tick_phases:
  assumes "store_ok gl (ig_store ig)" and "tick_room srcs r (ig_store ig)"
    and "poll (loadPrior env srcs (ig_store ig)) = PollOK r"
  obtains st1 t where "moves gl (length (pr_events r)) (length (pr_events r)) (e_id ` set (pr_events r)) (ig_store ig) st1"
    and "roomy (length srcs * (2 * (length (st_events (ig_store ig)) + length (pr_events r)))) st1"
    and "ig_store (fst (safeTick H gl s env srcs poll (ig, ps))) = (fold (sweep_source H s env r) srcs st1)\<lparr>st_sources := t\<rparr>"
    and "store_ok gl (ig_store (fst (safeTick H gl s env srcs poll (ig, ps))))"
    and "int (ig_enhanceCalls (fst (safeTick H gl s env srcs poll (ig, ps)))) - int (ig_enhanceCalls ig) \<le> max 0 (sx_budgetPerTick s)"
    and "\<forall>i row. \<not> te_fails env CTouch \<longrightarrow> i \<in> set (polledIDs r) \<longrightarrow> get_row st1 i = Some row \<longrightarrow>
      unix (te_now env - touchSeenCoalesce) \<le> er_lastSeen row"
proof -
  let ?st = "ig_store ig" and ?evs = "pr_events r"
  define fr where "fr = (\<not> ps_reconciled ps \<or> PlacesVersion ?st \<noteq> ps_placesVersion ps)"
  obtain ig0 b0 where f: "fold (write_event H gl s env fr (storedHashes env ?evs ?st) (pr_forceWrite r))
      (List.enumerate 0 ?evs) (ig, sx_budgetPerTick s) = (ig0, b0)" by (metis surj_pair)
  have w: "write_phase H gl s env r fr ig = ig0" by (simp add: write_phase_def f)
  have rm: "roomy (length ?evs) ?st" using assms(2) unfolding tick_room_def by (rule roomy_mono) simp
  note we = write_events_moves [OF assms(1) rm f]
  have m0: "moves gl (length ?evs) (length ?evs) (e_id ` set ?evs) ?st (ig_store ig0)" using we by blast
  define ig1 where "ig1 = touch_seen env (polledIDs r) ig0"
  note ok0 = moves_ok [OF m0]
  have sub: "set (polledIDs r) \<subseteq> e_id ` set ?evs" by (auto simp: polledIDs_def)
  have m1: "moves gl (length ?evs) (length ?evs) (e_id ` set ?evs) ?st (ig_store ig1)"
    unfolding ig1_def by (rule moves_mono [OF moves_trans [OF m0 touch_moves(1) [OF ok0]]]) (use sub in auto)
  have n1: "length (st_events (ig_store ig1)) \<le> length (st_events ?st) + length ?evs" using m1 by (simp add: moves_def)
  have rm1: "roomy (length srcs * (2 * (length (st_events ?st) + length ?evs))) (ig_store ig1)"
    by (rule moves_roomy [OF m1]) (use assms(2) in \<open>simp add: tick_room_def\<close>)
  define st2 where "st2 = fold (sweep_source H s env r) srcs (ig_store ig1)"
  have ok2: "store_ok gl st2"
    using sweep_fold_moves [OF moves_ok [OF m1] n1 rm1] moves_ok unfolding st2_def by blast
  obtain t where t: "fold (\<lambda>src. recordAttempt env src (pr_perSource r src)) srcs st2 = st2\<lparr>st_sources := t\<rparr>"
    using attempt_fold_events by blast
  have tick: "fst (safeTick H gl s env srcs poll (ig, ps)) =
      attempt_phase env srcs (pr_perSource r) (sweep_phase H s env srcs r (mesh_phase env r ig1))"
    by (simp add: safeTick_def assms(3) Let_def w [symmetric] ig1_def fr_def)
  have res: "ig_store (fst (safeTick H gl s env srcs poll (ig, ps))) = st2\<lparr>st_sources := t\<rparr>"
    by (simp add: tick attempt_phase_def sweep_phase_def t st2_def [symmetric])
  have "store_ok gl (ig_store (sweep_phase H s env srcs r (mesh_phase env r ig1)))"
    using ok2 by (simp add: sweep_phase_def st2_def)
  then have okf: "store_ok gl (ig_store (fst (safeTick H gl s env srcs poll (ig, ps))))"
    unfolding tick by (rule moves_ok [OF attempt_phase_moves])
  have "ig_enhanceCalls (fst (safeTick H gl s env srcs poll (ig, ps))) = ig_enhanceCalls ig0"
    using touch_moves(3) [OF ok0] by (simp add: tick attempt_phase_def sweep_phase_def ig1_def)
  then have bud: "int (ig_enhanceCalls (fst (safeTick H gl s env srcs poll (ig, ps)))) - int (ig_enhanceCalls ig) \<le> max 0 (sx_budgetPerTick s)"
    using we by auto
  have "unix (te_now env - touchSeenCoalesce) \<le> er_lastSeen row"
    if nt: "\<not> te_fails env CTouch" and i: "i \<in> set (polledIDs r)" and g: "get_row (ig_store ig1) i = Some row" for i row
  proof -
    obtain r0 where r0: "get_row (ig_store ig0) i = Some r0" "er_id r0 = i"
        "row = (if touched (polledIDs r) (te_now env - touchSeenCoalesce) r0 then r0\<lparr>er_lastSeen := unix (te_now env)\<rparr> else r0)"
      using g nt tbl_get_Some [of er_id i] by (auto simp: ig1_def touch_seen_def touch_get)
    have "unix (te_now env - touchSeenCoalesce) \<le> unix (te_now env)"
      by (rule unix_mono) (simp add: touchSeenCoalesce_def minute_def second_def)
    with r0 i show ?thesis by (auto simp: touched_def)
  qed
  then show thesis using that [OF m1 rm1 res [unfolded st2_def] okf bud] by blast
qed

text \<open>
  C7: a tick keeps the store's invariant, appends to the history without changing it, and never
  deletes an event, whatever the poll returned and whichever of its store calls failed.
\<close>

theorem tick_preserves_store:
  assumes "store_ok gl (ig_store ig)"
    and "case poll (loadPrior env srcs (ig_store ig)) of PollOK r \<Rightarrow> tick_room srcs r (ig_store ig) | _ \<Rightarrow> True"
  shows "store_ok gl (ig_store (fst (safeTick H gl s env srcs poll (ig, ps)))) \<and>
    prefix (st_revisions (ig_store ig)) (st_revisions (ig_store (fst (safeTick H gl s env srcs poll (ig, ps))))) \<and>
    (\<forall>i. GetEvent i (ig_store ig) \<noteq> None \<longrightarrow> GetEvent i (ig_store (fst (safeTick H gl s env srcs poll (ig, ps)))) \<noteq> None)"
proof (cases "poll (loadPrior env srcs (ig_store ig))")
  case (PollOK r)
  then have rm: "tick_room srcs r (ig_store ig)" using assms(2) by simp
  obtain st1 t where p: "moves gl (length (pr_events r)) (length (pr_events r)) (e_id ` set (pr_events r)) (ig_store ig) st1"
      "roomy (length srcs * (2 * (length (st_events (ig_store ig)) + length (pr_events r)))) st1"
      "ig_store (fst (safeTick H gl s env srcs poll (ig, ps))) = (fold (sweep_source H s env r) srcs st1)\<lparr>st_sources := t\<rparr>"
      "store_ok gl (ig_store (fst (safeTick H gl s env srcs poll (ig, ps))))"
    by (rule tick_phases [where poll = poll and env = env and H = H and s = s and ps = ps, OF assms(1) rm PollOK])
  have "length (st_events st1) \<le> length (st_events (ig_store ig)) + length (pr_events r)" using p(1) by (simp add: moves_def)
  from sweep_fold_moves [OF moves_ok [OF p(1)] this p(2)] p(1)
  have "moves gl (length (pr_events r) + length srcs * (2 * (length (st_events (ig_store ig)) + length (pr_events r))))
      (length (pr_events r) + 0) (e_id ` set (pr_events r) \<union> UNIV) (ig_store ig) (fold (sweep_source H s env r) srcs st1)"
    using moves_trans by blast
  with p(3,4) show ?thesis by (simp add: moves_def GetEvent_def)
next
  case (PollError e)
  then have "moves gl 0 0 {} (ig_store ig) (ig_store (fst (safeTick H gl s env srcs poll (ig, ps))))"
    using attempt_phase_moves [OF assms(1)] by (simp add: safeTick_def)
  then show ?thesis by (auto simp: moves_def GetEvent_def)
next
  case PollPanic
  then show ?thesis using assms(1) by (simp add: safeTick_def)
qed

section \<open>Fail-loud\<close>

text \<open>
  C4: a source that failed, or that the poller could not compute the full set of, or that the poller
  does not cover, loses no event. Whatever else the poll returned and whichever store calls fail, the row
  of an event of that source that the poll did not return is, after the tick, exactly what it was.
\<close>

theorem silent_source_untouched:
  assumes "store_ok gl (ig_store ig)" and "tick_room srcs r (ig_store ig)"
    and "poll (loadPrior env srcs (ig_store ig)) = PollOK r"
    and "get_row (ig_store ig) i = Some row" and "i \<notin> e_id ` set (pr_events r)"
    and "pr_perSource r (er_source row) \<noteq> None \<or> er_source row \<in> set (pr_sweepSuppress r) \<or> er_source row \<notin> set srcs"
  shows "get_row (ig_store (fst (safeTick H gl s env srcs poll (ig, ps)))) i = Some row"
proof -
  obtain st1 t where p: "moves gl (length (pr_events r)) (length (pr_events r)) (e_id ` set (pr_events r)) (ig_store ig) st1"
      "roomy (length srcs * (2 * (length (st_events (ig_store ig)) + length (pr_events r)))) st1"
      "ig_store (fst (safeTick H gl s env srcs poll (ig, ps))) = (fold (sweep_source H s env r) srcs st1)\<lparr>st_sources := t\<rparr>"
    by (rule tick_phases [where poll = poll and env = env and H = H and s = s and ps = ps, OF assms(1-3)])
  have n: "length (st_events st1) \<le> length (st_events (ig_store ig)) + length (pr_events r)" using p(1) by (simp add: moves_def)
  have "get_row st1 i = Some row" using moves_frame [OF p(1) assms(5)] assms(4) by simp
  then have "get_row (fold (sweep_source H s env r) srcs st1) i = Some row"
    using sweep_fold_moves [OF moves_ok [OF p(1)] n p(2)] assms(6) by (auto simp: silent_def)
  then show ?thesis by (simp add: p(3))
qed

text \<open>A poller's whole life, if every poll it makes fails or panics.\<close>

definition failing :: "run_signal \<Rightarrow> bool" where
  "failing sig = (case sig of
     SigTick _ poll \<Rightarrow> \<forall>p r. poll p \<noteq> PollOK r
   | SigWake _ poll \<Rightarrow> \<forall>p r. poll p \<noteq> PollOK r
   | _ \<Rightarrow> True)"

lemma failing_tick:
  assumes "\<forall>p r. poll p \<noteq> PollOK r"
  shows "\<exists>t. safeTick H gl s env srcs poll (ig, ps) = (ig\<lparr>ig_store := ig_store ig\<lparr>st_sources := t\<rparr>\<rparr>, ps)"
proof (cases "poll (loadPrior env srcs (ig_store ig))")
  case PollPanic
  then show ?thesis by (intro exI [of _ "st_sources (ig_store ig)"]) (simp add: safeTick_def)
next
  case (PollError e)
  then show ?thesis
    using attempt_fold_events [of env "\<lambda>_. Some e" srcs "ig_store ig"] by (auto simp: safeTick_def attempt_phase_def)
next
  case (PollOK r)
  with assms show ?thesis by blast
qed

definition panicking :: "run_signal \<Rightarrow> bool" where
  "panicking sig = (case sig of
     SigTick _ poll \<Rightarrow> \<forall>p. poll p = PollPanic
   | SigWake _ poll \<Rightarrow> \<forall>p. poll p = PollPanic
   | _ \<Rightarrow> True)"

lemma panicking_run: "\<forall>sig \<in> set sigs. panicking sig \<Longrightarrow> run_poller H gl s srcs sigs (ig, ps) = (ig, ps)"
  by (induction H gl s srcs sigs "(ig, ps)" rule: run_poller.induct) (simp_all add: panicking_def safeTick_def)

lemma failing_run:
  assumes "\<forall>sig \<in> set sigs. failing sig"
  shows "\<exists>t. run_poller H gl s srcs sigs (ig, ps) = (ig\<lparr>ig_store := ig_store ig\<lparr>st_sources := t\<rparr>\<rparr>, ps)"
  using assms
proof (induction sigs arbitrary: ig)
  case Nil
  show ?case by (intro exI [of _ "st_sources (ig_store ig)"]) simp
next
  case (Cons sig sigs)
  have tick: "\<exists>t. run_poller H gl s srcs sigs (safeTick H gl s env srcs poll (ig, ps)) =
      (ig\<lparr>ig_store := ig_store ig\<lparr>st_sources := t\<rparr>\<rparr>, ps)"
    if fp: "\<forall>p r. poll p \<noteq> PollOK r" for env poll
  proof -
    obtain t where "safeTick H gl s env srcs poll (ig, ps) = (ig\<lparr>ig_store := ig_store ig\<lparr>st_sources := t\<rparr>\<rparr>, ps)"
      using failing_tick [OF fp] by blast
    with Cons.IH [of "ig\<lparr>ig_store := ig_store ig\<lparr>st_sources := t\<rparr>\<rparr>"] Cons.prems show ?thesis by auto
  qed
  have stop: "\<exists>t. (ig, ps) = (ig\<lparr>ig_store := ig_store ig\<lparr>st_sources := t\<rparr>\<rparr>, ps)"
    by (intro exI [of _ "st_sources (ig_store ig)"]) simp
  have f: "failing sig" using Cons.prems by simp
  show ?case
  proof (cases sig)
    case (SigTick env poll)
    then show ?thesis using tick [of poll env] f by (simp add: failing_def)
  next
    case (SigWake env poll)
    then show ?thesis using tick [of poll env] f by (simp add: failing_def)
  qed (use stop in simp_all)
qed

text \<open>
  C8: an outage is never an all-clear. Over any run of a poller in which every poll fails or panics, for
  however many ticks and wakes, nothing changes but the health rows of the source registry: no event, no
  revision, no mesh measurement, and the poller still owes its full reconcile. If they all panic the health
  rows do not change either: the sources keep the status of the last attempt that was recorded.
\<close>

theorem outage_changes_no_event:
  "((\<forall>sig \<in> set sigs. failing sig) \<longrightarrow>
      (\<exists>t. run_poller H gl s srcs sigs (ig, ps) = (ig\<lparr>ig_store := ig_store ig\<lparr>st_sources := t\<rparr>\<rparr>, ps))) \<and>
   ((\<forall>sig \<in> set sigs. panicking sig) \<longrightarrow> run_poller H gl s srcs sigs (ig, ps) = (ig, ps))"
  using failing_run panicking_run by blast

section \<open>What a sweep does\<close>


lemma swept_source [simp]: "er_source (swept H to obs now row) = er_source row"
  by (simp add: swept_def)



section \<open>The grace of a confirmed event\<close>

text \<open>A sweep never moves the time an event was last confirmed.\<close>

definition seen_at :: "string \<Rightarrow> store \<Rightarrow> int option" where
  "seen_at i st = map_option er_lastSeen (get_row st i)"

lemma selected_seen:
  assumes "store_ok gl st" and "roomy (length (st_events st)) st"
    and "ids = map (e_id \<circ> se_event) (filter P (ActiveEventsBySource src st))"
  shows "seen_at i (if ids = [] then st else transition_or_log H env ph src ids to st) = seen_at i st"
proof (cases "te_fails env (CTransition ph src)")
  case True
  then show ?thesis by (simp add: transition_or_log_def)
next
  case False
  have "length ids \<le> length (st_events st)" using active_length by (simp add: assms(3))
  with assms(2) have "roomy (length ids) st" by (rule roomy_mono)
  from transition_moves(2) [OF assms(1) this False, where H = H and to = to and j = i]
  show ?thesis by (cases "get_row st i") (simp_all add: seen_at_def swept_def)
qed

lemma sweep_source_seen:
  assumes ok: "store_ok gl st" and rm: "roomy (2 * length (st_events st)) st"
  shows "seen_at i (sweep_source H s env r src st) = seen_at i st"
proof -
  define st1 where "st1 = supersede H env (pr_superseded r) src st"
  let ?n = "length (st_events st)"
  have rm1: "roomy ?n st" using rm by (rule roomy_mono) simp
  have m1: "moves gl ?n 0 (live_ids src st) st st1"
    using selected_transition(1) [OF ok rm1 refl, where src = src and H = H and env = env and ph = Supersede and to = RESOLVED]
      moves_refl [OF ok] by (simp add: st1_def supersede_selected Let_def)
  have "roomy ?n st1" by (rule moves_roomy [OF m1]) (use rm in \<open>simp add: mult_2\<close>)
  then have rm2: "roomy (length (st_events st1)) st1" by (rule roomy_mono) (use m1 in \<open>simp add: moves_def\<close>)
  have "seen_at i st1 = seen_at i st"
    using selected_seen [OF ok rm1 refl, where i = i and H = H and env = env and ph = Supersede and to = RESOLVED]
    by (simp add: st1_def supersede_selected Let_def)
  moreover have "seen_at i (sweepDisappeared H s env (polled_of r src) src st1) = seen_at i st1"
    using selected_seen [OF moves_ok [OF m1] rm2 refl, where i = i and H = H and env = env and ph = Sweep]
    by (simp add: sweep_selected Let_def)
  ultimately show ?thesis by (simp add: sweep_source_def st1_def)
qed

text \<open>An event with no reason to go stays as it is, whichever calls of the sweep fail.\<close>

lemma sweep_source_keeps:
  assumes ok: "store_ok gl st" and rm: "roomy (2 * length (st_events st)) st"
    and g: "get_row st i = Some row" and "i \<notin> set (pr_superseded r)"
    and "er_source row = src \<longrightarrow> \<not> departs (tuning_of s src) (te_now env) (polled_of r src) (stored_of row)"
  shows "get_row (sweep_source H s env r src st) i = Some row"
proof -
  define st1 where "st1 = supersede H env (pr_superseded r) src st"
  let ?n = "length (st_events st)"
  have rm1: "roomy ?n st" using rm by (rule roomy_mono) simp
  have id: "e_id (er_proto row) = i" using row_proto_id [OF ok g] unfolding row_ok_def by auto
  have m1: "moves gl ?n 0 (live_ids src st) st st1"
    using selected_transition(1) [OF ok rm1 refl, where src = src and H = H and env = env and ph = Supersede and to = RESOLVED]
      moves_refl [OF ok] by (simp add: st1_def supersede_selected Let_def)
  have "roomy ?n st1" by (rule moves_roomy [OF m1]) (use rm in \<open>simp add: mult_2\<close>)
  then have rm2: "roomy (length (st_events st1)) st1" by (rule roomy_mono) (use m1 in \<open>simp add: moves_def\<close>)
  have keep: "get_row (if ids = [] then s0 else transition_or_log H env ph src ids to s0) i = Some row"
    if "store_ok gl s0" "roomy (length (st_events s0)) s0" "ids = map (e_id \<circ> se_event) (filter P (ActiveEventsBySource src s0))"
      "get_row s0 i = Some row" "er_source row = src \<longrightarrow> \<not> P (stored_of row)" for s0 ids P ph to
    using selected_transition(2) [OF that(1-3) _ that(4), where H = H and env = env and ph = ph and to = to] that(4,5)
    by (cases "te_fails env (CTransition ph src)") (auto simp: transition_or_log_def)
  have "get_row st1 i = Some row"
    using keep [OF ok rm1 refl g, of "\<lambda>se. e_id (se_event se) \<in> set (pr_superseded r)" Supersede RESOLVED] assms(4) g id
    by (simp add: st1_def supersede_selected Let_def stored_of_def)
  then have "get_row (sweepDisappeared H s env (polled_of r src) src st1) i = Some row"
    using keep [OF moves_ok [OF m1] rm2 refl, of "departs (tuning_of s src) (te_now env) (polled_of r src)"] assms(5)
    by (simp add: sweep_selected Let_def)
  with g show ?thesis by (simp add: sweep_source_def st1_def)
qed

lemma sweep_fold_keeps:
  assumes "store_ok gl st" and "length (st_events st) \<le> n" and "roomy (length srcs * (2 * n)) st"
  shows "seen_at i (fold (sweep_source H s env r) srcs st) = seen_at i st \<and>
    (\<forall>row. get_row st i = Some row \<longrightarrow> i \<notin> set (pr_superseded r) \<longrightarrow>
       \<not> departs (tuning_of s (er_source row)) (te_now env) (polled_of r (er_source row)) (stored_of row) \<longrightarrow>
       get_row (fold (sweep_source H s env r) srcs st) i = Some row)"
  using assms
proof (induction srcs arbitrary: st)
  case Nil
  then show ?case by simp
next
  case (Cons src srcs)
  define st1 where "st1 = sweep_source H s env r src st"
  have rm: "roomy (2 * length (st_events st)) st" using Cons.prems(3) by (rule roomy_mono) (use Cons.prems(2) in simp)
  have m: "moves gl (2 * n) 0 UNIV st st1"
    unfolding st1_def by (rule moves_mono [OF sweep_source_moves [OF Cons.prems(1) rm]]) (use Cons.prems(2) in simp_all)
  have n1: "length (st_events st1) \<le> n" using m Cons.prems(2) by (simp add: moves_def)
  have "roomy (length srcs * (2 * n)) st1" by (rule moves_roomy [OF m]) (use Cons.prems(3) in \<open>simp add: algebra_simps\<close>)
  note ih = Cons.IH [OF moves_ok [OF m] n1 this]
  have "seen_at i st1 = seen_at i st" unfolding st1_def by (rule sweep_source_seen [OF Cons.prems(1) rm])
  moreover have "get_row st1 i = Some row"
    if "get_row st i = Some row" "i \<notin> set (pr_superseded r)"
      "\<not> departs (tuning_of s (er_source row)) (te_now env) (polled_of r (er_source row)) (stored_of row)" for row
    unfolding st1_def by (rule sweep_source_keeps [OF Cons.prems(1) rm that(1,2)]) (use that(3) in auto)
  ultimately show ?case using ih by (simp add: st1_def)
qed

text \<open>An event confirmed recently enough is within the grace.\<close>

lemma within_grace:
  assumes "unix (seen - touchSeenCoalesce) \<le> er_lastSeen row" and "0 < unix (seen - touchSeenCoalesce)"
    and "now \<le> seen + tu_expireAfter tu - touchSeenCoalesce - second"
    and "\<forall>t. e_expires (er_proto row) = Some t \<longrightarrow> now \<le> t"
  shows "\<not> shouldExpire (stored_of row) (tu_expireAfter tu) now"
proof -
  have "fromUnix (unix (seen - touchSeenCoalesce)) \<le> fromUnix (er_lastSeen row)"
    using assms(1) by (simp add: fromUnix_def second_def)
  then have "seen - touchSeenCoalesce - second < fromUnix (er_lastSeen row)"
    using fromUnix_unix_gt [of "seen - touchSeenCoalesce"] by linarith
  then have "now - fromUnix (er_lastSeen row) \<le> tu_expireAfter tu" using assms(3) by linarith
  moreover have "se_lastSeen (stored_of row) = Some (fromUnix (er_lastSeen row))" using assms(1,2) by (simp add: stored_of_def)
  ultimately show ?thesis
    using assms(4) by (auto simp: shouldExpire_def last_confirmed_def stored_of_def split: option.splits)
qed

text \<open>
  C6: a confirmed event survives its grace. If a tick polled an event from a source that answered and its
  \<open>TouchSeen\<close> succeeded, then no later tick at most the grace, less the ten minutes of coalescing and a second
  of rounding, after it expires the event: with the row as that tick left it, however many polls missed it
  in between, the later tick leaves the row alone, unless the event's own expiry time has passed or
  the poll names what superseded it.
\<close>

theorem confirmed_survives_grace:
  assumes "store_ok gl (ig_store ig)" and "tick_room srcs r (ig_store ig)"
    and "poll (loadPrior env srcs (ig_store ig)) = PollOK r"
    and "\<not> te_fails env CTouch" and "i \<in> set (polledIDs r)" and "0 < unix (te_now env - touchSeenCoalesce)"
    and "get_row (ig_store (fst (safeTick H gl s env srcs poll (ig, ps)))) i = Some row"
    and "store_ok gl (ig_store ig2)" and "tick_room srcs r2 (ig_store ig2)"
    and "poll2 (loadPrior env2 srcs (ig_store ig2)) = PollOK r2"
    and "get_row (ig_store ig2) i = Some row" and "i \<notin> e_id ` set (pr_events r2)" and "i \<notin> set (pr_superseded r2)"
    and "tu_disappearance (tuning_of s (er_source row)) = ''expire''"
    and "te_now env2 \<le> te_now env + tu_expireAfter (tuning_of s (er_source row)) - touchSeenCoalesce - second"
    and "\<forall>t. e_expires (er_proto row) = Some t \<longrightarrow> te_now env2 \<le> t"
  shows "get_row (ig_store (fst (safeTick H gl s env2 srcs poll2 (ig2, ps2)))) i = Some row"
proof -
  let ?n = "length (st_events (ig_store ig)) + length (pr_events r)"
  obtain st1 t where p: "moves gl (length (pr_events r)) (length (pr_events r)) (e_id ` set (pr_events r)) (ig_store ig) st1"
      "roomy (length srcs * (2 * ?n)) st1"
      "ig_store (fst (safeTick H gl s env srcs poll (ig, ps))) = (fold (sweep_source H s env r) srcs st1)\<lparr>st_sources := t\<rparr>"
      "\<forall>i row. \<not> te_fails env CTouch \<longrightarrow> i \<in> set (polledIDs r) \<longrightarrow> get_row st1 i = Some row \<longrightarrow>
        unix (te_now env - touchSeenCoalesce) \<le> er_lastSeen row"
    by (rule tick_phases [where poll = poll and env = env and H = H and s = s and ps = ps, OF assms(1-3)])
  have n: "length (st_events st1) \<le> ?n" using p(1) by (simp add: moves_def)
  have "seen_at i (fold (sweep_source H s env r) srcs st1) = seen_at i st1"
    using sweep_fold_keeps [OF moves_ok [OF p(1)] n p(2)] by blast
  then have "seen_at i st1 = Some (er_lastSeen row)" using assms(7) by (simp add: p(3) seen_at_def)
  then obtain row1 where "get_row st1 i = Some row1" "er_lastSeen row1 = er_lastSeen row" by (auto simp: seen_at_def)
  then have seen: "unix (te_now env - touchSeenCoalesce) \<le> er_lastSeen row" using p(4) assms(4,5) by metis
  have stay: "\<not> departs (tuning_of s (er_source row)) (te_now env2) (polled_of r2 (er_source row)) (stored_of row)"
    using within_grace [OF seen assms(6,15,16)] assms(14) by (simp add: departs_def)
  obtain st3 t3 where q: "moves gl (length (pr_events r2)) (length (pr_events r2)) (e_id ` set (pr_events r2)) (ig_store ig2) st3"
      "roomy (length srcs * (2 * (length (st_events (ig_store ig2)) + length (pr_events r2)))) st3"
      "ig_store (fst (safeTick H gl s env2 srcs poll2 (ig2, ps2))) = (fold (sweep_source H s env2 r2) srcs st3)\<lparr>st_sources := t3\<rparr>"
    by (rule tick_phases [where poll = poll2 and env = env2 and H = H and s = s and ps = ps2, OF assms(8-10)])
  have n3: "length (st_events st3) \<le> length (st_events (ig_store ig2)) + length (pr_events r2)" using q(1) by (simp add: moves_def)
  have "get_row st3 i = Some row" using moves_frame [OF q(1) assms(12)] assms(11) by simp
  then have "get_row (fold (sweep_source H s env2 r2) srcs st3) i = Some row"
    using sweep_fold_keeps [OF moves_ok [OF q(1)] n3 q(2)] assms(13) stay by blast
  then show ?thesis by (simp add: q(3))
qed

section \<open>Skipped upserts\<close>

lemma foldl_upd_get: "foldl (\<lambda>m (k, v). m(k \<mapsto> v)) out xs i = (case map_of (rev xs) i of Some v \<Rightarrow> Some v | None \<Rightarrow> out i)"
  by (induction xs rule: rev_induct) auto

lemma map_of_rows: "tbl_ok er_id t \<Longrightarrow>
    map_of (rev (map (\<lambda>r. (er_id r, er_hash r)) (filter (\<lambda>r. er_id r \<in> S) t))) i =
      (if i \<in> S then map_option er_hash (tbl_get er_id i t) else None)"
proof (induction t)
  case Nil
  then show ?case by simp
next
  case (Cons x xs)
  have t: "tbl_ok er_id xs" and n: "er_id x \<notin> er_id ` set xs" using Cons.prems by (simp_all add: tbl_ok_Cons)
  have "tbl_get er_id (er_id x) xs = None" using n by (simp add: tbl_get_None)
  with Cons.IH [OF t] show ?case by (auto simp: map_add_def split: option.splits)
qed

lemma ContentHashes_get:
  assumes t: "tbl_ok er_id (st_events st)"
  shows "ContentHashes ids st out i =
    (if i \<in> set ids \<and> get_row st i \<noteq> None then map_option er_hash (get_row st i) else out i)"
proof (induction "length ids" arbitrary: ids out rule: less_induct)
  case less
  show ?case
  proof (cases "ids = []")
    case True
    then show ?thesis by (simp add: ContentHashes.simps)
  next
    case False
    let ?out = "foldl (\<lambda>m (k, v). m(k \<mapsto> v)) out (hash_query (take maxHashBatch ids) st)"
    have "length (drop maxHashBatch ids) < length ids" using False by (simp add: maxHashBatch_def)
    note ih = less.hyps [OF this, of ?out]
    have q: "?out i = (if i \<in> set (take maxHashBatch ids) \<and> get_row st i \<noteq> None then map_option er_hash (get_row st i) else out i)"
      using map_of_rows [OF t, of "set (take maxHashBatch ids)" i]
      by (cases "get_row st i") (simp_all add: foldl_upd_get hash_query_def)
    have "ContentHashes ids st out = ContentHashes (drop maxHashBatch ids) st ?out"
      using False by (subst ContentHashes.simps) simp
    moreover have "i \<in> set ids \<longleftrightarrow> i \<in> set (take maxHashBatch ids) \<or> i \<in> set (drop maxHashBatch ids)"
      by (metis Un_iff append_take_drop_id set_append)
    ultimately show ?thesis using ih q by auto
  qed
qed

text \<open>
  C36: skipping an unchanged event is an optimisation. The one batched read of the stored hashes decides
  as a read per event would: an event is written exactly when the tick reconciles, the event carries an
  enhancement, the read failed, the poller forces it, or its stored hash is not its own. And
  the upsert that is skipped would not have written a revision nor touched another event; it would
  have changed nothing at all unless the event's hash-excluded content or its places moved.
\<close>

theorem skip_is_invisible:
  assumes "store_ok gl st" and "ev \<in> set evs"
  shows "(shouldUpsert H ev fr (storedHashes env evs st) force \<longleftrightarrow>
      fr \<or> e_enhancement ev \<noteq> None \<or> te_fails env CHashes \<or> e_id ev \<in> set force \<or> \<not> hash_equal H ev st)
    \<and> (\<not> shouldUpsert H ev fr (storedHashes env evs st) force \<longrightarrow>
      (\<exists>row st'. get_row st (e_id ev) = Some row \<and>
         UpsertEvent H gl ev now st = Inr (\<lparr>ur_changed = False, ur_revision = er_revision row\<rparr>, st') \<and>
         st_revisions st' = st_revisions st \<and> (\<forall>j. j \<noteq> e_id ev \<longrightarrow> get_row st' j = get_row st j) \<and>
         (\<not> needs_refresh gl ev st row \<longrightarrow> (\<exists>x. st' = st\<lparr>st_placesGeo := x\<rparr>))))"
proof -
  have t: "tbl_ok er_id (st_events st)" using assms(1) by (simp add: store_ok_def)
  have h: "storedHashes env evs st = (if te_fails env CHashes then None else Some (ContentHashes (map e_id evs) st Map.empty))"
    using assms(2) by (auto simp: storedHashes_def)
  have lookup: "ContentHashes (map e_id evs) st Map.empty (e_id ev) = map_option er_hash (get_row st (e_id ev))"
    using ContentHashes_get [OF t, of "map e_id evs" Map.empty "e_id ev"] assms(2) by auto
  have iff: "shouldUpsert H ev fr (storedHashes env evs st) force \<longleftrightarrow>
      fr \<or> e_enhancement ev \<noteq> None \<or> te_fails env CHashes \<or> e_id ev \<in> set force \<or> \<not> hash_equal H ev st"
    using lookup by (auto simp: shouldUpsert_def h hash_equal_def split: option.splits)
  have "\<exists>row st'. get_row st (e_id ev) = Some row \<and>
         UpsertEvent H gl ev now st = Inr (\<lparr>ur_changed = False, ur_revision = er_revision row\<rparr>, st') \<and>
         st_revisions st' = st_revisions st \<and> (\<forall>j. j \<noteq> e_id ev \<longrightarrow> get_row st' j = get_row st j) \<and>
         (\<not> needs_refresh gl ev st row \<longrightarrow> (\<exists>x. st' = st\<lparr>st_placesGeo := x\<rparr>))"
    if skip: "\<not> shouldUpsert H ev fr (storedHashes env evs st) force"
  proof -
    obtain row where row: "get_row st (e_id ev) = Some row" "er_hash row = ContentHash H ev"
      using skip [unfolded iff] by (auto simp: hash_equal_def)
    have "e_id ev \<noteq> []" using row_proto_id [OF assms(1) row(1)] unfolding row_ok_def by auto
    then obtain st' where st': "UpsertEvent H gl ev now st = Inr (\<lparr>ur_changed = False, ur_revision = er_revision row\<rparr>, st')"
        "st_revisions st' = st_revisions st"
        "\<forall>j. get_row st' j = (if j = e_id ev \<and> needs_refresh gl ev st row
           then Some (refresh_row (refresh_blob ev (wanted gl ev st) (er_proto row)) row) else get_row st j)"
        "\<not> needs_refresh gl ev st row \<longrightarrow> (\<exists>x. st' = st\<lparr>st_placesGeo := x\<rparr>)"
      using upsert_refreshed [OF assms(1) _ row, of now] by blast
    show ?thesis by (rule exI [of _ row], rule exI [of _ st']) (use st' row(1) in simp)
  qed
  with iff show ?thesis by blast
qed

section \<open>The budget\<close>

text \<open>
  One tick asks the enhancer at most as often as its budget allows, whatever the poll returned and
  whether the calls fail or not; without a budget it is never asked.
\<close>

theorem enhancement_within_budget:
  assumes "store_ok gl (ig_store ig)" and "tick_room srcs r (ig_store ig)"
    and "poll (loadPrior env srcs (ig_store ig)) = PollOK r"
  shows "int (ig_enhanceCalls (fst (safeTick H gl s env srcs poll (ig, ps)))) \<le>
    int (ig_enhanceCalls ig) + max 0 (sx_budgetPerTick s)"
proof -
  have "int (ig_enhanceCalls (fst (safeTick H gl s env srcs poll (ig, ps)))) - int (ig_enhanceCalls ig) \<le> max 0 (sx_budgetPerTick s)"
    by (rule tick_phases [where poll = poll and env = env and H = H and s = s and ps = ps, OF assms])
  then show ?thesis by linarith
qed

section \<open>Examples\<close>

definition ex_env :: "time \<Rightarrow> (store_call \<Rightarrow> bool) \<Rightarrow> tick_env" where
  "ex_env now fails = \<lparr>te_now = now, te_clock = (\<lambda>_. now), te_fails = fails\<rparr>"

definition ex_poll :: "event list \<Rightarrow> poll_result" where
  "ex_poll evs = \<lparr>pr_events = evs, pr_perSource = Map.empty, pr_sweepSuppress = [], pr_superseded = [], pr_observations = [],
     pr_activity = [], pr_activityUnwritten = False, pr_telemetry = [], pr_renames = [], pr_forceWrite = []\<rparr>"

definition ex_sched :: "string \<Rightarrow> scheduler" where
  "ex_sched policy = \<lparr>sx_tuning = [''u'' \<mapsto> \<lparr>tu_pollInterval = minute, tu_staleAfter = 0, tu_expireAfter = 2 * hour, tu_disappearance = policy\<rparr>],
     sx_enhancer = None, sx_enhancerModel = [], sx_budgetPerTick = 3,
     sx_meshMaint = \<lparr>mm_observationRetention = 0, mm_rollupRetention = 0, mm_telemetryRetention = 0\<rparr>\<rparr>"

definition ex_ingest :: "store \<Rightarrow> ingest" where
  "ex_ingest st = \<lparr>ig_store = st, ig_mesh = newMeshStore, ig_enhanceCalls = 0, ig_unwrittenCalls = 0\<rparr>"

definition ex_quake :: event where
  "ex_quake = \<lparr>e_id = ''q'', e_layer = EARTHQUAKE, e_category = [], e_severity = MINOR, e_status = ST_ACTIVE,
     e_headline = [], e_summary = [], e_description = [], e_areaLabel = [], e_canonicalUrl = [], e_geometry = None,
     e_placeIds = [''a''], e_provenance = Some \<lparr>pv_sourceId = ''u'', pv_sourceName = [], pv_attribution = [], pv_sourceUrl = [], pv_fetchedAt = None\<rparr>,
     e_effective = None, e_expires = None, e_observedAt = Some 0, e_ingestedAt = None, e_revision = 0,
     e_enhancement = None, e_detail = NoDetail\<rparr>"

definition ex_empty :: store where "ex_empty = newStore [ex_source ''u''] [] 0 0"

lemma ex_empty_ok: "store_ok ex_gl ex_empty"
  unfolding ex_empty_def by (rule newStore_ok) (simp add: ex_source_def)

definition ex_tick :: "string \<Rightarrow> (store_call \<Rightarrow> bool) \<Rightarrow> time \<Rightarrow> poll_outcome \<Rightarrow> ingest \<times> poller_state \<Rightarrow> ingest \<times> poller_state" where
  "ex_tick policy fails now out = safeTick ex_hash ex_gl (ex_sched policy) (ex_env now fails) [''u''] (\<lambda>_. out)"

text \<open>A store that holds one earthquake, confirmed at \<open>seen\<close>.\<close>

definition ex_row :: "time \<Rightarrow> event_row" where
  "ex_row seen = content_row (ex_quake\<lparr>e_revision := 1, e_ingestedAt := Some seen\<rparr>) (ContentHash ex_hash ex_quake) 0 seen None"

definition ex_seen :: "time \<Rightarrow> store" where
  "ex_seen seen = ex_empty\<lparr>st_events := [ex_row seen],
     st_revisions := [\<lparr>rv_event = ''q'', rv_revision = 1, rv_observed = 0, rv_ingested = unix seen,
       rv_proto = ex_quake\<lparr>e_revision := 1, e_ingestedAt := Some seen\<rparr>\<rparr>],
     st_eventPlaces := [(''q'', ''a'')]\<rparr>"

lemma ex_quake_fields [simp]:
  "e_id ex_quake = ''q''" "source_id ex_quake = ''u''" "e_status ex_quake = ST_ACTIVE" "e_enhancement ex_quake = None"
  "e_placeIds ex_quake = [''a'']" "e_geometry ex_quake = None" "e_expires ex_quake = None"
  by (simp_all add: ex_quake_def source_id_def)

lemma ex_row_fields [simp]:
  "er_id (ex_row t) = ''q''" "er_source (ex_row t) = ''u''" "er_status (ex_row t) = ST_ACTIVE" "er_lastSeen (ex_row t) = unix t"
  "er_revision (ex_row t) = 1" "er_hash (ex_row t) = ContentHash ex_hash ex_quake"
  by (simp_all add: ex_row_def source_id_def) (simp_all add: ex_quake_def)

lemma ex_seen_get [simp]: "get_row (ex_seen t) i = (if i = ''q'' then Some (ex_row t) else None)"
  by (simp add: ex_seen_def)

lemma ex_seen_ok: "store_ok ex_gl (ex_seen t)" "length (st_events (ex_seen t)) = 1" "length (st_revisions (ex_seen t)) = 1"
proof -
  have "row_ok (ex_row t)"
    by (simp add: row_ok_def ex_row_def content_row_def unixOrNil_def ex_quake_def source_id_def unix_def)
  moreover have "mirror_ok (ex_seen t) (ex_row t)"
    by (simp add: mirror_ok_def have_places_def geo_of_def ex_seen_def ex_row_def ex_empty_def newStore_def ex_source_def source_id_def)
      (simp add: ex_quake_def)
  moreover have "revs_of i (ex_seen t) = (if i = ''q'' then [1] else [])" for i
    by (simp add: revs_of_def ex_seen_def)
  ultimately show "store_ok ex_gl (ex_seen t)"
    by (simp add: store_ok_def hist_ok_def places_cached_def) (simp add: ex_seen_def ex_empty_def newStore_def ex_source_def tbl_ok_def)
qed (simp_all add: ex_seen_def)

lemma ex_seen_room: "length srcs = 1 \<Longrightarrow> length (pr_events r) \<le> 1 \<Longrightarrow> tick_room srcs r (ex_seen t)"
  using ex_seen_ok(2,3) [of t] by (simp add: tick_room_def roomy_def)

lemma ex_ingest_store [simp]: "ig_store (ex_ingest st) = st" "ig_enhanceCalls (ex_ingest st) = 0"
  by (simp_all add: ex_ingest_def)

lemma ex_env_fields [simp]: "te_now (ex_env now f) = now" "te_fails (ex_env now f) = f" "te_clock (ex_env now f) = (\<lambda>_. now)"
  by (simp_all add: ex_env_def)

lemma ex_poll_fields [simp]:
  "pr_events (ex_poll evs) = evs" "pr_perSource (ex_poll evs) = Map.empty" "pr_sweepSuppress (ex_poll evs) = []"
  "pr_superseded (ex_poll evs) = []"
  by (simp_all add: ex_poll_def)

lemma ex_tuning [simp]: "tu_disappearance (tuning_of (ex_sched p) ''u'') = p" "tu_expireAfter (tuning_of (ex_sched p) ''u'') = 2 * hour"
  by (simp_all add: tuning_of_def ex_sched_def)

text \<open>An empty poll under every policy, with a failing feed, and during an outage.\<close>

theorem tick_preserves_store_witness:
  "store_ok ex_gl (ig_store (fst (ex_tick ''resolve'' (\<lambda>_. True) hour (PollOK (ex_poll [ex_quake])) (ex_ingest (ex_seen 0), newPoller)))) \<and>
   GetEvent ''q'' (ig_store (fst (ex_tick ''resolve'' (\<lambda>_. True) hour (PollOK (ex_poll [ex_quake])) (ex_ingest (ex_seen 0), newPoller)))) \<noteq> None"
proof -
  have "GetEvent ''q'' (ig_store (ex_ingest (ex_seen 0))) \<noteq> None" by (simp add: GetEvent_def)
  with tick_preserves_store [where gl = ex_gl and ig = "ex_ingest (ex_seen 0)" and poll = "\<lambda>_. PollOK (ex_poll [ex_quake])" and
        env = "ex_env hour (\<lambda>_. True)" and srcs = "[''u'']" and H = ex_hash and s = "ex_sched ''resolve''" and ps = newPoller]
  show ?thesis by (simp add: ex_tick_def ex_seen_ok ex_seen_room)
qed

theorem silent_source_untouched_witness:
  "get_row (ig_store (fst (ex_tick ''resolve'' (\<lambda>_. False) hour (PollOK ((ex_poll [])\<lparr>pr_perSource := [''u'' \<mapsto> ''timeout'']\<rparr>))
     (ex_ingest (ex_seen 0), newPoller)))) ''q'' = Some (ex_row 0)"
  unfolding ex_tick_def
  by (rule silent_source_untouched [where r = "(ex_poll [])\<lparr>pr_perSource := [''u'' \<mapsto> ''timeout'']\<rparr>" and gl = ex_gl])
    (simp_all add: ex_seen_ok ex_seen_room)

theorem outage_changes_no_event_witness:
  "\<exists>t. run_poller ex_hash ex_gl (ex_sched ''resolve'') [''u'']
     [SigTick (ex_env hour (\<lambda>_. False)) (\<lambda>_. PollError ''timeout''), SigWake (ex_env hour (\<lambda>_. False)) (\<lambda>_. PollPanic), SigStopping]
     (ex_ingest (ex_seen 0), newPoller) = ((ex_ingest (ex_seen 0))\<lparr>ig_store := (ex_seen 0)\<lparr>st_sources := t\<rparr>\<rparr>, newPoller)"
  using conjunct1 [OF outage_changes_no_event, of "[SigTick (ex_env hour (\<lambda>_. False)) (\<lambda>_. PollError ''timeout''),
      SigWake (ex_env hour (\<lambda>_. False)) (\<lambda>_. PollPanic), SigStopping]" ex_hash ex_gl "ex_sched ''resolve''" "[''u'']" "ex_ingest (ex_seen 0)" newPoller]
  by (simp add: failing_def)


theorem confirmed_survives_grace_witness:
  "\<exists>row. get_row (ig_store (fst (ex_tick ''expire'' (\<lambda>c. c = CUpsert 0) (25 * hour) (PollOK (ex_poll [ex_quake]))
     (ex_ingest (ex_seen (24 * hour)), newPoller)))) ''q'' = Some row \<and>
   get_row (ig_store (fst (ex_tick ''expire'' (\<lambda>_. False) (26 * hour) (PollOK (ex_poll []))
     (fst (ex_tick ''expire'' (\<lambda>c. c = CUpsert 0) (25 * hour) (PollOK (ex_poll [ex_quake])) (ex_ingest (ex_seen (24 * hour)), newPoller)), newPoller)))) ''q'' =
     Some row"
proof -
  let ?t1 = "ex_tick ''expire'' (\<lambda>c. c = CUpsert 0) (25 * hour) (PollOK (ex_poll [ex_quake])) (ex_ingest (ex_seen (24 * hour)), newPoller)"
  have ok: "store_ok ex_gl (ig_store (fst ?t1))"
    using tick_preserves_store [where gl = ex_gl and ig = "ex_ingest (ex_seen (24 * hour))" and poll = "\<lambda>_. PollOK (ex_poll [ex_quake])" and
        env = "ex_env (25 * hour) (\<lambda>c. c = CUpsert 0)" and srcs = "[''u'']" and H = ex_hash and s = "ex_sched ''expire''" and ps = newPoller]
    by (simp add: ex_tick_def ex_seen_ok ex_seen_room)
  have "(\<lambda>st. (length (st_events st), length (st_revisions st), map_option (\<lambda>r. (er_source r, e_expires (er_proto r))) (get_row st ''q'')))
      (ig_store (fst ?t1)) = (1, 1, Some (''u'', None))"
    by code_simp
  then have len: "length (st_events (ig_store (fst ?t1))) = 1" "length (st_revisions (ig_store (fst ?t1))) = 1"
    and "map_option (\<lambda>r. (er_source r, e_expires (er_proto r))) (get_row (ig_store (fst ?t1)) ''q'') = Some (''u'', None)"
    by simp_all
  then obtain row where row: "get_row (ig_store (fst ?t1)) ''q'' = Some row" "er_source row = ''u''" "e_expires (er_proto row) = None"
    by auto
  have "get_row (ig_store (fst (ex_tick ''expire'' (\<lambda>_. False) (26 * hour) (PollOK (ex_poll [])) (fst ?t1, newPoller)))) ''q'' = Some row"
    using confirmed_survives_grace [where gl = ex_gl and ig = "ex_ingest (ex_seen (24 * hour))" and poll = "\<lambda>_. PollOK (ex_poll [ex_quake])" and
        env = "ex_env (25 * hour) (\<lambda>c. c = CUpsert 0)" and srcs = "[''u'']" and H = ex_hash and s = "ex_sched ''expire''" and ps = newPoller and
        r = "ex_poll [ex_quake]" and i = "''q''" and row = row and ?ig2.0 = "fst ?t1" and ?r2.0 = "ex_poll []" and
        ?poll2.0 = "\<lambda>_. PollOK (ex_poll [])" and ?env2.0 = "ex_env (26 * hour) (\<lambda>_. False)" and ?ps2.0 = newPoller] ok row len
    by (simp add: ex_tick_def ex_seen_ok ex_seen_room tick_room_def roomy_def polledIDs_def touchSeenCoalesce_def unix_def
        hour_def minute_def second_def)
  with row(1) show ?thesis by blast
qed

theorem skip_is_invisible_witness:
  "\<not> shouldUpsert ex_hash ex_quake False (storedHashes (ex_env hour (\<lambda>_. False)) [ex_quake] (ex_seen 0)) [] \<and>
   (\<exists>st'. UpsertEvent ex_hash ex_gl ex_quake hour (ex_seen 0) = Inr (\<lparr>ur_changed = False, ur_revision = 1\<rparr>, st'))"
proof -
  have h: "hash_equal ex_hash ex_quake (ex_seen 0)" by (simp add: hash_equal_def)
  show ?thesis
    using skip_is_invisible [OF ex_seen_ok(1) [of 0], where ev = ex_quake and evs = "[ex_quake]" and H = ex_hash and fr = False and
        env = "ex_env hour (\<lambda>_. False)" and force = "[]" and now = hour] h
    by auto
qed

definition ex_enhancing :: scheduler where
  "ex_enhancing = (ex_sched ''expire'')\<lparr>sx_enhancer := Some (\<lambda>_ _ _ _. Inl ''down''), sx_budgetPerTick := 1\<rparr>"

definition ex_alerts :: poll_result where
  "ex_alerts = ex_poll [ex_quake\<lparr>e_layer := WEATHER_ALERT\<rparr>, ex_quake\<lparr>e_layer := WEATHER_ALERT, e_id := ''p''\<rparr>]"

theorem enhancement_within_budget_witness:
  "ig_enhanceCalls (fst (safeTick ex_hash ex_gl ex_enhancing (ex_env hour (\<lambda>_. False)) [''u''] (\<lambda>_. PollOK ex_alerts)
     (ex_ingest ex_empty, newPoller))) \<le> 1"
proof -
  have "tick_room [''u''] ex_alerts ex_empty" by (simp add: tick_room_def roomy_def ex_empty_def newStore_def ex_alerts_def)
  moreover have "sx_budgetPerTick ex_enhancing = 1" by (simp add: ex_enhancing_def)
  ultimately show ?thesis
    using enhancement_within_budget [where gl = ex_gl and ig = "ex_ingest ex_empty" and r = ex_alerts and
        srcs = "[''u'']" and poll = "\<lambda>_. PollOK ex_alerts" and
        env = "ex_env hour (\<lambda>_. False)" and H = ex_hash and s = ex_enhancing and ps = newPoller]
    by (simp add: ex_empty_ok)
qed


end
