(* ===== verification/MeshFrame.thy ===== *)
theory MeshFrame
  imports Prelude Complex_Main
begin

text \<open>
  The over-the-air packets of the MeshCore feed: \<open>internal/clients/meshcore/frame.go\<close> (transport
  header and path) and \<open>advert.go\<close> (the advert payload). Bytes are 8-bit words. An index or a slice out
  of range is a panic of the Go program, kept apart from the errors it returns; \<open>verify\<close> is
  \<open>ed25519.Verify\<close>. Coordinates are rationals where Go has a \<open>float64\<close>,
  and the values Go formats into an error message are left out of it.
\<close>

unbundle bit_operations_syntax

section \<open>Returns and panics\<close>

datatype 'a go = GoPanic | GoErr string | GoOk 'a

definition gbind :: "'a go \<Rightarrow> ('a \<Rightarrow> 'b go) \<Rightarrow> 'b go" where
  "gbind r f = (case r of GoPanic \<Rightarrow> GoPanic | GoErr e \<Rightarrow> GoErr e | GoOk x \<Rightarrow> f x)"

lemma gbind_simps [simp]: "gbind GoPanic f = GoPanic" "gbind (GoErr e) f = GoErr e" "gbind (GoOk x) f = f x"
  by (simp_all add: gbind_def)

lemma gbind_GoOk: "gbind r f = GoOk y \<longleftrightarrow> (\<exists>x. r = GoOk x \<and> f x = GoOk y)"
  by (cases r) simp_all

fun gmap :: "('a \<Rightarrow> 'b go) \<Rightarrow> 'a list \<Rightarrow> 'b list go" where
  "gmap f [] = GoOk []"
| "gmap f (x # xs) = gbind (f x) (\<lambda>y. gbind (gmap f xs) (\<lambda>ys. GoOk (y # ys)))"

lemma gmap_ok: "(\<And>x. x \<in> set xs \<Longrightarrow> f x = GoOk (g x)) \<Longrightarrow> gmap f xs = GoOk (map g xs)"
  by (induction xs) simp_all

text \<open>\<open>xs[i]\<close> and \<open>xs[a:b]\<close>\<close>

definition byte_at :: "byte list \<Rightarrow> nat \<Rightarrow> byte go" where
  "byte_at xs i = (if i < length xs then GoOk (xs ! i) else GoPanic)"

definition slice :: "nat \<Rightarrow> nat \<Rightarrow> 'a list \<Rightarrow> 'a list go" where
  "slice a b xs = (if a \<le> b \<and> b \<le> length xs then GoOk (take (b - a) (drop a xs)) else GoPanic)"

lemma byte_at_ok [simp]: "i < length xs \<Longrightarrow> byte_at xs i = GoOk (xs ! i)"
  by (simp add: byte_at_def)

lemma slice_ok [simp]: "a \<le> b \<Longrightarrow> b \<le> length xs \<Longrightarrow> slice a b xs = GoOk (take (b - a) (drop a xs))"
  by (simp add: slice_def)

section \<open>The transport header\<close>

definition routeTransportFlood :: byte where "routeTransportFlood = 0x00"
definition routeFlood :: byte where "routeFlood = 0x01"
definition routeTransportDirect :: byte where "routeTransportDirect = 0x03"
definition payloadTypeAdvert :: byte where "payloadTypeAdvert = 0x04"
definition payloadTypeTrace :: byte where "payloadTypeTrace = 0x09"
definition transportCodesLen :: nat where "transportCodesLen = 4"

record frame_header =
  fh_routeType :: byte
  fh_payloadType :: byte
  fh_hashSize :: nat
  fh_path :: "string list"
  fh_payloadOffset :: nat

definition route_of :: "byte \<Rightarrow> byte" where "route_of b = b AND 0x03"
definition payload_of :: "byte \<Rightarrow> byte" where "payload_of b = drop_bit 2 b AND 0x0F"
definition hash_size_of :: "byte \<Rightarrow> nat" where "hash_size_of b = unat (drop_bit 6 b) + 1"
definition hash_count_of :: "byte \<Rightarrow> nat" where "hash_count_of b = unat (b AND 0x3F)"

definition codes_len :: "byte \<Rightarrow> nat" where
  "codes_len rt = (if rt = routeTransportFlood \<or> rt = routeTransportDirect then transportCodesLen else 0)"

definition DecodeFrameHeader :: "byte list \<Rightarrow> frame_header go" where
  "DecodeFrameHeader raw =
     (if length raw < 2 then GoErr ''meshcore: frame too short''
      else gbind (byte_at raw 0) (\<lambda>b0.
        let off = 1 + codes_len (route_of b0) in
        if off \<ge> length raw then GoErr ''meshcore: frame truncated before path_len''
        else gbind (byte_at raw off) (\<lambda>pathLen.
          let off = off + 1; hashSize = hash_size_of pathLen; hashCount = hash_count_of pathLen;
              pathBytes = hashSize * hashCount in
          if off + pathBytes > length raw then GoErr ''meshcore: frame path exceeds length''
          else gbind (slice off (off + pathBytes) raw) (\<lambda>path.
            gbind (gmap (\<lambda>i. gbind (slice (i * hashSize) ((i + 1) * hashSize) path) (\<lambda>h. GoOk (hex_encode h)))
                     [0..<hashCount]) (\<lambda>hops.
              GoOk \<lparr>fh_routeType = route_of b0, fh_payloadType = payload_of b0, fh_hashSize = hashSize,
                    fh_path = hops, fh_payloadOffset = off + pathBytes\<rparr>)))))"

definition is_flood :: "frame_header \<Rightarrow> bool" where
  "is_flood h \<longleftrightarrow> fh_routeType h = routeFlood \<or> fh_routeType h = routeTransportFlood"

text \<open>\<open>nil\<close> is the empty path.\<close>

definition RelayHops :: "frame_header \<Rightarrow> string list" where
  "RelayHops h = (if \<not> is_flood h then [] else if fh_payloadType h = payloadTypeTrace then [] else fh_path h)"

definition RouteHops :: "frame_header \<Rightarrow> string list" where
  "RouteHops h = (if is_flood h then [] else if fh_payloadType h = payloadTypeTrace then [] else fh_path h)"

section \<open>The advert payload\<close>

definition advPubKeyLen :: nat where "advPubKeyLen = 32"
definition advTimestampAt :: nat where "advTimestampAt = 32"
definition advSignatureAt :: nat where "advSignatureAt = 36"
definition advSignatureN :: nat where "advSignatureN = 64"
definition advAppDataAt :: nat where "advAppDataAt = 100"

lemmas advert_layout = advPubKeyLen_def advTimestampAt_def advSignatureAt_def advSignatureN_def advAppDataAt_def

record advert =
  av_pubKey :: string
  av_role :: string
  av_name :: "byte list"
  av_hasLocation :: bool
  av_lat :: rat
  av_lng :: rat
  av_timestamp :: time
  av_path :: "string list"
  av_hopCount :: nat
  av_signatureValid :: bool

definition decimal :: "nat \<Rightarrow> string" where
  "decimal n = (if n < 10 then [char_of (48 + n)] else [CHR ''1'', char_of (38 + n)])"

definition roleName :: "byte \<Rightarrow> string" where
  "roleName flags =
     (let r = flags AND 0x0F in
      if r = 1 then ''companion'' else if r = 2 then ''repeater'' else if r = 3 then ''room_server''
      else if r = 4 then ''sensor'' else ''unknown('' @ decimal (unat r) @ '')'')"

text \<open>\<open>binary.LittleEndian.Uint32\<close> of a slice of four bytes\<close>

definition le32 :: "byte list \<Rightarrow> 32 word" where
  "le32 bs = foldr (\<lambda>b w. ucast b OR push_bit 8 w) (take 4 bs) 0"

definition flag :: "byte \<Rightarrow> byte \<Rightarrow> bool" where "flag flags m \<longleftrightarrow> flags AND m \<noteq> 0"

definition decode_location :: "byte \<Rightarrow> byte list \<Rightarrow> nat \<Rightarrow> (nat \<times> bool \<times> rat \<times> rat) go" where
  "decode_location flags app p =
     (if \<not> flag flags 0x10 then GoOk (p, False, 0, 0)
      else if length app < p + 8 then GoErr ''meshcore: advert location flag set but app-data truncated''
      else gbind (slice p (p + 4) app) (\<lambda>a. gbind (slice (p + 4) (p + 8) app) (\<lambda>b.
        let la = of_int (sint (le32 a)) / 1000000; lo = of_int (sint (le32 b)) / 1000000 in
        if la < -90 \<or> la > 90 \<or> lo < -180 \<or> lo > 180 then GoErr ''meshcore: advert location out of range''
        else GoOk (p + 8, la \<noteq> 0 \<or> lo \<noteq> 0, la, lo))))"

definition decode_name :: "byte \<Rightarrow> byte list \<Rightarrow> nat \<Rightarrow> byte list go" where
  "decode_name flags app p =
     (let p = p + (if flag flags 0x20 then 2 else 0); p = p + (if flag flags 0x40 then 2 else 0) in
      if \<not> flag flags 0x80 then GoOk []
      else if p > length app then GoErr ''meshcore: advert name flag set but app-data truncated''
      else slice p (length app) app)"

definition decode_app :: "byte list \<Rightarrow> (string \<times> byte list \<times> bool \<times> rat \<times> rat) go" where
  "decode_app app =
     (if app = [] then GoOk (''unknown(0)'', [], False, 0, 0)
      else gbind (byte_at app 0) (\<lambda>flags.
        gbind (decode_location flags app 1) (\<lambda>(p, has, la, lo).
        gbind (decode_name flags app p) (\<lambda>name. GoOk (roleName flags, name, has, la, lo)))))"

definition DecodeAdvert :: "(byte list \<Rightarrow> byte list \<Rightarrow> byte list \<Rightarrow> bool) \<Rightarrow> byte list \<Rightarrow> advert go" where
  "DecodeAdvert verify payload =
     (if length payload < advAppDataAt then GoErr ''meshcore: advert too short''
      else gbind (slice 0 advPubKeyLen payload) (\<lambda>pub.
        gbind (slice advTimestampAt (advTimestampAt + 4) payload) (\<lambda>ts.
        gbind (slice advSignatureAt (advSignatureAt + advSignatureN) payload) (\<lambda>sig.
        gbind (slice advAppDataAt (length payload) payload) (\<lambda>app.
        gbind (decode_app app) (\<lambda>(role, name, has, la, lo).
        gbind (slice 0 advSignatureAt payload) (\<lambda>signed.
          GoOk \<lparr>av_pubKey = hex_encode pub, av_role = role, av_name = name, av_hasLocation = has, av_lat = la, av_lng = lo,
                av_timestamp = fromUnix (uint (le32 ts)), av_path = [], av_hopCount = 0,
                av_signatureValid = (length pub = 32 \<and> verify pub (signed @ app) sig)\<rparr>)))))))"

definition DecodeFrame :: "(byte list \<Rightarrow> byte list \<Rightarrow> byte list \<Rightarrow> bool) \<Rightarrow> byte list \<Rightarrow> advert go" where
  "DecodeFrame verify raw =
     (if length raw < 2 then GoErr ''meshcore: frame too short''
      else gbind (byte_at raw 0) (\<lambda>b0.
        if payload_of b0 \<noteq> payloadTypeAdvert then GoErr ''meshcore: not an ADVERT frame''
        else gbind (DecodeFrameHeader raw) (\<lambda>h.
          gbind (slice (fh_payloadOffset h) (length raw) raw) (\<lambda>payload.
          gbind (DecodeAdvert verify payload) (\<lambda>adv.
            GoOk (adv\<lparr>av_hopCount := length (fh_path h), av_path := fh_path h\<rparr>))))))"

section \<open>Decoding never panics\<close>

text \<open>The hops of a path, in chunks of the hash size.\<close>

definition hop_chunk :: "nat \<Rightarrow> byte list \<Rightarrow> nat \<Rightarrow> byte list" where
  "hop_chunk n path i = take n (drop (i * n) path)"

lemma hops_decoded:
  assumes "length path = n * k"
  shows "gmap (\<lambda>i. gbind (slice (i * n) ((i + 1) * n) path) (\<lambda>h. GoOk (hex_encode h))) [0..<k] =
    GoOk (map (\<lambda>i. hex_encode (hop_chunk n path i)) [0..<k])"
proof (rule gmap_ok)
  fix i assume "i \<in> set [0..<k]"
  then have "(i + 1) * n \<le> k * n" by (intro mult_le_mono1) simp
  then show "gbind (slice (i * n) ((i + 1) * n) path) (\<lambda>h. GoOk (hex_encode h)) = GoOk (hex_encode (hop_chunk n path i))"
    using assms by (simp add: hop_chunk_def algebra_simps)
qed

definition header_fits :: "byte list \<Rightarrow> bool" where
  "header_fits raw \<longleftrightarrow> 2 \<le> length raw \<and>
     (let off = 1 + codes_len (route_of (raw ! 0)) in
      off < length raw \<and> off + 1 + hash_size_of (raw ! off) * hash_count_of (raw ! off) \<le> length raw)"

definition header_of :: "byte list \<Rightarrow> frame_header" where
  "header_of raw =
     (let off = 1 + codes_len (route_of (raw ! 0)); n = hash_size_of (raw ! off); k = hash_count_of (raw ! off) in
      \<lparr>fh_routeType = route_of (raw ! 0), fh_payloadType = payload_of (raw ! 0), fh_hashSize = n,
       fh_path = map (\<lambda>i. hex_encode (hop_chunk n (take (n * k) (drop (off + 1) raw)) i)) [0..<k],
       fh_payloadOffset = off + 1 + n * k\<rparr>)"

text \<open>The decoder in closed form.\<close>

lemma first_byte: "\<not> length raw < 2 \<Longrightarrow> byte_at raw 0 = GoOk (raw ! 0)"
  by (intro byte_at_ok) linarith

lemma header_decoded:
  "if header_fits raw then DecodeFrameHeader raw = GoOk (header_of raw) else \<exists>e. DecodeFrameHeader raw = GoErr e"
proof (cases "2 \<le> length raw \<and> 1 + codes_len (route_of (raw ! 0)) < length raw")
  case False
  have "\<not> header_fits raw" using False by (auto simp: header_fits_def Let_def)
  moreover have "\<exists>e. DecodeFrameHeader raw = GoErr e"
  proof (cases "length raw < 2")
    case long: False
    then show ?thesis using first_byte [OF long] False by (simp add: DecodeFrameHeader_def Let_def)
  qed (simp add: DecodeFrameHeader_def)
  ultimately show ?thesis by simp
next
  case True
  let ?off = "1 + codes_len (route_of (raw ! 0))"
  let ?n = "hash_size_of (raw ! ?off)" and ?k = "hash_count_of (raw ! ?off)"
  have b: "byte_at raw 0 = GoOk (raw ! 0)" "byte_at raw ?off = GoOk (raw ! ?off)"
    using True by (auto simp: byte_at_def)
  show ?thesis
  proof (cases "?off + 1 + ?n * ?k \<le> length raw")
    case False
    then show ?thesis using True b by (simp add: header_fits_def DecodeFrameHeader_def Let_def)
  next
    case fits: True
    let ?path = "take (?n * ?k) (drop (?off + 1) raw)"
    have s: "slice (?off + 1) (?off + 1 + ?n * ?k) raw = GoOk ?path" using fits by (subst slice_ok) simp_all
    have h: "gmap (\<lambda>i. gbind (slice (i * ?n) ((i + 1) * ?n) ?path) (\<lambda>h. GoOk (hex_encode h))) [0..<?k] =
        GoOk (map (\<lambda>i. hex_encode (hop_chunk ?n ?path i)) [0..<?k])"
      by (rule hops_decoded) (use fits in simp)
    have "DecodeFrameHeader raw = GoOk (header_of raw)"
      using True fits unfolding DecodeFrameHeader_def header_of_def Let_def by (simp add: b [simplified] s [simplified] h [simplified])
    with True fits show ?thesis by (simp add: header_fits_def Let_def)
  qed
qed

lemma hash_size_bounds: "1 \<le> hash_size_of b" "hash_size_of b \<le> 4"
proof -
  have small: "unat b < 256" using unsigned_less [of b] by simp
  then have "take_bit 8 (unat b) = unat b" by (simp add: take_bit_nat_eq_self)
  then have "unat (drop_bit 6 b) = drop_bit 6 (unat b)" by (simp add: unsigned_drop_bit_eq)
  then have "unat (drop_bit 6 b) = unat b div 2 ^ 6" by (simp only: drop_bit_eq_div)
  moreover note small
  ultimately show "1 \<le> hash_size_of b" "hash_size_of b \<le> 4" by (simp_all add: hash_size_of_def)
qed

lemma hash_count_bound: "hash_count_of b \<le> 63"
proof -
  have "b AND 0x3F = take_bit 6 b" by (simp add: take_bit_eq_mask mask_eq_exp_minus_1)
  then have "unat (b AND 0x3F) = take_bit 6 (unat b)" by (simp only: unsigned_take_bit_eq)
  then have "unat (b AND 0x3F) < 2 ^ 6" by (simp only: take_bit_nat_less_exp)
  then show ?thesis by (simp add: hash_count_of_def)
qed

lemma app_no_panic: "decode_app app \<noteq> GoPanic"
proof (cases app)
  case (Cons b bs)
  have loc: "decode_location b app 1 \<noteq> GoPanic \<and> (\<forall>p r. decode_location b app 1 = GoOk (p, r) \<longrightarrow> p \<le> length app)"
    using Cons by (auto simp: decode_location_def Let_def)
  have name: "decode_name b app p \<noteq> GoPanic" for p
    by (auto simp: decode_name_def Let_def)
  show ?thesis
  proof (cases "decode_location b app 1")
    case (GoOk x)
    then show ?thesis using name [of "fst x"] Cons
      by (cases x; cases "decode_name b app (fst x)") (auto simp: decode_app_def)
  qed (use loc Cons in \<open>auto simp: decode_app_def\<close>)
qed (simp add: decode_app_def)

text \<open>A payload long enough is decoded as its parts say.\<close>

lemma advert_decoded:
  assumes "advAppDataAt \<le> length p"
  shows "DecodeAdvert verify p = gbind (decode_app (drop 100 p)) (\<lambda>(role, name, has, la, lo).
    GoOk \<lparr>av_pubKey = hex_encode (take 32 p), av_role = role, av_name = name, av_hasLocation = has, av_lat = la, av_lng = lo,
          av_timestamp = fromUnix (uint (le32 (take 4 (drop 32 p)))), av_path = [], av_hopCount = 0,
          av_signatureValid = verify (take 32 p) (take 36 p @ drop 100 p) (take 64 (drop 36 p))\<rparr>)"
  using assms by (simp add: DecodeAdvert_def advert_layout min_def split_def)

lemma advert_no_panic: "DecodeAdvert verify p \<noteq> GoPanic"
proof (cases "advAppDataAt \<le> length p")
  case True
  then show ?thesis
    using app_no_panic [of "drop 100 p"] by (cases "decode_app (drop 100 p)") (auto simp: advert_decoded split: prod.split)
next
  case False
  then show ?thesis by (simp add: DecodeAdvert_def)
qed

lemma header_offset: "DecodeFrameHeader raw = GoOk h \<Longrightarrow> fh_payloadOffset h \<le> length raw"
  using header_decoded [of raw] by (auto simp: header_fits_def header_of_def Let_def split: if_splits)

lemma header_no_panic: "DecodeFrameHeader raw \<noteq> GoPanic"
  using header_decoded [of raw] by (auto split: if_splits)

lemma frame_no_panic: "DecodeFrame verify raw \<noteq> GoPanic"
proof (cases "DecodeFrameHeader raw")
  case (GoOk hd)
  then show ?thesis
    using first_byte [of raw] advert_no_panic [of verify "drop (fh_payloadOffset hd) raw"] header_offset [OF GoOk]
    by (cases "DecodeAdvert verify (drop (fh_payloadOffset hd) raw)") (simp_all add: DecodeFrame_def)
next
  case (GoErr e)
  then show ?thesis using first_byte [of raw] by (simp add: DecodeFrame_def)
qed (simp add: header_no_panic)

text \<open>
  No packet can crash the decoder. Whatever the bytes, \<open>DecodeFrameHeader\<close> and
  \<open>DecodeFrame\<close> index and slice within bounds, and a header that decodes has a hash size from 1 to 4, at most 63
  hops of that many bytes each, and a payload that starts inside the frame right behind them.
\<close>

theorem frame_decoding_safe:
  "DecodeFrameHeader raw \<noteq> GoPanic \<and> DecodeFrame verify raw \<noteq> GoPanic \<and>
   (\<forall>h. DecodeFrameHeader raw = GoOk h \<longrightarrow> 1 \<le> fh_hashSize h \<and> fh_hashSize h \<le> 4 \<and> length (fh_path h) \<le> 63 \<and>
      (\<forall>hop \<in> set (fh_path h). length hop = 2 * fh_hashSize h) \<and>
      fh_payloadOffset h = 2 + codes_len (fh_routeType h) + fh_hashSize h * length (fh_path h) \<and>
      fh_payloadOffset h \<le> length raw)"
proof (intro conjI)
  show "DecodeFrameHeader raw \<noteq> GoPanic" by (rule header_no_panic)
  have facts: "1 \<le> fh_hashSize h \<and> fh_hashSize h \<le> 4 \<and> length (fh_path h) \<le> 63 \<and>
      (\<forall>hop \<in> set (fh_path h). length hop = 2 * fh_hashSize h) \<and>
      fh_payloadOffset h = 2 + codes_len (fh_routeType h) + fh_hashSize h * length (fh_path h) \<and>
      fh_payloadOffset h \<le> length raw" if ok: "DecodeFrameHeader raw = GoOk h" for h
  proof -
    have fit: "header_fits raw" and hd: "h = header_of raw" using header_decoded [of raw] ok by (auto split: if_splits)
    let ?off = "1 + codes_len (route_of (raw ! 0))"
    let ?n = "hash_size_of (raw ! ?off)" and ?k = "hash_count_of (raw ! ?off)"
    have len: "?off + 1 + ?n * ?k \<le> length raw" using fit by (simp add: header_fits_def Let_def)
    have "length (hop_chunk ?n (take (?n * ?k) (drop (?off + 1) raw)) i) = ?n" if "i < ?k" for i
    proof -
      have "(i + 1) * ?n \<le> ?k * ?n" using that by (intro mult_le_mono1) simp
      then show ?thesis using len by (simp add: hop_chunk_def algebra_simps)
    qed
    then have "\<forall>hop \<in> set (fh_path h). length hop = 2 * fh_hashSize h" by (auto simp: hd header_of_def Let_def)
    then show ?thesis
      using len hash_size_bounds [of "raw ! ?off"] hash_count_bound [of "raw ! ?off"] by (simp add: hd header_of_def Let_def)
  qed
  then show "\<forall>h. DecodeFrameHeader raw = GoOk h \<longrightarrow> 1 \<le> fh_hashSize h \<and> fh_hashSize h \<le> 4 \<and> length (fh_path h) \<le> 63 \<and>
      (\<forall>hop \<in> set (fh_path h). length hop = 2 * fh_hashSize h) \<and>
      fh_payloadOffset h = 2 + codes_len (fh_routeType h) + fh_hashSize h * length (fh_path h) \<and>
      fh_payloadOffset h \<le> length raw" by blast
  show "DecodeFrame verify raw \<noteq> GoPanic" by (rule frame_no_panic)
qed

section \<open>The documented layout, read back\<close>

text \<open>
  A frame as the comment of \<open>frame.go\<close> lays it out: the header byte \<open>VVPPPPRR\<close>, the transport codes, the
  packed path length, the hops, the payload.
\<close>

definition frame_bytes :: "byte \<Rightarrow> byte \<Rightarrow> byte \<Rightarrow> byte list \<Rightarrow> nat \<Rightarrow> byte list list \<Rightarrow> byte list \<Rightarrow> byte list" where
  "frame_bytes version ptype rt codes n hops payload =
     [push_bit 6 version OR push_bit 2 ptype OR rt] @ codes @
     [push_bit 6 (of_nat (n - 1)) OR of_nat (length hops)] @ concat hops @ payload"

lemma header_byte:
  fixes rt p v :: byte
  assumes "rt AND 0x03 = rt" "p AND 0x0F = p"
  shows "route_of (push_bit 6 v OR push_bit 2 p OR rt) = rt" "payload_of (push_bit 6 v OR push_bit 2 p OR rt) = p"
proof -
  have r: "rt = take_bit 2 rt" using assms(1) by (simp add: take_bit_eq_mask mask_eq_exp_minus_1)
  have p: "p = take_bit 4 p" using assms(2) by (simp add: take_bit_eq_mask mask_eq_exp_minus_1)
  have a: "route_of b = take_bit 2 b" "payload_of b = take_bit 4 (drop_bit 2 b)" for b
    by (simp_all add: route_of_def payload_of_def take_bit_eq_mask mask_eq_exp_minus_1)
  show "route_of (push_bit 6 v OR push_bit 2 p OR rt) = rt" 
    unfolding a by (subst (1 2) r, rule bit_eqI) (auto simp: bit_simps)
  show "payload_of (push_bit 6 v OR push_bit 2 p OR rt) = p"
    unfolding a by (subst r, subst (1 2) p, rule bit_eqI) (auto simp: bit_simps)
qed

text \<open>All 256 path-length bytes, by evaluation.\<close>

lemma path_len_byte_all: "\<forall>n \<in> set [1,2,3,4::nat]. \<forall>k \<in> set [0..<64].
   hash_size_of (push_bit 6 (of_nat (n - 1)) OR of_nat k) = n \<and> hash_count_of (push_bit 6 (of_nat (n - 1)) OR of_nat k) = k"
  by code_simp

lemma chunks: "\<forall>h \<in> set hops. length h = n \<Longrightarrow> i < length hops \<Longrightarrow> hop_chunk n (concat hops @ x) i = hops ! i"
  unfolding hop_chunk_def
proof (induction hops arbitrary: i)
  case (Cons h hs) then show ?case by (cases i) auto
qed simp

lemma path_len_byte:
  assumes "1 \<le> n" "n \<le> 4" "k \<le> 63"
  shows "hash_size_of (push_bit 6 (of_nat (n - 1)) OR of_nat k) = n" "hash_count_of (push_bit 6 (of_nat (n - 1)) OR of_nat k) = k"
proof -
  have "n \<in> set [1,2,3,4]" "k \<in> set [0..<64]" using assms by (auto simp del: upt_rec_numeral)
  then show "hash_size_of (push_bit 6 (of_nat (n - 1)) OR of_nat k) = n" "hash_count_of (push_bit 6 (of_nat (n - 1)) OR of_nat k) = k"
    using path_len_byte_all by blast+
qed

lemma concat_length: "\<forall>h \<in> set hops. length h = n \<Longrightarrow> length (concat hops) = n * length hops"
  by (induction hops) auto

text \<open>
  C33: the decoder reads back what the documented layout writes. For every route type, payload type,
  hash size from 1 to 4 and up to 63 hops, \<open>DecodeFrameHeader\<close> returns exactly those fields and the hops in order, and
  the payload starts at the offset it reports. The hops are relays (evidence that they forwarded the packet) exactly on
  a flood route and a source route exactly on a direct one, never both, and on a trace packet neither.
\<close>

theorem frame_roundtrip:
  assumes "rt AND 0x03 = rt" "p AND 0x0F = p" "length codes = codes_len rt" "1 \<le> n" "n \<le> 4"
    and "length hops \<le> 63" "\<forall>h \<in> set hops. length h = n"
  shows "\<exists>h. DecodeFrameHeader (frame_bytes version p rt codes n hops payload) = GoOk h \<and>
    fh_routeType h = rt \<and> fh_payloadType h = p \<and> fh_hashSize h = n \<and> fh_path h = map hex_encode hops \<and>
    drop (fh_payloadOffset h) (frame_bytes version p rt codes n hops payload) = payload \<and>
    RelayHops h = (if p \<noteq> payloadTypeTrace \<and> rt \<in> {routeFlood, routeTransportFlood} then map hex_encode hops else []) \<and>
    RouteHops h = (if p \<noteq> payloadTypeTrace \<and> rt \<notin> {routeFlood, routeTransportFlood} then map hex_encode hops else [])"
proof -
  let ?raw = "frame_bytes version p rt codes n hops payload"
  let ?k = "length hops" and ?off = "1 + codes_len rt"
  have b0: "route_of (?raw ! 0) = rt" "payload_of (?raw ! 0) = p"
    using header_byte [OF assms(1,2)] by (simp_all add: frame_bytes_def)
  have "?raw ! ?off = push_bit 6 (of_nat (n - 1)) OR of_nat ?k"
    using assms(3) by (simp add: frame_bytes_def nth_append)
  then have pl: "hash_size_of (?raw ! ?off) = n" "hash_count_of (?raw ! ?off) = ?k"
    using path_len_byte [OF assms(4,5,6)] by simp_all
  have len: "length ?raw = ?off + 1 + n * ?k + length payload"
    using assms(3) concat_length [OF assms(7)] by (simp add: frame_bytes_def)
  have rest: "drop (?off + 1) ?raw = concat hops @ payload" using assms(3) by (simp add: frame_bytes_def)
  have fits: "header_fits ?raw" unfolding header_fits_def Let_def b0 pl len by simp
  have path: "take (n * ?k) (drop (?off + 1) ?raw) = concat hops"
    unfolding rest using concat_length [OF assms(7)] by simp
  have hops: "map (\<lambda>i. hex_encode (hop_chunk n (concat hops) i)) [0..<?k] = map hex_encode hops"
    using chunks [OF assms(7), where x = "[]"] by (intro nth_equalityI) simp_all
  have hd: "header_of ?raw = \<lparr>fh_routeType = rt, fh_payloadType = p, fh_hashSize = n, fh_path = map hex_encode hops,
      fh_payloadOffset = ?off + 1 + n * ?k\<rparr>"
    unfolding header_of_def Let_def b0 pl path hops by simp
  have "drop (?off + 1 + n * ?k) ?raw = drop (n * ?k) (drop (?off + 1) ?raw)" by (simp add: add.commute)
  then have off: "drop (?off + 1 + n * ?k) ?raw = payload"
    unfolding rest using concat_length [OF assms(7)] by simp
  have "DecodeFrameHeader ?raw = GoOk (header_of ?raw)" using header_decoded [of ?raw] fits by simp
  then show ?thesis using off by (auto simp: hd RelayHops_def RouteHops_def is_flood_def)
qed

theorem frame_roundtrip_witness:
  "\<exists>h. DecodeFrameHeader (frame_bytes 0 4 0 [1, 2, 3, 4] 2 [[0xAB, 0x07], [0x2C, 0xFE]] [9, 9]) = GoOk h \<and>
    RelayHops h = [''ab07'', ''2cfe'']"
proof -
  have "map hex_encode [[0xAB, 0x07], [0x2C, 0xFE]] = [''ab07'', ''2cfe'']" by code_simp
  then show ?thesis
    using frame_roundtrip [of 0 4 "[1, 2, 3, 4]" 2 "[[0xAB, 0x07], [0x2C, 0xFE]]" 0 "[9, 9]"]
    by (auto simp: codes_len_def routeTransportFlood_def routeFlood_def transportCodesLen_def payloadTypeTrace_def)
qed

section \<open>What an advert may be trusted for\<close>

lemma advert_signed:
  assumes "DecodeFrame verify raw = GoOk a" "av_signatureValid a"
  shows "\<exists>pre pub ts sig app role name has la lo.
    raw = pre @ pub @ ts @ sig @ app \<and> length pub = 32 \<and> length ts = 4 \<and> length sig = 64 \<and>
    verify pub (pub @ ts @ app) sig \<and> decode_app app = GoOk (role, name, has, la, lo) \<and>
    a = \<lparr>av_pubKey = hex_encode pub, av_role = role, av_name = name, av_hasLocation = has, av_lat = la, av_lng = lo,
         av_timestamp = fromUnix (uint (le32 ts)), av_path = av_path a, av_hopCount = length (av_path a),
         av_signatureValid = True\<rparr>"
proof -
  obtain h where h: "DecodeFrameHeader raw = GoOk h"
    using assms(1) first_byte [of raw] by (auto simp: DecodeFrame_def gbind_GoOk split: if_splits)
  have off: "fh_payloadOffset h \<le> length raw" by (rule header_offset [OF h])
  define p where "p = drop (fh_payloadOffset h) raw"
  obtain b where b: "DecodeAdvert verify p = GoOk b" and a: "a = b\<lparr>av_hopCount := length (fh_path h), av_path := fh_path h\<rparr>"
    using assms(1) first_byte [of raw] h off by (auto simp: DecodeFrame_def gbind_GoOk p_def split: if_splits)
  have len: "advAppDataAt \<le> length p" using b by (auto simp: DecodeAdvert_def split: if_splits)
  have parts: "p = take 32 p @ take 4 (drop 32 p) @ take 64 (drop 36 p) @ drop 100 p"
  proof -
    have "drop 36 p = drop 4 (drop 32 p)" "drop 100 p = drop 64 (drop 36 p)" by simp_all
    then show ?thesis by (metis append_take_drop_id)
  qed
  obtain role name has la lo where app: "decode_app (drop 100 p) = GoOk (role, name, has, la, lo)"
    and bb: "b = \<lparr>av_pubKey = hex_encode (take 32 p), av_role = role, av_name = name, av_hasLocation = has, av_lat = la, av_lng = lo,
          av_timestamp = fromUnix (uint (le32 (take 4 (drop 32 p)))), av_path = [], av_hopCount = 0,
          av_signatureValid = verify (take 32 p) (take 36 p @ drop 100 p) (take 64 (drop 36 p))\<rparr>"
    using b by (auto simp: advert_decoded [OF len] gbind_GoOk)
  have msg: "take 36 p = take 32 p @ take 4 (drop 32 p)" using take_add [of 32 4 p] by simp
  have lens: "length (take 32 p) = 32" "length (take 4 (drop 32 p)) = 4" "length (take 64 (drop 36 p)) = 64"
    using len by (simp_all add: advert_layout)
  have raw: "raw = take (fh_payloadOffset h) raw @ take 32 p @ take 4 (drop 32 p) @ take 64 (drop 36 p) @ drop 100 p"
    unfolding parts [symmetric] by (simp add: p_def)
  have valid: "verify (take 32 p) (take 36 p @ drop 100 p) (take 64 (drop 36 p))" using assms(2) by (simp add: a bb)
  then have sig: "verify (take 32 p) (take 32 p @ take 4 (drop 32 p) @ drop 100 p) (take 64 (drop 36 p))"
    by (simp only: msg append_assoc)
  show ?thesis
    by (rule exI [of _ "take (fh_payloadOffset h) raw"], rule exI [of _ "take 32 p"], rule exI [of _ "take 4 (drop 32 p)"],
        rule exI [of _ "take 64 (drop 36 p)"], rule exI [of _ "drop 100 p"], rule exI [of _ role], rule exI [of _ name],
        rule exI [of _ has], rule exI [of _ la], rule exI [of _ lo])
      (intro conjI, fact raw, fact lens(1), fact lens(2), fact lens(3), fact sig, fact app, simp add: a bb valid)
qed

text \<open>
  What an advert with a valid signature says is what its key signed. The node's key, its timestamp,
  role, name and location are functions of the bytes the signature covers, in the order key, timestamp, app data; only
  the path (and the hop count, its length) comes from the unsigned frame around them.
\<close>

theorem advert_is_signed:
  assumes "DecodeFrame verify raw = GoOk a" "av_signatureValid a"
  shows "\<exists>pre pub ts sig app role name has la lo.
    raw = pre @ pub @ ts @ sig @ app \<and> length pub = 32 \<and> length ts = 4 \<and> length sig = 64 \<and>
    verify pub (pub @ ts @ app) sig \<and> decode_app app = GoOk (role, name, has, la, lo) \<and>
    a = \<lparr>av_pubKey = hex_encode pub, av_role = role, av_name = name, av_hasLocation = has, av_lat = la, av_lng = lo,
         av_timestamp = fromUnix (uint (le32 ts)), av_path = av_path a, av_hopCount = length (av_path a),
         av_signatureValid = True\<rparr>"
  by (rule advert_signed [OF assms])

text \<open>An advert of a repeater called Hi, relayed once.\<close>

definition demo_frame :: "byte list" where
  "demo_frame = [0x11, 0x01, 0xAB] @ replicate 32 7 @ [1, 2, 0, 0] @ replicate 64 9 @ [0x82, 0x48, 0x69]"

theorem advert_is_signed_witness:
  "\<exists>a pre pub ts sig app. DecodeFrame (\<lambda>pub msg sig. sig = replicate 64 (pub ! 0 + 2)) demo_frame = GoOk a \<and>
    demo_frame = pre @ pub @ ts @ sig @ app \<and> sig = replicate 64 (pub ! 0 + 2) \<and> av_pubKey a = hex_encode pub \<and>
    av_role a = ''repeater'' \<and> av_path a = [''ab'']"
proof -
  let ?v = "\<lambda>pub msg sig :: byte list. sig = replicate 64 (pub ! 0 + 2)"
  have "(case DecodeFrame ?v demo_frame of GoOk a \<Rightarrow> av_signatureValid a \<and> av_role a = ''repeater'' \<and> av_path a = [''ab''] | _ \<Rightarrow> False)"
    by code_simp
  then obtain a where a: "DecodeFrame ?v demo_frame = GoOk a" and s: "av_signatureValid a" "av_role a = ''repeater''" "av_path a = [''ab'']"
    by (cases "DecodeFrame ?v demo_frame") simp_all
  obtain pre pub ts sig app where "demo_frame = pre @ pub @ ts @ sig @ app" "sig = replicate 64 (pub ! 0 + 2)"
      "av_pubKey a = hex_encode pub"
    using advert_is_signed [OF a s(1)] by (metis advert.select_convs(1))
  with a s show ?thesis by blast
qed

theorem frame_decoding_safe_witness:
  "\<exists>h. DecodeFrameHeader demo_frame = GoOk h \<and> fh_path h = [''ab''] \<and> fh_hashSize h \<le> 4 \<and>
    fh_payloadOffset h = 2 + codes_len (fh_routeType h) + fh_hashSize h * length (fh_path h) \<and>
    fh_payloadOffset h \<le> length demo_frame"
proof -
  have "(case DecodeFrameHeader demo_frame of GoOk h \<Rightarrow> fh_path h = [''ab''] | _ \<Rightarrow> False)" by code_simp
  then obtain h where "DecodeFrameHeader demo_frame = GoOk h" "fh_path h = [''ab'']"
    by (cases "DecodeFrameHeader demo_frame") simp_all
  with frame_decoding_safe [of demo_frame "\<lambda>_ _ _. True"] show ?thesis by blast
qed

end
