(* ===== verification/MeshRelay.thy ===== *)
theory MeshRelay
  imports MeshFrame
begin

text \<open>
  Relay attribution, \<open>internal/clients/meshcore/relay.go\<close> with the prefix index of \<open>client.go\<close>: the
  buffered paths, the neighbour graph and the two rules that turn a hop into a node. Go's maps are keyed tables
  (the order of a table is one of the orders a \<open>range\<close> may take; the lemmas below say where it does not matter),
  and the empty string is Go's \<open>""\<close>. The methods of the registry that use all this are in \<open>MeshRegistry\<close>.
\<close>

section \<open>Paths and their buffers\<close>

record known_node =
  kn_pubKey :: string
  kn_role :: string

record seed_path =
  sp_hops :: "string list"
  sp_observer :: string
  sp_sender :: string
  sp_at :: time

record relay_path =
  rp_hops :: "string list"
  rp_observer :: string
  rp_sender :: string

record relay_entry =
  re_path :: relay_path
  re_at :: time

definition maxRelayPaths :: nat where "maxRelayPaths = 50000"
definition AdjacencyRetention :: duration where "AdjacencyRetention = 30 * 24 * hour"
definition fullKeyHex :: nat where "fullKeyHex = 64"

definition canRelay :: "string \<Rightarrow> bool" where
  "canRelay role \<longleftrightarrow> role \<noteq> ''companion'' \<and> role \<noteq> ''sensor''"

definition anchorKey :: "string \<Rightarrow> string" where "anchorKey observer = toLower (trimSpace observer)"

type_synonym path_buf = "(string \<times> relay_entry) list"

definition buffer_path :: "string \<Rightarrow> relay_path \<Rightarrow> time \<Rightarrow> path_buf \<Rightarrow> path_buf" where
  "buffer_path key p t buf =
     (case tbl_get fst key buf of
        None \<Rightarrow> if length buf \<ge> maxRelayPaths then buf
                else tbl_put fst (key, \<lparr>re_path = p, re_at = max zeroTime t\<rparr>) buf
      | Some (_, e) \<Rightarrow> tbl_put fst (key, if t > re_at e then e\<lparr>re_at := t\<rparr> else e) buf)"

definition recordRelays :: "string list \<Rightarrow> string \<Rightarrow> string \<Rightarrow> time \<Rightarrow> path_buf \<Rightarrow> path_buf" where
  "recordRelays hops observer sender t buf =
     (if hops = [] \<and> sender = [] then buf
      else let observer = anchorKey observer; sender = toLower sender in
        buffer_path (observer @ ''|'' @ sender @ ''|'' @ join_with CHR '','' hops)
          \<lparr>rp_hops = hops, rp_observer = observer, rp_sender = sender\<rparr> t buf)"

definition recordRoute :: "string list \<Rightarrow> time \<Rightarrow> path_buf \<Rightarrow> path_buf" where
  "recordRoute hops t buf =
     buffer_path (join_with CHR '','' hops) \<lparr>rp_hops = hops, rp_observer = [], rp_sender = []\<rparr> t buf"

section \<open>Rule 1: by prefix\<close>

definition prefixLens :: "nat list" where "prefixLens = [2, 4, 6]"

text \<open>The index is the list of its (prefix, key) pairs; \<open>cands\<close> is \<open>idx[h]\<close>.\<close>

definition prefixIndex :: "string list \<Rightarrow> (string \<times> string) list" where
  "prefixIndex keys =
     concat (map (\<lambda>pk. concat (map (\<lambda>n. if length pk \<ge> n then [(take n pk, pk)] else []) prefixLens)) keys)"

definition cands :: "(string \<times> string) list \<Rightarrow> string \<Rightarrow> string list" where
  "cands idx h = map snd (filter (\<lambda>e. fst e = h) idx)"

definition relayIndex :: "(string \<times> string) list \<Rightarrow> (string \<times> string) list" where
  "relayIndex roles = prefixIndex (map fst (filter (\<lambda>(pk, role). length pk = fullKeyHex \<and> canRelay role) roles))"

definition only_cand :: "(string \<times> string) list \<Rightarrow> string \<Rightarrow> string" where
  "only_cand idx h = (case cands idx h of [c] \<Rightarrow> c | _ \<Rightarrow> [])"

definition resolveByPrefix :: "string list \<Rightarrow> (string \<times> string) list \<Rightarrow> string list" where
  "resolveByPrefix hops idx =
     (if hops = [] \<or> length (hops ! 0) < 4 then replicate (length hops) [] else map (only_cand idx) hops)"

section \<open>The neighbour graph\<close>

type_synonym adjacency = "(string \<times> (string \<times> time) list) list"

definition adj_of :: "string \<Rightarrow> adjacency \<Rightarrow> (string \<times> time) list" where
  "adj_of a adj = (case tbl_get fst a adj of None \<Rightarrow> [] | Some (_, m) \<Rightarrow> m)"

definition link_time :: "string \<Rightarrow> (string \<times> time) list \<Rightarrow> time" where
  "link_time b m = (case tbl_get fst b m of None \<Rightarrow> zeroTime | Some (_, t) \<Rightarrow> t)"

definition addDirected :: "string \<Rightarrow> string \<Rightarrow> time \<Rightarrow> adjacency \<Rightarrow> adjacency" where
  "addDirected a b t adj =
     (let m = adj_of a adj in tbl_put fst (a, if t > link_time b m then tbl_put fst (b, t) m else m) adj)"

definition addEdge :: "string \<Rightarrow> string \<Rightarrow> time \<Rightarrow> adjacency \<Rightarrow> adjacency" where
  "addEdge a b t adj = (if a = [] \<or> b = [] \<or> a = b then adj else addDirected b a t (addDirected a b t adj))"

fun learn_chain :: "string list \<Rightarrow> time \<Rightarrow> adjacency \<Rightarrow> adjacency" where
  "learn_chain (a # b # cs) t adj = learn_chain (b # cs) t (addEdge a b t adj)"
| "learn_chain _ t adj = adj"

definition learn :: "relay_path \<Rightarrow> string list \<Rightarrow> time \<Rightarrow> adjacency \<Rightarrow> adjacency" where
  "learn p res t adj = learn_chain (rp_sender p # res @ [rp_observer p]) t adj"

definition pruneAdjacency :: "time \<Rightarrow> adjacency \<Rightarrow> adjacency" where
  "pruneAdjacency now adj =
     filter (\<lambda>(a, m). m \<noteq> []) (map (\<lambda>(a, m). (a, filter (\<lambda>(b, t). now - t \<le> AdjacencyRetention) m)) adj)"

section \<open>Rule 2: by neighbourhood\<close>

definition creditable :: "(string \<times> string) list \<Rightarrow> string \<Rightarrow> string \<Rightarrow> bool" where
  "creditable roles hop nb \<longleftrightarrow> length nb = fullKeyHex \<and> hasPrefix nb hop \<and>
     (case tbl_get fst nb roles of None \<Rightarrow> False | Some (_, role) \<Rightarrow> canRelay role)"

definition scan_nb :: "(string \<times> string) list \<Rightarrow> string \<Rightarrow> string \<times> nat \<Rightarrow> string \<Rightarrow> string \<times> nat" where
  "scan_nb roles hop = (\<lambda>(pick, count) nb. if nb = pick \<or> \<not> creditable roles hop nb then (pick, count) else (nb, count + 1))"

definition anchor_nbs :: "adjacency \<Rightarrow> string \<Rightarrow> string list" where
  "anchor_nbs adj anchor = (if anchor = [] then [] else map fst (adj_of anchor adj))"

definition left_of :: "relay_path \<Rightarrow> string list \<Rightarrow> nat \<Rightarrow> string" where
  "left_of p res i = (if i > 0 then res ! (i - 1) else rp_sender p)"

definition right_of :: "relay_path \<Rightarrow> string list \<Rightarrow> nat \<Rightarrow> string" where
  "right_of p res i = (if i < length (rp_hops p) - 1 then res ! (i + 1) else rp_observer p)"

definition pick_at :: "adjacency \<Rightarrow> (string \<times> string) list \<Rightarrow> relay_path \<Rightarrow> string list \<Rightarrow> nat \<Rightarrow> string \<times> nat" where
  "pick_at adj roles p res i =
     foldl (scan_nb roles (rp_hops p ! i)) ([], 0)
       (anchor_nbs adj (left_of p res i) @ anchor_nbs adj (right_of p res i))"

definition resolve_at :: "adjacency \<Rightarrow> (string \<times> string) list \<Rightarrow> relay_path \<Rightarrow> nat \<Rightarrow> string list \<times> bool \<Rightarrow> string list \<times> bool" where
  "resolve_at adj roles p i = (\<lambda>(res, changed).
     if res ! i \<noteq> [] then (res, changed)
     else case pick_at adj roles p res i of (pick, count) \<Rightarrow>
       if count = 1 then (res[i := pick], True) else (res, changed))"

text \<open>
  One pass over the hops. \<open>res\<close> has one entry per hop (\<open>resolveByPrefix\<close> made it), so the second bound never bites.
\<close>

definition resolve_pass :: "adjacency \<Rightarrow> (string \<times> string) list \<Rightarrow> relay_path \<Rightarrow> string list \<Rightarrow> string list \<times> bool" where
  "resolve_pass adj roles p res = fold (resolve_at adj roles p) [0..<min (length (rp_hops p)) (length res)] (res, False)"

definition holes :: "string list \<Rightarrow> nat" where "holes res = length (filter (\<lambda>s. s = []) res)"


subsection \<open>A pick is the only candidate\<close>

lemma scan_nbs:
  fixes xs :: "string list" and roles hop
  defines "C \<equiv> {nb \<in> set xs. creditable roles hop nb}" and "r \<equiv> foldl (scan_nb roles hop) ([], 0) xs"
  shows "(C = {} \<longrightarrow> r = ([], 0)) \<and> (\<forall>c. C = {c} \<longrightarrow> r = (c, 1)) \<and> ((\<exists>a \<in> C. \<exists>b \<in> C. a \<noteq> b) \<longrightarrow> 2 \<le> snd r)"
  unfolding C_def r_def
proof (induction xs rule: rev_induct)
  case Nil
  then show ?case by simp
next
  case (snoc x xs)
  let ?C = "{nb \<in> set xs. creditable roles hop nb}" and ?r = "foldl (scan_nb roles hop) ([], 0) xs"
  let ?C' = "{nb \<in> set (xs @ [x]). creditable roles hop nb}"
  obtain pick n where r: "?r = (pick, n)" by (cases ?r)
  have split: "?C' = (if creditable roles hop x then insert x ?C else ?C)" by auto
  have ne: "creditable roles hop x \<Longrightarrow> x \<noteq> []" by (auto simp: creditable_def fullKeyHex_def)
  consider "?C = {}" | c where "?C = {c}" | "\<exists>a \<in> ?C. \<exists>b \<in> ?C. a \<noteq> b" by blast
  then show ?case
  proof cases
    case 1
    then show ?thesis using snoc.IH r ne unfolding split by (auto simp: scan_nb_def)
  next
    case (2 c)
    then have "?r = (c, 1)" using snoc.IH by simp
    then have r': "foldl (scan_nb roles hop) ([], 0) (xs @ [x]) = (if x = c \<or> \<not> creditable roles hop x then (c, 1) else (x, 2))"
      by (simp add: scan_nb_def)
    show ?thesis
    proof (cases "x = c \<or> \<not> creditable roles hop x")
      case True
      then have "?C' = {c}" unfolding split using 2 by auto
      then show ?thesis using r' True by simp
    next
      case False
      then have "?C' = {x, c}" "x \<noteq> c" unfolding split using 2 by auto
      then have "?C' \<noteq> {}" "\<forall>c. ?C' \<noteq> {c}" by (simp_all add: doubleton_eq_iff)
      then show ?thesis using r' False by simp
    qed
  next
    case 3
    then have "2 \<le> n" using snoc.IH r by simp
    then have two: "2 \<le> snd (foldl (scan_nb roles hop) ([], 0) (xs @ [x]))" using r by (simp add: scan_nb_def)
    obtain a b where ab: "a \<in> ?C" "b \<in> ?C" "a \<noteq> b" using 3 by blast
    then have "a \<in> ?C'" "b \<in> ?C'" by simp_all
    then have "?C' \<noteq> {}" "\<forall>c. ?C' \<noteq> {c}" using ab(3) by (metis empty_iff, metis singletonD)
    then show ?thesis using two by (intro conjI impI allI) (blast | assumption)+
  qed
qed

lemma scan_nbs_one:
  "snd (foldl (scan_nb roles hop) ([], 0) xs) = 1 \<longleftrightarrow>
     (\<exists>c. {nb \<in> set xs. creditable roles hop nb} = {c} \<and> fst (foldl (scan_nb roles hop) ([], 0) xs) = c)"
proof -
  let ?C = "{nb \<in> set xs. creditable roles hop nb}"
  consider "?C = {}" | c where "?C = {c}" | "\<exists>a \<in> ?C. \<exists>b \<in> ?C. a \<noteq> b" by blast
  then show ?thesis
  proof cases
    case 3
    then have "2 \<le> snd (foldl (scan_nb roles hop) ([], 0) xs)" using scan_nbs [where xs = xs and roles = roles and hop = hop] by blast
    moreover have "\<forall>c. ?C \<noteq> {c}" using 3 by (metis singletonD)
    ultimately show ?thesis by auto
  qed (use scan_nbs [of xs roles hop] in auto)
qed

definition candidates_at :: "adjacency \<Rightarrow> (string \<times> string) list \<Rightarrow> relay_path \<Rightarrow> string list \<Rightarrow> nat \<Rightarrow> string set" where
  "candidates_at adj roles p res i =
     {nb \<in> set (anchor_nbs adj (left_of p res i)) \<union> set (anchor_nbs adj (right_of p res i)). creditable roles (rp_hops p ! i) nb}"

lemma pick_at_one: "snd (pick_at adj roles p res i) = 1 \<longleftrightarrow>
    (\<exists>c. candidates_at adj roles p res i = {c} \<and> fst (pick_at adj roles p res i) = c)"
  unfolding pick_at_def candidates_at_def set_append [symmetric] by (rule scan_nbs_one)

subsection \<open>The loop ends\<close>

lemma holes_update: "i < length res \<Longrightarrow> res ! i = [] \<Longrightarrow> s \<noteq> [] \<Longrightarrow> holes (res[i := s]) < holes res"
proof (induction res arbitrary: i)
  case (Cons r rs)
  then show ?case by (cases i) (auto simp: holes_def)
qed simp

lemma creditable_ne: "creditable roles hop nb \<Longrightarrow> nb \<noteq> []"
  by (auto simp: creditable_def fullKeyHex_def)

lemma resolve_at_holes:
  assumes "i < length res"
  shows "resolve_at adj roles p i (res, ch) = (res, ch) \<or>
    (\<exists>c. resolve_at adj roles p i (res, ch) = (res[i := c], True) \<and> res ! i = [] \<and> candidates_at adj roles p res i = {c})"
  using pick_at_one [of adj roles p res i] by (auto simp: resolve_at_def split: prod.split)

lemma resolve_fold_holes:
  assumes "\<forall>i \<in> set is. i < length res" "fold (resolve_at adj roles p) is (res, ch) = (res', ch')"
  shows "length res' = length res \<and> (res' = res \<and> ch' = ch \<or> ch' \<and> holes res' < holes res)"
  using assms
proof (induction "is" arbitrary: res ch)
  case (Cons i "is")
  have i: "i < length res" using Cons.prems(1) by simp
  obtain r c where rc: "resolve_at adj roles p i (res, ch) = (r, c)" by (cases "resolve_at adj roles p i (res, ch)")
  have f: "fold (resolve_at adj roles p) is (r, c) = (res', ch')" using Cons.prems(2) rc by simp
  consider "r = res" "c = ch" | x where "r = res[i := x]" "c" "res ! i = []" "candidates_at adj roles p res i = {x}"
    using resolve_at_holes [OF i, of adj roles p ch] rc by auto
  then show ?case
  proof cases
    case 1
    then show ?thesis using Cons.IH [OF _ f] Cons.prems(1) by simp
  next
    case (2 x)
    then have "x \<noteq> []" using creditable_ne by (auto simp: candidates_at_def)
    then have "holes r < holes res" using 2 holes_update [OF i] by simp
    moreover have "\<forall>i \<in> set is. i < length r" using 2(1) Cons.prems(1) by simp
    ultimately have IH: "length res' = length r" "res' = r \<and> ch' = c \<or> ch' \<and> holes res' < holes r" and less: "holes r < holes res"
      using Cons.IH [OF _ f] by blast+
    from IH(2) have "ch' \<and> holes res' < holes res"
    proof (elim disjE conjE)
      assume "res' = r" "ch' = c"
      then show ?thesis using less 2(2) by simp
    next
      assume "ch'" "holes res' < holes r"
      then show ?thesis using less by simp
    qed
    then show ?thesis using IH(1) 2(1) by simp
  qed
qed simp

lemma resolve_pass_holes:
  "resolve_pass adj roles p res = (res', ch) \<Longrightarrow>
     length res' = length res \<and> (res' = res \<and> \<not> ch \<or> ch \<and> holes res' < holes res)"
  unfolding resolve_pass_def by (drule resolve_fold_holes [rotated]) auto

function resolveByNeighbours :: "adjacency \<Rightarrow> (string \<times> string) list \<Rightarrow> relay_path \<Rightarrow> string list \<Rightarrow> string list" where
  "resolveByNeighbours adj roles p res =
     (case resolve_pass adj roles p res of (res', changed) \<Rightarrow>
        if changed then resolveByNeighbours adj roles p res' else res')"
  by pat_completeness auto
termination
  by (relation "measure (\<lambda>(adj, roles, p, res). holes res)") (auto dest: resolve_pass_holes [OF sym])

declare resolveByNeighbours.simps [simp del]

end
