(* ===== verification/MeshRegistry.thy ===== *)
theory MeshRegistry
  imports MeshRelay
begin

text \<open>
  The node registry of the MeshCore feed, \<open>internal/clients/meshcore/client.go\<close>, \<open>nodeid.go\<close> and the methods of
  \<open>relay.go\<close>: what an advert, a relayed packet, a seed and a drain do to it, and which nodes it presents. Each
  operation runs under the registry's lock and reads the clock once, so it is one step with the instant as an argument.
  The MQTT client, the JSON of an envelope and the text of a time are not modelled. The smoothed interval is an exact
  quotient where Go rounds a \<open>float64\<close>.
\<close>

section \<open>The registry's state\<close>

record mesh_config =
  mc_requireValidSignature :: bool
  mc_retainFor :: duration
  mc_spamFloor :: duration
  mc_cadenceK :: rat
  mc_graceFloor :: duration
  mc_graceCeil :: duration
  mc_silenceAfter :: duration
  mc_relayPresence :: duration

record observation =
  ob_pubKey :: string
  ob_heardAt :: time
  ob_broker :: string
  ob_gateway :: string
  ob_snr :: rat
  ob_rssi :: int
  ob_hopCount :: nat
  ob_path :: "string list"
  ob_pathNodes :: "string list"

definition maxObsBuffer :: nat where "maxObsBuffer = 100000"

record node_state =
  ns_pubKey :: string
  ns_role :: string
  ns_name :: "byte list"
  ns_hasLocation :: bool
  ns_lat :: rat
  ns_lng :: rat
  ns_brokers :: "string list"
  ns_snr :: rat
  ns_rssi :: int
  ns_hopCount :: nat
  ns_gateways :: "string list"
  ns_lastAdvertAt :: time
  ns_lastHeardAt :: time
  ns_receivedAt :: time
  ns_lastRelayedAt :: time
  ns_hasSignal :: bool

text \<open>\<open>ne_cadenceAt\<close> is the unexported \<open>lastAdvertAt\<close>; the two sets are lists without repetition.\<close>

record node_entry =
  ne_state :: node_state
  ne_gateways :: "string list"
  ne_brokers :: "string list"
  ne_cadenceAt :: time
  ne_ewma :: duration
  ne_adverts :: nat

definition ne_key :: "node_entry \<Rightarrow> string" where "ne_key e = ns_pubKey (ne_state e)"

record registry =
  rg_cfg :: mesh_config
  rg_nodes :: "node_entry list"
  rg_obsBuf :: "observation list"
  rg_obsGate :: "(string \<times> time) list"
  rg_relayBuf :: path_buf
  rg_routeBuf :: path_buf
  rg_adj :: adjacency

definition NewRegistry :: "mesh_config \<Rightarrow> registry" where
  "NewRegistry cfg =
     (let cfg = (if mc_cadenceK cfg \<le> 0 then cfg\<lparr>mc_cadenceK := 3\<rparr> else cfg);
          cfg = (if mc_graceFloor cfg \<le> 0 then cfg\<lparr>mc_graceFloor := 3 * hour\<rparr> else cfg);
          cfg = (if mc_graceCeil cfg \<le> 0 then cfg\<lparr>mc_graceCeil := 72 * hour\<rparr> else cfg);
          cfg = (if mc_retainFor cfg \<le> 0 then cfg\<lparr>mc_retainFor := mc_graceCeil cfg\<rparr> else cfg) in
      \<lparr>rg_cfg = cfg, rg_nodes = [], rg_obsBuf = [], rg_obsGate = [], rg_relayBuf = [], rg_routeBuf = [], rg_adj = []\<rparr>)"

definition empty_state :: node_state where
  "empty_state = \<lparr>ns_pubKey = [], ns_role = [], ns_name = [], ns_hasLocation = False, ns_lat = 0, ns_lng = 0, ns_brokers = [],
     ns_snr = 0, ns_rssi = 0, ns_hopCount = 0, ns_gateways = [], ns_lastAdvertAt = zeroTime, ns_lastHeardAt = zeroTime,
     ns_receivedAt = zeroTime, ns_lastRelayedAt = zeroTime, ns_hasSignal = False\<rparr>"

definition new_entry :: "string \<Rightarrow> node_entry" where
  "new_entry pk = \<lparr>ne_state = empty_state\<lparr>ns_pubKey := pk\<rparr>, ne_gateways = [], ne_brokers = [], ne_cadenceAt = zeroTime,
     ne_ewma = 0, ne_adverts = 0\<rparr>"

definition entry_of :: "string \<Rightarrow> node_entry list \<Rightarrow> node_entry" where
  "entry_of pk nodes = (case tbl_get ne_key pk nodes of None \<Rightarrow> new_entry pk | Some e \<Rightarrow> e)"

section \<open>Cadence and presence\<close>

definition minCadenceSample :: duration where "minCadenceSample = 30 * second"

definition recordCadence :: "time \<Rightarrow> node_entry \<Rightarrow> node_entry" where
  "recordCadence t e =
     (if isZero (ne_cadenceAt e) then e\<lparr>ne_cadenceAt := t, ne_adverts := 1\<rparr>
      else let gap = t - ne_cadenceAt e in
        if gap < minCadenceSample then e
        else e\<lparr>ne_ewma := (if ne_ewma e \<le> 0 then gap else quot (3 * gap + 7 * ne_ewma e) 10),
               ne_cadenceAt := t, ne_adverts := ne_adverts e + 1\<rparr>)"

definition presenceWindow :: "mesh_config \<Rightarrow> node_entry \<Rightarrow> duration" where
  "presenceWindow cfg e =
     (if ne_adverts e < 2 \<or> ne_ewma e \<le> 0 then mc_graceFloor cfg
      else let w = \<lfloor>mc_cadenceK cfg * of_int (ne_ewma e)\<rfloor> in
        if w < mc_graceFloor cfg then mc_graceFloor cfg
        else if w > mc_graceCeil cfg then mc_graceCeil cfg else w)"

definition present :: "mesh_config \<Rightarrow> time \<Rightarrow> node_entry \<Rightarrow> bool" where
  "present cfg now e \<longleftrightarrow> now - ns_lastHeardAt (ne_state e) \<le> presenceWindow cfg e \<or>
     (mc_relayPresence cfg > 0 \<and> \<not> isZero (ns_lastRelayedAt (ne_state e)) \<and>
      now - ns_lastRelayedAt (ne_state e) \<le> mc_relayPresence cfg)"

definition last_sign :: "node_entry \<Rightarrow> time" where
  "last_sign e = (let h = ns_lastHeardAt (ne_state e); r = ns_lastRelayedAt (ne_state e) in if r > h then r else h)"

definition prune :: "time \<Rightarrow> registry \<Rightarrow> registry" where
  "prune now r =
     (let keep = mc_retainFor (rg_cfg r) in
      if keep \<le> 0 then r
      else r\<lparr>rg_nodes := filter (\<lambda>e. now - last_sign e \<le> keep) (rg_nodes r),
             rg_obsGate := filter (\<lambda>(k, t). now - t \<le> keep) (rg_obsGate r)\<rparr>)"

definition sortedKeys :: "string list \<Rightarrow> string list" where "sortedKeys xs = sort (remdups xs)"

definition Snapshot :: "time \<Rightarrow> registry \<Rightarrow> node_state list \<times> registry" where
  "Snapshot now r =
     (let r = prune now r in
      (map (\<lambda>e. (ne_state e)\<lparr>ns_gateways := sortedKeys (ne_gateways e), ns_brokers := sortedKeys (ne_brokers e)\<rparr>)
         (filter (present (rg_cfg r) now) (rg_nodes r)), r))"

section \<open>Seeding\<close>

record seed_node =
  sn_pubKey :: string
  sn_role :: string
  sn_name :: "byte list"
  sn_hasLocation :: bool
  sn_lat :: rat
  sn_lng :: rat
  sn_lastHeard :: time
  sn_heardTimes :: "time list"
  sn_lastReceived :: time
  sn_lastRelayed :: time

definition replay :: "time \<Rightarrow> node_entry \<Rightarrow> node_entry" where
  "replay t e =
     (let e = recordCadence t e in
      if t > ns_receivedAt (ne_state e) then e\<lparr>ne_state := (ne_state e)\<lparr>ns_receivedAt := t\<rparr>\<rparr> else e)"

definition seed_clocks :: "seed_node \<Rightarrow> node_state \<Rightarrow> node_state" where
  "seed_clocks sn s =
     (let s = (if sn_lastReceived sn > ns_receivedAt s then s\<lparr>ns_receivedAt := sn_lastReceived sn\<rparr> else s);
          s = s\<lparr>ns_lastHeardAt := (if isZero (ns_receivedAt s) then sn_lastHeard sn else ns_receivedAt s)\<rparr> in
      if sn_lastRelayed sn > ns_lastRelayedAt s then s\<lparr>ns_lastRelayedAt := sn_lastRelayed sn\<rparr> else s)"

definition seed_state :: "seed_node \<Rightarrow> node_state \<Rightarrow> node_state" where
  "seed_state sn s =
     (let s = s\<lparr>ns_pubKey := sn_pubKey sn, ns_role := sn_role sn, ns_name := sn_name sn\<rparr> in
      if sn_hasLocation sn then s\<lparr>ns_hasLocation := True, ns_lat := sn_lat sn, ns_lng := sn_lng sn\<rparr> else s)"

definition seed_entry :: "seed_node \<Rightarrow> node_entry \<Rightarrow> node_entry" where
  "seed_entry sn e =
     (let e = fold replay (sn_heardTimes sn) (e\<lparr>ne_state := seed_state sn (ne_state e)\<rparr>) in
      e\<lparr>ne_state := seed_clocks sn (ne_state e)\<rparr>)"

definition seed_node_one :: "seed_node \<Rightarrow> node_entry list \<Rightarrow> node_entry list" where
  "seed_node_one sn nodes =
     (if sn_pubKey sn = [] then nodes else tbl_put ne_key (seed_entry sn (entry_of (sn_pubKey sn) nodes)) nodes)"

definition Seed :: "seed_node list \<Rightarrow> registry \<Rightarrow> registry" where
  "Seed sns r = r\<lparr>rg_nodes := fold seed_node_one sns (rg_nodes r)\<rparr>"

section \<open>Packets\<close>

text \<open>A flexible number is \<open>None\<close> when the key was absent, null or empty; its value then reads 0.\<close>

record packet_envelope =
  pe_origin :: string
  pe_originID :: string
  pe_packetType :: "int option"
  pe_raw :: string
  pe_snr :: "rat option"
  pe_rssi :: "int option"

definition flex :: "'a::zero option \<Rightarrow> 'a" where "flex v = (case v of None \<Rightarrow> 0 | Some x \<Rightarrow> x)"

definition to_int32 :: "int \<Rightarrow> int" where "to_int32 n = sint (word_of_int n :: 32 word)"

datatype packet_outcome = PacketAccepted | PacketIgnored | PacketMalformed string | PacketRejected string

fun firstNonEmpty :: "string list \<Rightarrow> string" where
  "firstNonEmpty [] = []"
| "firstNonEmpty (v # vs) = (if trimSpace v \<noteq> [] then v else firstNonEmpty vs)"

definition relayObserver :: "packet_envelope \<Rightarrow> string \<Rightarrow> string" where
  "relayObserver env defaultGateway = firstNonEmpty [pe_originID env, pe_origin env, defaultGateway]"

definition allowObservation :: "string \<Rightarrow> string \<Rightarrow> time \<Rightarrow> registry \<Rightarrow> bool \<times> registry" where
  "allowObservation pubkey gateway now r =
     (if mc_spamFloor (rg_cfg r) \<le> 0 then (True, r)
      else let key = pubkey @ [CHR 0x00] @ gateway in
        case tbl_get fst key (rg_obsGate r) of
          Some (_, t) \<Rightarrow> if now - t < mc_spamFloor (rg_cfg r) then (False, r)
                           else (True, r\<lparr>rg_obsGate := tbl_put fst (key, now) (rg_obsGate r)\<rparr>)
        | None \<Rightarrow> (True, r\<lparr>rg_obsGate := tbl_put fst (key, now) (rg_obsGate r)\<rparr>))"

text \<open>The relay evidence of a packet that is not an advert; it never changes the outcome.\<close>

definition note_packet :: "string \<Rightarrow> packet_envelope \<Rightarrow> string \<Rightarrow> time \<Rightarrow> registry \<Rightarrow> registry go" where
  "note_packet rawHex env defaultGateway now r =
     (case hex_decode rawHex of
        None \<Rightarrow> GoOk r
      | Some raw \<Rightarrow>
          (case DecodeFrameHeader raw of
             GoPanic \<Rightarrow> GoPanic
           | GoErr _ \<Rightarrow> GoOk r
           | GoOk h \<Rightarrow>
               GoOk (if RelayHops h \<noteq> [] then
                       r\<lparr>rg_relayBuf := recordRelays (RelayHops h) (relayObserver env defaultGateway) [] now (rg_relayBuf r)\<rparr>
                     else if RouteHops h \<noteq> [] then r\<lparr>rg_routeBuf := recordRoute (RouteHops h) now (rg_routeBuf r)\<rparr>
                     else r)))"

definition advert_state :: "advert \<Rightarrow> packet_envelope \<Rightarrow> time \<Rightarrow> node_state \<Rightarrow> node_state" where
  "advert_state adv env now s =
     (let s = s\<lparr>ns_pubKey := av_pubKey adv, ns_role := av_role adv, ns_name := av_name adv\<rparr>;
          s = (if av_hasLocation adv then s\<lparr>ns_hasLocation := True, ns_lat := av_lat adv, ns_lng := av_lng adv\<rparr> else s);
          s = (case pe_snr env of None \<Rightarrow> s | Some x \<Rightarrow> s\<lparr>ns_snr := x\<rparr>);
          s = (case pe_rssi env of None \<Rightarrow> s | Some n \<Rightarrow> if n = 0 then s else s\<lparr>ns_rssi := to_int32 n\<rparr>) in
      s\<lparr>ns_hopCount := av_hopCount adv, ns_lastAdvertAt := av_timestamp adv, ns_lastHeardAt := now, ns_receivedAt := now,
        ns_hasSignal := True\<rparr>)"

definition heard_entry :: "advert \<Rightarrow> packet_envelope \<Rightarrow> string \<Rightarrow> string \<Rightarrow> time \<Rightarrow> node_entry \<Rightarrow> node_entry" where
  "heard_entry adv env source gw now e =
     (let e = recordCadence now (e\<lparr>ne_state := advert_state adv env now (ne_state e)\<rparr>);
          e = (if gw \<noteq> [] then e\<lparr>ne_gateways := List.insert gw (ne_gateways e)\<rparr> else e) in
      if source \<noteq> [] then e\<lparr>ne_brokers := List.insert source (ne_brokers e)\<rparr> else e)"

definition update_node :: "advert \<Rightarrow> packet_envelope \<Rightarrow> string \<Rightarrow> string \<Rightarrow> time \<Rightarrow> node_entry list \<Rightarrow> node_entry list" where
  "update_node adv env source gw now nodes =
     tbl_put ne_key (heard_entry adv env source gw now (entry_of (av_pubKey adv) nodes)) nodes"

definition observe :: "advert \<Rightarrow> packet_envelope \<Rightarrow> string \<Rightarrow> string \<Rightarrow> time \<Rightarrow> registry \<Rightarrow> registry" where
  "observe adv env source gw now r =
     (case allowObservation (av_pubKey adv) gw now r of
        (False, r) \<Rightarrow> r
      | (True, r) \<Rightarrow>
          let buf = rg_obsBuf r @ [\<lparr>ob_pubKey = av_pubKey adv, ob_heardAt = now, ob_broker = source, ob_gateway = gw,
                ob_snr = flex (pe_snr env), ob_rssi = to_int32 (flex (pe_rssi env)), ob_hopCount = av_hopCount adv,
                ob_path = av_path adv, ob_pathNodes = []\<rparr>] in
          r\<lparr>rg_obsBuf := drop (length buf - maxObsBuffer) buf\<rparr>)"

text \<open>The relay evidence of an accepted advert.\<close>

definition note_advert :: "byte list \<Rightarrow> advert \<Rightarrow> packet_envelope \<Rightarrow> string \<Rightarrow> time \<Rightarrow> registry \<Rightarrow> registry go" where
  "note_advert raw adv env defaultGateway now r =
     (case DecodeFrameHeader raw of
        GoPanic \<Rightarrow> GoPanic
      | GoErr _ \<Rightarrow> GoOk r
      | GoOk h \<Rightarrow>
          GoOk (if is_flood h
                then r\<lparr>rg_relayBuf := recordRelays (RelayHops h) (relayObserver env defaultGateway) (av_pubKey adv) now (rg_relayBuf r)\<rparr>
                else r))"

definition ingestPacket :: "(byte list \<Rightarrow> byte list \<Rightarrow> byte list \<Rightarrow> bool) \<Rightarrow> packet_envelope \<Rightarrow> string \<Rightarrow> string \<Rightarrow> time \<Rightarrow> registry \<Rightarrow>
    (packet_outcome \<times> registry) go" where
  "ingestPacket verify env source defaultGateway now r =
     (let rawHex = trimPrefix (trimSpace (pe_raw env)) ''meshcore://'' in
      if flex (pe_packetType env) \<noteq> 4 then gbind (note_packet rawHex env defaultGateway now r) (\<lambda>r. GoOk (PacketIgnored, r))
      else case hex_decode rawHex of
        None \<Rightarrow> GoOk (PacketMalformed ''raw is not hex'', r)
      | Some raw \<Rightarrow>
          (case DecodeFrame verify raw of
             GoPanic \<Rightarrow> GoPanic
           | GoErr e \<Rightarrow> GoOk (PacketMalformed e, r)
           | GoOk adv \<Rightarrow>
               if mc_requireValidSignature (rg_cfg r) \<and> \<not> av_signatureValid adv
               then GoOk (PacketRejected (''advert signature does not verify (pubkey '' @ av_pubKey adv @ '')''), r)
               else let gw = firstNonEmpty [pe_originID env, pe_origin env, defaultGateway, source] in
                 gbind (note_advert raw adv env defaultGateway now r) (\<lambda>r.
                   let r = r\<lparr>rg_nodes := update_node adv env source gw now (rg_nodes r)\<rparr>;
                       r = observe adv env source gw now r in
                   GoOk (PacketAccepted, prune now r))))"

section \<open>Draining\<close>

definition resolvePath :: "string list \<Rightarrow> (string \<times> string) list \<Rightarrow> string list" where
  "resolvePath hops idx = (if hops = [] then [] else map (only_cand idx) hops)"

definition DrainObservations :: "registry \<Rightarrow> observation list \<times> registry" where
  "DrainObservations r =
     (if rg_obsBuf r = [] then ([], r)
      else let idx = prefixIndex (map ne_key (rg_nodes r)) in
        (map (\<lambda>ob. ob\<lparr>ob_pathNodes := resolvePath (ob_path ob) idx\<rparr>) (rg_obsBuf r), r\<lparr>rg_obsBuf := []\<rparr>))"

definition add_known :: "known_node \<Rightarrow> (string \<times> string) list \<Rightarrow> (string \<times> string) list" where
  "add_known k roles =
     (let pk = toLower (kn_pubKey k) in
      if pk \<noteq> [] \<and> tbl_get fst pk roles = None then roles @ [(pk, kn_role k)] else roles)"

definition relayRoles :: "known_node list \<Rightarrow> registry \<Rightarrow> (string \<times> string) list" where
  "relayRoles known r = fold add_known known (map (\<lambda>e. (ne_key e, ns_role (ne_state e))) (rg_nodes r))"

definition seed_path_one :: "time \<Rightarrow> (string \<times> string) list \<Rightarrow> seed_path \<Rightarrow> adjacency \<Rightarrow> adjacency" where
  "seed_path_one now idx sp adj =
     (if now - sp_at sp > AdjacencyRetention then adj
      else learn \<lparr>rp_hops = sp_hops sp, rp_observer = anchorKey (sp_observer sp), rp_sender = toLower (sp_sender sp)\<rparr>
             (resolveByPrefix (sp_hops sp) idx) (sp_at sp) adj)"

definition SeedPaths :: "time \<Rightarrow> seed_path list \<Rightarrow> known_node list \<Rightarrow> registry \<Rightarrow> registry" where
  "SeedPaths now paths known r = r\<lparr>rg_adj := fold (seed_path_one now (relayIndex (relayRoles known r))) paths (rg_adj r)\<rparr>"

definition credit :: "time \<Rightarrow> string \<Rightarrow> (string \<times> time) list \<Rightarrow> (string \<times> time) list" where
  "credit t pk out = (if pk \<noteq> [] \<and> t > link_time pk out then tbl_put fst (pk, t) out else out)"

definition by_prefix :: "(string \<times> string) list \<Rightarrow> relay_entry \<Rightarrow> string list" where
  "by_prefix idx e = resolveByPrefix (rp_hops (re_path e)) idx"

definition learn_all :: "(string \<times> string) list \<Rightarrow> relay_entry list \<Rightarrow> adjacency \<Rightarrow> adjacency" where
  "learn_all idx entries adj = fold (\<lambda>e. learn (re_path e) (by_prefix idx e) (re_at e)) entries adj"

definition by_neighbours :: "adjacency \<Rightarrow> (string \<times> string) list \<Rightarrow> relay_entry \<Rightarrow> string list" where
  "by_neighbours adj roles e = resolveByNeighbours adj roles (re_path e) (by_prefix (relayIndex roles) e)"

definition credit_all :: "(relay_entry \<Rightarrow> string list) \<Rightarrow> relay_entry list \<Rightarrow> (string \<times> time) list \<Rightarrow> (string \<times> time) list" where
  "credit_all res entries out = fold (\<lambda>e. fold (credit (re_at e)) (res e)) entries out"

definition stamp_relay :: "(string \<times> time) list \<Rightarrow> node_entry \<Rightarrow> node_entry" where
  "stamp_relay out e =
     (case tbl_get fst (ne_key e) out of
        None \<Rightarrow> e
      | Some (_, t) \<Rightarrow> if t > ns_lastRelayedAt (ne_state e) then e\<lparr>ne_state := (ne_state e)\<lparr>ns_lastRelayedAt := t\<rparr>\<rparr> else e)"

text \<open>\<open>DrainRelays\<close> once it knows the catalog: the graph it leaves and the credits.\<close>

definition relay_credits :: "(string \<times> string) list \<Rightarrow> relay_entry list \<Rightarrow> relay_entry list \<Rightarrow> adjacency \<Rightarrow>
    (string \<times> time) list \<times> adjacency" where
  "relay_credits roles entries routes adj =
     (if entries = [] \<and> routes = [] then ([], adj)
      else let idx = relayIndex roles; adj = learn_all idx entries adj;
               out = credit_all (by_prefix idx) routes [] in
        (credit_all (by_neighbours adj roles) entries out, adj))"

definition DrainRelays :: "time \<Rightarrow> known_node list \<Rightarrow> registry \<Rightarrow> (string \<times> time) list \<times> registry" where
  "DrainRelays now known r =
     (case relay_credits (relayRoles known r) (map snd (rg_relayBuf r)) (map snd (rg_routeBuf r)) (pruneAdjacency now (rg_adj r)) of
        (out, adj) \<Rightarrow>
          (out, r\<lparr>rg_relayBuf := [], rg_routeBuf := [], rg_adj := adj, rg_nodes := map (stamp_relay out) (rg_nodes r)\<rparr>))"

section \<open>Identifiers and brokers\<close>

fun scan_prefix :: "string \<Rightarrow> string list \<Rightarrow> string \<Rightarrow> string \<times> bool" where
  "scan_prefix prefix [] match = (match, match \<noteq> [])"
| "scan_prefix prefix (pk # pks) match =
     (if \<not> hasPrefix pk prefix then scan_prefix prefix pks match
      else if match \<noteq> [] then ([], False) else scan_prefix prefix pks pk)"

definition ResolvePrefix :: "string \<Rightarrow> registry \<Rightarrow> string \<times> bool" where
  "ResolvePrefix prefix r = (if prefix = [] then ([], False) else scan_prefix (toLower prefix) (map ne_key (rg_nodes r)) [])"

definition MinNodeIDHex :: nat where "MinNodeIDHex = 8"
definition MaxNodeIDHex :: nat where "MaxNodeIDHex = 64"

definition ValidNodeID :: "string \<Rightarrow> bool" where
  "ValidNodeID i \<longleftrightarrow> \<not> (length i < MinNodeIDHex \<or> length i > MaxNodeIDHex \<or> length i mod 2 \<noteq> 0) \<and>
     toLower i = i \<and> hex_decode i \<noteq> None"

definition ParseNodeKey :: "string \<Rightarrow> string \<times> bool" where
  "ParseNodeKey s = (let key = trimPrefix (toLower (trimSpace s)) ''meshcore:'' in (key, ValidNodeID key))"

text \<open>
  The delivery clock of a broker; \<open>lastMsg\<close> is 0 when it carried nothing yet. \<open>stamp\<close> prints an instant and
  \<open>ago\<close> a duration rounded to seconds.
\<close>

record broker_link =
  bl_url :: string
  bl_startedAt :: time
  bl_lastMsg :: time

record broker_health =
  bh_url :: string
  bh_open :: bool
  bh_lastMsgAt :: time
  bh_problem :: string

definition deliveryProblem :: "(time \<Rightarrow> string) \<Rightarrow> (duration \<Rightarrow> string) \<Rightarrow> bool \<Rightarrow> time \<Rightarrow> time \<Rightarrow> time \<Rightarrow> duration \<Rightarrow> string" where
  "deliveryProblem stamp ago opn startedAt lastMsgAt now silenceAfter =
     (let heard = (if isZero lastMsgAt then ''no message since '' @ stamp startedAt
                   else ''last message '' @ ago (now - lastMsgAt) @ '' ago'') in
      if \<not> opn then ''not connected ('' @ heard @ '')''
      else if silenceAfter \<le> 0 then []
      else let ref = (if isZero lastMsgAt then startedAt else lastMsgAt) in
        if now - ref \<le> silenceAfter then [] else ''connected but silent ('' @ heard @ '')'')"

definition onMessage :: "time \<Rightarrow> broker_link \<Rightarrow> broker_link" where "onMessage now l = l\<lparr>bl_lastMsg := now\<rparr>"

definition broker_of :: "(time \<Rightarrow> string) \<Rightarrow> (duration \<Rightarrow> string) \<Rightarrow> time \<Rightarrow> duration \<Rightarrow> bool \<times> broker_link \<Rightarrow> broker_health" where
  "broker_of stamp ago now silenceAfter = (\<lambda>(opn, l).
     let lastMsgAt = (if bl_lastMsg l \<noteq> 0 then bl_lastMsg l else zeroTime) in
     \<lparr>bh_url = bl_url l, bh_open = opn, bh_lastMsgAt = lastMsgAt,
      bh_problem = deliveryProblem stamp ago opn (bl_startedAt l) lastMsgAt now silenceAfter\<rparr>)"

definition Brokers :: "(time \<Rightarrow> string) \<Rightarrow> (duration \<Rightarrow> string) \<Rightarrow> time \<Rightarrow> (bool \<times> broker_link) list \<Rightarrow> registry \<Rightarrow> broker_health list" where
  "Brokers stamp ago now links r = map (broker_of stamp ago now (mc_silenceAfter (rg_cfg r))) links"

end
