(* ===== verification/MeshRelayProps.thy ===== *)
theory MeshRelayProps
  imports MeshRegistry
begin

text \<open>
  What relay attribution promises: rule 2 comes to rest and does not depend on the order of Go's maps, and
  \<open>DrainRelays\<close> credits only nodes a packet gives evidence for, with the latest such packet.
\<close>

section \<open>Rule 2 reaches a fixed point\<close>

definition settled :: "adjacency \<Rightarrow> (string \<times> string) list \<Rightarrow> relay_path \<Rightarrow> string list \<Rightarrow> nat \<Rightarrow> bool" where
  "settled adj roles p res i \<longleftrightarrow> res ! i \<noteq> [] \<or> (\<forall>c. candidates_at adj roles p res i \<noteq> {c})"

lemma resolve_at_flag:
  "resolve_at adj roles p i (res, ch) =
     (if settled adj roles p res i then (res, ch) else (res[i := the_elem (candidates_at adj roles p res i)], True))"
proof (cases "settled adj roles p res i")
  case True
  then have "res ! i \<noteq> [] \<or> snd (pick_at adj roles p res i) \<noteq> 1"
    using pick_at_one [of adj roles p res i] by (auto simp: settled_def)
  then show ?thesis using True by (auto simp: resolve_at_def split: prod.split)
next
  case False
  then obtain c where c: "res ! i = []" "candidates_at adj roles p res i = {c}" by (auto simp: settled_def)
  have "pick_at adj roles p res i = (c, 1)"
    using scan_nbs [where xs = "anchor_nbs adj (left_of p res i) @ anchor_nbs adj (right_of p res i)" and roles = roles
        and hop = "rp_hops p ! i"] c(2)
    unfolding pick_at_def candidates_at_def set_append [symmetric] by blast
  then show ?thesis using False c by (simp add: resolve_at_def)
qed

lemma resolve_fold_settled:
  "fold (resolve_at adj roles p) is (res, False) = (res', False) \<Longrightarrow> \<forall>i \<in> set is. settled adj roles p res i"
proof (induction "is")
  case (Cons i "is")
  have up: "snd (fold (resolve_at adj roles p) js (r, True))" for js r
    by (induction js arbitrary: r) (simp_all add: resolve_at_flag)
  have "settled adj roles p res i"
  proof (rule ccontr)
    assume "\<not> settled adj roles p res i"
    then have "resolve_at adj roles p i (res, False) = (res[i := the_elem (candidates_at adj roles p res i)], True)"
      by (simp add: resolve_at_flag)
    then show False
      using Cons.prems up [of "is" "res[i := the_elem (candidates_at adj roles p res i)]"] by simp
  qed
  then show ?case using Cons by (simp add: resolve_at_flag)
qed simp

text \<open>The loop body's result, ignoring the flag.\<close>

definition pass_of :: "adjacency \<Rightarrow> (string \<times> string) list \<Rightarrow> relay_path \<Rightarrow> string list \<Rightarrow> string list" where
  "pass_of adj roles p res = fst (resolve_pass adj roles p res)"

lemma neighbours_passes:
  "\<exists>k \<le> holes res + 1. resolveByNeighbours adj roles p res = (pass_of adj roles p ^^ k) res"
proof (induction adj roles p res rule: resolveByNeighbours.induct)
  case (1 adj roles p res)
  obtain res' ch where pass: "resolve_pass adj roles p res = (res', ch)" by (cases "resolve_pass adj roles p res")
  show ?case
  proof (cases ch)
    case False
    then have "resolveByNeighbours adj roles p res = (pass_of adj roles p ^^ 1) res"
      by (subst resolveByNeighbours.simps) (simp add: pass pass_of_def)
    then show ?thesis by (intro exI [of _ 1]) simp
  next
    case True
    then obtain k where k: "k \<le> holes res' + 1" "resolveByNeighbours adj roles p res' = (pass_of adj roles p ^^ k) res'"
      using "1.IH" [OF pass [symmetric] True] by blast
    have less: "holes res' < holes res" using resolve_pass_holes [OF pass] True by simp
    have "resolveByNeighbours adj roles p res = (pass_of adj roles p ^^ Suc k) res"
      using k(2) True by (subst resolveByNeighbours.simps) (simp add: pass pass_of_def funpow_swap1 del: funpow.simps(2) add: funpow_Suc_right)
    then show ?thesis using k(1) less by (intro exI [of _ "Suc k"]) simp
  qed
qed

lemma pass_length: "length (pass_of adj roles p res) = length res"
  using resolve_pass_holes [of adj roles p res] by (cases "resolve_pass adj roles p res") (simp add: pass_of_def)

lemma neighbours_settled:
  assumes "i < length (rp_hops p)" "length res = length (rp_hops p)"
  shows "settled adj roles p (resolveByNeighbours adj roles p res) i"
  using assms
proof (induction adj roles p res rule: resolveByNeighbours.induct)
  case (1 adj roles p res)
  obtain res' ch where pass: "resolve_pass adj roles p res = (res', ch)" by (cases "resolve_pass adj roles p res")
  note len = resolve_pass_holes [OF pass]
  show ?case
  proof (cases ch)
    case False
    then have "res' = res" using len by simp
    then have "\<forall>i \<in> set [0..<min (length (rp_hops p)) (length res)]. settled adj roles p res i"
      using pass False unfolding resolve_pass_def by (intro resolve_fold_settled) simp
    then show ?thesis using pass False \<open>res' = res\<close> "1.prems" by (subst resolveByNeighbours.simps) simp
  next
    case True
    then show ?thesis
      using "1.IH" [OF pass [symmetric] True] "1.prems" len pass by (subst resolveByNeighbours.simps) simp
  qed
qed

text \<open>What rule 2 adds: hops already resolved stay, and a new one is a candidate next to what the result holds.\<close>

definition extends :: "adjacency \<Rightarrow> (string \<times> string) list \<Rightarrow> relay_path \<Rightarrow> string list \<Rightarrow> string list \<Rightarrow> bool" where
  "extends adj roles p res res' \<longleftrightarrow> length res' = length res \<and>
     (\<forall>i < length res. if res ! i \<noteq> [] then res' ! i = res ! i
        else res' ! i = [] \<or> res' ! i \<in> candidates_at adj roles p res' i)"

lemma anchor_grow:
  assumes "length res = length (rp_hops p)" "length res' = length res" "i < length res"
    and "\<And>j. j < length res \<Longrightarrow> res ! j \<noteq> [] \<Longrightarrow> res' ! j = res ! j"
  shows "candidates_at adj roles p res i \<subseteq> candidates_at adj roles p res' i"
proof -
  have nil: "anchor_nbs adj [] = []" by (simp add: anchor_nbs_def)
  have "set (anchor_nbs adj (left_of p res i)) \<subseteq> set (anchor_nbs adj (left_of p res' i))"
    using assms(3) assms(4) [of "i - 1"] nil by (cases "res ! (i - 1) = []") (auto simp: left_of_def)
  moreover have "set (anchor_nbs adj (right_of p res i)) \<subseteq> set (anchor_nbs adj (right_of p res' i))"
    using assms(1,3) assms(4) [of "i + 1"] nil by (cases "res ! (i + 1) = []") (auto simp: right_of_def)
  ultimately show ?thesis unfolding candidates_at_def by blast
qed

lemma extends_refl: "extends adj roles p res res"
  by (simp add: extends_def)

lemma extends_trans:
  assumes e: "extends adj roles p a b" "extends adj roles p b c" and len: "length a = length (rp_hops p)"
  shows "extends adj roles p a c"
proof -
  have l: "length b = length a" "length c = length a" using e by (simp_all add: extends_def)
  have bc: "j < length b \<Longrightarrow> b ! j \<noteq> [] \<Longrightarrow> c ! j = b ! j" for j using e(2) by (auto simp: extends_def)
  show ?thesis unfolding extends_def
  proof (intro conjI allI impI)
    fix i assume i: "i < length a"
    have sub: "candidates_at adj roles p b i \<subseteq> candidates_at adj roles p c i"
      by (rule anchor_grow) (use l len i bc in auto)
    show "if a ! i \<noteq> [] then c ! i = a ! i else c ! i = [] \<or> c ! i \<in> candidates_at adj roles p c i"
    proof (cases "a ! i = []")
      case True
      then have "b ! i = [] \<or> b ! i \<in> candidates_at adj roles p b i"
        using e(1) [unfolded extends_def, THEN conjunct2, rule_format, OF i] by simp
      then consider "b ! i = []" | "b ! i \<noteq> []" "b ! i \<in> candidates_at adj roles p b i" by blast
      then show ?thesis
      proof cases
        case 1
        then show ?thesis using e(2) i l True by (simp add: extends_def)
      next
        case 2
        then show ?thesis using bc [of i] sub i l True by auto
      qed
    next
      case False
      then have "b ! i = a ! i" using e(1) i by (simp add: extends_def)
      then show ?thesis using False bc [of i] i l by simp
    qed
  qed (use l in simp)
qed

lemma extends_step:
  assumes "i < length res" "length res = length (rp_hops p)"
  shows "extends adj roles p res (fst (resolve_at adj roles p i (res, ch)))"
proof (cases "settled adj roles p res i")
  case False
  then obtain c where c: "res ! i = []" "candidates_at adj roles p res i = {c}" by (auto simp: settled_def)
  let ?r = "res[i := c]"
  have "candidates_at adj roles p res i \<subseteq> candidates_at adj roles p ?r i"
    by (rule anchor_grow) (use assms c in \<open>auto simp: nth_list_update\<close>)
  then have "extends adj roles p res ?r" using c assms by (auto simp: extends_def nth_list_update)
  then show ?thesis using False c by (simp add: resolve_at_flag)
qed (simp add: resolve_at_flag extends_refl)

lemma extends_fold:
  "\<forall>i \<in> set is. i < length res \<Longrightarrow> length res = length (rp_hops p) \<Longrightarrow>
     extends adj roles p res (fst (fold (resolve_at adj roles p) is (res, ch)))"
proof (induction "is" arbitrary: res ch)
  case (Cons i "is")
  obtain r c where r: "resolve_at adj roles p i (res, ch) = (r, c)" by (cases "resolve_at adj roles p i (res, ch)")
  have e: "extends adj roles p res r" using extends_step [of i res p adj roles ch] Cons.prems r by simp
  then have "length r = length res" by (simp add: extends_def)
  then have "extends adj roles p r (fst (fold (resolve_at adj roles p) is (r, c)))" using Cons by simp
  then show ?case using extends_trans [OF e] Cons.prems(2) r by simp
qed (simp add: extends_refl)

lemma neighbours_extend:
  "length res = length (rp_hops p) \<Longrightarrow> extends adj roles p res (resolveByNeighbours adj roles p res)"
proof (induction adj roles p res rule: resolveByNeighbours.induct)
  case (1 adj roles p res)
  obtain res' ch where pass: "resolve_pass adj roles p res = (res', ch)" by (cases "resolve_pass adj roles p res")
  have e: "extends adj roles p res res'"
    using extends_fold [of "[0..<min (length (rp_hops p)) (length res)]" res p adj roles False] pass "1.prems"
    by (simp add: resolve_pass_def)
  show ?case
  proof (cases ch)
    case False
    then show ?thesis using e pass by (subst resolveByNeighbours.simps) simp
  next
    case True
    have "extends adj roles p res' (resolveByNeighbours adj roles p res')"
      using "1.IH" [OF pass [symmetric] True] e "1.prems" by (simp add: extends_def)
    then show ?thesis using extends_trans [OF e] "1.prems" True pass by (subst resolveByNeighbours.simps) simp
  qed
qed

text \<open>
  C32: rule 2 comes to rest. Whatever the graph, the catalog and the path, the loop over the hops ends after
  at most one pass more than there were unresolved hops. It keeps what rule 1 resolved; what it adds is a catalogued relay with a full key
  that carries the hop's bytes and was seen next to an anchor or to a resolved hop beside it; and it leaves a hop open only when the neighbours of
  the hops beside it offer no candidate or several.
\<close>

theorem neighbour_rule_rests:
  assumes "length res = length (rp_hops p)"
  shows "(\<exists>k \<le> holes res + 1. resolveByNeighbours adj roles p res = (pass_of adj roles p ^^ k) res) \<and>
    extends adj roles p res (resolveByNeighbours adj roles p res) \<and>
    (\<forall>i < length res. resolveByNeighbours adj roles p res ! i \<noteq> [] \<or>
      (\<forall>c. candidates_at adj roles p (resolveByNeighbours adj roles p res) i \<noteq> {c}))"
proof (intro conjI allI impI)
  fix i assume "i < length res"
  then show "resolveByNeighbours adj roles p res ! i \<noteq> [] \<or>
      (\<forall>c. candidates_at adj roles p (resolveByNeighbours adj roles p res) i \<noteq> {c})"
    using neighbours_settled [OF _ assms, of i adj roles] assms by (simp add: settled_def)
qed (use neighbours_passes neighbours_extend [OF assms] in blast)+


definition nbs_same :: "adjacency \<Rightarrow> adjacency \<Rightarrow> bool" where
  "nbs_same adj adj' \<longleftrightarrow> (\<forall>a. set (anchor_nbs adj a) = set (anchor_nbs adj' a))"

text \<open>
  The order in which Go ranges over its maps does not matter. Two graphs with the same neighbours and
  two catalogs with the same entries, in whatever order, resolve every path alike.
\<close>

theorem neighbour_rule_order:
  assumes nbs: "nbs_same adj adj'" and roles: "\<forall>k. tbl_get fst k roles = tbl_get fst k roles'"
  shows "resolveByNeighbours adj roles p res = resolveByNeighbours adj' roles' p res"
proof -
  have "creditable roles = creditable roles'" using roles by (intro ext) (simp add: creditable_def)
  then have "candidates_at adj roles p r i = candidates_at adj' roles' p r i" for r i
    using nbs by (simp add: candidates_at_def nbs_same_def)
  then have "resolve_at adj roles p i x = resolve_at adj' roles' p i x" for i x
    by (cases x) (simp add: resolve_at_flag settled_def)
  then have "resolve_at adj roles p = resolve_at adj' roles' p" by blast
  then have pass: "resolve_pass adj roles p r = resolve_pass adj' roles' p r" for r by (simp add: resolve_pass_def)
  show ?thesis
  proof (induction "holes res" arbitrary: res rule: less_induct)
    case less
    obtain res' ch where r: "resolve_pass adj roles p res = (res', ch)" by (cases "resolve_pass adj roles p res")
    then have "resolve_pass adj' roles' p res = (res', ch)" using pass by simp
    moreover have "ch \<Longrightarrow> resolveByNeighbours adj roles p res' = resolveByNeighbours adj' roles' p res'"
      using less.hyps resolve_pass_holes [OF r] by simp
    ultimately show ?case using r by (simp add: resolveByNeighbours.simps [of _ _ _ res])
  qed
qed

section \<open>Who is credited\<close>

lemma cands_relayIndex:
  "pk \<in> set (cands (relayIndex roles) h) \<longleftrightarrow>
     (\<exists>role. (pk, role) \<in> set roles \<and> canRelay role) \<and> length pk = fullKeyHex \<and> length h \<in> {2, 4, 6} \<and> hasPrefix pk h"
proof -
  have pre: "hasPrefix pk h \<longleftrightarrow> take (length h) pk = h" if "length h \<le> length pk"
    using that unfolding hasPrefix_iff by (metis append_eq_conv_conj append_take_drop_id)
  show ?thesis
    using pre by (auto simp: cands_def relayIndex_def prefixIndex_def prefixLens_def fullKeyHex_def split: if_splits) force+
qed

definition relay_capable :: "(string \<times> string) list \<Rightarrow> string \<Rightarrow> bool" where
  "relay_capable roles pk \<longleftrightarrow> length pk = fullKeyHex \<and> (\<exists>role. (pk, role) \<in> set roles \<and> canRelay role)"

lemma by_prefix_sound:
  assumes "pk \<in> set (by_prefix (relayIndex roles) e)" "pk \<noteq> []"
  shows "4 \<le> length (hd (rp_hops (re_path e))) \<and> (\<exists>hop \<in> set (rp_hops (re_path e)). relay_capable roles pk \<and> hasPrefix pk hop \<and>
    (\<forall>k. relay_capable roles k \<and> hasPrefix k hop \<longrightarrow> k = pk))"
proof -
  let ?hops = "rp_hops (re_path e)"
  have long: "?hops \<noteq> []" "\<not> length (?hops ! 0) < 4" and mem: "pk \<in> only_cand (relayIndex roles) ` set ?hops"
    using assms by (auto simp: by_prefix_def resolveByPrefix_def split: if_splits)
  then obtain hop where hop: "hop \<in> set ?hops" "only_cand (relayIndex roles) hop = pk" by blast
  then have c: "cands (relayIndex roles) hop = [pk]"
    using assms(2) by (auto simp: only_cand_def split: list.splits)
  then have "relay_capable roles pk \<and> hasPrefix pk hop \<and> length hop \<in> {2, 4, 6}"
    using cands_relayIndex [of pk roles hop] by (auto simp: relay_capable_def)
  moreover have "k = pk" if "relay_capable roles k" "hasPrefix k hop" for k
    using that c cands_relayIndex [of k roles hop] calculation by (auto simp: relay_capable_def)
  ultimately show ?thesis using hop(1) long by (auto simp: hd_conv_nth)
qed


lemma credit_at: "tbl_get fst k (credit t pk out) = (if k = pk \<and> pk \<noteq> [] \<and> t > link_time pk out then Some (pk, t) else tbl_get fst k out)"
  by (simp add: credit_def)

text \<open>The credits in sequence, as (instant, key) pairs.\<close>

definition credits :: "(time \<times> string) list \<Rightarrow> (string \<times> time) list \<Rightarrow> (string \<times> time) list" where
  "credits = fold (\<lambda>(t, pk). credit t pk)"

lemma credit_all_credits:
  "credit_all res es out = credits (concat (map (\<lambda>e. map (Pair (re_at e)) (res e)) es)) out"
proof (induction es arbitrary: out)
  case (Cons e es)
  have "fold (credit (re_at e)) xs o' = credits (map (Pair (re_at e)) xs) o'" for xs o'
    by (induction xs arbitrary: o') (simp_all add: credits_def)
  then show ?case using Cons by (simp add: credit_all_def credits_def)
qed (simp add: credit_all_def credits_def)

lemma credits_from: "tbl_get fst k (credits ps out) = Some (k', t) \<Longrightarrow>
    tbl_get fst k out = Some (k', t) \<or> (k' = k \<and> k \<noteq> [] \<and> (t, k) \<in> set ps)"
proof (induction ps arbitrary: out)
  case (Cons p ps)
  obtain u pk where p: "p = (u, pk)" by (cases p)
  have "tbl_get fst k (credits ps (credit u pk out)) = Some (k', t)" using Cons.prems p by (simp add: credits_def)
  from Cons.IH [OF this] show ?case using p by (auto simp: credit_at split: if_splits)
qed (simp add: credits_def)

lemma link_time_credit: "link_time k out \<le> link_time k (credit t pk out)"
  by (simp add: link_time_def credit_at)

lemma link_time_credits: "link_time k out \<le> link_time k (credits ps out)"
proof (induction ps arbitrary: out)
  case (Cons p ps)
  then show ?case
    using link_time_credit [of k out "fst p" "snd p"] by (fastforce simp: credits_def split_def dest: order_trans)
qed (simp add: credits_def)

lemma credits_latest: "(t, k) \<in> set ps \<Longrightarrow> k \<noteq> [] \<Longrightarrow> t \<le> link_time k (credits ps out)"
proof (induction ps arbitrary: out)
  case (Cons p ps)
  have now: "t \<le> link_time k (credit t k out)" if "k \<noteq> []"
    using that by (auto simp: link_time_def credit_at)
  show ?case
  proof (cases "p = (t, k)")
    case True
    then show ?thesis using now [OF Cons.prems(2)] link_time_credits [of k "credit t k out" ps] by (simp add: credits_def)
  next
    case False
    then show ?thesis using Cons by (auto simp: credits_def)
  qed
qed simp

lemma roles_from: "(pk, role) \<in> set (relayRoles known r) \<Longrightarrow>
    (\<exists>e \<in> set (rg_nodes r). ne_key e = pk \<and> ns_role (ne_state e) = role) \<or>
    (\<exists>k \<in> set known. toLower (kn_pubKey k) = pk \<and> kn_role k = role)"
proof -
  have "(pk, role) \<in> set (fold add_known known base) \<Longrightarrow>
      (pk, role) \<in> set base \<or> (\<exists>k \<in> set known. toLower (kn_pubKey k) = pk \<and> kn_role k = role)" for base
  proof (induction known arbitrary: base)
    case (Cons k ks)
    have "(pk, role) \<in> set (fold add_known ks (add_known k base))" using Cons.prems by simp
    from Cons.IH [OF this] show ?case by (auto simp: add_known_def Let_def split: if_splits)
  qed simp
  then show "(pk, role) \<in> set (relayRoles known r) \<Longrightarrow> ?thesis" unfolding relayRoles_def by fastforce
qed

text \<open>
  \<open>named_hop\<close>: the packet of entry \<open>e\<close> names \<open>pk\<close> by a hop of two bytes or more that no other catalogued relay carries.
  \<open>beside_hop\<close>: one of its hops, of whatever length, fits \<open>pk\<close>, which was seen next to \<open>a\<close>; and \<open>a\<close> is the observer,
  the sender, or the node resolved for another hop of the same packet.
\<close>

definition named_hop :: "(string \<times> string) list \<Rightarrow> relay_entry \<Rightarrow> string \<Rightarrow> bool" where
  "named_hop roles e pk \<longleftrightarrow> 4 \<le> length (hd (rp_hops (re_path e))) \<and> (\<exists>hop \<in> set (rp_hops (re_path e)).
     relay_capable roles pk \<and> hasPrefix pk hop \<and> (\<forall>k. relay_capable roles k \<and> hasPrefix k hop \<longrightarrow> k = pk))"

definition beside_hop :: "(string \<times> string) list \<Rightarrow> adjacency \<Rightarrow> relay_entry \<Rightarrow> string \<Rightarrow> bool" where
  "beside_hop roles adj e pk \<longleftrightarrow> relay_capable roles pk \<and> (\<exists>hop \<in> set (rp_hops (re_path e)). hasPrefix pk hop) \<and>
     (\<exists>a. a \<noteq> [] \<and> pk \<in> set (map fst (adj_of a adj)) \<and>
        (a = rp_observer (re_path e) \<or> a = rp_sender (re_path e) \<or> a \<in> set (by_neighbours adj roles e)))"

lemma by_neighbours_sound:
  assumes "pk \<in> set (by_neighbours adj roles e)" "pk \<noteq> []"
  shows "named_hop roles e pk \<or> beside_hop roles adj e pk"
proof -
  let ?p = "re_path e" and ?b = "by_prefix (relayIndex roles) e" and ?r = "by_neighbours adj roles e"
  have len: "length ?b = length (rp_hops ?p)" by (simp add: by_prefix_def resolveByPrefix_def)
  have ext: "extends adj roles ?p ?b ?r" unfolding by_neighbours_def by (rule neighbours_extend [OF len])
  have lr: "length ?r = length (rp_hops ?p)" using ext len by (simp add: extends_def)
  obtain i where i: "i < length ?b" "?r ! i = pk" using assms(1) lr len by (auto simp: in_set_conv_nth)
  show ?thesis
  proof (cases "?b ! i = []")
    case False
    then have "?b ! i = pk" using ext i by (auto simp: extends_def)
    then have "pk \<in> set ?b" using i(1) by (auto simp: in_set_conv_nth)
    then show ?thesis using by_prefix_sound [OF _ assms(2)] by (simp add: named_hop_def)
  next
    case True
    then have c: "pk \<in> candidates_at adj roles ?p ?r i"
      using ext [unfolded extends_def, THEN conjunct2, rule_format, OF i(1)] i(2) assms(2) by simp
    then have cr: "creditable roles (rp_hops ?p ! i) pk" by (simp add: candidates_at_def)
    obtain a where a: "pk \<in> set (anchor_nbs adj a)" "a = left_of ?p ?r i \<or> a = right_of ?p ?r i"
      using c by (auto simp: candidates_at_def)
    have "left_of ?p ?r i = rp_sender ?p \<or> left_of ?p ?r i \<in> set ?r"
      using i(1) len lr by (auto simp: left_of_def)
    moreover have "right_of ?p ?r i = rp_observer ?p \<or> right_of ?p ?r i \<in> set ?r"
      using i(1) len lr by (auto simp: right_of_def)
    moreover have "a \<noteq> []" "pk \<in> set (map fst (adj_of a adj))"
      using a(1) by (auto simp: anchor_nbs_def split: if_splits)
    moreover have "relay_capable roles pk"
      using cr by (auto simp: creditable_def relay_capable_def split: option.splits dest!: tbl_get_Some)
    moreover have "\<exists>hop \<in> set (rp_hops ?p). hasPrefix pk hop"
      using cr i(1) len by (intro bexI [of _ "rp_hops ?p ! i"]) (simp_all add: creditable_def)
    ultimately show ?thesis using a(2) unfolding beside_hop_def by blast
  qed
qed


lemma by_neighbours_keeps:
  assumes "pk \<in> set (by_prefix (relayIndex roles) e)" "pk \<noteq> []"
  shows "pk \<in> set (by_neighbours adj roles e)"
proof -
  let ?b = "by_prefix (relayIndex roles) e"
  have len: "length ?b = length (rp_hops (re_path e))" by (simp add: by_prefix_def resolveByPrefix_def)
  have ext: "extends adj roles (re_path e) ?b (by_neighbours adj roles e)"
    unfolding by_neighbours_def by (rule neighbours_extend [OF len])
  obtain i where "i < length ?b" "?b ! i = pk" using assms(1) by (auto simp: in_set_conv_nth)
  then show ?thesis using ext assms(2) by (metis extends_def nth_mem)
qed

lemma all_credits_pairs:
  "(t, k) \<in> set (concat (map (\<lambda>e. map (Pair (re_at e)) (res e)) es)) \<longleftrightarrow> (\<exists>e \<in> set es. k \<in> set (res e) \<and> re_at e = t)"
  by auto

lemma relay_credits_from:
  assumes "relay_credits roles entries routes adj = (out, adj')" "tbl_get fst pk out = Some (k, t)"
  shows "k = pk \<and> pk \<noteq> [] \<and>
    ((\<exists>e \<in> set (entries @ routes). re_at e = t \<and> named_hop roles e pk) \<or>
     (\<exists>e \<in> set entries. re_at e = t \<and> beside_hop roles adj' e pk))"
proof -
  let ?R = "credit_all (by_prefix (relayIndex roles)) routes []"
  have out: "out = credit_all (by_neighbours adj' roles) entries ?R" and ne: "\<not> (entries = [] \<and> routes = [])"
    using assms by (auto simp: relay_credits_def Let_def split: if_splits)
  have "tbl_get fst pk ?R = Some (k, t) \<or>
      (k = pk \<and> pk \<noteq> [] \<and> (\<exists>e \<in> set entries. pk \<in> set (by_neighbours adj' roles e) \<and> re_at e = t))"
    using credits_from [OF assms(2) [unfolded out credit_all_credits [of "by_neighbours adj' roles"]]]
    unfolding all_credits_pairs .
  then show ?thesis
  proof (elim disjE conjE bexE)
    assume "tbl_get fst pk ?R = Some (k, t)"
    from credits_from [OF this [unfolded credit_all_credits]]
    have "k = pk \<and> pk \<noteq> [] \<and> (\<exists>e \<in> set routes. pk \<in> set (by_prefix (relayIndex roles) e) \<and> re_at e = t)"
      unfolding all_credits_pairs by simp
    then show ?thesis using by_prefix_sound unfolding named_hop_def by (metis Un_iff set_append)
  next
    fix e assume e: "k = pk" "pk \<noteq> []" "e \<in> set entries" "pk \<in> set (by_neighbours adj' roles e)" "re_at e = t"
    then show ?thesis using by_neighbours_sound [OF e(4,2)] by auto
  qed
qed

lemma relay_credits_latest:
  assumes out: "relay_credits roles entries routes adj = (out, adj')" and e: "e \<in> set (entries @ routes)"
    and pk: "pk \<in> set (by_prefix (relayIndex roles) e)" "pk \<noteq> []"
  shows "re_at e \<le> link_time pk out"
proof -
  let ?R = "credit_all (by_prefix (relayIndex roles)) routes []"
  have out: "out = credit_all (by_neighbours adj' roles) entries ?R"
    using out e by (auto simp: relay_credits_def Let_def split: if_splits)
  show ?thesis
  proof (cases "e \<in> set entries")
    case True
    then have "pk \<in> set (by_neighbours adj' roles e)" using by_neighbours_keeps [OF pk] by simp
    then have "(re_at e, pk) \<in> set (concat (map (\<lambda>e. map (Pair (re_at e)) (by_neighbours adj' roles e)) entries))"
      using True unfolding all_credits_pairs by blast
    from credits_latest [OF this pk(2)] show ?thesis
      unfolding out credit_all_credits [of "by_neighbours adj' roles"] .
  next
    case False
    then have "(re_at e, pk) \<in> set (concat (map (\<lambda>e. map (Pair (re_at e)) (by_prefix (relayIndex roles) e)) routes))"
      using e pk(1) unfolding all_credits_pairs by auto
    from credits_latest [OF this pk(2)] have "re_at e \<le> link_time pk ?R" unfolding credit_all_credits .
    then show ?thesis
      unfolding out credit_all_credits [of "by_neighbours adj' roles"] using link_time_credits order_trans by blast
  qed
qed

text \<open>What a drain may do to a node: move the relay clock forward, nothing else.\<close>

definition relay_stamped :: "node_entry \<Rightarrow> node_entry \<Rightarrow> bool" where
  "relay_stamped e e' \<longleftrightarrow> (\<exists>t \<ge> ns_lastRelayedAt (ne_state e). e' = e\<lparr>ne_state := (ne_state e)\<lparr>ns_lastRelayedAt := t\<rparr>\<rparr>)"

lemma stamp_relay_only: "relay_stamped e (stamp_relay out e)"
  unfolding relay_stamped_def
  by (rule exI [of _ "ns_lastRelayedAt (ne_state (stamp_relay out e))"])
    (auto simp: stamp_relay_def split: option.split prod.split)

text \<open>
  C31: only a node that is on record as a relay is credited, and for a packet that names it. A key credited by
  \<open>DrainRelays\<close> is a full key of the registry or of the store, with a role that forwards packets. The packet that credits it, at
  that instant, was buffered since the last drain, and either names it by a hop of at least two bytes that no other known relay
  carries, or is a flood packet with a hop that fits the key, which the neighbour graph places next to the packet's observer, its sender or the node
  resolved for another of its hops. A one-byte hop alone credits nobody.
\<close>

theorem relay_credit_sound:
  assumes "DrainRelays now known r = (out, r')" "tbl_get fst pk out = Some (k, t)"
  shows "length pk = 64 \<and>
    (\<exists>role. canRelay role \<and> ((\<exists>e \<in> set (rg_nodes r). ne_key e = pk \<and> ns_role (ne_state e) = role) \<or>
       (\<exists>n \<in> set known. toLower (kn_pubKey n) = pk \<and> kn_role n = role))) \<and>
    ((\<exists>e \<in> snd ` set (rg_relayBuf r @ rg_routeBuf r). re_at e = t \<and> named_hop (relayRoles known r) e pk) \<or>
     (\<exists>e \<in> snd ` set (rg_relayBuf r). re_at e = t \<and> beside_hop (relayRoles known r) (rg_adj r') e pk))"
proof -
  let ?roles = "relayRoles known r"
  obtain adj' where out: "relay_credits ?roles (map snd (rg_relayBuf r)) (map snd (rg_routeBuf r)) (pruneAdjacency now (rg_adj r)) = (out, adj')"
    and adj: "rg_adj r' = adj'" using assms(1) by (auto simp: DrainRelays_def split: prod.splits)
  have src: "(\<exists>e \<in> set (map snd (rg_relayBuf r) @ map snd (rg_routeBuf r)). re_at e = t \<and> named_hop ?roles e pk) \<or>
      (\<exists>e \<in> set (map snd (rg_relayBuf r)). re_at e = t \<and> beside_hop ?roles adj' e pk)"
    using relay_credits_from [OF out assms(2)] by blast
  then have "relay_capable ?roles pk" by (auto simp: named_hop_def beside_hop_def)
  then obtain role where cap: "length pk = 64" "(pk, role) \<in> set ?roles" "canRelay role"
    by (auto simp: relay_capable_def fullKeyHex_def)
  then show ?thesis using roles_from [OF cap(2)] src by (auto simp: adj)
qed

text \<open>
  A drain takes every buffered path exactly once and loses no relay it can name. It returns, for
  each node a buffered packet names by prefix, an instant not before that packet's; it empties both buffers; and all it does to the nodes is move
  relay clocks forward: it adds no node, drops none and changes no name, role, position or signal.
\<close>

theorem drain_relays_latest:
  assumes "DrainRelays now known r = (out, r')"
  shows "(\<forall>e \<in> snd ` set (rg_relayBuf r @ rg_routeBuf r). \<forall>pk \<in> set (by_prefix (relayIndex (relayRoles known r)) e).
      pk \<noteq> [] \<longrightarrow> re_at e \<le> link_time pk out) \<and>
    rg_relayBuf r' = [] \<and> rg_routeBuf r' = [] \<and> rg_obsBuf r' = rg_obsBuf r \<and>
    list_all2 relay_stamped (rg_nodes r) (rg_nodes r') \<and>
    (\<forall>e \<in> set (rg_nodes r'). link_time (ne_key e) out \<le> max zeroTime (ns_lastRelayedAt (ne_state e)))"
proof -
  let ?roles = "relayRoles known r"
  obtain adj' where out: "relay_credits ?roles (map snd (rg_relayBuf r)) (map snd (rg_routeBuf r)) (pruneAdjacency now (rg_adj r)) = (out, adj')"
    and r': "r' = r\<lparr>rg_relayBuf := [], rg_routeBuf := [], rg_adj := adj', rg_nodes := map (stamp_relay out) (rg_nodes r)\<rparr>"
    using assms by (auto simp: DrainRelays_def split: prod.splits)
  have latest: "re_at e \<le> link_time pk out"
    if "e \<in> snd ` set (rg_relayBuf r @ rg_routeBuf r)" "pk \<in> set (by_prefix (relayIndex ?roles) e)" "pk \<noteq> []" for e pk
    using relay_credits_latest [OF out _ that(2,3)] that(1) by auto
  have stamped: "link_time (ne_key (stamp_relay out e)) out \<le> max zeroTime (ns_lastRelayedAt (ne_state (stamp_relay out e)))" for e
  proof -
    have "ne_key (stamp_relay out e) = ne_key e" by (auto simp: stamp_relay_def ne_key_def split: option.split)
    then show ?thesis by (auto simp: link_time_def stamp_relay_def split: option.split)
  qed
  have "list_all2 relay_stamped (rg_nodes r) (map (stamp_relay out) (rg_nodes r))"
    by (simp add: list_all2_map2 stamp_relay_only list_all2_same)
  then show ?thesis using latest stamped by (auto simp: r')
qed


subsection \<open>One-byte hops, resolved by the observer's neighbours\<close>

text \<open>Two repeaters share the byte \<open>3c\<close>; the observer has heard the first.\<close>

definition demo_key :: "char \<Rightarrow> string" where "demo_key c = ''3c'' @ replicate 62 c"

definition demo_path :: relay_path where
  "demo_path = \<lparr>rp_hops = [''3c''], rp_observer = ''obs'', rp_sender = []\<rparr>"

definition demo_graph :: adjacency where "demo_graph = [(''obs'', [(demo_key CHR ''1'', 5)])]"

definition demo_roles :: "(string \<times> string) list" where
  "demo_roles = [(demo_key CHR ''1'', ''repeater''), (demo_key CHR ''2'', ''repeater'')]"

definition demo_config :: mesh_config where
  "demo_config = \<lparr>mc_requireValidSignature = True, mc_retainFor = 0, mc_spamFloor = 0, mc_cadenceK = 0, mc_graceFloor = 0,
     mc_graceCeil = 0, mc_silenceAfter = 0, mc_relayPresence = hour\<rparr>"

definition demo_registry :: registry where
  "demo_registry = (NewRegistry demo_config)\<lparr>
     rg_relayBuf := [(''k1'', \<lparr>re_path = demo_path, re_at = 10\<rparr>)],
     rg_routeBuf := [(''k2'', \<lparr>re_path = \<lparr>rp_hops = [''3c22''], rp_observer = [], rp_sender = []\<rparr>, re_at = 20\<rparr>)],
     rg_adj := demo_graph\<rparr>"

definition demo_known :: "known_node list" where
  "demo_known = map (\<lambda>(k, role). \<lparr>kn_pubKey = k, kn_role = role\<rparr>) demo_roles"

theorem neighbour_rule_rests_witness:
  "(\<exists>k \<le> 2. resolveByNeighbours demo_graph demo_roles demo_path [[]] = (pass_of demo_graph demo_roles demo_path ^^ k) [[]]) \<and>
    resolveByNeighbours demo_graph demo_roles demo_path [[]] = [demo_key CHR ''1'']"
proof -
  have len: "length [[]] = length (rp_hops demo_path)" by (simp add: demo_path_def)
  have "resolveByNeighbours demo_graph demo_roles demo_path [[]] = [demo_key CHR ''1'']" by code_simp
  moreover have "holes [[]] + 1 = 2" by (simp add: holes_def)
  ultimately show ?thesis using neighbour_rule_rests [OF len, of demo_graph demo_roles] by metis
qed

theorem neighbour_rule_order_witness:
  "resolveByNeighbours demo_graph demo_roles demo_path [[]] = resolveByNeighbours demo_graph (List.rev demo_roles) demo_path [[]]"
proof (rule neighbour_rule_order)
  show "nbs_same demo_graph demo_graph" by (simp add: nbs_same_def)
  have "demo_key CHR ''1'' \<noteq> demo_key CHR ''2''" by code_simp
  then show "\<forall>k. tbl_get fst k demo_roles = tbl_get fst k (List.rev demo_roles)" by (auto simp: demo_roles_def)
qed

lemma demo_drain: "fst (DrainRelays 30 demo_known demo_registry) = [(demo_key CHR ''2'', 20), (demo_key CHR ''1'', 10)]"
  by code_simp

theorem relay_credit_sound_witness:
  "\<exists>r'. DrainRelays 30 demo_known demo_registry = ([(demo_key CHR ''2'', 20), (demo_key CHR ''1'', 10)], r') \<and>
    length (demo_key CHR ''1'') = 64 \<and>
    ((\<exists>e \<in> snd ` set (rg_relayBuf demo_registry @ rg_routeBuf demo_registry).
        re_at e = 10 \<and> named_hop (relayRoles demo_known demo_registry) e (demo_key CHR ''1'')) \<or>
     (\<exists>e \<in> snd ` set (rg_relayBuf demo_registry).
        re_at e = 10 \<and> beside_hop (relayRoles demo_known demo_registry) (rg_adj r') e (demo_key CHR ''1'')))"
proof -
  obtain r' where d: "DrainRelays 30 demo_known demo_registry = ([(demo_key CHR ''2'', 20), (demo_key CHR ''1'', 10)], r')"
    using demo_drain by (cases "DrainRelays 30 demo_known demo_registry") simp
  have "demo_key CHR ''2'' \<noteq> demo_key CHR ''1''" by code_simp
  then have "tbl_get fst (demo_key CHR ''1'') [(demo_key CHR ''2'', 20), (demo_key CHR ''1'', 10)] = Some (demo_key CHR ''1'', 10)"
    by simp
  from relay_credit_sound [OF d this] d show ?thesis by blast
qed

theorem drain_relays_latest_witness:
  "\<exists>r'. DrainRelays 30 demo_known demo_registry = ([(demo_key CHR ''2'', 20), (demo_key CHR ''1'', 10)], r') \<and>
    rg_relayBuf r' = [] \<and> rg_routeBuf r' = []"
proof -
  obtain r' where d: "DrainRelays 30 demo_known demo_registry = ([(demo_key CHR ''2'', 20), (demo_key CHR ''1'', 10)], r')"
    using demo_drain by (cases "DrainRelays 30 demo_known demo_registry") simp
  from drain_relays_latest [OF d] d show ?thesis by blast
qed

end
