(* ===== verification/MeshRegistryProps.thy ===== *)
theory MeshRegistryProps
  imports MeshRelayProps
begin

text \<open>
  Runs of the node registry: no packet crashes it or forges a node, the cadence estimate and the presence
  window stay within their limits, a snapshot shows what it should, and every reception is drained once.
\<close>

section \<open>Runs\<close>

text \<open>What the server does with a registry after it is seeded, one locked step at a time.\<close>

datatype reg_op = OpPacket packet_envelope string string time | OpDrainRelays time "known_node list" | OpDrainObs | OpSnapshot time

fun reg_step :: "(byte list \<Rightarrow> byte list \<Rightarrow> byte list \<Rightarrow> bool) \<Rightarrow> reg_op \<Rightarrow> registry \<Rightarrow> (observation list \<times> registry) go" where
  "reg_step v (OpPacket env source gw now) r = gbind (ingestPacket v env source gw now r) (\<lambda>(_, r). GoOk ([], r))"
| "reg_step v (OpDrainRelays now known) r = GoOk ([], snd (DrainRelays now known r))"
| "reg_step v OpDrainObs r = GoOk (DrainObservations r)"
| "reg_step v (OpSnapshot now) r = GoOk ([], snd (Snapshot now r))"

fun run_reg :: "(byte list \<Rightarrow> byte list \<Rightarrow> byte list \<Rightarrow> bool) \<Rightarrow> reg_op list \<Rightarrow> registry \<Rightarrow> (observation list \<times> registry) go" where
  "run_reg v [] r = GoOk ([], r)"
| "run_reg v (op # ops) r =
     gbind (reg_step v op r) (\<lambda>(obs, r). gbind (run_reg v ops r) (\<lambda>(obs', r). GoOk (obs @ obs', r)))"

section \<open>What a packet does\<close>

lemma note_packet_ok: "\<exists>r'. note_packet rawHex env gw now r = GoOk r' \<and> rg_nodes r' = rg_nodes r \<and> rg_cfg r' = rg_cfg r \<and>
    rg_obsBuf r' = rg_obsBuf r \<and> rg_obsGate r' = rg_obsGate r"
  using header_no_panic by (auto simp: note_packet_def split: option.split go.split)

lemma note_advert_ok: "\<exists>r'. note_advert raw adv env gw now r = GoOk r' \<and> rg_nodes r' = rg_nodes r \<and> rg_cfg r' = rg_cfg r \<and>
    rg_obsBuf r' = rg_obsBuf r \<and> rg_obsGate r' = rg_obsGate r"
  using header_no_panic by (auto simp: note_advert_def split: go.split)

definition packet_raw :: "packet_envelope \<Rightarrow> byte list option" where
  "packet_raw env = hex_decode (trimPrefix (trimSpace (pe_raw env)) ''meshcore://'')"

text \<open>The advert an envelope is accepted for, if it is.\<close>

definition accepts :: "(byte list \<Rightarrow> byte list \<Rightarrow> byte list \<Rightarrow> bool) \<Rightarrow> mesh_config \<Rightarrow> packet_envelope \<Rightarrow> advert option" where
  "accepts v cfg env =
     (if flex (pe_packetType env) \<noteq> 4 then None
      else case packet_raw env of
        None \<Rightarrow> None
      | Some raw \<Rightarrow> (case DecodeFrame v raw of
            GoOk adv \<Rightarrow> if mc_requireValidSignature cfg \<and> \<not> av_signatureValid adv then None else Some adv
          | _ \<Rightarrow> None))"

definition gateway_of :: "packet_envelope \<Rightarrow> string \<Rightarrow> string \<Rightarrow> string" where
  "gateway_of env source defaultGateway = firstNonEmpty [pe_originID env, pe_origin env, defaultGateway, source]"

lemma ingest_cases:
  obtains (other) o' r' where "accepts v (rg_cfg r) env = None" "ingestPacket v env source gw now r = GoOk (o', r')"
      "o' \<noteq> PacketAccepted" "rg_nodes r' = rg_nodes r" "rg_cfg r' = rg_cfg r" "rg_obsBuf r' = rg_obsBuf r" "rg_obsGate r' = rg_obsGate r"
  | (accepted) adv r1 where "accepts v (rg_cfg r) env = Some adv"
      "ingestPacket v env source gw now r =
         GoOk (PacketAccepted, prune now (observe adv env source (gateway_of env source gw) now
           (r1\<lparr>rg_nodes := update_node adv env source (gateway_of env source gw) now (rg_nodes r)\<rparr>)))"
      "rg_nodes r1 = rg_nodes r" "rg_cfg r1 = rg_cfg r" "rg_obsBuf r1 = rg_obsBuf r" "rg_obsGate r1 = rg_obsGate r"
proof (cases "flex (pe_packetType env) = 4")
  case False
  obtain r' where "note_packet (trimPrefix (trimSpace (pe_raw env)) ''meshcore://'') env gw now r = GoOk r'" "rg_nodes r' = rg_nodes r"
      "rg_cfg r' = rg_cfg r" "rg_obsBuf r' = rg_obsBuf r" "rg_obsGate r' = rg_obsGate r"
    using note_packet_ok by blast
  with False show thesis by (intro other [of PacketIgnored r']) (simp_all add: accepts_def ingestPacket_def)
next
  case four: True
  show thesis
  proof (cases "packet_raw env")
    case None
    with four show thesis
      by (intro other [of "PacketMalformed ''raw is not hex''" r]) (simp_all add: accepts_def ingestPacket_def packet_raw_def)
  next
    case (Some raw)
    note raw = four Some [unfolded packet_raw_def]
    show thesis
    proof (cases "DecodeFrame v raw")
      case GoPanic
      then show thesis using frame_no_panic by blast
    next
      case (GoErr e)
      with raw Some show thesis
        by (intro other [of "PacketMalformed e" r]) (simp_all add: accepts_def ingestPacket_def)
    next
      case (GoOk adv)
      show thesis
      proof (cases "mc_requireValidSignature (rg_cfg r) \<and> \<not> av_signatureValid adv")
        case True
        with raw GoOk Some show thesis
          by (intro other [of "PacketRejected (''advert signature does not verify (pubkey '' @ av_pubKey adv @ '')'')" r])
            (simp_all add: accepts_def ingestPacket_def)
      next
        case False
        obtain r1 where r1: "note_advert raw adv env gw now r = GoOk r1" "rg_nodes r1 = rg_nodes r" "rg_cfg r1 = rg_cfg r"
            "rg_obsBuf r1 = rg_obsBuf r" "rg_obsGate r1 = rg_obsGate r"
          using note_advert_ok by blast
        show thesis
          by (rule accepted [of adv r1])
            (use False raw GoOk Some r1 in \<open>auto simp: accepts_def ingestPacket_def gateway_of_def Let_def\<close>)
      qed
    qed
  qed
qed

lemma observe_nodes [simp]: "rg_nodes (observe adv env source gw now r) = rg_nodes r" "rg_cfg (observe adv env source gw now r) = rg_cfg r"
  by (auto simp: observe_def allowObservation_def Let_def split: bool.split option.split)

lemma prune_nodes: "set (rg_nodes (prune now r)) \<subseteq> set (rg_nodes r)" "rg_cfg (prune now r) = rg_cfg r" "rg_obsBuf (prune now r) = rg_obsBuf r"
  by (auto simp: prune_def Let_def)

lemma tbl_ok_prune: "tbl_ok ne_key (rg_nodes r) \<Longrightarrow> tbl_ok ne_key (rg_nodes (prune now r))"
  by (auto simp: prune_def Let_def tbl_ok_filter)

section \<open>Nodes come from signed adverts\<close>

text \<open>
  \<open>signed_claim\<close>: a message signed by the key itself (the signature check \<open>v\<close> accepts it) whose app data say this
  role, this name and this location.
\<close>

definition signed_claim :: "(byte list \<Rightarrow> byte list \<Rightarrow> byte list \<Rightarrow> bool) \<Rightarrow> string \<Rightarrow> string \<Rightarrow> byte list \<Rightarrow> (rat \<times> rat) option \<Rightarrow> bool" where
  "signed_claim v key role name loc \<longleftrightarrow> (\<exists>pub ts app sig has la lo.
     key = hex_encode pub \<and> length pub = 32 \<and> length ts = 4 \<and> v pub (pub @ ts @ app) sig \<and>
     decode_app app = GoOk (role, name, has, la, lo) \<and> loc = (if has then Some (la, lo) else None))"

lemma accepted_signed:
  assumes "accepts v cfg env = Some adv" "mc_requireValidSignature cfg"
  shows "signed_claim v (av_pubKey adv) (av_role adv) (av_name adv) (if av_hasLocation adv then Some (av_lat adv, av_lng adv) else None)"
proof -
  obtain raw where raw: "DecodeFrame v raw = GoOk adv" "av_signatureValid adv"
    using assms by (auto simp: accepts_def split: if_splits option.splits go.splits)
  obtain pub ts sig app role name has la lo where "length pub = 32" "length ts = 4" "v pub (pub @ ts @ app) sig"
      "decode_app app = GoOk (role, name, has, la, lo)" and adv: "adv = \<lparr>av_pubKey = hex_encode pub, av_role = role, av_name = name,
        av_hasLocation = has, av_lat = la, av_lng = lo, av_timestamp = fromUnix (uint (le32 ts)), av_path = av_path adv,
        av_hopCount = length (av_path adv), av_signatureValid = True\<rparr>"
    using advert_signed [OF raw] by blast
  moreover have "av_pubKey adv = hex_encode pub" "av_role adv = role" "av_name adv = name" "av_hasLocation adv = has"
      "av_lat adv = la" "av_lng adv = lo" by (subst adv; simp)+
  ultimately show ?thesis unfolding signed_claim_def by blast
qed

definition name_attested :: "(byte list \<Rightarrow> byte list \<Rightarrow> byte list \<Rightarrow> bool) \<Rightarrow> seed_node list \<Rightarrow> string \<Rightarrow> string \<Rightarrow> byte list \<Rightarrow> bool" where
  "name_attested v sns key role name \<longleftrightarrow>
     (\<exists>sn \<in> set sns. sn_pubKey sn = key \<and> sn_role sn = role \<and> sn_name sn = name) \<or> (\<exists>loc. signed_claim v key role name loc)"

definition place_attested :: "(byte list \<Rightarrow> byte list \<Rightarrow> byte list \<Rightarrow> bool) \<Rightarrow> seed_node list \<Rightarrow> string \<Rightarrow> rat \<Rightarrow> rat \<Rightarrow> bool" where
  "place_attested v sns key la lo \<longleftrightarrow>
     (\<exists>sn \<in> set sns. sn_pubKey sn = key \<and> sn_hasLocation sn \<and> sn_lat sn = la \<and> sn_lng sn = lo) \<or>
     (\<exists>role name. signed_claim v key role name (Some (la, lo)))"

definition node_attested :: "(byte list \<Rightarrow> byte list \<Rightarrow> byte list \<Rightarrow> bool) \<Rightarrow> seed_node list \<Rightarrow> node_state \<Rightarrow> bool" where
  "node_attested v sns s \<longleftrightarrow> name_attested v sns (ns_pubKey s) (ns_role s) (ns_name s) \<and>
     (ns_hasLocation s \<longrightarrow> place_attested v sns (ns_pubKey s) (ns_lat s) (ns_lng s))"

text \<open>The part of a node that says who and where it is.\<close>

definition who :: "node_state \<Rightarrow> string \<times> string \<times> byte list \<times> bool \<times> rat \<times> rat" where
  "who s = (ns_pubKey s, ns_role s, ns_name s, ns_hasLocation s, ns_lat s, ns_lng s)"

lemma attested_who: "who s = who s' \<Longrightarrow> node_attested v sns s = node_attested v sns s'"
  by (simp add: who_def node_attested_def)

lemma who_recordCadence [simp]: "ne_state (recordCadence t e) = ne_state e"
  by (simp add: recordCadence_def Let_def)

lemma who_replay: "who (ne_state (fold replay ts e)) = who (ne_state e)"
proof (induction ts arbitrary: e)
  case (Cons t ts)
  have "who (ne_state (replay t e)) = who (ne_state e)" by (simp add: replay_def Let_def who_def)
  then show ?case using Cons by simp
qed simp

lemma who_seed_clocks [simp]: "who (seed_clocks sn s) = who s"
  by (simp add: seed_clocks_def Let_def who_def)

lemma who_stamp_relay: "who (ne_state (stamp_relay out e)) = who (ne_state e)"
  by (auto simp: stamp_relay_def who_def split: option.split prod.split)

definition nodes_attested :: "(byte list \<Rightarrow> byte list \<Rightarrow> byte list \<Rightarrow> bool) \<Rightarrow> seed_node list \<Rightarrow> node_entry list \<Rightarrow> bool" where
  "nodes_attested v sns nodes \<longleftrightarrow> tbl_ok ne_key nodes \<and> (\<forall>e \<in> set nodes. node_attested v sns (ne_state e))"

lemma entry_of_attested:
  assumes "nodes_attested v sns nodes"
  shows "ns_hasLocation (ne_state (entry_of pk nodes)) \<Longrightarrow>
      place_attested v sns pk (ns_lat (ne_state (entry_of pk nodes))) (ns_lng (ne_state (entry_of pk nodes)))"
proof (cases "tbl_get ne_key pk nodes")
  case (Some e)
  then have e: "e \<in> set nodes" "ns_pubKey (ne_state e) = pk" using tbl_get_Some by (metis, metis ne_key_def)
  assume "ns_hasLocation (ne_state (entry_of pk nodes))"
  then have "ns_hasLocation (ne_state e)" using Some by (simp add: entry_of_def)
  then have "place_attested v sns pk (ns_lat (ne_state e)) (ns_lng (ne_state e))"
    using assms e unfolding nodes_attested_def node_attested_def by metis
  then show ?thesis using Some by (simp add: entry_of_def)
qed (simp add: entry_of_def new_entry_def empty_state_def)

lemma attested_put:
  assumes "nodes_attested v sns nodes" "node_attested v sns (ne_state e)"
  shows "nodes_attested v sns (tbl_put ne_key e nodes)"
  using assms tbl_put_set by (fastforce simp: nodes_attested_def)

lemma seed_one_attested:
  assumes "nodes_attested v sns nodes" "sn \<in> set sns"
  shows "nodes_attested v sns (seed_node_one sn nodes)"
proof (cases "sn_pubKey sn = []")
  case False
  let ?e = "entry_of (sn_pubKey sn) nodes"
  have "name_attested v sns (sn_pubKey sn) (sn_role sn) (sn_name sn)" using assms(2) by (auto simp: name_attested_def)
  moreover have "place_attested v sns (sn_pubKey sn) (sn_lat sn) (sn_lng sn)" if "sn_hasLocation sn"
    using that assms(2) by (auto simp: place_attested_def)
  ultimately have "node_attested v sns (seed_state sn (ne_state ?e))"
    using entry_of_attested [OF assms(1), of "sn_pubKey sn"] by (simp add: seed_state_def node_attested_def Let_def)
  moreover have "who (ne_state (seed_entry sn ?e)) = who (seed_state sn (ne_state ?e))"
    using who_replay [of "sn_heardTimes sn"] by (simp add: seed_entry_def Let_def)
  ultimately have "node_attested v sns (ne_state (seed_entry sn ?e))" using attested_who by blast
  then show ?thesis using False attested_put [OF assms(1)] by (simp add: seed_node_one_def)
qed (use assms in \<open>simp add: seed_node_one_def\<close>)


lemma advert_who: "who (advert_state adv env now s) = (av_pubKey adv, av_role adv, av_name adv,
    av_hasLocation adv \<or> ns_hasLocation s, if av_hasLocation adv then av_lat adv else ns_lat s,
    if av_hasLocation adv then av_lng adv else ns_lng s)"
  by (auto simp: advert_state_def who_def Let_def split: option.split)

lemma update_attested:
  assumes nodes: "nodes_attested v sns nodes" and adv: "accepts v cfg env = Some adv" "mc_requireValidSignature cfg"
  shows "nodes_attested v sns (update_node adv env source gw now nodes)"
proof -
  let ?e = "entry_of (av_pubKey adv) nodes"
  let ?s = "advert_state adv env now (ne_state ?e)"
  note claim = accepted_signed [OF adv]
  have "name_attested v sns (av_pubKey adv) (av_role adv) (av_name adv)" using claim by (auto simp: name_attested_def)
  moreover have "place_attested v sns (av_pubKey adv) (av_lat adv) (av_lng adv)" if "av_hasLocation adv"
    using claim that by (auto simp: place_attested_def)
  ultimately have "node_attested v sns ?s"
    using entry_of_attested [OF nodes, of "av_pubKey adv"] advert_who [of adv env now "ne_state ?e"]
    by (auto simp: node_attested_def who_def)
  moreover have "ne_state (heard_entry adv env source gw now ?e) = ?s" by (simp add: heard_entry_def Let_def)
  ultimately show ?thesis using attested_put [OF nodes] by (simp add: update_node_def)
qed

lemma attested_subset: "nodes_attested v sns (rg_nodes r) \<Longrightarrow> nodes_attested v sns (rg_nodes (prune now r))"
  using prune_nodes(1) [of now r] tbl_ok_prune [of r now] by (auto simp: nodes_attested_def)

lemma attested_stamp: "nodes_attested v sns nodes \<Longrightarrow> nodes_attested v sns (map (stamp_relay out) nodes)"
proof -
  have "ne_key (stamp_relay out e) = ne_key e" for e using who_stamp_relay [of out e] by (simp add: who_def ne_key_def)
  then show "nodes_attested v sns nodes \<Longrightarrow> ?thesis"
    using attested_who [OF who_stamp_relay] by (auto simp: nodes_attested_def tbl_ok_map)
qed

lemma step_attested:
  assumes "nodes_attested v sns (rg_nodes r)" "mc_requireValidSignature (rg_cfg r)"
  shows "\<exists>obs r'. reg_step v op r = GoOk (obs, r') \<and> nodes_attested v sns (rg_nodes r') \<and> rg_cfg r' = rg_cfg r"
proof (cases op)
  case (OpPacket env source gw now)
  show ?thesis
  proof (cases rule: ingest_cases [of v r env source gw now])
    case (other o' r')
    then show ?thesis using OpPacket assms by simp
  next
    case (accepted adv r1)
    then show ?thesis
      using OpPacket update_attested [OF assms(1) accepted(1) assms(2)] prune_nodes(2) by (simp add: attested_subset)
  qed
next
  case (OpDrainRelays now known)
  then show ?thesis using attested_stamp [OF assms(1)] by (simp add: DrainRelays_def split: prod.split)
next
  case OpDrainObs
  then show ?thesis using assms by (simp add: DrainObservations_def Let_def)
next
  case (OpSnapshot now)
  then show ?thesis using assms prune_nodes(2) by (simp add: Snapshot_def Let_def attested_subset)
qed

lemma run_attested:
  "nodes_attested v sns (rg_nodes r) \<Longrightarrow> mc_requireValidSignature (rg_cfg r) \<Longrightarrow>
     \<exists>obs r'. run_reg v ops r = GoOk (obs, r') \<and> nodes_attested v sns (rg_nodes r')"
proof (induction ops arbitrary: r)
  case (Cons op ops)
  obtain obs r1 where r1: "reg_step v op r = GoOk (obs, r1)" "nodes_attested v sns (rg_nodes r1)" "rg_cfg r1 = rg_cfg r"
    using step_attested [OF Cons.prems] by blast
  then obtain obs' r' where "run_reg v ops r1 = GoOk (obs', r')" "nodes_attested v sns (rg_nodes r')"
    using Cons.IH [of r1] Cons.prems(2) by auto
  with r1 show ?case by simp
qed simp

lemma seed_attested: "nodes_attested v sns (rg_nodes (Seed sns (NewRegistry cfg)))"
proof -
  have "nodes_attested v sns nodes \<Longrightarrow> set xs \<subseteq> set sns \<Longrightarrow> nodes_attested v sns (fold seed_node_one xs nodes)" for xs nodes
    by (induction xs arbitrary: nodes) (simp_all add: seed_one_attested)
  moreover have "nodes_attested v sns []" by (simp add: nodes_attested_def)
  ultimately show ?thesis by (simp add: Seed_def NewRegistry_def Let_def)
qed

text \<open>
  C26: with signatures required, no packet can crash the registry, forge a node or move one. Whatever
  packets arrive in whatever order, interleaved with drains and snapshots, every step returns; the nodes
  have distinct keys; and each node's role and name, and its position if it has one, were seeded for that key or stood in a
  message the key itself signed. Relays, routes and unsigned frames never introduce a node.
\<close>

theorem registry_attested:
  assumes "mc_requireValidSignature cfg"
  shows "\<exists>obs r. run_reg v ops (Seed sns (NewRegistry cfg)) = GoOk (obs, r) \<and> tbl_ok ne_key (rg_nodes r) \<and>
    (\<forall>e \<in> set (rg_nodes r). name_attested v sns (ne_key e) (ns_role (ne_state e)) (ns_name (ne_state e)) \<and>
       (ns_hasLocation (ne_state e) \<longrightarrow> place_attested v sns (ne_key e) (ns_lat (ne_state e)) (ns_lng (ne_state e))))"
proof -
  have "mc_requireValidSignature (rg_cfg (Seed sns (NewRegistry cfg)))" using assms by (simp add: Seed_def NewRegistry_def Let_def)
  from run_attested [OF seed_attested this, where ops = ops] show ?thesis
    by (auto simp: nodes_attested_def node_attested_def ne_key_def)
qed


text \<open>A run: a seeded node, an advert of the frame above and a drain.\<close>

definition demo_env :: packet_envelope where
  "demo_env = \<lparr>pe_origin = [], pe_originID = ''obs'', pe_packetType = Some 4, pe_raw = hex_encode demo_frame,
     pe_snr = Some 5, pe_rssi = Some (-91)\<rparr>"

definition demo_seed :: seed_node where
  "demo_seed = \<lparr>sn_pubKey = demo_key CHR ''1'', sn_role = ''repeater'', sn_name = [], sn_hasLocation = True, sn_lat = 38, sn_lng = -120,
     sn_lastHeard = 5, sn_heardTimes = [], sn_lastReceived = zeroTime, sn_lastRelayed = zeroTime\<rparr>"

definition demo_verify :: "byte list \<Rightarrow> byte list \<Rightarrow> byte list \<Rightarrow> bool" where
  "demo_verify pub msg sig \<longleftrightarrow> sig = replicate 64 (pub ! 0 + 2)"

definition demo_ops :: "reg_op list" where
  "demo_ops = [OpPacket demo_env ''mqtt'' [] hour, OpDrainRelays (hour + 1) [], OpDrainObs]"

theorem registry_attested_witness:
  "accepts demo_verify demo_config demo_env \<noteq> None \<and>
    (\<exists>obs r. run_reg demo_verify demo_ops (Seed [demo_seed] (NewRegistry demo_config)) = GoOk (obs, r) \<and>
      (\<forall>e \<in> set (rg_nodes r). name_attested demo_verify [demo_seed] (ne_key e) (ns_role (ne_state e)) (ns_name (ne_state e))))"
proof
  have "mc_requireValidSignature demo_config" by (simp add: demo_config_def)
  from registry_attested [OF this, of demo_verify demo_ops "[demo_seed]"]
  show "\<exists>obs r. run_reg demo_verify demo_ops (Seed [demo_seed] (NewRegistry demo_config)) = GoOk (obs, r) \<and>
      (\<forall>e \<in> set (rg_nodes r). name_attested demo_verify [demo_seed] (ne_key e) (ns_role (ne_state e)) (ns_name (ne_state e)))"
    by blast
  have "(case accepts demo_verify demo_config demo_env of Some a \<Rightarrow> True | None \<Rightarrow> False)" by code_simp
  then show "accepts demo_verify demo_config demo_env \<noteq> None" by (simp split: option.splits)
qed

section \<open>Cadence and presence\<close>

text \<open>What a node's estimate knows after receptions \<open>first\<close> to \<open>now\<close>.\<close>

definition cadence_ok :: "time \<Rightarrow> node_entry \<Rightarrow> bool" where
  "cadence_ok first e \<longleftrightarrow> 1 \<le> ne_adverts e \<and> zeroTime < ne_cadenceAt e \<and> first \<le> ne_cadenceAt e \<and>
     (if ne_adverts e < 2 then ne_ewma e = 0 \<and> ne_cadenceAt e = first
      else minCadenceSample \<le> ne_ewma e \<and> ne_ewma e \<le> ne_cadenceAt e - first)"

lemma ewma_between:
  fixes g w :: int
  assumes "0 < g" "0 < w"
  shows "min g w \<le> quot (3 * g + 7 * w) 10 \<and> quot (3 * g + 7 * w) 10 \<le> max g w"
proof -
  have "quot (3 * g + 7 * w) 10 = (3 * g + 7 * w) div 10" using assms by (intro quot_nonneg) simp_all
  moreover have "10 * min g w \<le> 3 * g + 7 * w" "3 * g + 7 * w \<le> 10 * max g w" by (simp_all add: min_def max_def)
  ultimately show ?thesis by linarith
qed

lemma recordCadence_ok:
  assumes "cadence_ok first e" "ne_cadenceAt e \<le> t"
  shows "cadence_ok first (recordCadence t e) \<and> ne_cadenceAt (recordCadence t e) \<le> t"
proof (cases "t - ne_cadenceAt e < minCadenceSample")
  case True
  then show ?thesis using assms by (auto simp: recordCadence_def isZero_def cadence_ok_def Let_def)
next
  case False
  let ?g = "t - ne_cadenceAt e"
  have pos: "0 < minCadenceSample" by (simp add: minCadenceSample_def)
  have nz: "\<not> isZero (ne_cadenceAt e)" using assms(1) by (simp add: cadence_ok_def isZero_def)
  have at: "zeroTime < t" "first \<le> t" using assms by (simp_all add: cadence_ok_def)
  let ?w = "if ne_ewma e \<le> 0 then ?g else quot (3 * ?g + 7 * ne_ewma e) 10"
  have rec: "recordCadence t e = e\<lparr>ne_ewma := ?w, ne_cadenceAt := t, ne_adverts := ne_adverts e + 1\<rparr>"
    using False nz by (simp add: recordCadence_def Let_def)
  have "minCadenceSample \<le> ?w \<and> ?w \<le> t - first \<and> 2 \<le> ne_adverts e + 1"
  proof (cases "ne_adverts e < 2")
    case True
    then show ?thesis using assms(1) False by (simp add: cadence_ok_def)
  next
    case more: False
    then have w: "minCadenceSample \<le> ne_ewma e" "ne_ewma e \<le> ne_cadenceAt e - first" "first \<le> ne_cadenceAt e"
      using assms(1) by (simp_all add: cadence_ok_def)
    then have mm: "min ?g (ne_ewma e) \<le> quot (3 * ?g + 7 * ne_ewma e) 10" "quot (3 * ?g + 7 * ne_ewma e) 10 \<le> max ?g (ne_ewma e)"
      using False pos ewma_between [of ?g "ne_ewma e"] by linarith+
    have "minCadenceSample \<le> min ?g (ne_ewma e)" using w(1) False by simp
    then have lo: "minCadenceSample \<le> quot (3 * ?g + 7 * ne_ewma e) 10" using mm(1) by (rule order_trans)
    have "max ?g (ne_ewma e) \<le> t - first" using w assms(2) by simp
    then have hi: "quot (3 * ?g + 7 * ne_ewma e) 10 \<le> t - first" by (rule order_trans [OF mm(2)])
    have "\<not> ne_ewma e \<le> 0" using w(1) pos by linarith
    then have "?w = quot (3 * ?g + 7 * ne_ewma e) 10" by (rule if_not_P)
    with lo hi more show ?thesis by linarith
  qed
  then show ?thesis using at unfolding rec by (simp add: cadence_ok_def)
qed

lemma cadence_fold:
  "sorted ts \<Longrightarrow> \<forall>t \<in> set ts. ne_cadenceAt e \<le> t \<Longrightarrow> cadence_ok first e \<Longrightarrow>
     cadence_ok first (fold recordCadence ts e) \<and> (\<forall>b. ne_cadenceAt e \<le> b \<and> (\<forall>t \<in> set ts. t \<le> b) \<longrightarrow> ne_cadenceAt (fold recordCadence ts e) \<le> b)"
proof (induction ts arbitrary: e)
  case (Cons t ts)
  have r: "cadence_ok first (recordCadence t e)" "ne_cadenceAt (recordCadence t e) \<le> t"
    using recordCadence_ok [OF Cons.prems(3)] Cons.prems(2) by simp_all
  have "cadence_ok first (fold recordCadence ts (recordCadence t e)) \<and> (\<forall>b. ne_cadenceAt (recordCadence t e) \<le> b \<and> (\<forall>t \<in> set ts. t \<le> b) \<longrightarrow>
      ne_cadenceAt (fold recordCadence ts (recordCadence t e)) \<le> b)"
    by (rule Cons.IH) (use Cons.prems(1) r in \<open>auto intro: order_trans\<close>)
  then show ?case using r(2) by (auto intro: order_trans)
qed simp

lemma presenceWindow_between:
  "presenceWindow cfg e = mc_graceFloor cfg \<or>
     (mc_graceFloor cfg \<le> presenceWindow cfg e \<or> presenceWindow cfg e = mc_graceCeil cfg) \<and> presenceWindow cfg e \<le> mc_graceCeil cfg"
  by (auto simp: presenceWindow_def Let_def)

lemma sorted_last: "sorted xs \<Longrightarrow> x \<in> set xs \<Longrightarrow> x \<le> List.last xs" for x :: "'a::linorder"
  by (induction xs) (auto split: if_splits)

text \<open>
  The measured cadence is that of the adverts, and the presence window follows it within its limits. For
  receptions in ascending order, the smoothed interval is 0 (and the window the floor) as long as all lie within one echo of the
  first; after that it is at least the echo threshold and at most the time the receptions span. The window is never shorter than
  the floor and never longer than the ceiling.
\<close>

theorem cadence_bounds:
  assumes "sorted (t # ts)" "zeroTime < t" "mc_graceFloor cfg \<le> mc_graceCeil cfg"
    and e: "e = fold recordCadence (t # ts) (new_entry pk)"
  shows "mc_graceFloor cfg \<le> presenceWindow cfg e \<and> presenceWindow cfg e \<le> mc_graceCeil cfg \<and>
    (if ne_adverts e < 2 then ne_ewma e = 0 \<and> presenceWindow cfg e = mc_graceFloor cfg
     else minCadenceSample \<le> ne_ewma e \<and> ne_ewma e \<le> List.last (t # ts) - t)"
proof -
  let ?e0 = "recordCadence t (new_entry pk)"
  have e0: "cadence_ok t ?e0" "ne_cadenceAt ?e0 = t"
    using assms(2) by (simp_all add: recordCadence_def new_entry_def isZero_def cadence_ok_def)
  have "cadence_ok t e \<and> (\<forall>b. t \<le> b \<and> (\<forall>u \<in> set ts. u \<le> b) \<longrightarrow> ne_cadenceAt e \<le> b)"
    using cadence_fold [of ts ?e0 t] assms(1) e0 by (simp add: e)
  moreover have "\<forall>u \<in> set (t # ts). u \<le> List.last (t # ts)"
    using sorted_last [OF assms(1)] by blast
  ultimately have ok: "cadence_ok t e" "ne_cadenceAt e \<le> List.last (t # ts)" by simp_all
  have "if ne_adverts e < 2 then ne_ewma e = 0 else minCadenceSample \<le> ne_ewma e \<and> ne_ewma e \<le> List.last (t # ts) - t"
    using ok by (auto simp: cadence_ok_def)
  moreover have "ne_adverts e < 2 \<Longrightarrow> presenceWindow cfg e = mc_graceFloor cfg" by (simp add: presenceWindow_def)
  ultimately show ?thesis using presenceWindow_between [of cfg e] assms(3) by auto
qed


text \<open>A repeater heard three times, six hours apart; the middle reception echoes off a second gateway.\<close>

theorem cadence_bounds_witness:
  "presenceWindow (rg_cfg (NewRegistry demo_config)) (fold recordCadence [hour, 7 * hour, 7 * hour + second, 13 * hour] (new_entry ''k'')) = 18 * hour \<and>
    presenceWindow (rg_cfg (NewRegistry demo_config)) (fold recordCadence [hour, 7 * hour, 7 * hour + second, 13 * hour] (new_entry ''k'')) \<le> 72 * hour"
proof
  let ?cfg = "rg_cfg (NewRegistry demo_config)" and ?e = "fold recordCadence [hour, 7 * hour, 7 * hour + second, 13 * hour] (new_entry ''k'')"
  show "presenceWindow ?cfg ?e = 18 * hour" by code_simp
  have "sorted [hour, 7 * hour, 7 * hour + second, 13 * hour]" "zeroTime < hour" by code_simp+
  moreover have "mc_graceFloor ?cfg \<le> mc_graceCeil ?cfg" by code_simp
  moreover have "mc_graceCeil ?cfg = 72 * hour" by code_simp
  ultimately show "presenceWindow ?cfg ?e \<le> 72 * hour" using cadence_bounds [OF _ _ _ refl, of hour _ ?cfg "''k''"] by metis
qed

definition kept :: "mesh_config \<Rightarrow> time \<Rightarrow> node_entry \<Rightarrow> bool" where
  "kept cfg now e \<longleftrightarrow> mc_retainFor cfg \<le> 0 \<or> now - last_sign e \<le> mc_retainFor cfg"

lemma prune_kept: "rg_nodes (prune now r) = filter (kept (rg_cfg r) now) (rg_nodes r)"
  by (auto simp: prune_def kept_def Let_def intro: filter_cong)

lemma snapshot_keys: "ns_pubKey ` set (fst (Snapshot now r)) =
    ne_key ` {e \<in> set (rg_nodes r). kept (rg_cfg r) now e \<and> present (rg_cfg r) now e}"
proof -
  have "fst (Snapshot now r) = map (\<lambda>e. (ne_state e)\<lparr>ns_gateways := sortedKeys (ne_gateways e), ns_brokers := sortedKeys (ne_brokers e)\<rparr>)
      (filter (present (rg_cfg r) now) (filter (kept (rg_cfg r) now) (rg_nodes r)))"
    by (simp add: Snapshot_def Let_def prune_kept prune_nodes(2))
  then show ?thesis by (auto simp: ne_key_def image_iff)
qed

text \<open>
  Which nodes a snapshot shows. A node heard, or relaying when relay presence is on, within the shortest window
  and within the retention is in it; a node whose last advert is further back than the longest window, and whose
  last relay is further back than the relay presence, is not. Nothing is shown that the registry does not hold.
\<close>

theorem snapshot_presence:
  assumes ok: "tbl_ok ne_key (rg_nodes r)" and e: "e \<in> set (rg_nodes r)"
    and floor: "0 < mc_graceFloor (rg_cfg r)" "mc_graceFloor (rg_cfg r) \<le> mc_graceCeil (rg_cfg r)"
      "mc_graceCeil (rg_cfg r) \<le> mc_retainFor (rg_cfg r)"
  shows "(now - ns_lastHeardAt (ne_state e) \<le> mc_graceFloor (rg_cfg r) \<longrightarrow> ne_key e \<in> ns_pubKey ` set (fst (Snapshot now r))) \<and>
    (zeroTime < ns_lastRelayedAt (ne_state e) \<and> 0 < mc_relayPresence (rg_cfg r) \<and>
     now - ns_lastRelayedAt (ne_state e) \<le> min (mc_relayPresence (rg_cfg r)) (mc_retainFor (rg_cfg r)) \<longrightarrow>
       ne_key e \<in> ns_pubKey ` set (fst (Snapshot now r))) \<and>
    (now - ns_lastHeardAt (ne_state e) > mc_graceCeil (rg_cfg r) \<and>
     now - ns_lastRelayedAt (ne_state e) > mc_relayPresence (rg_cfg r) \<longrightarrow>
       ne_key e \<notin> ns_pubKey ` set (fst (Snapshot now r)))"
proof -
  let ?cfg = "rg_cfg r"
  have shown: "ne_key e \<in> ns_pubKey ` set (fst (Snapshot now r)) \<longleftrightarrow> kept ?cfg now e \<and> present ?cfg now e"
  proof -
    have same: "e' = e" if "e' \<in> set (rg_nodes r)" "ne_key e' = ne_key e" for e'
      using tbl_get_mem [OF ok e] tbl_get_mem [OF ok that(1)] that(2) by (metis option.inject)
    show ?thesis
    proof
      assume "ne_key e \<in> ns_pubKey ` set (fst (Snapshot now r))"
      then obtain e' where "e' \<in> set (rg_nodes r)" "ne_key e' = ne_key e" "kept ?cfg now e'" "present ?cfg now e'"
        unfolding snapshot_keys by force
      then show "kept ?cfg now e \<and> present ?cfg now e" using same by blast
    next
      assume "kept ?cfg now e \<and> present ?cfg now e"
      then show "ne_key e \<in> ns_pubKey ` set (fst (Snapshot now r))"
        unfolding snapshot_keys using e by (intro imageI) simp
    qed
  qed
  have window: "mc_graceFloor ?cfg \<le> presenceWindow ?cfg e" "presenceWindow ?cfg e \<le> mc_graceCeil ?cfg"
    using presenceWindow_between [of ?cfg e] floor by auto
  have sign: "ns_lastHeardAt (ne_state e) \<le> last_sign e" "ns_lastRelayedAt (ne_state e) \<le> last_sign e"
    by (simp_all add: last_sign_def Let_def)
  show ?thesis unfolding shown
  proof (intro conjI impI)
    assume "now - ns_lastHeardAt (ne_state e) \<le> mc_graceFloor ?cfg"
    then show "kept ?cfg now e" "present ?cfg now e" using window(1) sign(1) floor by (simp_all add: kept_def present_def)
  next
    assume a: "zeroTime < ns_lastRelayedAt (ne_state e) \<and> 0 < mc_relayPresence ?cfg \<and>
      now - ns_lastRelayedAt (ne_state e) \<le> min (mc_relayPresence ?cfg) (mc_retainFor ?cfg)"
    then show "kept ?cfg now e" "present ?cfg now e" using sign(2) by (simp_all add: kept_def present_def isZero_def)
  next
    assume "now - ns_lastHeardAt (ne_state e) > mc_graceCeil ?cfg \<and> now - ns_lastRelayedAt (ne_state e) > mc_relayPresence ?cfg"
    then show "\<not> (kept ?cfg now e \<and> present ?cfg now e)" using window(2) by (simp add: present_def)
  qed
qed

theorem snapshot_presence_witness:
  "demo_key CHR ''1'' \<in> ns_pubKey ` set (fst (Snapshot hour (Seed [demo_seed] (NewRegistry demo_config))))"
proof -
  let ?r = "Seed [demo_seed] (NewRegistry demo_config)"
  let ?e = "seed_entry demo_seed (new_entry (demo_key CHR ''1''))"
  have nodes: "rg_nodes ?r = [?e]"
    by (simp add: Seed_def NewRegistry_def Let_def seed_node_one_def demo_seed_def demo_key_def entry_of_def)
  have facts: "ne_key ?e = demo_key CHR ''1''" "0 < mc_graceFloor (rg_cfg ?r)" "mc_graceFloor (rg_cfg ?r) \<le> mc_graceCeil (rg_cfg ?r)"
      "mc_graceCeil (rg_cfg ?r) \<le> mc_retainFor (rg_cfg ?r)" "hour - ns_lastHeardAt (ne_state ?e) \<le> mc_graceFloor (rg_cfg ?r)"
    by code_simp+
  have "tbl_ok ne_key (rg_nodes ?r)" "?e \<in> set (rg_nodes ?r)" by (simp_all add: nodes tbl_ok_def)
  from snapshot_presence [OF this facts(2,3,4), of hour] facts(1,5) show ?thesis by auto
qed

section \<open>Receptions\<close>

text \<open>The receptions a run buffers, in order: those of accepted adverts that pass the spam floor.\<close>

definition reception :: "advert \<Rightarrow> packet_envelope \<Rightarrow> string \<Rightarrow> string \<Rightarrow> time \<Rightarrow> observation" where
  "reception adv env source gw now = \<lparr>ob_pubKey = av_pubKey adv, ob_heardAt = now, ob_broker = source, ob_gateway = gw,
     ob_snr = flex (pe_snr env), ob_rssi = to_int32 (flex (pe_rssi env)), ob_hopCount = av_hopCount adv, ob_path = av_path adv, ob_pathNodes = []\<rparr>"

definition received :: "(byte list \<Rightarrow> byte list \<Rightarrow> byte list \<Rightarrow> bool) \<Rightarrow> reg_op \<Rightarrow> registry \<Rightarrow> observation list" where
  "received v op r =
     (case op of
        OpPacket env source gw now \<Rightarrow>
          (case accepts v (rg_cfg r) env of
             None \<Rightarrow> []
           | Some adv \<Rightarrow> if fst (allowObservation (av_pubKey adv) (gateway_of env source gw) now r)
                         then [reception adv env source (gateway_of env source gw) now] else [])
      | _ \<Rightarrow> [])"

fun receptions :: "(byte list \<Rightarrow> byte list \<Rightarrow> byte list \<Rightarrow> bool) \<Rightarrow> reg_op list \<Rightarrow> registry \<Rightarrow> observation list" where
  "receptions v [] r = []"
| "receptions v (op # ops) r = received v op r @ (case reg_step v op r of GoOk (_, r') \<Rightarrow> receptions v ops r' | _ \<Rightarrow> [])"

definition bare :: "observation \<Rightarrow> observation" where "bare ob = ob\<lparr>ob_pathNodes := []\<rparr>"

lemma allow_cong: "rg_cfg r = rg_cfg r' \<Longrightarrow> rg_obsGate r = rg_obsGate r' \<Longrightarrow>
    fst (allowObservation pk gw now r) = fst (allowObservation pk gw now r')"
  by (auto simp: allowObservation_def Let_def split: option.split)

lemma observe_buf: "rg_obsBuf (observe adv env source gw now r) =
    (if fst (allowObservation (av_pubKey adv) gw now r)
     then (let buf = rg_obsBuf r @ [reception adv env source gw now] in drop (length buf - maxObsBuffer) buf) else rg_obsBuf r)"
proof -
  have "rg_obsBuf (snd (allowObservation (av_pubKey adv) gw now r)) = rg_obsBuf r"
    by (auto simp: allowObservation_def Let_def split: option.split)
  then show ?thesis
    by (cases "allowObservation (av_pubKey adv) gw now r") (auto simp: observe_def reception_def Let_def split: bool.split)
qed

lemma bare_resolved: "map bare (map (\<lambda>ob. ob\<lparr>ob_pathNodes := f ob\<rparr>) obs) = map bare obs"
  by (simp add: bare_def comp_def)

lemma step_receptions:
  assumes "reg_step v op r = GoOk (obs, r')" "length (rg_obsBuf r) < maxObsBuffer"
  shows "map bare (obs @ rg_obsBuf r') = map bare (rg_obsBuf r @ received v op r) \<and> length (rg_obsBuf r') \<le> length (rg_obsBuf r) + 1"
proof (cases op)
  case (OpPacket env source gw now)
  show ?thesis
  proof (cases rule: ingest_cases [of v r env source gw now])
    case (other o' r1)
    then show ?thesis using OpPacket assms by (auto simp: received_def)
  next
    case (accepted adv r1)
    let ?r2 = "r1\<lparr>rg_nodes := update_node adv env source (gateway_of env source gw) now (rg_nodes r)\<rparr>"
    have allow: "fst (allowObservation (av_pubKey adv) (gateway_of env source gw) now ?r2) =
        fst (allowObservation (av_pubKey adv) (gateway_of env source gw) now r)"
      by (rule allow_cong) (simp_all add: accepted)
    have "obs = []" "rg_obsBuf r' = rg_obsBuf (observe adv env source (gateway_of env source gw) now ?r2)"
      using OpPacket assms(1) accepted(2) by (auto simp: prune_nodes(3))
    then show ?thesis
      using OpPacket accepted(1,5) assms(2) by (simp add: observe_buf allow received_def Let_def)
  qed
next
  case (OpDrainRelays now known)
  then show ?thesis using assms(1) by (auto simp: DrainRelays_def received_def split: prod.splits)
next
  case OpDrainObs
  then show ?thesis
    using assms(1) bare_resolved by (auto simp: DrainObservations_def received_def Let_def bare_def split: if_splits)
next
  case (OpSnapshot now)
  then show ?thesis using assms(1) by (auto simp: Snapshot_def received_def Let_def prune_nodes(3))
qed

text \<open>
  C27: every reception is delivered once, in order. Over any run that buffers no more than the buffer
  holds, what \<open>DrainObservations\<close> handed out followed by what is still buffered is what was buffered at the start
  followed by the receptions of the accepted adverts that pass the spam floor (a drain only adds the resolved path nodes).
\<close>

theorem observations_once:
  assumes "run_reg v ops r = GoOk (obs, r')" "length (rg_obsBuf r) + length ops \<le> maxObsBuffer"
  shows "map bare (obs @ rg_obsBuf r') = map bare (rg_obsBuf r @ receptions v ops r)"
  using assms
proof (induction ops arbitrary: r obs)
  case (Cons op ops)
  obtain o1 r1 o2 where s: "reg_step v op r = GoOk (o1, r1)" "run_reg v ops r1 = GoOk (o2, r')" "obs = o1 @ o2"
    using Cons.prems(1) by (auto simp: gbind_GoOk)
  have st: "map bare (o1 @ rg_obsBuf r1) = map bare (rg_obsBuf r @ received v op r)" "length (rg_obsBuf r1) \<le> length (rg_obsBuf r) + 1"
    using step_receptions [OF s(1)] Cons.prems(2) by simp_all
  have "map bare (o2 @ rg_obsBuf r') = map bare (rg_obsBuf r1 @ receptions v ops r1)"
    using Cons.IH [OF s(2)] st(2) Cons.prems(2) by simp
  then have "map bare (obs @ rg_obsBuf r') = map bare (o1 @ rg_obsBuf r1) @ map bare (receptions v ops r1)" by (simp add: s(3))
  then show ?case unfolding st(1) by (simp add: s(1))
qed simp

theorem observations_once_witness:
  "\<exists>obs r'. run_reg demo_verify demo_ops (Seed [demo_seed] (NewRegistry demo_config)) = GoOk (obs, r') \<and>
    map bare (obs @ rg_obsBuf r') = map bare (receptions demo_verify demo_ops (Seed [demo_seed] (NewRegistry demo_config)))"
proof -
  let ?r = "Seed [demo_seed] (NewRegistry demo_config)"
  have "mc_requireValidSignature (rg_cfg ?r)" by (simp add: Seed_def NewRegistry_def demo_config_def Let_def)
  from run_attested [OF seed_attested this, where ops = demo_ops and v = demo_verify]
  obtain obs r' where run: "run_reg demo_verify demo_ops ?r = GoOk (obs, r')" by blast
  have "rg_obsBuf ?r = []" by (simp add: Seed_def NewRegistry_def Let_def)
  moreover have "length demo_ops \<le> maxObsBuffer" by (simp add: demo_ops_def maxObsBuffer_def)
  ultimately show ?thesis using observations_once [OF run] run by simp
qed

end
