(* ===== verification/Burn.thy ===== *)
theory Burn
  imports Prelude
begin

text \<open>
  The staged burn-line readings of \<open>internal/store/burn.go\<close>: a push handler lands the latest
  reading of a recorded phone line, the scheduler's burn poller reads them all.
\<close>

section \<open>Operations\<close>

record burn_reading =
  br_lineID :: string
  br_status :: string
  br_message :: string
  br_transcript :: string
  br_confidence :: int
  br_observedAt :: time
  br_receivedAt :: time
  br_reporterID :: string

record burn_row =
  bw_line :: string
  bw_status :: string
  bw_message :: string
  bw_transcript :: string
  bw_confidence :: int
  bw_observed :: int
  bw_received :: int
  bw_reporter :: string

definition burn_row_of :: "time \<Rightarrow> burn_reading \<Rightarrow> burn_row" where
  "burn_row_of now r =
     \<lparr>bw_line = toLower (br_lineID r), bw_status = br_status r, bw_message = br_message r,
      bw_transcript = br_transcript r, bw_confidence = br_confidence r, bw_observed = unix (br_observedAt r),
      bw_received = unix (if isZero (br_receivedAt r) then now else br_receivedAt r), bw_reporter = br_reporterID r\<rparr>"

text \<open>The upsert with its \<open>WHERE excluded.observed_at >= burn_readings.observed_at\<close>.\<close>

definition upsert_burn :: "burn_row \<Rightarrow> burn_row list \<Rightarrow> burn_row list" where
  "upsert_burn w t =
     (case tbl_get bw_line (bw_line w) t of
        Some old \<Rightarrow> if bw_observed w \<ge> bw_observed old then tbl_put bw_line w t else t
      | None \<Rightarrow> tbl_put bw_line w t)"

definition PutBurnReading :: "burn_reading \<Rightarrow> time \<Rightarrow> burn_row list \<Rightarrow> burn_row list result" where
  "PutBurnReading r now t =
     (if br_lineID r = [] then Inl ''store: burn reading needs a line id''
      else if isZero (br_observedAt r) then Inl ''store: burn reading needs an observed_at''
      else Inr (upsert_burn (burn_row_of now r) t))"

definition burn_reading_of :: "burn_row \<Rightarrow> burn_reading" where
  "burn_reading_of w =
     \<lparr>br_lineID = bw_line w, br_status = bw_status w, br_message = bw_message w, br_transcript = bw_transcript w,
      br_confidence = bw_confidence w, br_observedAt = fromUnix (bw_observed w),
      br_receivedAt = fromUnix (bw_received w), br_reporterID = bw_reporter w\<rparr>"

definition BurnReadings :: "burn_row list \<Rightarrow> (string \<rightharpoonup> burn_reading)" where
  "BurnReadings t = (\<lambda>i. map_option burn_reading_of (tbl_get bw_line i t))"

section \<open>The newest delivery wins\<close>

text \<open>A history of deliveries; a rejected one leaves the table.\<close>

definition deliver :: "burn_reading \<times> time \<Rightarrow> burn_row list \<Rightarrow> burn_row list" where
  "deliver d t = (case PutBurnReading (fst d) (snd d) t of Inl _ \<Rightarrow> t | Inr t' \<Rightarrow> t')"

definition accepted :: "string \<Rightarrow> (burn_reading \<times> time) list \<Rightarrow> burn_row list" where
  "accepted line ds = map (\<lambda>(r, now). burn_row_of now r)
     (filter (\<lambda>(r, _). br_lineID r \<noteq> [] \<and> \<not> isZero (br_observedAt r) \<and> toLower (br_lineID r) = line) ds)"

text \<open>The last of the rows with the largest observation time.\<close>

definition newest :: "burn_row list \<Rightarrow> burn_row option" where
  "newest ws = foldl (\<lambda>b w. case b of Some o' \<Rightarrow> if bw_observed w \<ge> bw_observed o' then Some w else b | None \<Rightarrow> Some w) None ws"

lemma newest_snoc:
  "newest (ws @ [w]) = (case newest ws of Some b \<Rightarrow> if bw_observed w \<ge> bw_observed b then Some w else Some b | None \<Rightarrow> Some w)"
  by (simp add: newest_def split: option.split)

lemma newest_None: "newest ws = None \<longleftrightarrow> ws = []"
  by (induction ws rule: rev_induct) (auto simp: newest_snoc newest_def [of "[]"] split: option.splits if_splits)

text \<open>Nothing before the newest row is newer, and everything after it is older.\<close>

lemma newest_split:
  assumes "newest ws = Some w"
  shows "\<exists>us vs. ws = us @ w # vs \<and> (\<forall>x \<in> set us. bw_observed x \<le> bw_observed w) \<and>
    (\<forall>x \<in> set vs. bw_observed x < bw_observed w)"
  using assms
proof (induction ws arbitrary: w rule: rev_induct)
  case Nil
  then show ?case by (simp add: newest_def)
next
  case (snoc x ws)
  show ?case
  proof (cases "newest ws")
    case None
    then have "w = x" using snoc.prems by (simp add: newest_snoc)
    moreover have "ws = []" using None by (simp add: newest_None)
    ultimately show ?thesis by (intro exI [of _ "[]"]) simp
  next
    case (Some b)
    then obtain us vs where uv: "ws = us @ b # vs" "\<forall>x \<in> set us. bw_observed x \<le> bw_observed b"
        "\<forall>x \<in> set vs. bw_observed x < bw_observed b"
      using snoc.IH by blast
    show ?thesis
    proof (cases "bw_observed x \<ge> bw_observed b")
      case True
      then have "w = x" using snoc.prems by (simp add: newest_snoc Some)
      moreover have "\<forall>y \<in> set ws. bw_observed y \<le> bw_observed x"
        using True uv(2,3) unfolding uv(1) by auto
      ultimately show ?thesis by (intro exI [of _ ws] exI [of _ "[]"]) simp
    next
      case False
      then have "w = b" using snoc.prems by (simp add: newest_snoc Some)
      with False uv show ?thesis by (intro exI [of _ us] exI [of _ "vs @ [x]"]) auto
    qed
  qed
qed

lemma burn_line [simp]: "bw_line (burn_row_of now r) = toLower (br_lineID r)"
  by (simp add: burn_row_of_def)

lemma deliver_get:
  "tbl_get bw_line i (deliver (r, now) t) =
     (if br_lineID r = [] \<or> isZero (br_observedAt r) \<or> toLower (br_lineID r) \<noteq> i then tbl_get bw_line i t
      else case tbl_get bw_line i t of
             Some b \<Rightarrow> if unix (br_observedAt r) \<ge> bw_observed b then Some (burn_row_of now r) else Some b
           | None \<Rightarrow> Some (burn_row_of now r))"
  by (auto simp: deliver_def PutBurnReading_def upsert_burn_def burn_row_of_def split: option.split)

lemma accepted_snoc:
  "accepted i (ds @ [(r, now)]) = accepted i ds @
     (if br_lineID r \<noteq> [] \<and> \<not> isZero (br_observedAt r) \<and> toLower (br_lineID r) = i then [burn_row_of now r] else [])"
  by (simp add: accepted_def)

lemma deliveries_newest: "tbl_get bw_line i (fold deliver ds []) = newest (accepted i ds)"
proof (induction ds rule: rev_induct)
  case Nil
  then show ?case by (simp add: accepted_def newest_def)
next
  case (snoc d ds)
  obtain r now where d: "d = (r, now)" by (cases d)
  have "bw_observed (burn_row_of now r) = unix (br_observedAt r)" by (simp add: burn_row_of_def)
  then show ?case using snoc by (auto simp: d deliver_get accepted_snoc newest_snoc split: option.split)
qed

text \<open>
  A retried, duplicated or late push never moves a line back. Whatever the order the readings
  were delivered in, the reading a line has is an accepted one with the newest observation time,
  the last delivered of those; a line nothing was accepted for has none.
\<close>

theorem burn_reading_newest:
  "case BurnReadings (fold deliver ds []) line of
     None \<Rightarrow> accepted line ds = []
   | Some r \<Rightarrow> \<exists>ws w vs. accepted line ds = ws @ w # vs \<and> r = burn_reading_of w \<and>
       (\<forall>x \<in> set ws. bw_observed x \<le> bw_observed w) \<and> (\<forall>x \<in> set vs. bw_observed x < bw_observed w)"
proof (cases "newest (accepted line ds)")
  case None
  then have "accepted line ds = []" by (simp add: newest_None)
  with None show ?thesis by (simp add: BurnReadings_def deliveries_newest)
next
  case (Some w)
  from newest_split [OF Some] show ?thesis
    by (simp add: BurnReadings_def deliveries_newest Some) blast
qed

text \<open>A late delivery of an older reading.\<close>

definition ex_reading :: "time \<Rightarrow> string \<Rightarrow> burn_reading" where
  "ex_reading t s = \<lparr>br_lineID = ''Line'', br_status = s, br_message = [], br_transcript = [], br_confidence = 90,
     br_observedAt = t, br_receivedAt = 0, br_reporterID = ''r''\<rparr>"

theorem burn_reading_newest_witness:
  "\<exists>r. BurnReadings (fold deliver [(ex_reading (2 * hour) ''red'', 0), (ex_reading hour ''green'', 0)] []) ''line'' = Some r \<and>
     br_status r = ''red''"
proof -
  let ?ds = "[(ex_reading (2 * hour) ''red'', 0), (ex_reading hour ''green'', 0)]"
  have acc: "accepted ''line'' ?ds = [burn_row_of 0 (ex_reading (2 * hour) ''red''), burn_row_of 0 (ex_reading hour ''green'')]"
    by code_simp
  have late: "bw_observed (burn_row_of 0 (ex_reading hour ''green'')) < bw_observed (burn_row_of 0 (ex_reading (2 * hour) ''red''))"
    by code_simp
  have st: "br_status (burn_reading_of (burn_row_of 0 (ex_reading (2 * hour) ''red''))) = ''red''" by code_simp
  show ?thesis
    using burn_reading_newest [where ds = ?ds and line = "''line''"] late st unfolding acc
    by (cases "BurnReadings (fold deliver ?ds []) ''line''") (auto simp: Cons_eq_append_conv append_eq_Cons_conv)
qed

end
