(* ===== verification/PushIngest.thy ===== *)
theory PushIngest
  imports MeshRegistry Burn Grid
begin

text \<open>
  The authenticated push endpoint, \<open>internal/pushingest\<close>: how its registry is built from the configuration, what a
  POST to \<open>/api/v1/ingest/{stream}\<close> does on each of the three streams, reporter health and the snapshot the mesh
  normalizer reads. It is the one write surface of the service, and it composes with the node registry (packets) and the
  burn staging table. JSON, RFC 3339 and SHA-256 are the fields of a codec; a request is one step at one
  instant; warning texts leave out positions and numbers.
\<close>

section \<open>Configuration and state\<close>

record reporter_cfg =
  rc_id :: string
  rc_name :: string
  rc_tokenSha256 :: string
  rc_suppliedAtDeploy :: bool
  rc_streams :: "string list"
  rc_staleAfter :: duration
  rc_minInterval :: duration
  rc_priority :: int
  rc_placeIDs :: "string list"
  rc_enumerates :: bool

record ingest_cfg =
  ic_maxBodyBytes :: int
  ic_maxItems :: int
  ic_reporters :: "reporter_cfg list"
  ic_tokenSha256 :: "(string \<times> string) list"

definition staleAfterOrDefault :: "reporter_cfg \<Rightarrow> duration" where
  "staleAfterOrDefault rc = (if rc_staleAfter rc \<le> 0 then 30 * minute else rc_staleAfter rc)"

definition minIntervalOrDefault :: "reporter_cfg \<Rightarrow> duration" where
  "minIntervalOrDefault rc = (if rc_minInterval rc \<le> 0 then 15 * second else rc_minInterval rc)"

definition maxBodyBytesOrDefault :: "ingest_cfg \<Rightarrow> int" where
  "maxBodyBytesOrDefault c = (if ic_maxBodyBytes c \<le> 0 then 2 ^ 20 else ic_maxBodyBytes c)"

definition maxItemsOrDefault :: "ingest_cfg \<Rightarrow> int" where
  "maxItemsOrDefault c = (if ic_maxItems c \<le> 0 then 1000 else ic_maxItems c)"

record reporter =
  rp_cfg :: reporter_cfg
  rp_lastAcceptedAt :: time
  rp_lastAttemptAt :: time
  rp_lastError :: string
  rp_reports :: nat
  rp_acceptedByStream :: "(string \<times> time) list"

definition rp_id :: "reporter \<Rightarrow> string" where "rp_id rep = rc_id (rp_cfg rep)"

record mesh_report =
  mr_reporterID :: string
  mr_priority :: int
  mr_placeIDs :: "string list"
  mr_enumerates :: bool
  mr_nodeID :: string
  mr_name :: string
  mr_receivedAt :: time
  mr_reportedAt :: time
  mr_lastAttempt :: time
  mr_lastSuccess :: time
  mr_telemetry :: "mesh_admin option"

text \<open>
  The registry with the two stores it writes: the node registry (\<open>None\<close> until \<open>SetPacketSink\<close>) and the
  burn staging table (\<open>None\<close> without \<open>WithBurnLines\<close>). Tokens are kept by their hash.
\<close>

record push_state =
  pi_cfg :: ingest_cfg
  pi_byTokenHash :: "(string \<times> string) list"
  pi_order :: "reporter list"
  pi_missingTokens :: "string list"
  pi_mesh :: "(string \<times> mesh_report list) list"
  pi_packets :: "registry option"
  pi_burn :: "burn_row list option"
  pi_burnLines :: "string list"
  pi_burnWakes :: nat

definition newReporter :: "reporter_cfg \<Rightarrow> reporter" where
  "newReporter rc = \<lparr>rp_cfg = rc, rp_lastAcceptedAt = zeroTime, rp_lastAttemptAt = zeroTime, rp_lastError = [], rp_reports = 0,
     rp_acceptedByStream = []\<rparr>"

definition tokenHashFor :: "reporter_cfg \<Rightarrow> (string \<times> string) list \<Rightarrow> string result" where
  "tokenHashFor rc supplied =
     (let committed = toLower (trimSpace (rc_tokenSha256 rc));
          entry = tbl_get fst (rc_id rc) supplied;
          injected = (case entry of None \<Rightarrow> [] | Some (_, h) \<Rightarrow> toLower (trimSpace h)) in
      if rc_suppliedAtDeploy rc \<and> committed \<noteq> [] then Inl ''pushingest: reporter is tokenSuppliedAtDeploy but also has a committed tokenSha256''
      else if entry \<noteq> None \<and> committed \<noteq> [] then Inl ''pushingest: reporter has both a committed tokenSha256 and one in reporterTokenSha256''
      else if entry \<noteq> None \<and> injected = [] then Inl ''pushingest: reporterTokenSha256 entry is empty''
      else if entry \<noteq> None then Inr injected
      else if committed = [] \<and> rc_suppliedAtDeploy rc then Inr []
      else if committed = [] then Inl ''pushingest: reporter has no tokenSha256''
      else Inr committed)"

definition add_reporter :: "reporter_cfg \<Rightarrow> push_state \<Rightarrow> push_state result" where
  "add_reporter rc st =
     (if rc_id rc = [] then Inl ''pushingest: reporter with empty id''
      else if rc_id rc \<in> set (map rp_id (pi_order st)) then Inl ''pushingest: duplicate reporter id''
      else rbind (tokenHashFor rc (ic_tokenSha256 (pi_cfg st))) (\<lambda>h.
        let rc = rc\<lparr>rc_tokenSha256 := h\<rparr> in
        if rc_streams rc = [] then Inl ''pushingest: reporter authorizes no streams''
        else if h = [] then Inr (st\<lparr>pi_order := pi_order st @ [newReporter rc], pi_missingTokens := pi_missingTokens st @ [rc_id rc]\<rparr>)
        else if length h \<noteq> 64 then Inl ''pushingest: tokenSha256 must be 64 hex characters''
        else if hex_decode h = None then Inl ''pushingest: tokenSha256 is not hex''
        else if tbl_get fst h (pi_byTokenHash st) \<noteq> None then Inl ''pushingest: reporter shares a token with another reporter''
        else Inr (st\<lparr>pi_byTokenHash := pi_byTokenHash st @ [(h, rc_id rc)], pi_order := pi_order st @ [newReporter rc]\<rparr>)))"

text \<open>\<open>burn\<close> is the argument of \<open>WithBurnLines\<close>, if given.\<close>

definition newPushRegistry :: "ingest_cfg \<Rightarrow> (burn_row list \<times> string list) option \<Rightarrow> push_state result" where
  "newPushRegistry cfg burn =
     (let st = \<lparr>pi_cfg = cfg, pi_byTokenHash = [], pi_order = [], pi_missingTokens = [], pi_mesh = [], pi_packets = None,
                pi_burn = None, pi_burnLines = [], pi_burnWakes = 0\<rparr>;
          st = (case burn of
                  Some (table, ids) \<Rightarrow> if ids = [] then st
                    else st\<lparr>pi_burn := Some table, pi_burnLines := map (\<lambda>i. toLower (trimSpace i)) ids\<rparr>
                | None \<Rightarrow> st) in
      rbind (rfold add_reporter (ic_reporters cfg) st) (\<lambda>st.
        if \<forall>e \<in> set (ic_tokenSha256 cfg). fst e \<in> set (map rp_id (pi_order st)) then Inr st
        else Inl ''pushingest: reporterTokenSha256 has a hash for a reporter that is not configured''))"

definition SetPacketSink :: "registry \<Rightarrow> push_state \<Rightarrow> push_state" where
  "SetPacketSink sink st = st\<lparr>pi_packets := Some sink\<rparr>"

definition with_reporter :: "string \<Rightarrow> (reporter \<Rightarrow> reporter) \<Rightarrow> push_state \<Rightarrow> push_state" where
  "with_reporter i f st = st\<lparr>pi_order := map (\<lambda>rep. if rp_id rep = i then f rep else rep) (pi_order st)\<rparr>"

section \<open>Payloads\<close>

record repeater_in =
  ri_id :: string
  ri_name :: string
  ri_lastAttempt :: "int option"
  ri_lastSuccess :: "int option"
  ri_pctSource :: string
  ri_gauges :: "rat option list"
  ri_counters :: "int option list"

record mesh_payload =
  mp_schemaVersion :: int
  mp_generatedAt :: string
  mp_repeaters :: "repeater_in list"

record packet_payload =
  pp_schemaVersion :: int
  pp_observer :: string
  pp_packets :: "string list"

record burn_in =
  bi_lineID :: string
  bi_status :: string
  bi_message :: string
  bi_transcript :: string
  bi_confidence :: int
  bi_observedAt :: string

record burn_payload =
  bp_schemaVersion :: int
  bp_readings :: "burn_in list"

text \<open>What the standard library makes of the bytes of a request.\<close>

record codec =
  cd_hash :: "string \<Rightarrow> string"
  cd_time :: "string \<Rightarrow> time option"
  cd_mesh :: "string \<Rightarrow> mesh_payload result"
  cd_packets :: "string \<Rightarrow> packet_payload result"
  cd_envelope :: "string \<Rightarrow> packet_envelope result"
  cd_burn :: "string \<Rightarrow> burn_payload result"
  cd_verify :: "byte list \<Rightarrow> byte list \<Rightarrow> byte list \<Rightarrow> bool"

definition clampPast :: "time \<Rightarrow> time \<Rightarrow> time" where
  "clampPast t now = (if isZero t then t else if t > now then now else t)"

definition unixOrZero_in :: "int option \<Rightarrow> time" where
  "unixOrZero_in v = (case v of None \<Rightarrow> zeroTime | Some n \<Rightarrow> if n \<le> 0 then zeroTime else fromUnix n)"

definition parseRFC3339 :: "codec \<Rightarrow> string \<Rightarrow> time" where
  "parseRFC3339 cd s = (if s = [] then zeroTime else case cd_time cd s of None \<Rightarrow> zeroTime | Some t \<Rightarrow> t)"

section \<open>Streams\<close>

definition MeshStream :: string where "MeshStream = ''mesh.repeater''"
definition MeshPacketStream :: string where "MeshPacketStream = ''mesh.packet''"
definition BurnStream :: string where "BurnStream = ''burn.line''"
definition KnownStreams :: "string list" where "KnownStreams = [MeshStream, MeshPacketStream, BurnStream]"

lemmas stream_defs = MeshStream_def MeshPacketStream_def BurnStream_def

text \<open>A handler's error, or what it accepted with its warnings.\<close>

type_synonym handled = "(nat \<times> string list) result"

definition accept_report :: "time \<Rightarrow> reporter \<Rightarrow> reporter" where
  "accept_report now rep = rep\<lparr>rp_lastAcceptedAt := now, rp_lastError := [], rp_reports := rp_reports rep + 1\<rparr>"

definition accept_on :: "string \<Rightarrow> time \<Rightarrow> reporter \<Rightarrow> reporter" where
  "accept_on stream now rep = (accept_report now rep)\<lparr>rp_acceptedByStream := tbl_put fst (stream, now) (rp_acceptedByStream rep)\<rparr>"

subsection \<open>mesh.repeater\<close>

definition hasAnyMetric :: "repeater_in \<Rightarrow> bool" where
  "hasAnyMetric ri \<longleftrightarrow> (\<exists>g \<in> set (ri_gauges ri). g \<noteq> None) \<or> (\<exists>c \<in> set (take 5 (ri_counters ri)). c \<noteq> None)"

definition stampOrNil :: "time \<Rightarrow> time option" where "stampOrNil t = (if isZero t then None else Some t)"

definition adminProto :: "repeater_in \<Rightarrow> mesh_report \<Rightarrow> mesh_admin" where
  "adminProto ri nr = \<lparr>ad_reporterId = mr_reporterID nr, ad_pctSource = trimSpace (ri_pctSource ri), ad_gauges = ri_gauges ri,
     ad_counters = map flex (ri_counters ri), ad_reportedAt = stampOrNil (mr_reportedAt nr),
     ad_lastSuccessAt = stampOrNil (mr_lastSuccess nr), ad_lastAttemptAt = stampOrNil (mr_lastAttempt nr)\<rparr>"

definition node_report :: "reporter_cfg \<Rightarrow> time \<Rightarrow> time \<Rightarrow> string \<Rightarrow> repeater_in \<Rightarrow> mesh_report" where
  "node_report rc now generatedAt i ri =
     (let nr = \<lparr>mr_reporterID = rc_id rc, mr_priority = rc_priority rc, mr_placeIDs = rc_placeIDs rc, mr_enumerates = rc_enumerates rc,
                mr_nodeID = i, mr_name = trimSpace (ri_name ri), mr_receivedAt = now, mr_reportedAt = generatedAt,
                mr_lastAttempt = clampPast (unixOrZero_in (ri_lastAttempt ri)) now,
                mr_lastSuccess = clampPast (unixOrZero_in (ri_lastSuccess ri)) now, mr_telemetry = None\<rparr> in
      if \<not> isZero (mr_lastSuccess nr) \<and> hasAnyMetric ri then nr\<lparr>mr_telemetry := Some (adminProto ri nr)\<rparr> else nr)"

definition mesh_one :: "reporter_cfg \<Rightarrow> time \<Rightarrow> time \<Rightarrow> repeater_in \<Rightarrow> mesh_report list \<times> string list \<Rightarrow> mesh_report list \<times> string list" where
  "mesh_one rc now generatedAt ri = (\<lambda>(reports, warnings).
     let i = toLower (trimSpace (ri_id ri)) in
     if \<not> ValidNodeID i then (reports, warnings @ [''id is not 8-64 hex characters; skipped''])
     else if tbl_get mr_nodeID i reports \<noteq> None then (reports, warnings @ [''duplicate id; keeping the first''])
     else (reports @ [node_report rc now generatedAt i ri], warnings))"

definition ingestMesh :: "codec \<Rightarrow> reporter_cfg \<Rightarrow> string \<Rightarrow> int \<Rightarrow> time \<Rightarrow> push_state \<Rightarrow> handled \<times> push_state" where
  "ingestMesh cd rc body maxItems now st =
     (case cd_mesh cd body of
        Inl e \<Rightarrow> (Inl e, st)
      | Inr p \<Rightarrow>
          if mp_schemaVersion p \<noteq> 1 then (Inl ''unsupported schema_version'', st)
          else if int (length (mp_repeaters p)) > maxItems then (Inl ''report carries too many repeaters'', st)
          else case fold (mesh_one rc now (clampPast (parseRFC3339 cd (mp_generatedAt p)) now)) (mp_repeaters p) ([], []) of
            (reports, warnings) \<Rightarrow>
              (Inr (length reports, warnings),
               with_reporter (rc_id rc) (accept_on MeshStream now) (st\<lparr>pi_mesh := tbl_put fst (rc_id rc, reports) (pi_mesh st)\<rparr>)))"

subsection \<open>mesh.packet\<close>

definition maxPacketWarnings :: nat where "maxPacketWarnings = 25"

definition PacketSource :: "string \<Rightarrow> string" where "PacketSource i = ''reporter:'' @ i"

definition ReporterFromPacketSource :: "string \<Rightarrow> string \<times> bool" where
  "ReporterFromPacketSource source =
     (if \<not> hasPrefix source ''reporter:'' then ([], False) else (trimPrefix source ''reporter:'', True))"

definition IngestEnvelope :: "codec \<Rightarrow> string \<Rightarrow> string \<Rightarrow> string \<Rightarrow> time \<Rightarrow> registry \<Rightarrow> (packet_outcome \<times> registry) go" where
  "IngestEnvelope cd payload source defaultGateway now r =
     (case cd_envelope cd payload of
        Inl e \<Rightarrow> GoOk (PacketMalformed (''bad envelope JSON: '' @ e), r)
      | Inr env \<Rightarrow> ingestPacket (cd_verify cd) env source defaultGateway now r)"

text \<open>The loop over the packets: taken, dropped, warnings and the registry so far.\<close>

fun packet_loop :: "codec \<Rightarrow> string \<Rightarrow> string \<Rightarrow> time \<Rightarrow> string list \<Rightarrow> nat \<times> nat \<times> string list \<times> registry \<Rightarrow>
    (nat \<times> nat \<times> string list \<times> registry) go" where
  "packet_loop cd source gateway now [] acc = GoOk acc"
| "packet_loop cd source gateway now (pk # pks) (taken, dropped, warnings, r) =
     gbind (IngestEnvelope cd pk source gateway now r) (\<lambda>(outcome, r).
       packet_loop cd source gateway now pks
         (case outcome of
            PacketAccepted \<Rightarrow> (taken + 1, dropped, warnings, r)
          | PacketIgnored \<Rightarrow> (taken, dropped, warnings, r)
          | PacketMalformed e \<Rightarrow> (taken, dropped + 1, if length warnings < maxPacketWarnings then warnings @ [''malformed: '' @ e] else warnings, r)
          | PacketRejected e \<Rightarrow> (taken, dropped + 1, if length warnings < maxPacketWarnings then warnings @ [''rejected: '' @ e] else warnings, r)))"

definition ingestPackets :: "codec \<Rightarrow> reporter_cfg \<Rightarrow> string \<Rightarrow> int \<Rightarrow> time \<Rightarrow> push_state \<Rightarrow> (handled \<times> push_state) go" where
  "ingestPackets cd rc body maxItems now st =
     (case pi_packets st of
        None \<Rightarrow> GoOk (Inl ''mesh.packet is not enabled on this server: MeshCore ingest is off'', st)
      | Some sink \<Rightarrow>
          (case cd_packets cd body of
             Inl e \<Rightarrow> GoOk (Inl e, st)
           | Inr p \<Rightarrow>
               if pp_schemaVersion p \<noteq> 1 then GoOk (Inl ''unsupported schema_version'', st)
               else if int (length (pp_packets p)) > maxItems then GoOk (Inl ''report carries too many packets'', st)
               else let observer = toLower (trimSpace (pp_observer p)) in
                 if observer \<noteq> [] \<and> \<not> ValidNodeID observer then GoOk (Inl ''observer is not 8-64 hex characters'', st)
                 else let gateway = (if observer = [] then rc_id rc else observer) in
                   gbind (packet_loop cd (PacketSource (rc_id rc)) gateway now (pp_packets p) (0, 0, [], sink)) (\<lambda>(taken, dropped, warnings, sink).
                     GoOk (Inr (taken, if dropped > maxPacketWarnings then warnings @ [''... and more packets dropped''] else warnings),
                           with_reporter (rc_id rc) (accept_on MeshPacketStream now) (st\<lparr>pi_packets := Some sink\<rparr>)))))"

subsection \<open>burn.line\<close>

text \<open>
  One reading: skipped with a warning, staged, or (a failure of the store) the end of the request. The
  accumulator holds the lines staged so far, their number, the warnings and the table.
\<close>

type_synonym burn_acc = "string list \<times> nat \<times> string list \<times> burn_row list"

definition stage_reading :: "codec \<Rightarrow> reporter_cfg \<Rightarrow> string list \<Rightarrow> time \<Rightarrow> burn_in \<Rightarrow> burn_acc \<Rightarrow> burn_acc result" where
  "stage_reading cd rc lines now bi = (\<lambda>(seen, n, warnings, table).
     let line = toLower (trimSpace (bi_lineID bi)); status = toLower (trimSpace (bi_status bi));
         observed = parseRFC3339 cd (bi_observedAt bi) in
     if line = [] then Inr (seen, n, warnings @ [''line_id is required; skipped''], table)
     else if line \<notin> set lines then Inr (seen, n, warnings @ [''not a configured burn line; skipped''], table)
     else if line \<in> set seen then Inr (seen, n, warnings @ [''duplicate line_id; keeping the first''], table)
     else if status \<notin> {''green'', ''red'', ''orange''} then Inr (seen, n, warnings @ [''unknown status; skipped''], table)
     else if bi_confidence bi < 0 \<or> bi_confidence bi > 100 then Inr (seen, n, warnings @ [''confidence is outside 0-100; skipped''], table)
     else if isZero observed then Inr (seen, n, warnings @ [''observed_at is required and must be RFC 3339; skipped''], table)
     else case PutBurnReading \<lparr>br_lineID = line, br_status = status, br_message = trimSpace (bi_message bi),
              br_transcript = trimSpace (bi_transcript bi), br_confidence = bi_confidence bi, br_observedAt = clampPast observed now,
              br_receivedAt = now, br_reporterID = rc_id rc\<rparr> now table of
            Inl e \<Rightarrow> Inl (''staging reading: '' @ e)
          | Inr table \<Rightarrow> Inr (line # seen, n + 1, warnings, table))"

text \<open>The loop stops at a failure of the store and keeps what was staged before it.\<close>

fun stage_loop :: "codec \<Rightarrow> reporter_cfg \<Rightarrow> string list \<Rightarrow> time \<Rightarrow> burn_in list \<Rightarrow> burn_acc \<Rightarrow> string option \<times> burn_acc" where
  "stage_loop cd rc lines now [] acc = (None, acc)"
| "stage_loop cd rc lines now (bi # bis) acc =
     (case stage_reading cd rc lines now bi acc of Inl e \<Rightarrow> (Some e, acc) | Inr acc \<Rightarrow> stage_loop cd rc lines now bis acc)"

definition ingestBurn :: "codec \<Rightarrow> reporter_cfg \<Rightarrow> string \<Rightarrow> int \<Rightarrow> time \<Rightarrow> push_state \<Rightarrow> handled \<times> push_state" where
  "ingestBurn cd rc body maxItems now st =
     (case pi_burn st of
        None \<Rightarrow> (Inl ''this deployment has no burn lines configured (grid.burn.lines)'', st)
      | Some table \<Rightarrow>
          (if pi_burnLines st = [] then (Inl ''this deployment has no burn lines configured (grid.burn.lines)'', st)
           else case cd_burn cd body of
             Inl e \<Rightarrow> (Inl e, st)
           | Inr p \<Rightarrow>
               if bp_schemaVersion p \<noteq> 1 then (Inl ''unsupported schema_version'', st)
               else if int (length (bp_readings p)) > maxItems then (Inl ''report carries too many readings'', st)
               else if bp_readings p = [] then (Inl ''report carries no readings'', st)
               else case stage_loop cd rc (pi_burnLines st) now (bp_readings p) ([], 0, [], table) of
                 (Some e, _, _, _, table) \<Rightarrow> (Inl e, st\<lparr>pi_burn := Some table\<rparr>)
               | (None, _, n, warnings, table) \<Rightarrow>
                   (if n = 0 then (Inl ''no usable readings in report'', st\<lparr>pi_burn := Some table\<rparr>)
                    else (Inr (n, warnings),
                          with_reporter (rc_id rc) (accept_report now)
                            (st\<lparr>pi_burn := Some table, pi_burnWakes := pi_burnWakes st + 1\<rparr>)))))"

definition restore_row :: "push_state \<Rightarrow> burn_row \<Rightarrow> push_state \<Rightarrow> push_state" where
  "restore_row st0 w st =
     (let granted = filter (\<lambda>rep. BurnStream \<in> set (rc_streams (rp_cfg rep))) (pi_order st0);
          received = fromUnix (bw_received w);
          owner = (if bw_reporter w = [] \<and> length granted = 1 then Some (rp_id (hd granted))
                   else map_option rp_id (tbl_get rp_id (bw_reporter w) granted)) in
      case owner of
        None \<Rightarrow> st
      | Some i \<Rightarrow> with_reporter i (\<lambda>rep. if received > rp_lastAcceptedAt rep then rep\<lparr>rp_lastAcceptedAt := received\<rparr> else rep) st)"

definition RestoreBurnHealth :: "push_state \<Rightarrow> push_state" where
  "RestoreBurnHealth st = (case pi_burn st of None \<Rightarrow> st | Some table \<Rightarrow> fold (restore_row st) table st)"

section \<open>The request\<close>

record push_request =
  rq_method :: string
  rq_authorization :: string
  rq_preflight :: bool
  rq_stream :: string
  rq_body :: "string option"      \<comment> \<open>\<open>None\<close>: reading it failed\<close>

datatype push_reply =
    Refused nat string
  | Preflight
  | TooSoon duration
  | ReportAccepted string string nat "string list" time

definition bearerToken :: "string \<Rightarrow> string" where
  "bearerToken h =
     (if length h \<le> 7 \<or> toLower (take 7 h) \<noteq> ''bearer '' then [] else trimSpace (drop 7 h))"

text \<open>The comparison after the lookup is of a hash with itself, and cannot fail.\<close>

definition authenticate :: "codec \<Rightarrow> string \<Rightarrow> push_state \<Rightarrow> reporter option" where
  "authenticate cd token st =
     (if token = [] then None
      else case tbl_get fst (cd_hash cd token) (pi_byTokenHash st) of
        None \<Rightarrow> None
      | Some (_, i) \<Rightarrow> tbl_get rp_id i (pi_order st))"

definition recordFailure :: "string \<Rightarrow> string \<Rightarrow> push_state \<Rightarrow> push_state" where
  "recordFailure i msg st = with_reporter i (\<lambda>rep. rep\<lparr>rp_lastError := msg\<rparr>) st"

definition dispatch :: "codec \<Rightarrow> string \<Rightarrow> (reporter_cfg \<Rightarrow> string \<Rightarrow> int \<Rightarrow> time \<Rightarrow> push_state \<Rightarrow> (handled \<times> push_state) go) option" where
  "dispatch cd stream =
     (if stream = MeshStream then Some (\<lambda>rc body m now st. GoOk (ingestMesh cd rc body m now st))
      else if stream = MeshPacketStream then Some (ingestPackets cd)
      else if stream = BurnStream then Some (\<lambda>rc body m now st. GoOk (ingestBurn cd rc body m now st))
      else None)"

text \<open>How long a reporter still has to wait before its next report on a stream.\<close>

definition must_wait :: "reporter \<Rightarrow> string \<Rightarrow> time \<Rightarrow> duration option" where
  "must_wait rep stream now =
     (let minInterval = minIntervalOrDefault (rp_cfg rep);
          prev = (case tbl_get fst stream (rp_acceptedByStream rep) of None \<Rightarrow> zeroTime | Some (_, t) \<Rightarrow> t) in
      if \<not> isZero prev \<and> now - prev < minInterval then Some (minInterval - (now - prev)) else None)"

text \<open>What follows the guards: the rate limit, the body and the stream's handler.\<close>

definition serve_report :: "codec \<Rightarrow> (reporter_cfg \<Rightarrow> string \<Rightarrow> int \<Rightarrow> time \<Rightarrow> push_state \<Rightarrow> (handled \<times> push_state) go) \<Rightarrow>
    reporter \<Rightarrow> push_request \<Rightarrow> time \<Rightarrow> push_state \<Rightarrow> (push_reply \<times> push_state) go" where
  "serve_report cd handler rep req now st0 =
     (let st = with_reporter (rp_id rep) (\<lambda>r. r\<lparr>rp_lastAttemptAt := now\<rparr>) st0 in
      case must_wait rep (rq_stream req) now of
        Some d \<Rightarrow> GoOk (TooSoon d, st)
      | None \<Rightarrow>
          (case rq_body req of
             None \<Rightarrow> GoOk (Refused 400 ''could not read request body'', recordFailure (rp_id rep) ''read error'' st)
           | Some body \<Rightarrow>
               if int (length body) > maxBodyBytesOrDefault (pi_cfg st)
               then GoOk (Refused 413 ''body too large'', recordFailure (rp_id rep) ''body too large'' st)
               else gbind (handler (rp_cfg rep) body (maxItemsOrDefault (pi_cfg st)) now st) (\<lambda>(res, st).
                 case res of
                   Inl e \<Rightarrow> GoOk (Refused 400 e, recordFailure (rp_id rep) e st)
                 | Inr (n, warnings) \<Rightarrow> GoOk (ReportAccepted (rp_id rep) (rq_stream req) n warnings now, st))))"

definition ServeStream :: "codec \<Rightarrow> push_request \<Rightarrow> time \<Rightarrow> push_state \<Rightarrow> (push_reply \<times> push_state) go" where
  "ServeStream cd req now st =
     (if rq_method req \<noteq> ''POST'' then GoOk (Refused 405 ''the ingest endpoint accepts POST only'', st)
      else case authenticate cd (bearerToken (rq_authorization req)) st of
        None \<Rightarrow> GoOk (Refused 401 ''unauthorized'', st)
      | Some rep \<Rightarrow>
          (case dispatch cd (rq_stream req) of
             None \<Rightarrow> GoOk (Refused 404 ''unknown stream'', st)
           | Some handler \<Rightarrow>
               if rq_stream req \<notin> set (rc_streams (rp_cfg rep)) then GoOk (Refused 403 ''reporter is not authorized for stream'', st)
               else if rq_preflight req then GoOk (Preflight, st)
               else serve_report cd handler rep req now st))"

section \<open>Health and the snapshot\<close>

datatype reporter_state = ReporterUnknown | ReporterOK | ReporterStale | ReporterDead

record reporter_health =
  rh_id :: string
  rh_name :: string
  rh_state :: reporter_state
  rh_lastAcceptedAt :: time
  rh_lastAttemptAt :: time
  rh_lastError :: string
  rh_reports :: nat

definition reporter_state_of :: "reporter \<Rightarrow> time \<Rightarrow> reporter_state" where
  "reporter_state_of rep now =
     (let stale = staleAfterOrDefault (rp_cfg rep) in
      if isZero (rp_lastAcceptedAt rep) then ReporterUnknown
      else if now - rp_lastAcceptedAt rep \<le> stale then ReporterOK
      else if now - rp_lastAcceptedAt rep \<le> stale * 4 then ReporterStale
      else ReporterDead)"

definition reporter_health_of :: "reporter \<Rightarrow> time \<Rightarrow> reporter_health" where
  "reporter_health_of rep now =
     \<lparr>rh_id = rp_id rep, rh_name = rc_name (rp_cfg rep), rh_state = reporter_state_of rep now,
      rh_lastAcceptedAt = rp_lastAcceptedAt rep, rh_lastAttemptAt = rp_lastAttemptAt rep, rh_lastError = rp_lastError rep,
      rh_reports = rp_reports rep\<rparr>"

definition granted_on :: "string \<Rightarrow> push_state \<Rightarrow> reporter list" where
  "granted_on stream st = filter (\<lambda>rep. stream \<in> set (rc_streams (rp_cfg rep))) (pi_order st)"

definition push_health :: "string \<Rightarrow> time \<Rightarrow> push_state \<Rightarrow> reporter_health list" where
  "push_health stream now st = map (\<lambda>rep. reporter_health_of rep now) (granted_on stream st)"

definition ReporterIDs :: "string \<Rightarrow> push_state \<Rightarrow> string list" where
  "ReporterIDs stream st = map rp_id (granted_on stream st)"

definition ReporterConfig :: "string \<Rightarrow> push_state \<Rightarrow> reporter_cfg option" where
  "ReporterConfig i st = map_option rp_cfg (find (\<lambda>rep. rp_id rep = i) (pi_order st))"

record mesh_snapshot =
  sm_reports :: "mesh_report list"
  sm_reporters :: "reporter_health list"
  sm_suppressSweep :: bool
  sm_monitorSilent :: bool
  sm_live :: nat
  sm_packetReporters :: "reporter_health list"
  sm_packetLive :: nat

definition reports_of :: "string \<Rightarrow> push_state \<Rightarrow> mesh_report list" where
  "reports_of i st = (case tbl_get fst i (pi_mesh st) of None \<Rightarrow> [] | Some (_, rs) \<Rightarrow> rs)"

definition snapshot_mesh :: "time \<Rightarrow> push_state \<Rightarrow> reporter \<Rightarrow> mesh_snapshot \<Rightarrow> mesh_snapshot" where
  "snapshot_mesh now st rep sm =
     (let sm = sm\<lparr>sm_reporters := sm_reporters sm @ [reporter_health_of rep now]\<rparr> in
      case reporter_state_of rep now of
        ReporterOK \<Rightarrow> sm\<lparr>sm_live := sm_live sm + 1, sm_reports := sm_reports sm @ reports_of (rp_id rep) st\<rparr>
      | ReporterStale \<Rightarrow> sm\<lparr>sm_monitorSilent := True\<rparr>
      | ReporterUnknown \<Rightarrow> sm\<lparr>sm_monitorSilent := True\<rparr>
      | ReporterDead \<Rightarrow> sm)"

definition snapshot_packet :: "time \<Rightarrow> reporter \<Rightarrow> mesh_snapshot \<Rightarrow> mesh_snapshot" where
  "snapshot_packet now rep sm =
     (let sm = sm\<lparr>sm_packetReporters := sm_packetReporters sm @ [reporter_health_of rep now]\<rparr> in
      case reporter_state_of rep now of
        ReporterOK \<Rightarrow> sm\<lparr>sm_packetLive := sm_packetLive sm + 1\<rparr>
      | ReporterStale \<Rightarrow> sm\<lparr>sm_suppressSweep := True\<rparr>
      | _ \<Rightarrow> sm)"

definition snapshot_reporter :: "time \<Rightarrow> push_state \<Rightarrow> reporter \<Rightarrow> mesh_snapshot \<Rightarrow> mesh_snapshot" where
  "snapshot_reporter now st rep sm =
     (let streams = set (rc_streams (rp_cfg rep));
          sm = (if MeshStream \<in> streams then snapshot_mesh now st rep sm else sm) in
      if MeshPacketStream \<in> streams then snapshot_packet now rep sm else sm)"

definition MeshReports :: "time \<Rightarrow> push_state \<Rightarrow> mesh_snapshot" where
  "MeshReports now st = fold (snapshot_reporter now st) (pi_order st)
     \<lparr>sm_reports = [], sm_reporters = [], sm_suppressSweep = False, sm_monitorSilent = False, sm_live = 0,
      sm_packetReporters = [], sm_packetLive = 0\<rparr>"

end
