(* ===== verification/PushIngestProps.thy ===== *)
theory PushIngestProps
  imports MeshRegistryProps PushIngest
begin

text \<open>
  What the push endpoint guarantees: each request is confined to the reporter its token names and the stream it
  is granted, reports are paced (but for one stream), credentials are unambiguous, and the buffers hold only valid reports.
\<close>

section \<open>One request\<close>

lemma packet_loop_ok: "\<exists>acc'. packet_loop cd source gateway now pks acc = GoOk acc'"
proof (induction pks arbitrary: acc)
  case (Cons pk pks)
  obtain n d w r where acc: "acc = (n, d, w, r)" by (cases acc)
  have "\<exists>x. IngestEnvelope cd pk source gateway now r = GoOk x"
  proof (cases "cd_envelope cd pk")
    case (Inr env)
    then show ?thesis
      by (cases rule: ingest_cases [of "cd_verify cd" r env source gateway now]) (simp_all add: IngestEnvelope_def)
  qed (simp add: IngestEnvelope_def)
  then obtain o' r' where "IngestEnvelope cd pk source gateway now r = GoOk (o', r')" by (metis surj_pair)
  then show ?case using Cons by (simp add: acc)
next
  case Nil
  show ?case by (cases acc) simp
qed

text \<open>
  \<open>confined i stream st st'\<close>: of the whole state, only reporter \<open>i\<close>'s own row and the store of the stream
  may differ, and in the buffer of reports only the reporter's own set.
\<close>

definition confined :: "string \<Rightarrow> string \<Rightarrow> push_state \<Rightarrow> push_state \<Rightarrow> bool" where
  "confined i stream st st' \<longleftrightarrow>
     pi_cfg st' = pi_cfg st \<and> pi_byTokenHash st' = pi_byTokenHash st \<and> pi_missingTokens st' = pi_missingTokens st \<and>
     pi_burnLines st' = pi_burnLines st \<and>
     list_all2 (\<lambda>a b. rp_cfg b = rp_cfg a \<and> (rp_id a \<noteq> i \<longrightarrow> b = a)) (pi_order st) (pi_order st') \<and>
     (\<forall>j. j \<noteq> i \<or> stream \<noteq> MeshStream \<longrightarrow> tbl_get fst j (pi_mesh st') = tbl_get fst j (pi_mesh st)) \<and>
     (stream \<noteq> MeshPacketStream \<longrightarrow> pi_packets st' = pi_packets st) \<and>
     (stream \<noteq> BurnStream \<longrightarrow> pi_burn st' = pi_burn st \<and> pi_burnWakes st' = pi_burnWakes st)"

lemma confined_refl: "confined i stream st st"
  by (simp add: confined_def list_all2_same)

lemma confined_trans: "confined i stream a b \<Longrightarrow> confined i stream b c \<Longrightarrow> confined i stream a c"
  unfolding confined_def
  by (elim conjE, intro conjI)
    (simp_all, erule (1) list_all2_trans [rotated], auto simp: rp_id_def)

lemma confined_reporter:
  assumes "\<And>r. rp_cfg (f r) = rp_cfg r"
  shows "confined i stream st (with_reporter i f st)"
  using assms by (auto simp: confined_def with_reporter_def list_all2_map2 list_all2_same rp_id_def)

lemma accept_cfg [simp]: "rp_cfg (accept_on stream now rep) = rp_cfg rep" "rp_cfg (accept_report now rep) = rp_cfg rep"
  by (simp_all add: accept_on_def accept_report_def)

lemma confined_mesh: "confined i MeshStream st (st\<lparr>pi_mesh := tbl_put fst (i, rs) (pi_mesh st)\<rparr>)"
  by (simp add: confined_def list_all2_same)

lemma confined_packets: "confined i MeshPacketStream st (st\<lparr>pi_packets := Some sink\<rparr>)"
  by (simp add: confined_def list_all2_same stream_defs)

lemma confined_burn: "confined i BurnStream st (st\<lparr>pi_burn := t, pi_burnWakes := n\<rparr>)" "confined i BurnStream st (st\<lparr>pi_burn := t\<rparr>)"
  by (simp_all add: confined_def list_all2_same stream_defs)

lemma handler_confined:
  assumes "dispatch cd stream = Some handler"
  shows "\<exists>res st'. handler rc body m now st = GoOk (res, st') \<and> confined (rc_id rc) stream st st' \<and>
    pi_order st' = (if is_err res then pi_order st else
      pi_order (with_reporter (rc_id rc) (if stream = BurnStream then accept_report now else accept_on stream now) st))"
proof -
  consider (mesh) "stream = MeshStream" "handler = (\<lambda>rc body m now st. GoOk (ingestMesh cd rc body m now st))"
    | (packet) "stream = MeshPacketStream" "handler = ingestPackets cd"
    | (burn) "stream = BurnStream" "handler = (\<lambda>rc body m now st. GoOk (ingestBurn cd rc body m now st))"
    using assms by (auto simp: dispatch_def split: if_splits)
  then show ?thesis
  proof cases
    case mesh
    have "confined (rc_id rc) MeshStream st (with_reporter (rc_id rc) (accept_on MeshStream now) (st\<lparr>pi_mesh := tbl_put fst (rc_id rc, rs) (pi_mesh st)\<rparr>))" for rs
      by (rule confined_trans [OF confined_mesh confined_reporter]) simp
    then show ?thesis
      using mesh by (auto simp: ingestMesh_def confined_refl with_reporter_def stream_defs is_err_def split: sum.split prod.split)
  next
    case packet
    have c: "confined (rc_id rc) MeshPacketStream st (with_reporter (rc_id rc) (accept_on MeshPacketStream now) (st\<lparr>pi_packets := Some sink\<rparr>))" for sink
      by (rule confined_trans [OF confined_packets confined_reporter]) simp
    show ?thesis
    proof (cases "\<exists>e. ingestPackets cd rc body m now st = GoOk (Inl e, st)")
      case True
      then show ?thesis using packet confined_refl by (auto simp: is_err_def)
    next
      case False
      then obtain sink p where p: "pi_packets st = Some sink" "cd_packets cd body = Inr p" "pp_schemaVersion p = 1"
          "\<not> int (length (pp_packets p)) > m" "\<not> (toLower (trimSpace (pp_observer p)) \<noteq> [] \<and> \<not> ValidNodeID (toLower (trimSpace (pp_observer p))))"
        by (auto simp: ingestPackets_def Let_def split: option.splits sum.splits if_splits)
      define gateway where "gateway = (if toLower (trimSpace (pp_observer p)) = [] then rc_id rc else toLower (trimSpace (pp_observer p)))"
      obtain n d w r where loop: "packet_loop cd (PacketSource (rc_id rc)) gateway now (pp_packets p) (0, 0, [], sink) = GoOk (n, d, w, r)"
        using packet_loop_ok by (metis surj_pair)
      have "ingestPackets cd rc body m now st =
          GoOk (Inr (n, if d > maxPacketWarnings then w @ [''... and more packets dropped''] else w),
            with_reporter (rc_id rc) (accept_on MeshPacketStream now) (st\<lparr>pi_packets := Some r\<rparr>))"
        unfolding ingestPackets_def Let_def using p loop [unfolded gateway_def] by auto
      then show ?thesis using packet c by (simp add: with_reporter_def stream_defs is_err_def)
    qed
  next
    case burn
    have "confined (rc_id rc) BurnStream st (with_reporter (rc_id rc) (accept_report now) (st\<lparr>pi_burn := t, pi_burnWakes := n\<rparr>))" for t n
      by (rule confined_trans [OF confined_burn(1) confined_reporter]) simp
    then show ?thesis
      using burn by (auto simp: ingestBurn_def confined_refl confined_burn(2) with_reporter_def is_err_def split: sum.split prod.split option.split)
  qed
qed


text \<open>Who may post: a token whose hash is on file for a configured reporter that is granted the stream.\<close>

definition authorized :: "codec \<Rightarrow> push_request \<Rightarrow> push_state \<Rightarrow> reporter \<Rightarrow> bool" where
  "authorized cd req st rep \<longleftrightarrow> rq_method req = ''POST'' \<and> bearerToken (rq_authorization req) \<noteq> [] \<and>
     (cd_hash cd (bearerToken (rq_authorization req)), rp_id rep) \<in> set (pi_byTokenHash st) \<and> rep \<in> set (pi_order st) \<and>
     rq_stream req \<in> set KnownStreams \<and> rq_stream req \<in> set (rc_streams (rp_cfg rep)) \<and> \<not> rq_preflight req"

lemma authenticate_Some:
  assumes "authenticate cd token st = Some rep"
  shows "token \<noteq> [] \<and> (cd_hash cd token, rp_id rep) \<in> set (pi_byTokenHash st) \<and> rep \<in> set (pi_order st)"
proof -
  obtain h i where e: "token \<noteq> []" "tbl_get fst (cd_hash cd token) (pi_byTokenHash st) = Some (h, i)" "tbl_get rp_id i (pi_order st) = Some rep"
    using assms by (auto simp: authenticate_def split: if_splits option.splits)
  then show ?thesis using tbl_get_Some [OF e(2)] tbl_get_Some [OF e(3)] by auto
qed

lemma dispatch_known: "dispatch cd stream = Some h \<Longrightarrow> stream \<in> set KnownStreams"
  by (auto simp: dispatch_def KnownStreams_def split: if_splits)

text \<open>A request that passes the guards.\<close>

lemma serve_cases:
  obtains (refused) reply where "ServeStream cd req now st = GoOk (reply, st)" "\<And>i s n w t. reply \<noteq> ReportAccepted i s n w t" "\<And>d. reply \<noteq> TooSoon d"
  | (served) handler rep where "ServeStream cd req now st = serve_report cd handler rep req now st"
      "dispatch cd (rq_stream req) = Some handler" "authorized cd req st rep"
proof (cases "rq_method req = ''POST''")
  case post: True
  show thesis
  proof (cases "authenticate cd (bearerToken (rq_authorization req)) st")
    case None
    then show thesis using post by (intro refused [of "Refused 401 ''unauthorized''"]) (simp_all add: ServeStream_def)
  next
    case auth: (Some rep)
    show thesis
    proof (cases "dispatch cd (rq_stream req)")
      case None
      then show thesis using post auth by (intro refused [of "Refused 404 ''unknown stream''"]) (simp_all add: ServeStream_def)
    next
      case (Some handler)
      consider "rq_stream req \<notin> set (rc_streams (rp_cfg rep))" | "rq_stream req \<in> set (rc_streams (rp_cfg rep))" "rq_preflight req"
        | "rq_stream req \<in> set (rc_streams (rp_cfg rep))" "\<not> rq_preflight req" by blast
      then show thesis
      proof cases
        case 1
        then show thesis using post auth Some
          by (intro refused [of "Refused 403 ''reporter is not authorized for stream''"]) (simp_all add: ServeStream_def)
      next
        case 2
        then show thesis using post auth Some by (intro refused [of Preflight]) (simp_all add: ServeStream_def)
      next
        case 3
        then show thesis using post auth Some authenticate_Some [OF auth] dispatch_known [OF Some]
          by (intro served [of handler rep]) (simp_all add: ServeStream_def authorized_def)
      qed
    qed
  qed
next
  case False
  then show thesis by (intro refused [of "Refused 405 ''the ingest endpoint accepts POST only''"]) (simp_all add: ServeStream_def)
qed

text \<open>What a served request leaves: the reporter's row with an attempt, and an acceptance when it was accepted.\<close>

definition served_row :: "string \<Rightarrow> push_reply \<Rightarrow> time \<Rightarrow> reporter \<Rightarrow> reporter \<Rightarrow> bool" where
  "served_row stream reply now r r' \<longleftrightarrow> rp_cfg r' = rp_cfg r \<and>
     (case reply of
        ReportAccepted _ _ _ _ t \<Rightarrow> t = now \<and> rp_lastAcceptedAt r' = now \<and>
          rp_acceptedByStream r' = (if stream = BurnStream then rp_acceptedByStream r else tbl_put fst (stream, now) (rp_acceptedByStream r))
      | _ \<Rightarrow> rp_lastAcceptedAt r' = rp_lastAcceptedAt r \<and> rp_acceptedByStream r' = rp_acceptedByStream r)"

definition row_rel :: "string \<Rightarrow> string \<Rightarrow> push_reply \<Rightarrow> time \<Rightarrow> reporter \<Rightarrow> reporter \<Rightarrow> bool" where
  "row_rel i stream reply now r r' \<longleftrightarrow> (if rp_id r = i then served_row stream reply now r r' else r' = r)"

lemma serve_report_ok:
  assumes h: "dispatch cd (rq_stream req) = Some handler"
  shows "\<exists>reply st'. serve_report cd handler rep req now st = GoOk (reply, st') \<and> confined (rp_id rep) (rq_stream req) st st' \<and>
    list_all2 (row_rel (rp_id rep) (rq_stream req) reply now) (pi_order st) (pi_order st') \<and>
    (\<forall>d. reply = TooSoon d \<longrightarrow> must_wait rep (rq_stream req) now = Some d) \<and>
    (\<forall>i s n w t. reply = ReportAccepted i s n w t \<longrightarrow> i = rp_id rep \<and> s = rq_stream req \<and> t = now \<and> must_wait rep (rq_stream req) now = None)"
proof -
  let ?i = "rp_id rep" and ?s = "rq_stream req"
  let ?st = "with_reporter ?i (\<lambda>r. r\<lparr>rp_lastAttemptAt := now\<rparr>) st"
  have attempt: "confined ?i ?s st ?st" by (rule confined_reporter) simp
  have fail: "confined ?i ?s st (recordFailure ?i e st')" if "confined ?i ?s st st'" for e st'
    unfolding recordFailure_def by (rule confined_trans [OF that confined_reporter]) simp
  have orders: "pi_order (recordFailure ?i e st') = pi_order (with_reporter ?i (\<lambda>r. r\<lparr>rp_lastError := e\<rparr>) st')" for e st'
    by (simp add: recordFailure_def)
  have rows: "list_all2 (row_rel ?i ?s (Refused c m) now) (pi_order st) (pi_order (recordFailure ?i e st'))"
    if "pi_order st' = pi_order ?st" for c m e st'
    using that by (auto simp: recordFailure_def with_reporter_def list_all2_map2 list_all2_same row_rel_def served_row_def rp_id_def)
  consider (wait) d where "must_wait rep ?s now = Some d"
    | (noread) "must_wait rep ?s now = None" "rq_body req = None"
    | (large) body where "must_wait rep ?s now = None" "rq_body req = Some body" "int (length body) > maxBodyBytesOrDefault (pi_cfg ?st)"
    | (run) body where "must_wait rep ?s now = None" "rq_body req = Some body" "\<not> int (length body) > maxBodyBytesOrDefault (pi_cfg ?st)"
    by (cases "must_wait rep ?s now"; cases "rq_body req") auto
  then show ?thesis
  proof cases
    case wait
    have "list_all2 (row_rel ?i ?s (TooSoon d) now) (pi_order st) (pi_order ?st)"
      by (auto simp: with_reporter_def list_all2_map2 list_all2_same row_rel_def served_row_def)
    then show ?thesis using wait attempt by (simp add: serve_report_def)
  next
    case noread
    then show ?thesis using fail [OF attempt] rows [of ?st] by (simp add: serve_report_def)
  next
    case large
    then show ?thesis using fail [OF attempt] rows [of ?st] by (simp add: serve_report_def Let_def)
  next
    case run
    obtain res st' where res: "handler (rp_cfg rep) body (maxItemsOrDefault (pi_cfg ?st)) now ?st = GoOk (res, st')"
        "confined ?i ?s ?st st'"
      and order: "pi_order st' = (if is_err res then pi_order ?st else
          pi_order (with_reporter ?i (if ?s = BurnStream then accept_report now else accept_on ?s now) ?st))"
      using handler_confined [OF h, of "rp_cfg rep" body "maxItemsOrDefault (pi_cfg ?st)" now ?st]
      unfolding rp_id_def [symmetric] by blast
    have conf: "confined ?i ?s st st'" by (rule confined_trans [OF attempt res(2)])
    show ?thesis
    proof (cases res)
      case (Inl e)
      then show ?thesis using run res(1) order fail [OF conf] rows [of st' 400 e e] by (simp add: serve_report_def Let_def)
    next
      case (Inr x)
      obtain n w where x: "x = (n, w)" by (cases x)
      have "list_all2 (row_rel ?i ?s (ReportAccepted ?i ?s n w now) now) (pi_order st) (pi_order st')"
        using order Inr by (auto simp: with_reporter_def list_all2_map2 list_all2_same row_rel_def served_row_def accept_on_def accept_report_def rp_id_def)
      then show ?thesis using run res(1) Inr x conf by (simp add: serve_report_def Let_def)
    qed
  qed
qed

text \<open>
  C28: the one write surface is confined to its credential. Every request is answered. It changes nothing unless
  it is a POST whose bearer token hashes to an entry on file, for a configured reporter that is granted
  the stream, and no preflight; then it changes only that reporter's own row and the store behind that one stream (for
  mesh reports only the reporter's own set). What the body claims to be never matters.
\<close>

theorem push_confined:
  "\<exists>reply st'. ServeStream cd req now st = GoOk (reply, st') \<and>
    (st' = st \<or> (\<exists>rep. authorized cd req st rep \<and> confined (rp_id rep) (rq_stream req) st st'))"
proof (cases rule: serve_cases [of cd req now st])
  case (served handler rep)
  obtain reply st' where "serve_report cd handler rep req now st = GoOk (reply, st')" "confined (rp_id rep) (rq_stream req) st st'"
    using serve_report_ok [OF served(2), of rep now st] by blast
  then show ?thesis using served(1,3) by metis
qed blast


section \<open>Runs of requests\<close>

fun run_push :: "codec \<Rightarrow> (push_request \<times> time) list \<Rightarrow> push_state \<Rightarrow> (push_reply list \<times> push_state) go" where
  "run_push cd [] st = GoOk ([], st)"
| "run_push cd ((req, now) # reqs) st =
     gbind (ServeStream cd req now st) (\<lambda>(reply, st). gbind (run_push cd reqs st) (\<lambda>(replies, st). GoOk (reply # replies, st)))"

lemma serve_rows:
  assumes "ServeStream cd req now st = GoOk (reply, st')"
  shows "(st' = st \<and> (\<forall>i s n w t. reply \<noteq> ReportAccepted i s n w t) \<and> (\<forall>d. reply \<noteq> TooSoon d)) \<or>
    (\<exists>rep \<in> set (pi_order st). authorized cd req st rep \<and> confined (rp_id rep) (rq_stream req) st st' \<and>
       list_all2 (row_rel (rp_id rep) (rq_stream req) reply now) (pi_order st) (pi_order st') \<and>
       (\<forall>d. reply = TooSoon d \<longrightarrow> must_wait rep (rq_stream req) now = Some d) \<and>
       (\<forall>i s n w t. reply = ReportAccepted i s n w t \<longrightarrow> i = rp_id rep \<and> s = rq_stream req \<and> t = now \<and> must_wait rep s now = None))"
proof (cases rule: serve_cases [of cd req now st])
  case (refused reply')
  then show ?thesis using assms by auto
next
  case (served handler rep)
  obtain reply'' st'' where s: "serve_report cd handler rep req now st = GoOk (reply'', st'')" "confined (rp_id rep) (rq_stream req) st st''"
      "list_all2 (row_rel (rp_id rep) (rq_stream req) reply'' now) (pi_order st) (pi_order st'')"
      "\<forall>d. reply'' = TooSoon d \<longrightarrow> must_wait rep (rq_stream req) now = Some d"
      "\<forall>i s n w t. reply'' = ReportAccepted i s n w t \<longrightarrow> i = rp_id rep \<and> s = rq_stream req \<and> t = now \<and> must_wait rep (rq_stream req) now = None"
    using serve_report_ok [OF served(2), of rep now st] by blast
  have same: "reply'' = reply" "st'' = st'" using s(1) served(1) assms by simp_all
  have "rep \<in> set (pi_order st)" using served(3) by (simp add: authorized_def)
  then show ?thesis using s served(3) unfolding same by blast
qed





lemma serve_keys:
  assumes "ServeStream cd req now st = GoOk (reply, st')"
  shows "map rp_cfg (pi_order st') = map rp_cfg (pi_order st)"
proof -
  have eq: "list_all2 (\<lambda>a b. rp_cfg b = rp_cfg a) (pi_order st) (pi_order st')" if "confined i s st st'" for i s
  proof -
    have "list_all2 (\<lambda>a b. rp_cfg b = rp_cfg a \<and> (rp_id a \<noteq> i \<longrightarrow> b = a)) (pi_order st) (pi_order st')"
      using that by (simp add: confined_def)
    then show ?thesis by (rule list_all2_mono) simp
  qed
  have "list_all2 (\<lambda>a b. rp_cfg b = rp_cfg a) (pi_order st) (pi_order st')"
    using serve_rows [OF assms] confined_refl eq by blast
  then show ?thesis by (induction rule: list_all2_induct) simp_all
qed

lemma serve_tbl_ok:
  assumes "ServeStream cd req now st = GoOk (reply, st')" "tbl_ok rp_id (pi_order st)"
  shows "tbl_ok rp_id (pi_order st')"
proof -
  have "map rp_id (pi_order st') = map rp_id (pi_order st)"
  proof -
    have "map rp_id xs = map rc_id (map rp_cfg xs)" for xs by (simp add: rp_id_def)
    then show ?thesis using serve_keys [OF assms(1)] by metis
  qed
  then show ?thesis using assms(2) by (simp add: tbl_ok_def)
qed

text \<open>The instant of the last acceptance on a stream.\<close>

definition accepted_at :: "string \<Rightarrow> reporter \<Rightarrow> time option" where
  "accepted_at s rep = map_option snd (tbl_get fst s (rp_acceptedByStream rep))"

lemma must_wait_None:
  "must_wait rep s now = None \<longleftrightarrow> (\<forall>t. accepted_at s rep = Some t \<and> t \<noteq> zeroTime \<longrightarrow> minIntervalOrDefault (rp_cfg rep) \<le> now - t)"
  by (auto simp: must_wait_def accepted_at_def Let_def isZero_def split: option.splits)




section \<open>What is buffered and staged\<close>

definition good_report :: "reporter_cfg \<Rightarrow> time \<Rightarrow> mesh_report \<Rightarrow> bool" where
  "good_report rc now nr \<longleftrightarrow> mr_reporterID nr = rc_id rc \<and> mr_priority nr = rc_priority rc \<and> mr_enumerates nr = rc_enumerates rc \<and>
     ValidNodeID (mr_nodeID nr) \<and> mr_receivedAt nr = now \<and>
     (\<forall>t \<in> {mr_reportedAt nr, mr_lastAttempt nr, mr_lastSuccess nr}. t = zeroTime \<or> t \<le> now) \<and>
     (mr_telemetry nr \<noteq> None \<longrightarrow> mr_lastSuccess nr \<noteq> zeroTime)"

lemma clamp_le: "clampPast t now = zeroTime \<or> clampPast t now \<le> now"
  by (simp add: clampPast_def isZero_def)

lemma node_report_good:
  assumes "ValidNodeID i" "g = zeroTime \<or> g \<le> now"
  shows "good_report rc now (node_report rc now g i ri) \<and> mr_nodeID (node_report rc now g i ri) = i"
  using assms clamp_le by (auto simp: node_report_def good_report_def Let_def isZero_def)

lemma mesh_fold_good:
  assumes "g = zeroTime \<or> g \<le> now"
  shows "list_all (good_report rc now) (fst acc) \<Longrightarrow> tbl_ok mr_nodeID (fst acc) \<Longrightarrow>
    list_all (good_report rc now) (fst (fold (mesh_one rc now g) ris acc)) \<and> tbl_ok mr_nodeID (fst (fold (mesh_one rc now g) ris acc))"
proof (induction ris arbitrary: acc)
  case (Cons ri ris)
  obtain rs w where acc: "acc = (rs, w)" by (cases acc)
  let ?i = "toLower (trimSpace (ri_id ri))"
  have "list_all (good_report rc now) (fst (mesh_one rc now g ri acc)) \<and> tbl_ok mr_nodeID (fst (mesh_one rc now g ri acc))"
  proof (cases "ValidNodeID ?i \<and> tbl_get mr_nodeID ?i rs = None")
    case True
    then have "?i \<notin> mr_nodeID ` set rs" by (simp add: tbl_get_None)
    then show ?thesis
      using True Cons.prems node_report_good [of ?i g now rc ri] assms by (simp add: acc mesh_one_def tbl_ok_def)
  next
    case False
    then show ?thesis using Cons.prems by (auto simp: acc mesh_one_def Let_def)
  qed
  then show ?case using Cons.IH by simp
qed simp

lemma toLower_idem [simp]: "toLower (toLower s) = toLower s"
proof -
  have "lower_char (lower_char c) = lower_char c" for c by (auto simp: lower_char_def Let_def)
  then show ?thesis by (simp add: toLower_def)
qed

definition good_burn :: "reporter_cfg \<Rightarrow> string list \<Rightarrow> burn_row \<Rightarrow> bool" where
  "good_burn rc lines w \<longleftrightarrow> bw_line w \<in> set lines \<and> bw_status w \<in> {''green'', ''red'', ''orange''} \<and>
     0 \<le> bw_confidence w \<and> bw_confidence w \<le> 100 \<and> bw_observed w \<le> bw_received w \<and> bw_reporter w = rc_id rc"

lemma put_burn_set: "PutBurnReading r now t = Inr t' \<Longrightarrow> w \<in> set t' \<Longrightarrow> w \<in> set t \<or> w = burn_row_of now r"
  by (auto simp: PutBurnReading_def upsert_burn_def split: if_splits option.splits dest: tbl_put_set)

lemma stage_good:
  assumes "stage_reading cd rc lines now bi (seen, n, ws, t) = Inr (seen', n', ws', t')" "w \<in> set t'"
  shows "w \<in> set t \<or> good_burn rc lines w"
proof (cases "t' = t")
  case False
  let ?line = "toLower (trimSpace (bi_lineID bi))" and ?status = "toLower (trimSpace (bi_status bi))"
    and ?obs = "parseRFC3339 cd (bi_observedAt bi)"
  let ?r = "\<lparr>br_lineID = ?line, br_status = ?status, br_message = trimSpace (bi_message bi),
      br_transcript = trimSpace (bi_transcript bi), br_confidence = bi_confidence bi, br_observedAt = clampPast ?obs now,
      br_receivedAt = now, br_reporterID = rc_id rc\<rparr>"
  have g: "?line \<in> set lines" "?status \<in> {''green'', ''red'', ''orange''}" "0 \<le> bi_confidence bi" "bi_confidence bi \<le> 100"
      "\<not> isZero ?obs" "PutBurnReading ?r now t = Inr t'"
    using assms(1) False by (auto simp: stage_reading_def Let_def split: if_splits sum.splits)
  have "clampPast ?obs now \<le> now" using g(5) by (simp add: clampPast_def)
  then have "good_burn rc lines (burn_row_of now ?r)"
    using g by (simp add: good_burn_def burn_row_of_def unix_mono)
  then show ?thesis using put_burn_set [OF g(6) assms(2)] by blast
qed (use assms in simp)

lemma stage_loop_good:
  "stage_loop cd rc lines now bis (seen, n, ws, t) = (err, seen', n', ws', t') \<Longrightarrow> w \<in> set t' \<Longrightarrow> w \<in> set t \<or> good_burn rc lines w"
proof (induction bis arbitrary: seen n ws t)
  case (Cons bi bis)
  show ?case
  proof (cases "stage_reading cd rc lines now bi (seen, n, ws, t)")
    case (Inl e)
    then show ?thesis using Cons.prems by simp
  next
    case (Inr acc)
    obtain s1 n1 w1 t1 where acc: "acc = (s1, n1, w1, t1)" by (cases acc)
    then have "w \<in> set t1 \<or> good_burn rc lines w" using Cons Inr by simp
    then show ?thesis using stage_good [of cd rc lines now bi seen n ws t s1 n1 w1 t1] Inr acc by blast
  qed
qed simp

definition stores_good :: "reporter_cfg \<Rightarrow> string \<Rightarrow> time \<Rightarrow> push_state \<Rightarrow> push_state \<Rightarrow> bool" where
  "stores_good rc stream now st st' \<longleftrightarrow>
     (pi_mesh st' = pi_mesh st \<or> (stream = MeshStream \<and> (\<exists>rs. pi_mesh st' = tbl_put fst (rc_id rc, rs) (pi_mesh st) \<and>
        list_all (good_report rc now) rs \<and> tbl_ok mr_nodeID rs))) \<and>
     (pi_burn st' = pi_burn st \<or> (stream = BurnStream \<and> (\<exists>t t'. pi_burn st = Some t \<and> pi_burn st' = Some t' \<and>
        (\<forall>w \<in> set t'. w \<in> set t \<or> good_burn rc (pi_burnLines st) w))))"

lemma mesh_stores: "stores_good rc MeshStream now st (snd (ingestMesh cd rc body m now st))"
proof (cases "cd_mesh cd body")
  case (Inr p)
  let ?g = "clampPast (parseRFC3339 cd (mp_generatedAt p)) now"
  obtain rs ws where f: "fold (mesh_one rc now ?g) (mp_repeaters p) ([], []) = (rs, ws)" by (cases "fold (mesh_one rc now ?g) (mp_repeaters p) ([], [])")
  have "list_all (good_report rc now) rs" "tbl_ok mr_nodeID rs"
    using mesh_fold_good [OF clamp_le [of "parseRFC3339 cd (mp_generatedAt p)" now], where acc = "([], [])" and ris = "mp_repeaters p" and rc = rc] f by simp_all
  then show ?thesis using Inr f by (auto simp: ingestMesh_def stores_good_def with_reporter_def)
qed (simp add: ingestMesh_def stores_good_def)

lemma burn_stores: "stores_good rc BurnStream now st (snd (ingestBurn cd rc body m now st))"
proof (cases "pi_burn st")
  case None
  then show ?thesis by (simp add: ingestBurn_def stores_good_def)
next
  case table: (Some t)
  show ?thesis
  proof (cases "cd_burn cd body")
    case (Inl e)
    then show ?thesis using table by (simp add: ingestBurn_def stores_good_def)
  next
    case (Inr p)
    obtain err seen n ws t' where l: "stage_loop cd rc (pi_burnLines st) now (bp_readings p) ([], 0, [], t) = (err, seen, n, ws, t')"
      by (metis surj_pair)
    have "\<forall>w \<in> set t'. w \<in> set t \<or> good_burn rc (pi_burnLines st) w" using stage_loop_good [OF l] by blast
    then show ?thesis using table Inr l
      by (cases err) (auto simp: ingestBurn_def stores_good_def with_reporter_def)
  qed
qed

lemma packet_stores: "ingestPackets cd rc body m now st = GoOk (res, st') \<Longrightarrow> pi_mesh st' = pi_mesh st \<and> pi_burn st' = pi_burn st"
  by (auto simp: ingestPackets_def Let_def gbind_GoOk with_reporter_def split: option.splits sum.splits if_splits)

lemma handler_stores:
  assumes "dispatch cd stream = Some handler" "handler rc body m now st = GoOk (res, st')"
  shows "stores_good rc stream now st st'"
proof -
  consider (mesh) "stream = MeshStream" "handler = (\<lambda>rc body m now st. GoOk (ingestMesh cd rc body m now st))"
    | (packet) "stream = MeshPacketStream" "handler = ingestPackets cd"
    | (burn) "stream = BurnStream" "handler = (\<lambda>rc body m now st. GoOk (ingestBurn cd rc body m now st))"
    using assms(1) by (auto simp: dispatch_def split: if_splits)
  then show ?thesis
  proof cases
    case mesh
    then have "st' = snd (ingestMesh cd rc body m now st)" using assms(2) by (simp add: prod_eq_iff)
    then show ?thesis using mesh_stores mesh(1) by simp
  next
    case packet
    then show ?thesis using packet_stores assms(2) by (simp add: stores_good_def)
  next
    case burn
    then have "st' = snd (ingestBurn cd rc body m now st)" using assms(2) by (simp add: prod_eq_iff)
    then show ?thesis using burn_stores burn(1) by simp
  qed
qed

lemma stores_refl: "stores_good rc stream now st st"
  by (simp add: stores_good_def)

lemma serve_stores:
  assumes "ServeStream cd req now st = GoOk (reply, st')"
  shows "st' = st \<or> (\<exists>rep. authorized cd req st rep \<and> stores_good (rp_cfg rep) (rq_stream req) now st st')"
proof (cases rule: serve_cases [of cd req now st])
  case (served handler rep)
  let ?st = "with_reporter (rp_id rep) (\<lambda>r. r\<lparr>rp_lastAttemptAt := now\<rparr>) st"
  have same: "stores_good rc s now ?st x \<longleftrightarrow> stores_good rc s now st x" for rc s x
    by (simp add: stores_good_def with_reporter_def)
  have fail: "stores_good rc s now st (recordFailure i e x) \<longleftrightarrow> stores_good rc s now st x" for rc s i e x
    by (simp add: stores_good_def recordFailure_def with_reporter_def)
  have base: "stores_good (rp_cfg rep) (rq_stream req) now st ?st" using same stores_refl by blast
  have serve: "serve_report cd handler rep req now st = GoOk (reply, st')" using assms served(1) by simp
  have "stores_good (rp_cfg rep) (rq_stream req) now st st'"
  proof (cases "must_wait rep (rq_stream req) now")
    case (Some d)
    then show ?thesis using serve base by (simp add: serve_report_def)
  next
    case None
    show ?thesis
    proof (cases "rq_body req")
      case no: None
      then show ?thesis using serve base None fail by (auto simp: serve_report_def)
    next
      case body: (Some body)
      show ?thesis
      proof (cases "int (length body) > maxBodyBytesOrDefault (pi_cfg ?st)")
        case True
        then show ?thesis using serve base None body fail by (auto simp: serve_report_def)
      next
        case False
        then obtain res st1 where h: "handler (rp_cfg rep) body (maxItemsOrDefault (pi_cfg ?st)) now ?st = GoOk (res, st1)"
            "st' = (case res of Inl e \<Rightarrow> recordFailure (rp_id rep) e st1 | Inr x \<Rightarrow> st1)"
        proof -
          obtain res st1 where h: "handler (rp_cfg rep) body (maxItemsOrDefault (pi_cfg ?st)) now ?st = GoOk (res, st1)"
              "(case res of Inl e \<Rightarrow> GoOk (Refused 400 e, recordFailure (rp_id rep) e st1)
                | Inr (n, warnings) \<Rightarrow> GoOk (ReportAccepted (rp_id rep) (rq_stream req) n warnings now, st1)) = GoOk (reply, st')"
            using serve None body False by (auto simp: serve_report_def Let_def gbind_GoOk)
          then show thesis using that by (cases res) auto
        qed
        have "stores_good (rp_cfg rep) (rq_stream req) now st st1" using handler_stores [OF served(2) h(1)] same by simp
        then show ?thesis using h(2) fail by (cases res) simp_all
      qed
    qed
  qed
  then show ?thesis using served(3) by blast
qed (use assms in simp)

section \<open>The configured registry\<close>

definition push_ok :: "push_state \<Rightarrow> bool" where
  "push_ok st \<longleftrightarrow> tbl_ok rp_id (pi_order st) \<and> tbl_ok fst (pi_byTokenHash st) \<and> distinct (map snd (pi_byTokenHash st)) \<and>
     (\<forall>(h, i) \<in> set (pi_byTokenHash st). length h = 64 \<and> hex_decode h \<noteq> None \<and> i \<notin> set (pi_missingTokens st) \<and> i \<in> rp_id ` set (pi_order st)) \<and>
     set (pi_missingTokens st) \<subseteq> rp_id ` set (pi_order st) \<and>
     (\<forall>rep \<in> set (pi_order st). rp_id rep \<noteq> [] \<and> rc_streams (rp_cfg rep) \<noteq> [] \<and>
        (rp_id rep \<in> set (pi_missingTokens st) \<or> (rc_tokenSha256 (rp_cfg rep), rp_id rep) \<in> set (pi_byTokenHash st)))"

lemma add_reporter_ok:
  assumes "push_ok st" "add_reporter rc st = Inr st'"
  shows "push_ok st' \<and> (\<exists>h. pi_order st' = pi_order st @ [newReporter (rc\<lparr>rc_tokenSha256 := h\<rparr>)]) \<and> pi_mesh st' = pi_mesh st \<and> pi_burn st' = pi_burn st \<and>
    pi_burnLines st' = pi_burnLines st"
proof -
  obtain h where tok: "tokenHashFor rc (ic_tokenSha256 (pi_cfg st)) = Inr h"
    using assms(2) by (auto simp: add_reporter_def rbind_eq_Inr split: if_splits)
  have h: "rc_id rc \<noteq> []" "rc_id rc \<notin> rp_id ` set (pi_order st)" "rc_streams rc \<noteq> []"
      and cases: "(h = [] \<and> st' = st\<lparr>pi_order := pi_order st @ [newReporter (rc\<lparr>rc_tokenSha256 := h\<rparr>)], pi_missingTokens := pi_missingTokens st @ [rc_id rc]\<rparr>) \<or>
        (length h = 64 \<and> hex_decode h \<noteq> None \<and> tbl_get fst h (pi_byTokenHash st) = None \<and>
         st' = st\<lparr>pi_byTokenHash := pi_byTokenHash st @ [(h, rc_id rc)], pi_order := pi_order st @ [newReporter (rc\<lparr>rc_tokenSha256 := h\<rparr>)]\<rparr>)"
    using assms(2) tok by (auto simp: add_reporter_def Let_def split: if_splits)
  have new: "rp_id (newReporter (rc\<lparr>rc_tokenSha256 := h\<rparr>)) = rc_id rc" by (simp add: newReporter_def rp_id_def)
  have fresh: "rc_id rc \<notin> snd ` set (pi_byTokenHash st)" "rc_id rc \<notin> set (pi_missingTokens st)"
    using assms(1) h(2) by (auto simp: push_ok_def)
  have cfg: "rp_cfg (newReporter x) = x" for x by (simp add: newReporter_def)
  from cases show ?thesis
  proof (elim disjE conjE)
    assume "h = []" and st': "st' = st\<lparr>pi_order := pi_order st @ [newReporter (rc\<lparr>rc_tokenSha256 := h\<rparr>)], pi_missingTokens := pi_missingTokens st @ [rc_id rc]\<rparr>"
    have "push_ok st'"
      using assms(1) h new fresh unfolding st' push_ok_def by (fastforce simp: tbl_ok_def cfg)
    then show ?thesis using st' by auto
  next
    assume a: "length h = 64" "hex_decode h \<noteq> None" "tbl_get fst h (pi_byTokenHash st) = None"
      and st': "st' = st\<lparr>pi_byTokenHash := pi_byTokenHash st @ [(h, rc_id rc)], pi_order := pi_order st @ [newReporter (rc\<lparr>rc_tokenSha256 := h\<rparr>)]\<rparr>"
    have ok: "tbl_ok rp_id (pi_order st)" "tbl_ok fst (pi_byTokenHash st)" "distinct (map snd (pi_byTokenHash st))"
        "\<forall>(h, i) \<in> set (pi_byTokenHash st). length h = 64 \<and> hex_decode h \<noteq> None \<and> i \<notin> set (pi_missingTokens st) \<and> i \<in> rp_id ` set (pi_order st)"
        "set (pi_missingTokens st) \<subseteq> rp_id ` set (pi_order st)"
        "\<forall>rep \<in> set (pi_order st). rp_id rep \<noteq> [] \<and> rc_streams (rp_cfg rep) \<noteq> [] \<and>
          (rp_id rep \<in> set (pi_missingTokens st) \<or> (rc_tokenSha256 (rp_cfg rep), rp_id rep) \<in> set (pi_byTokenHash st))"
      using assms(1) by (simp_all add: push_ok_def)
    have 1: "tbl_ok rp_id (pi_order st')" using ok(1) h(2) new by (simp add: st' tbl_ok_def)
    have 2: "tbl_ok fst (pi_byTokenHash st')" using ok(2) a(3) [unfolded tbl_get_None] by (simp add: st' tbl_ok_def)
    have 3: "distinct (map snd (pi_byTokenHash st'))" using ok(3) fresh(1) by (simp add: st')
    have 4: "\<forall>(h, i) \<in> set (pi_byTokenHash st'). length h = 64 \<and> hex_decode h \<noteq> None \<and> i \<notin> set (pi_missingTokens st') \<and> i \<in> rp_id ` set (pi_order st')"
      using ok(4) a(1,2) fresh(2) new by (auto simp: st')
    have 5: "set (pi_missingTokens st') \<subseteq> rp_id ` set (pi_order st')" using ok(5) by (auto simp: st')
    have 6: "\<forall>rep \<in> set (pi_order st'). rp_id rep \<noteq> [] \<and> rc_streams (rp_cfg rep) \<noteq> [] \<and>
          (rp_id rep \<in> set (pi_missingTokens st') \<or> (rc_tokenSha256 (rp_cfg rep), rp_id rep) \<in> set (pi_byTokenHash st'))"
      using ok(6) h(1,3) new by (auto simp: st' cfg)
    have "push_ok st'" unfolding push_ok_def using 1 2 3 4 5 6 by blast
    then show ?thesis using st' by auto
  qed
qed

definition fresh_push :: "push_state \<Rightarrow> bool" where
  "fresh_push st \<longleftrightarrow> push_ok st \<and> pi_mesh st = [] \<and> (\<forall>rep \<in> set (pi_order st). rp_acceptedByStream rep = [])"

lemma new_push_ok:
  assumes "newPushRegistry cfg burn = Inr st"
  shows "fresh_push st"
proof -
  obtain st0 where f: "rfold add_reporter (ic_reporters cfg) st0 = Inr st" and st0: "fresh_push st0"
    using assms by (auto simp: newPushRegistry_def rbind_eq_Inr Let_def fresh_push_def push_ok_def tbl_ok_def split: if_splits option.splits)
  show ?thesis
  proof (rule rfold_invariant [OF f, where P = fresh_push])
    fix rc u w assume u: "fresh_push u" "add_reporter rc u = Inr w"
    then have "push_ok w" "pi_mesh w = []" "\<exists>h. pi_order w = pi_order u @ [newReporter (rc\<lparr>rc_tokenSha256 := h\<rparr>)]"
      using add_reporter_ok [of u rc w] by (auto simp: fresh_push_def)
    then show "fresh_push w" using u(1) by (auto simp: fresh_push_def newReporter_def)
  qed (rule st0)
qed

text \<open>
  A registry that starts has unambiguous credentials. If the configuration is accepted, reporter ids are
  distinct and not empty, every token hash is 64 hex digits and belongs to exactly one reporter, and each reporter is granted some stream and
  either has its hash on file or is listed as missing its token; one that is missing its token cannot authenticate.
\<close>

theorem push_credentials:
  assumes "newPushRegistry cfg burn = Inr st"
  shows "tbl_ok rp_id (pi_order st) \<and>
    (\<forall>rep \<in> set (pi_order st). rp_id rep \<noteq> [] \<and> rc_streams (rp_cfg rep) \<noteq> [] \<and>
       (rp_id rep \<in> set (pi_missingTokens st) \<or> (rc_tokenSha256 (rp_cfg rep), rp_id rep) \<in> set (pi_byTokenHash st))) \<and>
    (\<forall>cd token rep. authenticate cd token st = Some rep \<longrightarrow>
       rep \<in> set (pi_order st) \<and> rp_id rep \<notin> set (pi_missingTokens st) \<and> cd_hash cd token = rc_tokenSha256 (rp_cfg rep) \<and>
       length (cd_hash cd token) = 64 \<and> hex_decode (cd_hash cd token) \<noteq> None)"
proof -
  have ok: "push_ok st" using new_push_ok [OF assms] by (simp add: fresh_push_def)
  have "cd_hash cd token = rc_tokenSha256 (rp_cfg rep) \<and> rep \<in> set (pi_order st) \<and> rp_id rep \<notin> set (pi_missingTokens st) \<and>
      length (cd_hash cd token) = 64 \<and> hex_decode (cd_hash cd token) \<noteq> None" if auth: "authenticate cd token st = Some rep" for cd token rep
  proof -
    have a: "(cd_hash cd token, rp_id rep) \<in> set (pi_byTokenHash st)" "rep \<in> set (pi_order st)"
      using authenticate_Some [OF auth] by simp_all
    then have b: "rp_id rep \<notin> set (pi_missingTokens st)" "length (cd_hash cd token) = 64" "hex_decode (cd_hash cd token) \<noteq> None"
      using ok by (fastforce simp: push_ok_def)+
    then have "(rc_tokenSha256 (rp_cfg rep), rp_id rep) \<in> set (pi_byTokenHash st)" using ok a(2) by (auto simp: push_ok_def)
    moreover have "inj_on snd (set (pi_byTokenHash st))" using ok by (simp add: push_ok_def distinct_map)
    ultimately have "(rc_tokenSha256 (rp_cfg rep), rp_id rep) = (cd_hash cd token, rp_id rep)"
      using a(1) by (metis inj_onD snd_conv)
    then have "rc_tokenSha256 (rp_cfg rep) = cd_hash cd token" by simp
    then show ?thesis using a(2) b by simp
  qed
  then have auth: "\<forall>cd token rep. authenticate cd token st = Some rep \<longrightarrow>
       rep \<in> set (pi_order st) \<and> rp_id rep \<notin> set (pi_missingTokens st) \<and> cd_hash cd token = rc_tokenSha256 (rp_cfg rep) \<and>
       length (cd_hash cd token) = 64 \<and> hex_decode (cd_hash cd token) \<noteq> None" by blast
  from ok show ?thesis unfolding push_ok_def by (elim conjE, intro conjI) (assumption, assumption, rule auth)
qed

section \<open>What a run leaves in the buffers\<close>

text \<open>The start: the registry as configured, the packet sink, and reporter health from the staged readings.\<close>

definition boot_push :: "ingest_cfg \<Rightarrow> (burn_row list \<times> string list) option \<Rightarrow> registry option \<Rightarrow> push_state result" where
  "boot_push cfg burn sink = rbind (newPushRegistry cfg burn) (\<lambda>st. Inr ((RestoreBurnHealth st)\<lparr>pi_packets := sink\<rparr>))"

definition buffers_ok :: "burn_row list \<Rightarrow> push_state \<Rightarrow> bool" where
  "buffers_ok t0 st \<longleftrightarrow> tbl_ok rp_id (pi_order st) \<and>
     (\<forall>i k rs. tbl_get fst i (pi_mesh st) = Some (k, rs) \<longrightarrow>
        (\<exists>rc \<in> rp_cfg ` set (pi_order st). rc_id rc = i \<and> MeshStream \<in> set (rc_streams rc) \<and> tbl_ok mr_nodeID rs \<and> (\<exists>now. list_all (good_report rc now) rs))) \<and>
     (\<forall>t. pi_burn st = Some t \<longrightarrow> (\<forall>w \<in> set t. w \<in> set t0 \<or>
        (\<exists>rc \<in> rp_cfg ` set (pi_order st). BurnStream \<in> set (rc_streams rc) \<and> good_burn rc (pi_burnLines st) w))) \<and>
     (\<forall>rep \<in> set (pi_order st). accepted_at BurnStream rep = None)"

lemma with_reporter_map: "pi_order (with_reporter i f st) = map (\<lambda>rep. if rp_id rep = i then f rep else rep) (pi_order st)"
  by (simp add: with_reporter_def)

text \<open>What the restored health leaves alone.\<close>

definition keeps_but_health :: "push_state \<Rightarrow> push_state \<Rightarrow> bool" where
  "keeps_but_health st st' \<longleftrightarrow> list_all2 (\<lambda>r r'. rp_acceptedByStream r' = rp_acceptedByStream r \<and> rp_cfg r' = rp_cfg r) (pi_order st) (pi_order st') \<and>
     pi_mesh st' = pi_mesh st \<and> pi_burn st' = pi_burn st"

lemma keeps_trans: "keeps_but_health a b \<Longrightarrow> keeps_but_health b c \<Longrightarrow> keeps_but_health a c"
  unfolding keeps_but_health_def by (elim conjE, intro conjI) (erule (1) list_all2_trans [rotated], auto)

lemma restore_one: "keeps_but_health st (restore_row st0 w st)"
  by (auto simp: keeps_but_health_def restore_row_def Let_def with_reporter_def list_all2_map2 list_all2_same split: option.split)

lemma restore_keeps: "keeps_but_health st (fold (restore_row st0) ws st)"
proof (induction ws arbitrary: st)
  case Nil
  show ?case by (simp add: keeps_but_health_def list_all2_same)
next
  case (Cons w ws)
  show ?case using keeps_trans [OF restore_one Cons.IH] by simp
qed

lemma keeps_cfgs: "keeps_but_health st st' \<Longrightarrow> map rp_cfg (pi_order st') = map rp_cfg (pi_order st)"
proof -
  assume "keeps_but_health st st'"
  then have "list_all2 (\<lambda>r r'. rp_acceptedByStream r' = rp_acceptedByStream r \<and> rp_cfg r' = rp_cfg r) (pi_order st) (pi_order st')"
    by (simp add: keeps_but_health_def)
  then show ?thesis by (induction rule: list_all2_induct) simp_all
qed

lemma ids_of_cfgs: "map rp_id xs = map rc_id (map rp_cfg xs)"
  by (simp add: rp_id_def)

lemma boot_buffers:
  assumes "boot_push cfg burn sink = Inr st"
  shows "buffers_ok (case pi_burn st of None \<Rightarrow> [] | Some t \<Rightarrow> t) st"
proof -
  obtain s where s: "newPushRegistry cfg burn = Inr s" "st = (RestoreBurnHealth s)\<lparr>pi_packets := sink\<rparr>"
    using assms by (auto simp: boot_push_def rbind_eq_Inr)
  have fresh: "fresh_push s" by (rule new_push_ok [OF s(1)])
  obtain ws where r: "RestoreBurnHealth s = fold (restore_row s) ws s"
    by (cases "pi_burn s") (auto simp: RestoreBurnHealth_def intro: that [of "[]"])
  note k = restore_keeps [of s s ws, folded r]
  have "map rp_id (pi_order (RestoreBurnHealth s)) = map rp_id (pi_order s)" unfolding ids_of_cfgs keeps_cfgs [OF k] ..
  then have "tbl_ok rp_id (pi_order (RestoreBurnHealth s))"
    using fresh by (simp add: tbl_ok_def fresh_push_def push_ok_def)
  moreover have "accepted_at BurnStream rep = None" if mem: "rep \<in> set (pi_order (RestoreBurnHealth s))" for rep
  proof -
    have rel: "list_all2 (\<lambda>r r'. rp_acceptedByStream r' = rp_acceptedByStream r \<and> rp_cfg r' = rp_cfg r) (pi_order s) (pi_order (RestoreBurnHealth s))"
      using k by (simp add: keeps_but_health_def)
    obtain i where i: "i < length (pi_order (RestoreBurnHealth s))" "pi_order (RestoreBurnHealth s) ! i = rep"
      using mem by (auto simp: in_set_conv_nth)
    then have "rp_acceptedByStream rep = rp_acceptedByStream (pi_order s ! i)" "pi_order s ! i \<in> set (pi_order s)"
      using list_all2_nthD2 [OF rel i(1)] list_all2_lengthD [OF rel] by auto
    then show ?thesis using fresh by (simp add: accepted_at_def fresh_push_def)
  qed
  ultimately show ?thesis using k fresh by (auto simp: buffers_ok_def s(2) fresh_push_def keeps_but_health_def)
qed

lemma serve_buffers:
  assumes inv: "buffers_ok t0 st" and s: "ServeStream cd req now st = GoOk (reply, st')"
  shows "buffers_ok t0 st'"
proof -
  have ok: "tbl_ok rp_id (pi_order st)" using inv by (simp add: buffers_ok_def)
  have cfgs: "rp_cfg ` set (pi_order st') = rp_cfg ` set (pi_order st)"
    using serve_keys [OF s] by (metis set_map)
  consider "st' = st" | rep where "authorized cd req st rep" "stores_good (rp_cfg rep) (rq_stream req) now st st'"
    using serve_stores [OF s] by blast
  then show ?thesis
  proof cases
    case 2
    have rep: "rp_cfg rep \<in> rp_cfg ` set (pi_order st)" "rq_stream req \<in> set (rc_streams (rp_cfg rep))"
      using 2(1) by (auto simp: authorized_def)
    have lines: "pi_burnLines st' = pi_burnLines st" using serve_rows [OF s] by (auto simp: confined_def)
    have mesh: "\<exists>rc \<in> rp_cfg ` set (pi_order st). rc_id rc = i \<and> MeshStream \<in> set (rc_streams rc) \<and> tbl_ok mr_nodeID rs \<and> (\<exists>now. list_all (good_report rc now) rs)"
      if m: "tbl_get fst i (pi_mesh st') = Some (k, rs)" for i k rs
    proof (cases "tbl_get fst i (pi_mesh st') = tbl_get fst i (pi_mesh st)")
      case True
      then show ?thesis using inv m unfolding buffers_ok_def by metis
    next
      case False
      then obtain rs' where put: "rq_stream req = MeshStream" "pi_mesh st' = tbl_put fst (rc_id (rp_cfg rep), rs') (pi_mesh st)"
          "list_all (good_report (rp_cfg rep) now) rs'" "tbl_ok mr_nodeID rs'"
        using 2(2) by (auto simp: stores_good_def)
      then have "i = rc_id (rp_cfg rep)" "rs = rs'" using False m by (auto split: if_splits)
      then show ?thesis using put rep by (intro bexI [OF _ rep(1)]) auto
    qed
    have burn: "w \<in> set t0 \<or> (\<exists>rc \<in> rp_cfg ` set (pi_order st). BurnStream \<in> set (rc_streams rc) \<and> good_burn rc (pi_burnLines st) w)"
      if b: "pi_burn st' = Some t" "w \<in> set t" for t w
    proof (cases "pi_burn st' = pi_burn st")
      case True
      then show ?thesis using inv b unfolding buffers_ok_def by metis
    next
      case False
      then obtain t1 where t1: "rq_stream req = BurnStream" "pi_burn st = Some t1" "w \<in> set t1 \<or> good_burn (rp_cfg rep) (pi_burnLines st) w"
        using 2(2) b by (auto simp: stores_good_def)
      from t1(3) show ?thesis
      proof
        assume "w \<in> set t1"
        then show ?thesis using inv t1(2) unfolding buffers_ok_def by metis
      next
        assume "good_burn (rp_cfg rep) (pi_burnLines st) w"
        then show ?thesis using rep t1(1) by metis
      qed
    qed
    have "accepted_at BurnStream r' = None" if r': "r' \<in> set (pi_order st')" for r'
    proof -
      have none: "\<forall>r \<in> set (pi_order st). accepted_at BurnStream r = None" using inv by (simp add: buffers_ok_def)
      consider "st' = st" | j where "list_all2 (row_rel j (rq_stream req) reply now) (pi_order st) (pi_order st')"
        using serve_rows [OF s] by blast
      then show ?thesis
      proof cases
        case 1
        then show ?thesis using none r' by simp
      next
        case (2 j)
        then obtain r where r: "r \<in> set (pi_order st)" "row_rel j (rq_stream req) reply now r r'"
          using r' by (metis list_all2_conv_all_nth in_set_conv_nth)
        then have "accepted_at BurnStream r' = accepted_at BurnStream r"
          by (auto simp: row_rel_def served_row_def accepted_at_def split: if_splits push_reply.splits)
        then show ?thesis using none r(1) by simp
      qed
    qed
    then show ?thesis
      using serve_tbl_ok [OF s ok] mesh burn unfolding buffers_ok_def cfgs lines by (intro conjI allI impI ballI) blast+
  qed (use inv in simp)
qed

lemma run_buffers: "run_push cd reqs st = GoOk (replies, st') \<Longrightarrow> buffers_ok t0 st \<Longrightarrow> buffers_ok t0 st'"
proof (induction reqs arbitrary: st replies)
  case (Cons rq reqs)
  then show ?case by (cases rq) (auto simp: gbind_GoOk dest: serve_buffers)
qed simp





text \<open>
  C26: \<open>burn.line\<close> is never paced. \<open>ingestBurn\<close> does not note the stream's acceptance, so after any run
  no request on that stream is answered with a wait, whatever minimum interval its reporter has.
\<close>

theorem burn_never_paced:
  assumes "boot_push cfg burn sink = Inr st0" "run_push cd reqs st0 = GoOk (replies, st)"
    and "ServeStream cd req now st = GoOk (reply, st')" "rq_stream req = BurnStream"
  shows "reply \<noteq> TooSoon d"
proof
  assume "reply = TooSoon d"
  then obtain rep where rep: "rep \<in> set (pi_order st)" "must_wait rep BurnStream now = Some d"
    using serve_rows [OF assms(3)] assms(4) by auto
  have "buffers_ok (case pi_burn st0 of None \<Rightarrow> [] | Some t \<Rightarrow> t) st"
    using run_buffers [OF assms(2) boot_buffers [OF assms(1)]] .
  then have "accepted_at BurnStream rep = None" using rep(1) by (simp add: buffers_ok_def)
  then show False using rep(2) must_wait_None [of rep BurnStream now] by simp
qed

section \<open>A server with one reporter\<close>

definition demo_ingest :: ingest_cfg where
  "demo_ingest = \<lparr>ic_maxBodyBytes = 0, ic_maxItems = 0, ic_reporters =
     [\<lparr>rc_id = ''alan'', rc_name = ''Alan'', rc_tokenSha256 = replicate 64 CHR ''a'', rc_suppliedAtDeploy = False,
       rc_streams = [MeshStream, BurnStream], rc_staleAfter = 0, rc_minInterval = 0, rc_priority = 1, rc_placeIDs = [], rc_enumerates = False\<rparr>],
     ic_tokenSha256 = []\<rparr>"

definition demo_codec :: codec where
  "demo_codec = \<lparr>cd_hash = (\<lambda>t. if t = ''secret'' then replicate 64 CHR ''a'' else []), cd_time = (\<lambda>s. Some 5),
     cd_mesh = (\<lambda>s. Inr \<lparr>mp_schemaVersion = 1, mp_generatedAt = ''x'', mp_repeaters =
        [\<lparr>ri_id = ''A1B2C3D4'', ri_name = ''Peak'', ri_lastAttempt = Some 7, ri_lastSuccess = Some 9000000000,
          ri_pctSource = [], ri_gauges = [Some 4], ri_counters = [None]\<rparr>]\<rparr>),
     cd_packets = (\<lambda>s. Inl ''none''), cd_envelope = (\<lambda>s. Inl ''none''),
     cd_burn = (\<lambda>s. Inr \<lparr>bp_schemaVersion = 1, bp_readings =
        [\<lparr>bi_lineID = ''Calaveras'', bi_status = ''Green'', bi_message = [], bi_transcript = [], bi_confidence = 90, bi_observedAt = ''x''\<rparr>]\<rparr>),
     cd_verify = (\<lambda>_ _ _. False)\<rparr>"

definition demo_post :: "string \<Rightarrow> push_request" where
  "demo_post stream = \<lparr>rq_method = ''POST'', rq_authorization = ''Bearer secret'', rq_preflight = False, rq_stream = stream, rq_body = Some ''{}''\<rparr>"

definition demo_boot :: push_state where
  "demo_boot = (case boot_push demo_ingest (Some ([], [''calaveras''])) None of Inr st \<Rightarrow> st | Inl _ \<Rightarrow> undefined)"

lemma demo_booted: "boot_push demo_ingest (Some ([], [''calaveras''])) None = Inr demo_boot"
proof -
  have "\<not> is_err (boot_push demo_ingest (Some ([], [''calaveras''])) None)" by code_simp
  then show ?thesis by (cases "boot_push demo_ingest (Some ([], [''calaveras''])) None") (simp_all add: demo_boot_def)
qed


text \<open>A mesh report, the same one second later, a burn report, and the mesh report twenty seconds later.\<close>

definition demo_requests :: "(push_request \<times> time) list" where
  "demo_requests = [(demo_post MeshStream, hour), (demo_post MeshStream, hour + second), (demo_post BurnStream, hour + second),
     (demo_post MeshStream, hour + 20 * second)]"

lemma demo_replies: "\<exists>st. run_push demo_codec demo_requests demo_boot = GoOk
    ([ReportAccepted ''alan'' MeshStream 1 [] hour, TooSoon (14 * second), ReportAccepted ''alan'' BurnStream 1 [] (hour + second),
      ReportAccepted ''alan'' MeshStream 1 [] (hour + 20 * second)], st)"
proof -
  have "(case run_push demo_codec demo_requests demo_boot of GoOk (rs, st) \<Rightarrow>
      rs = [ReportAccepted ''alan'' MeshStream 1 [] hour, TooSoon (14 * second), ReportAccepted ''alan'' BurnStream 1 [] (hour + second),
        ReportAccepted ''alan'' MeshStream 1 [] (hour + 20 * second)] | _ \<Rightarrow> False)" by code_simp
  then show ?thesis by (cases "run_push demo_codec demo_requests demo_boot") auto
qed


theorem push_credentials_witness:
  "\<exists>st. newPushRegistry demo_ingest (Some ([], [''calaveras''])) = Inr st \<and>
    (\<forall>rep. authenticate demo_codec ''secret'' st = Some rep \<longrightarrow> rc_tokenSha256 (rp_cfg rep) = replicate 64 CHR ''a'')"
proof -
  have "\<not> is_err (newPushRegistry demo_ingest (Some ([], [''calaveras''])))" by code_simp
  then obtain st where st: "newPushRegistry demo_ingest (Some ([], [''calaveras''])) = Inr st"
    by (cases "newPushRegistry demo_ingest (Some ([], [''calaveras'']))") simp_all
  have "cd_hash demo_codec ''secret'' = replicate 64 CHR ''a''" by (simp add: demo_codec_def)
  then show ?thesis using push_credentials [OF st] st by metis
qed


theorem burn_never_paced_witness:
  "\<exists>replies st. run_push demo_codec demo_requests demo_boot = GoOk (replies, st) \<and>
    (\<forall>d st'. ServeStream demo_codec (demo_post BurnStream) (hour + second) st \<noteq> GoOk (TooSoon d, st'))"
proof -
  obtain rs st where run: "run_push demo_codec demo_requests demo_boot = GoOk (rs, st)" using demo_replies by blast
  have "rq_stream (demo_post BurnStream) = BurnStream" by (simp add: demo_post_def)
  with burn_never_paced [OF demo_booted run] run show ?thesis by blast
qed

end
