(* ===== verification/RelayTelemetry.thy ===== *)
theory RelayTelemetry
  imports MeshFrame
begin

text \<open>
  The relay's telemetry poller, \<open>internal/relaytelemetry\<close>: the companion protocol (\<open>companion.go\<close>), the poll of a gateway's
  node and the cycle over gateways (\<open>poller.go\<close>), the report (\<open>report.go\<close>) and the adverts forwarded to the Grid
  (\<open>repeaters.go\<close>). The lease and the node are an oracle that gives, for each command, what happens until its reply; the
  reason codes of the relay library are parameters. Voltages and decibels are rationals.
\<close>

section \<open>Readings\<close>

record tsample =
  sm_batteryVoltage :: "rat option"
  sm_uptimeS :: "int option"
  sm_txQueueLen :: "int option"
  sm_noiseFloorDBm :: "int option"
  sm_lastRSSIdBm :: "int option"
  sm_lastSNRdB :: "rat option"
  sm_airtimeMs :: "int option"
  sm_rxAirtimeMs :: "int option"
  sm_nbSent :: "int option"
  sm_nbRecv :: "int option"
  sm_sentFlood :: "int option"
  sm_sentDirect :: "int option"
  sm_recvFlood :: "int option"
  sm_recvDirect :: "int option"
  sm_recvErrors :: "int option"
  sm_temperatureC :: "rat option"
  sm_directDups :: "int option"
  sm_floodDups :: "int option"

definition emptySample :: tsample where
  "emptySample = \<lparr>sm_batteryVoltage = None, sm_uptimeS = None, sm_txQueueLen = None, sm_noiseFloorDBm = None,
     sm_lastRSSIdBm = None, sm_lastSNRdB = None, sm_airtimeMs = None, sm_rxAirtimeMs = None, sm_nbSent = None,
     sm_nbRecv = None, sm_sentFlood = None, sm_sentDirect = None, sm_recvFlood = None, sm_recvDirect = None,
     sm_recvErrors = None, sm_temperatureC = None, sm_directDups = None, sm_floodDups = None\<rparr>"

section \<open>The companion protocol\<close>

definition cmdAppStart :: byte where "cmdAppStart = 0x01"
definition cmdGetBattStorage :: byte where "cmdGetBattStorage = 0x14"
definition cmdDeviceQuery :: byte where "cmdDeviceQuery = 0x16"
definition cmdGetStats :: byte where "cmdGetStats = 0x38"
definition respErr :: byte where "respErr = 0x01"
definition respSelfInfo :: byte where "respSelfInfo = 0x05"
definition respBattStorage :: byte where "respBattStorage = 0x0c"
definition respDeviceInfo :: byte where "respDeviceInfo = 0x0d"
definition respStats :: byte where "respStats = 0x18"
definition statsCore :: byte where "statsCore = 0"
definition statsRadio :: byte where "statsRadio = 1"
definition statsPackets :: byte where "statsPackets = 2"
definition statsMinFirmware :: int where "statsMinFirmware = 8"
definition deviceQueryVersion :: byte where "deviceQueryVersion = 3"
definition selfInfoPubkeyOff :: nat where "selfInfoPubkeyOff = 4"
definition pubkeySize :: nat where "pubkeySize = 32"
definition selfInfoNameOff :: nat where
  "selfInfoNameOff = selfInfoPubkeyOff + pubkeySize + 4 + 4 + 1 + 1 + 1 + 1 + 4 + 4 + 1 + 1"

definition appStartFrame :: "byte list" where
  "appStartFrame = [cmdAppStart, 1, 0, 0, 0, 0, 0, 0] @ str_bytes ''sierra-relay-telemetry''"

definition deviceQueryFrame :: "byte list" where "deviceQueryFrame = [cmdDeviceQuery, deviceQueryVersion]"
definition battStorageFrame :: "byte list" where "battStorageFrame = [cmdGetBattStorage]"
definition statsFrame :: "byte \<Rightarrow> byte list" where "statsFrame kind = [cmdGetStats, kind]"

definition isCode :: "byte \<Rightarrow> byte list \<Rightarrow> bool" where
  "isCode code f \<longleftrightarrow> length f > 0 \<and> f ! 0 = code"

definition isStats :: "byte \<Rightarrow> byte list \<Rightarrow> bool" where
  "isStats kind f \<longleftrightarrow> length f > 1 \<and> f ! 0 = respStats \<and> f ! 1 = kind"

text \<open>The length of the UTF-8 encoded rune a byte string starts with; 0 when it starts with none.\<close>

definition cont :: "nat \<Rightarrow> byte list \<Rightarrow> nat \<Rightarrow> nat \<Rightarrow> bool" where
  "cont i bs lo hi \<longleftrightarrow> i < length bs \<and> lo \<le> unat (bs ! i) \<and> unat (bs ! i) \<le> hi"

definition rune_len :: "byte list \<Rightarrow> nat" where
  "rune_len bs =
     (let b = unat (bs ! 0) in
      if b < 0x80 then 1
      else if b < 0xC2 then 0
      else if b \<le> 0xDF then (if cont 1 bs 0x80 0xBF then 2 else 0)
      else if b \<le> 0xEF then
        (if cont 1 bs (if b = 0xE0 then 0xA0 else 0x80) (if b = 0xED then 0x9F else 0xBF) \<and> cont 2 bs 0x80 0xBF then 3 else 0)
      else if b \<le> 0xF4 then
        (if cont 1 bs (if b = 0xF0 then 0x90 else 0x80) (if b = 0xF4 then 0x8F else 0xBF) \<and>
            cont 2 bs 0x80 0xBF \<and> cont 3 bs 0x80 0xBF then 4 else 0)
      else 0)"

text \<open>\<open>strings.ToValidUTF8(s, "")\<close> drops the bytes that are part of no rune.\<close>

fun toValidUTF8 :: "byte list \<Rightarrow> byte list" where
  "toValidUTF8 [] = []"
| "toValidUTF8 (b # bs) =
     (let n = rune_len (b # bs) in
      if n = 0 then toValidUTF8 bs else b # take (n - 1) bs @ toValidUTF8 (drop (n - 1) bs))"

definition cString :: "byte list \<Rightarrow> string" where
  "cString bs = bytes_str (toValidUTF8 (takeWhile (\<lambda>b. b \<noteq> 0) bs))"

definition parseSelfInfo :: "byte list \<Rightarrow> (string \<times> string) go" where
  "parseSelfInfo f =
     (if length f < selfInfoPubkeyOff + pubkeySize then GoErr ''not a SELF_INFO frame''
      else gbind (byte_at f 0) (\<lambda>b0.
        if b0 \<noteq> respSelfInfo then GoErr ''not a SELF_INFO frame''
        else gbind (slice selfInfoPubkeyOff (selfInfoPubkeyOff + pubkeySize) f) (\<lambda>pk.
          if length f > selfInfoNameOff
          then gbind (slice selfInfoNameOff (length f) f) (\<lambda>rest. GoOk (hex_encode pk, cString rest))
          else GoOk (hex_encode pk, []))))"

definition parseFirmwareVersion :: "byte list \<Rightarrow> int go" where
  "parseFirmwareVersion f =
     (if length f < 2 then GoErr ''not a DEVICE_INFO frame''
      else gbind (byte_at f 0) (\<lambda>b0.
        if b0 \<noteq> respDeviceInfo then GoErr ''not a DEVICE_INFO frame''
        else gbind (byte_at f 1) (\<lambda>b1. GoOk (uint b1))))"

text \<open>\<open>binary.LittleEndian.Uint16\<close> and \<open>Uint32\<close> of \<open>f[a:]\<close>\<close>

definition le16 :: "byte list \<Rightarrow> 16 word" where
  "le16 bs = ucast (bs ! 0) OR push_bit 8 (ucast (bs ! 1))"

definition u16_at :: "nat \<Rightarrow> byte list \<Rightarrow> 16 word go" where
  "u16_at a f = gbind (slice a (a + 2) f) (\<lambda>bs. GoOk (le16 bs))"

definition u32_at :: "nat \<Rightarrow> byte list \<Rightarrow> 32 word go" where
  "u32_at a f = gbind (slice a (a + 4) f) (\<lambda>bs. GoOk (le32 bs))"

definition millivolts :: "16 word \<Rightarrow> rat" where
  "millivolts w = of_int (uint w) / 1000"

definition parseBattery :: "byte list \<Rightarrow> rat go" where
  "parseBattery f =
     (if length f < 3 then GoErr ''not a BATT_AND_STORAGE frame''
      else gbind (byte_at f 0) (\<lambda>b0.
        if b0 \<noteq> respBattStorage then GoErr ''not a BATT_AND_STORAGE frame''
        else gbind (u16_at 1 f) (\<lambda>mv. GoOk (millivolts mv))))"

definition applyCoreStats :: "byte list \<Rightarrow> tsample \<Rightarrow> tsample go" where
  "applyCoreStats f s =
     (if length f < 11 \<or> \<not> isStats statsCore f then GoErr ''short or wrong core stats frame''
      else gbind (case sm_batteryVoltage s of
                    None \<Rightarrow> gbind (u16_at 2 f) (\<lambda>mv. GoOk (s\<lparr>sm_batteryVoltage := Some (millivolts mv)\<rparr>))
                  | Some _ \<Rightarrow> GoOk s) (\<lambda>s.
        gbind (u32_at 4 f) (\<lambda>up. gbind (byte_at f 10) (\<lambda>q.
          GoOk (s\<lparr>sm_uptimeS := Some (uint up), sm_txQueueLen := Some (uint q)\<rparr>)))))"

definition applyRadioStats :: "byte list \<Rightarrow> tsample \<Rightarrow> tsample go" where
  "applyRadioStats f s =
     (if length f < 14 \<or> \<not> isStats statsRadio f then GoErr ''short or wrong radio stats frame''
      else gbind (u16_at 2 f) (\<lambda>nf. gbind (byte_at f 4) (\<lambda>rssi. gbind (byte_at f 5) (\<lambda>snr.
        gbind (u32_at 6 f) (\<lambda>tx. gbind (u32_at 10 f) (\<lambda>rx.
          GoOk (s\<lparr>sm_noiseFloorDBm := Some (sint nf), sm_lastRSSIdBm := Some (sint rssi),
                  sm_lastSNRdB := Some (of_int (sint snr) / 4), sm_airtimeMs := Some (uint tx * 1000),
                  sm_rxAirtimeMs := Some (uint rx * 1000)\<rparr>)))))))"

definition applyPacketStats :: "byte list \<Rightarrow> tsample \<Rightarrow> tsample go" where
  "applyPacketStats f s =
     (if length f < 26 \<or> \<not> isStats statsPackets f then GoErr ''short or wrong packet stats frame''
      else gbind (gmap (\<lambda>a. gbind (u32_at a f) (\<lambda>w. GoOk (uint w))) [2, 6, 10, 14, 18, 22]) (\<lambda>u.
        let s = s\<lparr>sm_nbRecv := Some (u ! 0), sm_nbSent := Some (u ! 1), sm_sentFlood := Some (u ! 2),
                  sm_sentDirect := Some (u ! 3), sm_recvFlood := Some (u ! 4), sm_recvDirect := Some (u ! 5)\<rparr> in
        if length f \<ge> 30 then gbind (u32_at 26 f) (\<lambda>w. GoOk (s\<lparr>sm_recvErrors := Some (uint w)\<rparr>)) else GoOk s))"

section \<open>One leased conversation with a node\<close>

text \<open>
  What \<open>select\<close> takes from its channels while a reply is awaited, in order; when nothing is left, the deadline comes.
  \<open>ak_send\<close> is \<open>Send\<close>'s error with whether it wraps \<open>ErrLeaseEnded\<close>; \<open>ak_ctxDone\<close> and \<open>ak_endReason\<close> are what the
  context and the holder say right after the command.
\<close>

datatype ask_event = Frame "byte list" | LeaseEnd | Deadline | CtxDone
datatype ask_error = SendFailed bool | NodeRefused | LeaseIsOver | NoReply | CtxErr

record ask_env =
  ak_send :: "bool option"
  ak_events :: "ask_event list"
  ak_ctxDone :: bool
  ak_endReason :: "string option"

type_synonym exchange = "byte list \<Rightarrow> ask_env"

fun await_reply :: "(byte list \<Rightarrow> bool) \<Rightarrow> ask_event list \<Rightarrow> ask_error + byte list" where
  "await_reply want [] = Inl NoReply"
| "await_reply want (Frame f # es) =
     (if want f then Inr f
      else if length f > 0 \<and> f ! 0 = respErr then Inl NodeRefused
      else await_reply want es)"
| "await_reply want (LeaseEnd # es) = Inl LeaseIsOver"
| "await_reply want (Deadline # es) = Inl NoReply"
| "await_reply want (CtxDone # es) = Inl CtxErr"

definition ask :: "exchange \<Rightarrow> byte list \<Rightarrow> (byte list \<Rightarrow> bool) \<Rightarrow> ask_error + byte list" where
  "ask x cmd want =
     (case ak_send (x cmd) of Some ended \<Rightarrow> Inl (SendFailed ended) | None \<Rightarrow> await_reply want (ak_events (x cmd)))"

definition fatal :: "exchange \<Rightarrow> byte list \<Rightarrow> ask_error \<Rightarrow> bool" where
  "fatal x cmd e \<longleftrightarrow> ak_ctxDone (x cmd) \<or> ak_endReason (x cmd) \<noteq> None \<or> e = SendFailed True"

text \<open>The optional readings: a fatal error ends the poll, any other leaves \<open>dflt\<close>.\<close>

definition ask_or :: "exchange \<Rightarrow> byte list \<Rightarrow> (byte list \<Rightarrow> bool) \<Rightarrow> 'a \<Rightarrow> (byte list \<Rightarrow> 'a go) \<Rightarrow> 'a go" where
  "ask_or x cmd want dflt use =
     (case ask x cmd want of
        Inl e \<Rightarrow> if fatal x cmd e then GoErr ''the poll cannot go on'' else GoOk dflt
      | Inr f \<Rightarrow> (case use f of GoPanic \<Rightarrow> GoPanic | GoErr _ \<Rightarrow> GoOk dflt | GoOk v \<Rightarrow> GoOk v))"

definition readStats :: "exchange \<Rightarrow> tsample \<Rightarrow> tsample go" where
  "readStats x s =
     gbind (ask_or x (statsFrame statsCore) (isStats statsCore) s (\<lambda>f. applyCoreStats f s)) (\<lambda>s.
     gbind (ask_or x (statsFrame statsRadio) (isStats statsRadio) s (\<lambda>f. applyRadioStats f s)) (\<lambda>s.
       ask_or x (statsFrame statsPackets) (isStats statsPackets) s (\<lambda>f. applyPacketStats f s)))"

definition readNode :: "exchange \<Rightarrow> string \<Rightarrow> (string \<times> tsample) go" where
  "readNode x pubkey =
     (case ask x appStartFrame (isCode respSelfInfo) of
        Inl e \<Rightarrow> GoErr ''APP_START''
      | Inr f \<Rightarrow>
          gbind (parseSelfInfo f) (\<lambda>(got, name).
            if got \<noteq> pubkey then GoErr ''node key does not match the pinned key''
            else
              gbind (ask_or x deviceQueryFrame (isCode respDeviceInfo) 0 parseFirmwareVersion) (\<lambda>fw.
              gbind (ask_or x battStorageFrame (isCode respBattStorage) emptySample
                       (\<lambda>f. gbind (parseBattery f) (\<lambda>v. GoOk (emptySample\<lparr>sm_batteryVoltage := Some v\<rparr>)))) (\<lambda>s.
              gbind (if fw \<ge> statsMinFirmware then readStats x s else GoOk s) (\<lambda>s. GoOk (name, s))))))"

section \<open>Polling a gateway\<close>

datatype node_outcome = NotPolled | OutcomeOK | OutcomeSkipped | OutcomeFailed

text \<open>The reason codes of the relay library.\<close>

record relay_codes =
  rr_preempted :: string
  rr_hostPaused :: string
  rr_nodePaused :: string
  rr_shutdown :: string
  rr_revoked :: string

definition skipCode :: "relay_codes \<Rightarrow> string \<Rightarrow> bool" where
  "skipCode rr code \<longleftrightarrow>
     code \<in> {rr_preempted rr, rr_hostPaused rr, ''node_'' @ rr_nodePaused rr, rr_shutdown rr, rr_revoked rr}"

datatype lease_answer = LeaseBusy | LeaseUnavailable string | LeaseError | LeaseGranted

text \<open>A poll: when it starts, what \<open>Acquire\<close> says, the conversation, and why the lease ended if it did.\<close>

record gateway_poll =
  gp_start :: time
  gp_lease :: lease_answer
  gp_exchange :: exchange
  gp_endReason :: "string option"

definition read_gateway :: "relay_codes \<Rightarrow> gateway_poll \<Rightarrow> string \<Rightarrow> (string \<times> tsample option \<times> node_outcome) go" where
  "read_gateway rr g pubkey =
     (case gp_lease g of
        LeaseBusy \<Rightarrow> GoOk ([], None, OutcomeSkipped)
      | LeaseUnavailable code \<Rightarrow> GoOk ([], None, if skipCode rr code then OutcomeSkipped else OutcomeFailed)
      | LeaseError \<Rightarrow> GoOk ([], None, OutcomeFailed)
      | LeaseGranted \<Rightarrow>
          (case readNode (gp_exchange g) pubkey of
             GoPanic \<Rightarrow> GoPanic
           | GoErr _ \<Rightarrow> (case gp_endReason g of
                         Some reason \<Rightarrow> GoOk ([], None, if skipCode rr reason then OutcomeSkipped else OutcomeFailed)
                       | None \<Rightarrow> GoOk ([], None, OutcomeFailed))
           | GoOk (name, s) \<Rightarrow> GoOk (name, Some s, OutcomeOK)))"

record tnode =
  tn_pubkey :: string
  tn_name :: string
  tn_lastAttempt :: time
  tn_lastSuccess :: time
  tn_sample :: "tsample option"
  tn_outcome :: node_outcome
  tn_advert :: "byte list"
  tn_advertSent :: "byte list"

definition newNode :: "string \<Rightarrow> tnode" where
  "newNode pk = \<lparr>tn_pubkey = pk, tn_name = [], tn_lastAttempt = zeroTime, tn_lastSuccess = zeroTime, tn_sample = None,
     tn_outcome = NotPolled, tn_advert = [], tn_advertSent = []\<rparr>"

text \<open>The maps \<open>nodes\<close> (by gateway) and \<open>repeaters\<close> (by public key).\<close>

record tpoller =
  tp_nodes :: "(string \<times> tnode) list"
  tp_repeaters :: "(string \<times> tnode) list"

definition note_poll :: "time \<Rightarrow> string \<Rightarrow> tsample option \<Rightarrow> node_outcome \<Rightarrow> tnode \<Rightarrow> tnode" where
  "note_poll start name s oc n =
     (let n = (case oc of
                 OutcomeOK \<Rightarrow> n\<lparr>tn_lastAttempt := start, tn_lastSuccess := start, tn_sample := s,
                                tn_name := (if name \<noteq> [] then name else tn_name n)\<rparr>
               | OutcomeFailed \<Rightarrow> n\<lparr>tn_lastAttempt := start\<rparr>
               | _ \<Rightarrow> n)
      in n\<lparr>tn_outcome := oc\<rparr>)"

definition pollGateway :: "relay_codes \<Rightarrow> gateway_poll \<Rightarrow> string \<Rightarrow> string \<Rightarrow> tpoller \<Rightarrow> tpoller go" where
  "pollGateway rr g gw pubkey p =
     gbind (read_gateway rr g pubkey) (\<lambda>(name, s, oc).
       let st = (case tbl_get fst gw (tp_nodes p) of
                   Some (_, n) \<Rightarrow> if tn_pubkey n = pubkey then n else newNode pubkey
                 | None \<Rightarrow> newNode pubkey)
       in GoOk (p\<lparr>tp_nodes := tbl_put fst (gw, note_poll (gp_start g) name s oc st) (tp_nodes p)\<rparr>))"

definition forget :: "string \<Rightarrow> tpoller \<Rightarrow> tpoller" where
  "forget gw p = p\<lparr>tp_nodes := tbl_del fst gw (tp_nodes p)\<rparr>"

section \<open>The report\<close>

record report_entry =
  re_id :: string
  re_name :: string
  re_lastAttempt :: "int option"
  re_lastSuccess :: "int option"
  re_readings :: tsample
  re_online :: bool

definition unix_ptr :: "time \<Rightarrow> int option" where
  "unix_ptr t = (if isZero t then None else Some (unix t))"

definition entry_of_node :: "tnode \<Rightarrow> report_entry" where
  "entry_of_node n =
     \<lparr>re_id = tn_pubkey n, re_name = tn_name n, re_lastAttempt = unix_ptr (tn_lastAttempt n),
      re_lastSuccess = unix_ptr (tn_lastSuccess n),
      re_readings = (case tn_sample n of Some s \<Rightarrow> s | None \<Rightarrow> emptySample), re_online = (tn_outcome n = OutcomeOK)\<rparr>"

definition Report :: "tpoller \<Rightarrow> report_entry list" where
  "Report p = map entry_of_node (filter (\<lambda>n. \<not> isZero (tn_lastAttempt n))
     (map snd (sort_key fst (tp_nodes p)) @ map snd (sort_key fst (tp_repeaters p))))"

section \<open>Sending to the Grid\<close>

text \<open>\<open>post\<close>: no answer, or its status; only 202 accepts.\<close>

definition post :: "int option \<Rightarrow> bool" where
  "post status \<longleftrightarrow> status = Some 202"

definition payloadAdvert :: byte where "payloadAdvert = 4"

definition forwardable :: "tnode \<Rightarrow> bool" where
  "forwardable n \<longleftrightarrow> length (tn_advert n) > 0 \<and> drop_bit 2 (tn_advert n ! 0) AND 0x0f = payloadAdvert \<and>
     tn_advert n \<noteq> tn_advertSent n"

definition pendingAdverts :: "tpoller \<Rightarrow> (string \<times> byte list) list" where
  "pendingAdverts p = map (\<lambda>(pk, n). (pk, tn_advert n)) (filter (\<lambda>(_, n). forwardable n) (tp_repeaters p))"

definition mark_sent :: "(string \<times> byte list) list \<Rightarrow> string \<times> tnode \<Rightarrow> string \<times> tnode" where
  "mark_sent out e = (case map_of out (fst e) of Some raw \<Rightarrow> (fst e, snd e\<lparr>tn_advertSent := raw\<rparr>) | None \<Rightarrow> e)"

text \<open>The packets posted, in hexadecimal, and the state after it.\<close>

definition pushAdverts :: "int option \<Rightarrow> tpoller \<Rightarrow> string list \<times> tpoller" where
  "pushAdverts status p =
     (let out = pendingAdverts p in
      if out = [] then ([], p)
      else if \<not> post status then (map (hex_encode \<circ> snd) out, p)
      else (map (hex_encode \<circ> snd) out, p\<lparr>tp_repeaters := map (mark_sent out) (tp_repeaters p)\<rparr>))"

text \<open>
  A cycle: \<open>cyc_polls i\<close> is the poll of the \<open>i\<close>-th opted-in gateway and \<open>cyc_done i\<close> whether the context has ended
  before it; the result is the report sent, if one is, and the adverts.
\<close>

record cycle_env =
  cyc_pinned :: "(string \<times> string) list result"
  cyc_polls :: "nat \<Rightarrow> gateway_poll"
  cyc_done :: "nat \<Rightarrow> bool"
  cyc_status :: "int option"

definition pinned_key :: "(string \<times> string) list \<Rightarrow> string \<Rightarrow> string" where
  "pinned_key recs gw = (case map_of (rev recs) gw of Some k \<Rightarrow> k | None \<Rightarrow> [])"

fun poll_all :: "relay_codes \<Rightarrow> cycle_env \<Rightarrow> (string \<times> string) list \<Rightarrow> nat \<Rightarrow> string list \<Rightarrow> tpoller \<Rightarrow> (bool \<times> tpoller) go" where
  "poll_all rr env recs i [] p = GoOk (\<not> cyc_done env i, p)"
| "poll_all rr env recs i (gw # gws) p =
     (if cyc_done env i then GoOk (False, p)
      else let key = pinned_key recs gw in
        if key = [] then poll_all rr env recs (i + 1) gws (forget gw p)
        else gbind (pollGateway rr (cyc_polls env i) gw key p) (poll_all rr env recs (i + 1) gws))"

definition Cycle :: "relay_codes \<Rightarrow> string list \<Rightarrow> cycle_env \<Rightarrow> tpoller \<Rightarrow> (report_entry list option \<times> string list \<times> tpoller) go" where
  "Cycle rr gateways env p =
     (case cyc_pinned env of
        Inl _ \<Rightarrow> GoOk (None, [], p)
      | Inr recs \<Rightarrow>
          gbind (poll_all rr env recs 0 gateways p) (\<lambda>(go_on, p).
            if \<not> go_on then GoOk (None, [], p)
            else case pushAdverts (cyc_status env) p of (sent, p') \<Rightarrow> GoOk (Some (Report p), sent, p')))"

end
