(* ===== verification/RepeaterSchedule.thy ===== *)
theory RepeaterSchedule
  imports RelayTelemetry
begin

text \<open>
  The schedule of the shared repeaters, \<open>internal/relaytelemetry/schedule.go\<close>, with the defaults of \<open>New\<close> (\<open>poller.go\<close>)
  and the readings of \<open>repeaters.go\<close>. What the relay library and the Grid answer, and how long they take, is the
  \<open>mesh_world\<close>: the clock advances inside those calls only. \<open>sc_history\<close> records what the schedule did, for the
  theorems; no definition reads it.
\<close>

section \<open>Configuration\<close>

record poller_cfg =
  pg_gateways :: "string list"
  pg_interval :: duration
  pg_timeout :: duration
  pg_gridURL :: string
  pg_repeaterInterval :: duration
  pg_repeaterRetries :: "duration list option"
  pg_hibernateAfter :: int
  pg_hibernateInterval :: duration
  pg_repeaterTick :: duration
  pg_reporterID :: string

definition DefaultRepeaterRetries :: "duration list" where
  "DefaultRepeaterRetries = [30 * second, 60 * second, 120 * second]"

definition maxMeshTries :: nat where "maxMeshTries = 3"

definition orDefault :: "int \<Rightarrow> int \<Rightarrow> int" where
  "orDefault dflt v = (if v \<le> 0 then dflt else v)"

text \<open>What \<open>New\<close> makes of the configuration.\<close>

definition withDefaults :: "poller_cfg \<Rightarrow> poller_cfg" where
  "withDefaults c =
     c\<lparr>pg_interval := orDefault (5 * minute) (pg_interval c),
       pg_timeout := orDefault (5 * second) (pg_timeout c),
       pg_repeaterInterval := orDefault (30 * minute) (pg_repeaterInterval c),
       pg_repeaterRetries := (case pg_repeaterRetries c of None \<Rightarrow> Some DefaultRepeaterRetries | Some rs \<Rightarrow> Some rs),
       pg_hibernateAfter := orDefault 6 (pg_hibernateAfter c),
       pg_hibernateInterval := orDefault (24 * hour) (pg_hibernateInterval c),
       pg_repeaterTick := orDefault (5 * second) (pg_repeaterTick c),
       pg_reporterID := (if pg_reporterID c = [] then ''relay'' else pg_reporterID c),
       pg_gridURL := rev (dropWhile (\<lambda>ch. ch = CHR ''/'') (rev (pg_gridURL c)))\<rparr>"

text \<open>\<open>len\<close> of a nil slice is 0.\<close>

definition retry_waits :: "poller_cfg \<Rightarrow> duration list" where
  "retry_waits c = (case pg_repeaterRetries c of None \<Rightarrow> [] | Some rs \<Rightarrow> rs)"

definition hibernateWindow :: "poller_cfg \<Rightarrow> duration" where
  "hibernateWindow c = pg_hibernateAfter c * pg_repeaterInterval c"

section \<open>What the relay library gives\<close>

text \<open>An error of a check: which of the library's errors it wraps, and its text.\<close>

record mesh_error =
  me_notKnown :: bool
  me_busy :: bool
  me_unavailable :: bool
  me_leaseEnded :: bool
  me_loginFailed :: bool
  me_noReply :: bool
  me_text :: string

definition skipErr :: "mesh_error \<Rightarrow> bool" where
  "skipErr e \<longleftrightarrow> me_busy e \<or> me_unavailable e \<or> me_leaseEnded e"

definition no_airtime :: "mesh_error \<Rightarrow> bool" where
  "no_airtime e \<longleftrightarrow> me_notKnown e \<or> skipErr e"

text \<open>A repeater's status and telemetry replies; an \<open>int\<close> is a machine word of 64 bits.\<close>

record mesh_status =
  mst_batteryMilliVolts :: "int option"
  mst_uptimeS :: "int option"
  mst_packetsSent :: "int option"
  mst_packetsRecv :: "int option"
  mst_sentFlood :: "int option"
  mst_sentDirect :: "int option"
  mst_recvFlood :: "int option"
  mst_recvDirect :: "int option"
  mst_recvErrors :: "int option"
  mst_lastSNRdB :: "rat option"
  mst_txQueueLen :: "int option"
  mst_noiseFloorDBm :: "int option"
  mst_lastRSSIdBm :: "int option"
  mst_directDups :: "int option"
  mst_floodDups :: "int option"
  mst_airtimeS :: "int option"
  mst_rxAirtimeS :: "int option"

record mesh_telem =
  mtl_temperatureC :: "rat option"
  mtl_voltage :: "rat option"

record repeater_check =
  rk_status :: "mesh_status option"
  rk_telemetry :: "mesh_telem option"
  rk_name :: string
  rk_advert :: "byte list"

definition i32 :: "int option \<Rightarrow> int option" where
  "i32 v = map_option (\<lambda>x. sint (word_of_int x :: 32 word)) v"

definition sampleFromCheck :: "repeater_check \<Rightarrow> tsample" where
  "sampleFromCheck r =
     (let s = (case rk_status r of
                 None \<Rightarrow> emptySample
               | Some st \<Rightarrow>
                   emptySample\<lparr>sm_batteryVoltage := map_option (\<lambda>mv. of_int mv / 1000) (mst_batteryMilliVolts st),
                     sm_uptimeS := mst_uptimeS st, sm_nbSent := mst_packetsSent st, sm_nbRecv := mst_packetsRecv st,
                     sm_sentFlood := mst_sentFlood st, sm_sentDirect := mst_sentDirect st,
                     sm_recvFlood := mst_recvFlood st, sm_recvDirect := mst_recvDirect st,
                     sm_recvErrors := mst_recvErrors st, sm_lastSNRdB := mst_lastSNRdB st,
                     sm_txQueueLen := i32 (mst_txQueueLen st), sm_noiseFloorDBm := i32 (mst_noiseFloorDBm st),
                     sm_lastRSSIdBm := i32 (mst_lastRSSIdBm st),
                     sm_directDups := mst_directDups st, sm_floodDups := mst_floodDups st,
                     sm_airtimeMs := map_option (\<lambda>x. x * 1000) (mst_airtimeS st),
                     sm_rxAirtimeMs := map_option (\<lambda>x. x * 1000) (mst_rxAirtimeS st)\<rparr>)
      in (case rk_telemetry r of
            None \<Rightarrow> s
          | Some t \<Rightarrow>
              s\<lparr>sm_temperatureC := mtl_temperatureC t,
                sm_batteryVoltage := (case sm_batteryVoltage s of None \<Rightarrow> mtl_voltage t | Some v \<Rightarrow> Some v)\<rparr>))"

text \<open>What the relay keeps of a repeater's schedule, and the credential it hands out; a reading is JSON text.\<close>

record poll_state =
  ps_primary :: string
  ps_failedCycles :: int
  ps_hibernatingSince :: "time option"
  ps_refusedAt :: "time option"
  ps_nextCycle :: time
  ps_reading :: string

record credential =
  cd_pubkey :: string
  cd_name :: string
  cd_password :: string
  cd_addedByGateway :: string
  cd_lastGateway :: string
  cd_updatedAt :: time
  cd_lastAttemptAt :: "time option"
  cd_lastOKAt :: "time option"
  cd_lastError :: string
  cd_poll :: poll_state

record check_request =
  cq_gateway :: string
  cq_pubkey :: string
  cq_password :: string
  cq_onlyIfKnown :: bool
  cq_floodFirst :: bool

text \<open>
  The Grid's answer about a node: none, or a status and, when the body decodes, the last advert and the last success
  with the monitor that reports it.
\<close>

record grid_node =
  gn_lastAdvertAt :: "time option"
  gn_admin :: "(string \<times> time option) option"

datatype grid_answer = GridNoAnswer string | GridStatus int "grid_node option"

text \<open>The \<open>n\<close>-th call of the schedule on the outside world: its result and the nanoseconds it takes.\<close>

record mesh_world =
  mw_check :: "nat \<Rightarrow> check_request \<Rightarrow> (mesh_error + repeater_check) \<times> nat"
  mw_grid :: "nat \<Rightarrow> string \<Rightarrow> grid_answer \<times> nat"
  mw_done :: "nat \<Rightarrow> bool"
  mw_marshal :: "tsample \<Rightarrow> string result"
  mw_unmarshal :: "string \<Rightarrow> tsample result"

section \<open>The schedule's state\<close>

record repeater_cycle =
  cy_start :: time
  cy_gateways :: "string list"
  cy_gi :: nat
  cy_retry :: nat
  cy_retries :: bool
  cy_fallback :: bool
  cy_triedFall :: bool
  cy_nextAt :: time
  cy_tried :: nat
  cy_sent :: bool
  cy_unanswered :: "string list"
  cy_lastErr :: "mesh_error option"
  cy_via :: string

record repeater_job =
  jb_state :: poll_state
  jb_cycle :: "repeater_cycle option"
  jb_nextAliveCheck :: time

datatype sched_event = Began string bool time | Checked time check_request "mesh_error + repeater_check"
  | Saved string time poll_state | Recorded string string "mesh_error option"

record sched =
  sc_poller :: tpoller
  sc_jobs :: "(string \<times> repeater_job) list"
  sc_clock :: time
  sc_calls :: nat
  sc_history :: "sched_event list"

definition note_event :: "sched_event \<Rightarrow> sched \<Rightarrow> sched" where
  "note_event e s = s\<lparr>sc_history := sc_history s @ [e]\<rparr>"

definition CheckRepeater :: "mesh_world \<Rightarrow> check_request \<Rightarrow> sched \<Rightarrow> (mesh_error + repeater_check) \<times> sched" where
  "CheckRepeater w rq s =
     (let (res, d) = mw_check w (sc_calls s) rq in
      (res, note_event (Checked (sc_clock s) rq res)
              (s\<lparr>sc_clock := sc_clock s + int d, sc_calls := sc_calls s + 1\<rparr>)))"

text \<open>\<open>gridAlive\<close>: the window is taken back from the clock after the answer.\<close>

definition gridAlive :: "poller_cfg \<Rightarrow> mesh_world \<Rightarrow> string \<Rightarrow> duration \<Rightarrow> sched \<Rightarrow> bool result \<times> sched" where
  "gridAlive cfg w pk window s =
     (let (ans, d) = mw_grid w (sc_calls s) pk;
          s = s\<lparr>sc_clock := sc_clock s + int d, sc_calls := sc_calls s + 1\<rparr>;
          since = sc_clock s - window
      in (case ans of
            GridNoAnswer e \<Rightarrow> Inl e
          | GridStatus code body \<Rightarrow>
              if code = 404 then Inr False
              else if code \<noteq> 200 then Inl ''the Grid answered another status''
              else (case body of
                      None \<Rightarrow> Inl ''the answer does not decode''
                    | Some n \<Rightarrow>
                        Inr ((case gn_lastAdvertAt n of Some t \<Rightarrow> t > since | None \<Rightarrow> False) \<or>
                             (case gn_admin n of
                                Some (who, Some t) \<Rightarrow> who \<noteq> pg_reporterID cfg \<and> t > since
                              | _ \<Rightarrow> False))), s))"

section \<open>The order of the gateways and the offset of a repeater\<close>

definition add_candidate :: "string list \<Rightarrow> string \<Rightarrow> string list \<Rightarrow> string list" where
  "add_candidate gateways g out =
     (if g \<noteq> [] \<and> g \<in> set gateways \<and> g \<notin> set out then out @ [g] else out)"

definition add_rest :: "string \<Rightarrow> string list \<Rightarrow> string list" where
  "add_rest g out = (if g \<notin> set out then out @ [g] else out)"

definition candidates :: "credential \<Rightarrow> string list \<Rightarrow> string list" where
  "candidates c gateways =
     fold add_rest gateways
       (fold (add_candidate gateways) [ps_primary (cd_poll c), cd_lastGateway c, cd_addedByGateway c] [])"

text \<open>\<open>fnv.New64a\<close>\<close>

definition fnv64a :: "byte list \<Rightarrow> 64 word" where
  "fnv64a bs = foldl (\<lambda>h b. (h XOR ucast b) * 1099511628211) 14695981039346656037 bs"

definition offset :: "poller_cfg \<Rightarrow> string \<Rightarrow> duration" where
  "offset cfg pk = sint (fnv64a (str_bytes pk) mod word_of_int (pg_repeaterInterval cfg))"

section \<open>The end of a cycle\<close>

definition refused_in :: "repeater_cycle \<Rightarrow> bool" where
  "refused_in cy \<longleftrightarrow> (case cy_lastErr cy of Some e \<Rightarrow> me_loginFailed e | None \<Rightarrow> False)"

definition not_known_in :: "repeater_cycle \<Rightarrow> bool" where
  "not_known_in cy \<longleftrightarrow> (case cy_lastErr cy of Some e \<Rightarrow> me_notKnown e | None \<Rightarrow> False)"

text \<open>The next cycle keeps the cadence, unless that is already past.\<close>

definition next_cycle :: "poller_cfg \<Rightarrow> repeater_cycle \<Rightarrow> time \<Rightarrow> time" where
  "next_cycle cfg cy now =
     (let next = cy_start cy + pg_repeaterInterval cfg in
      if next > now then next else now + pg_repeaterInterval cfg)"

text \<open>
  A missed cycle: whether the repeater hibernates. \<open>now\<close> is the clock before the Grid is asked; the result has
  the state, the next cycle, the job's next wake check and what is left of the world.
\<close>

definition missed_cycle ::
  "poller_cfg \<Rightarrow> mesh_world \<Rightarrow> string \<Rightarrow> time \<Rightarrow> time \<Rightarrow> time \<Rightarrow> poll_state \<Rightarrow> sched \<Rightarrow> poll_state \<times> time \<times> time \<times> sched" where
  "missed_cycle cfg w pk now next check st s =
     (let st = st\<lparr>ps_failedCycles := ps_failedCycles st + 1\<rparr> in
      if ps_hibernatingSince st \<noteq> None \<or> ps_failedCycles st \<ge> pg_hibernateAfter cfg then
        (let (alive, s) = gridAlive cfg w pk (hibernateWindow cfg) s;
             st = (case alive of
                     Inl _ \<Rightarrow> st\<lparr>ps_hibernatingSince := None\<rparr>
                   | Inr True \<Rightarrow> st\<lparr>ps_hibernatingSince := None\<rparr>
                   | Inr False \<Rightarrow> (if ps_hibernatingSince st = None then st\<lparr>ps_hibernatingSince := Some now\<rparr> else st))
         in if ps_hibernatingSince st \<noteq> None
            then (st, now + pg_hibernateInterval cfg, now + pg_repeaterInterval cfg, s)
            else (st, next, check, s))
      else (st, next, check, s))"

text \<open>What the report keeps of the repeater.\<close>

definition note_cycle :: "credential \<Rightarrow> repeater_cycle \<Rightarrow> node_outcome \<Rightarrow> repeater_check option \<Rightarrow> tnode \<Rightarrow> tnode" where
  "note_cycle c cy oc res n =
     (let n = n\<lparr>tn_name := cd_name c\<rparr>;
          n = (case (oc, res) of
                 (OutcomeOK, Some r) \<Rightarrow>
                   n\<lparr>tn_lastAttempt := cy_start cy, tn_lastSuccess := cy_start cy, tn_sample := Some (sampleFromCheck r),
                     tn_name := (if rk_name r \<noteq> [] then rk_name r else tn_name n),
                     tn_advert := (if length (rk_advert r) > 0 then rk_advert r else tn_advert n)\<rparr>
               | (OutcomeFailed, _) \<Rightarrow> n\<lparr>tn_lastAttempt := cy_start cy\<rparr>
               | _ \<Rightarrow> n)
      in n\<lparr>tn_outcome := oc\<rparr>)"

definition node_of :: "string \<Rightarrow> tpoller \<Rightarrow> tnode" where
  "node_of pk p = (case tbl_get fst pk (tp_repeaters p) of Some (_, n) \<Rightarrow> n | None \<Rightarrow> newNode pk)"

definition endCycle ::
  "poller_cfg \<Rightarrow> mesh_world \<Rightarrow> credential \<Rightarrow> repeater_cycle \<Rightarrow> repeater_check option \<Rightarrow> repeater_job \<Rightarrow> sched \<Rightarrow> repeater_job \<times> sched" where
  "endCycle cfg w c cy res j s =
     (let pk = cd_pubkey c; now = sc_clock s; next = next_cycle cfg cy now; st = jb_state j;
          (oc, st, next, check, s) =
            (case res of
               Some r \<Rightarrow>
                 (OutcomeOK,
                  st\<lparr>ps_primary := cy_via cy, ps_failedCycles := 0, ps_hibernatingSince := None,
                     ps_reading := (case mw_marshal w (sampleFromCheck r) of Inr b \<Rightarrow> b | Inl _ \<Rightarrow> ps_reading st)\<rparr>,
                  next, jb_nextAliveCheck j, s)
             | None \<Rightarrow>
                 if refused_in cy then (OutcomeFailed, st\<lparr>ps_refusedAt := Some now\<rparr>, next, jb_nextAliveCheck j, s)
                 else if cy_sent cy then (OutcomeFailed, missed_cycle cfg w pk now next (jb_nextAliveCheck j) st s)
                 else (OutcomeSkipped, st, next, jb_nextAliveCheck j, s));
          st = st\<lparr>ps_nextCycle := next\<rparr>;
          s = note_event (Saved pk now st) s;
          s = (if oc \<noteq> OutcomeSkipped \<or> not_known_in cy then note_event (Recorded pk (cy_via cy) (cy_lastErr cy)) s else s);
          p = sc_poller s
      in (j\<lparr>jb_state := st, jb_cycle := None, jb_nextAliveCheck := check\<rparr>,
          s\<lparr>sc_poller := p\<lparr>tp_repeaters := tbl_put fst (pk, note_cycle c cy oc res (node_of pk p)) (tp_repeaters p)\<rparr>\<rparr>))"

section \<open>One attempt\<close>

text \<open>The last gateway that reached it, with the contact added, when no other could be used.\<close>

definition can_fall_back :: "credential \<Rightarrow> string list \<Rightarrow> repeater_cycle \<Rightarrow> bool" where
  "can_fall_back c gateways cy \<longleftrightarrow>
     \<not> cy_sent cy \<and> \<not> cy_triedFall cy \<and> cd_lastGateway c \<noteq> [] \<and> cd_lastGateway c \<in> set gateways \<and>
     cy_tried cy < maxMeshTries"

definition fall_back :: "credential \<Rightarrow> repeater_cycle \<Rightarrow> repeater_cycle" where
  "fall_back c cy = cy\<lparr>cy_gateways := [cd_lastGateway c], cy_gi := 0, cy_retry := 0, cy_fallback := True, cy_triedFall := True\<rparr>"

definition out_of_gateways :: "repeater_cycle \<Rightarrow> bool" where
  "out_of_gateways cy \<longleftrightarrow> cy_gi cy \<ge> length (cy_gateways cy) \<or> cy_tried cy \<ge> maxMeshTries"

definition request_of :: "credential \<Rightarrow> repeater_cycle \<Rightarrow> check_request" where
  "request_of c cy =
     (let gw = cy_gateways cy ! cy_gi cy in
      \<lparr>cq_gateway = gw, cq_pubkey = cd_pubkey c, cq_password = cd_password c, cq_onlyIfKnown = \<not> cy_fallback cy,
       cq_floodFirst = (gw \<in> set (cy_unanswered cy))\<rparr>)"

definition next_gateway :: "time \<Rightarrow> repeater_cycle \<Rightarrow> repeater_cycle" where
  "next_gateway now cy = cy\<lparr>cy_gi := cy_gi cy + 1, cy_retry := 0, cy_nextAt := now\<rparr>"

text \<open>No airtime spent: the first error is kept, and the next gateway tried at once.\<close>

definition skip_gateway :: "time \<Rightarrow> mesh_error \<Rightarrow> repeater_cycle \<Rightarrow> repeater_cycle" where
  "skip_gateway now e cy = next_gateway now (cy\<lparr>cy_lastErr := (if cy_lastErr cy = None then Some e else cy_lastErr cy)\<rparr>)"

definition note_sent :: "mesh_error \<Rightarrow> repeater_cycle \<Rightarrow> repeater_cycle" where
  "note_sent e cy = cy\<lparr>cy_sent := True, cy_lastErr := Some e, cy_via := cy_gateways cy ! cy_gi cy\<rparr>"

text \<open>After an attempt that went on the air and got no reading: a retry, or the next gateway.\<close>

definition sent_without_reading :: "poller_cfg \<Rightarrow> time \<Rightarrow> mesh_error \<Rightarrow> repeater_cycle \<Rightarrow> repeater_cycle" where
  "sent_without_reading cfg now e cy =
     (let gw = cy_gateways cy ! cy_gi cy;
          cy = (if me_noReply e \<and> gw \<notin> set (cy_unanswered cy)
                then cy\<lparr>cy_unanswered := cy_unanswered cy @ [gw]\<rparr> else cy) in
      if cy_retries cy \<and> cy_retry cy < length (retry_waits cfg)
      then cy\<lparr>cy_nextAt := now + retry_waits cfg ! cy_retry cy, cy_retry := cy_retry cy + 1\<rparr>
      else next_gateway now (cy\<lparr>cy_tried := cy_tried cy + 1\<rparr>))"

text \<open>\<open>now\<close> is read before the check: the waits are counted from its start.\<close>

definition step :: "poller_cfg \<Rightarrow> mesh_world \<Rightarrow> credential \<Rightarrow> string list \<Rightarrow> repeater_cycle \<Rightarrow> repeater_job \<Rightarrow> sched \<Rightarrow> repeater_job \<times> sched" where
  "step cfg w c gateways cy j s =
     (let now = sc_clock s in
      if out_of_gateways cy then
        (if can_fall_back c gateways cy then (j\<lparr>jb_cycle := Some (fall_back c cy)\<rparr>, s)
         else endCycle cfg w c cy None j s)
      else
        (let gw = cy_gateways cy ! cy_gi cy; (res, s) = CheckRepeater w (request_of c cy) s in
         case res of
           Inr r \<Rightarrow> endCycle cfg w c (cy\<lparr>cy_via := gw, cy_lastErr := None\<rparr>) (Some r) j s
         | Inl e \<Rightarrow>
             if no_airtime e then (j\<lparr>jb_cycle := Some (skip_gateway now e cy)\<rparr>, s)
             else if me_loginFailed e then endCycle cfg w c (note_sent e cy) None j s
             else (j\<lparr>jb_cycle := Some (sent_without_reading cfg now e (note_sent e cy))\<rparr>, s)))"

text \<open>
  The loop over the attempts that are due ends: a cycle that goes on has fallen back, moved on to the next gateway or
  used one of its retries.
\<close>

definition cycle_live :: "repeater_job \<Rightarrow> nat" where
  "cycle_live j = (if jb_cycle j = None then 0 else 1)"

definition cycle_unfallen :: "repeater_job \<Rightarrow> nat" where
  "cycle_unfallen j = (case jb_cycle j of Some cy \<Rightarrow> if cy_triedFall cy then 0 else 1 | None \<Rightarrow> 0)"

definition gateways_left :: "repeater_job \<Rightarrow> nat" where
  "gateways_left j = (case jb_cycle j of Some cy \<Rightarrow> length (cy_gateways cy) - cy_gi cy | None \<Rightarrow> 0)"

definition retries_left :: "poller_cfg \<Rightarrow> repeater_job \<Rightarrow> nat" where
  "retries_left cfg j = (case jb_cycle j of Some cy \<Rightarrow> length (retry_waits cfg) - cy_retry cy | None \<Rightarrow> 0)"

lemmas cycle_ranks = cycle_live_def cycle_unfallen_def gateways_left_def retries_left_def

lemma endCycle_ends: "jb_cycle (fst (endCycle cfg w c cy res j s)) = None"
  by (simp add: endCycle_def Let_def split_def)

text \<open>The four ways an attempt goes.\<close>

lemma step_cases:
  assumes "step cfg w c gateways cy j s = (j', s')"
  obtains
    (fell) "out_of_gateways cy" "can_fall_back c gateways cy" "j' = j\<lparr>jb_cycle := Some (fall_back c cy)\<rparr>" "s' = s"
  | (gave_up) "out_of_gateways cy" "\<not> can_fall_back c gateways cy" "endCycle cfg w c cy None j s = (j', s')"
  | (read) s2 r where "\<not> out_of_gateways cy" "CheckRepeater w (request_of c cy) s = (Inr r, s2)"
      "endCycle cfg w c (cy\<lparr>cy_via := cy_gateways cy ! cy_gi cy, cy_lastErr := None\<rparr>) (Some r) j s2 = (j', s')"
  | (skipped) e where "\<not> out_of_gateways cy" "CheckRepeater w (request_of c cy) s = (Inl e, s')" "no_airtime e"
      "j' = j\<lparr>jb_cycle := Some (skip_gateway (sc_clock s) e cy)\<rparr>"
  | (refused) s2 e where "\<not> out_of_gateways cy" "CheckRepeater w (request_of c cy) s = (Inl e, s2)" "\<not> no_airtime e"
      "me_loginFailed e" "endCycle cfg w c (note_sent e cy) None j s2 = (j', s')"
  | (unread) e where "\<not> out_of_gateways cy" "CheckRepeater w (request_of c cy) s = (Inl e, s')" "\<not> no_airtime e"
      "\<not> me_loginFailed e"
      "j' = j\<lparr>jb_cycle := Some (sent_without_reading cfg (sc_clock s) e (note_sent e cy))\<rparr>"
proof (cases "out_of_gateways cy")
  case True
  then show ?thesis using assms fell gave_up by (auto simp: step_def Let_def split: if_splits)
next
  case False
  obtain res s2 where chk: "CheckRepeater w (request_of c cy) s = (res, s2)" by fastforce
  show ?thesis
  proof (cases res)
    case (Inr r)
    then show ?thesis using assms read False chk by (simp add: step_def Let_def)
  next
    case (Inl e)
    then show ?thesis
      using assms skipped refused unread False chk
      by (cases "no_airtime e"; cases "me_loginFailed e") (auto simp: step_def Let_def)
  qed
qed

lemma step_ranks:
  assumes "jb_cycle j = Some cy" and "step cfg w c gateways cy j s = (j', s')"
  shows "(j', j) \<in> measures [cycle_live, cycle_unfallen, gateways_left, retries_left cfg]"
proof -
  have ended: "(j', j) \<in> measures [cycle_live, cycle_unfallen, gateways_left, retries_left cfg]"
    if "endCycle cfg w c cy2 res j s2 = (j', s')" for cy2 res s2
    using endCycle_ends [of cfg w c cy2 res j s2] that assms(1) by (simp add: cycle_live_def)
  from assms(2) show ?thesis
  proof (cases rule: step_cases)
    case fell
    then show ?thesis using assms(1) by (simp add: cycle_ranks fall_back_def can_fall_back_def)
  next
    case (skipped e)
    then show ?thesis using assms(1)
      by (simp add: cycle_ranks skip_gateway_def next_gateway_def out_of_gateways_def) linarith
  next
    case (unread e)
    then show ?thesis using assms(1)
      by (auto simp: cycle_ranks sent_without_reading_def note_sent_def next_gateway_def out_of_gateways_def Let_def)
  qed (use ended in blast)+
qed

function run_due ::
  "poller_cfg \<Rightarrow> mesh_world \<Rightarrow> credential \<Rightarrow> string list \<Rightarrow> repeater_job \<times> sched \<Rightarrow> repeater_job \<times> sched" where
  "run_due cfg w c gateways (j, s) =
     (case jb_cycle j of
        None \<Rightarrow> (j, s)
      | Some cy \<Rightarrow>
          if sc_clock s < cy_nextAt cy \<or> mw_done w (sc_calls s) then (j, s)
          else run_due cfg w c gateways (step cfg w c gateways cy j s))"
  by pat_completeness auto
termination
proof (relation "measures [\<lambda>(_, _, _, _, j, _). cycle_live j, \<lambda>(_, _, _, _, j, _). cycle_unfallen j,
    \<lambda>(_, _, _, _, j, _). gateways_left j, \<lambda>(cfg, _, _, _, j, _). retries_left cfg j]", goal_cases)
  case (2 cfg w c gateways j s cy)
  obtain j' s' where st: "step cfg w c gateways cy j s = (j', s')" by fastforce
  show ?case using step_ranks [OF 2(1) st] st by simp
qed simp

section \<open>A tick\<close>

text \<open>After a restart: what the relay kept of the last attempt, until the next cycle.\<close>

definition restored_node :: "mesh_world \<Rightarrow> credential \<Rightarrow> time \<Rightarrow> tnode" where
  "restored_node w c attempted =
     (let n = (newNode (cd_pubkey c))\<lparr>tn_name := cd_name c, tn_lastAttempt := attempted, tn_outcome := OutcomeFailed\<rparr>;
          n = (case cd_lastOKAt c of
                 None \<Rightarrow> n
               | Some t \<Rightarrow> n\<lparr>tn_lastSuccess := t, tn_outcome := (if cd_lastError c = [] then OutcomeOK else tn_outcome n)\<rparr>)
      in if ps_reading (cd_poll c) \<noteq> [] \<and> \<not> isZero (tn_lastSuccess n)
         then (case mw_unmarshal w (ps_reading (cd_poll c)) of Inr x \<Rightarrow> n\<lparr>tn_sample := Some x\<rparr> | Inl _ \<Rightarrow> n)
         else n)"

definition restore :: "mesh_world \<Rightarrow> credential \<Rightarrow> tpoller \<Rightarrow> tpoller" where
  "restore w c p =
     (case cd_lastAttemptAt c of
        None \<Rightarrow> p
      | Some attempted \<Rightarrow>
          if tbl_get fst (cd_pubkey c) (tp_repeaters p) \<noteq> None then p
          else p\<lparr>tp_repeaters := tbl_put fst (cd_pubkey c, restored_node w c attempted) (tp_repeaters p)\<rparr>)"

definition new_job :: "poller_cfg \<Rightarrow> credential \<Rightarrow> time \<Rightarrow> repeater_job" where
  "new_job cfg c now =
     \<lparr>jb_state = (if isZero (ps_nextCycle (cd_poll c))
                  then (cd_poll c)\<lparr>ps_nextCycle := now + offset cfg (cd_pubkey c)\<rparr> else cd_poll c),
      jb_cycle = None, jb_nextAliveCheck = zeroTime\<rparr>"

definition job_for :: "poller_cfg \<Rightarrow> mesh_world \<Rightarrow> credential \<Rightarrow> sched \<Rightarrow> repeater_job \<times> sched" where
  "job_for cfg w c s =
     (case tbl_get fst (cd_pubkey c) (sc_jobs s) of
        Some (_, j) \<Rightarrow> (j, s)
      | None \<Rightarrow> (new_job cfg c (sc_clock s), s\<lparr>sc_poller := restore w c (sc_poller s)\<rparr>))"

text \<open>A refused password waits for the share to be updated.\<close>

definition waits_for_share :: "credential \<Rightarrow> repeater_job \<Rightarrow> bool" where
  "waits_for_share c j \<longleftrightarrow> (case ps_refusedAt (jb_state j) of Some r \<Rightarrow> \<not> cd_updatedAt c > r | None \<Rightarrow> False)"

definition share_updated :: "time \<Rightarrow> repeater_job \<Rightarrow> repeater_job" where
  "share_updated now j =
     (if ps_refusedAt (jb_state j) = None then j
      else j\<lparr>jb_state := (jb_state j)\<lparr>ps_refusedAt := None, ps_failedCycles := 0, ps_nextCycle := now\<rparr>\<rparr>)"

definition wake_check_due :: "time \<Rightarrow> repeater_job \<Rightarrow> bool" where
  "wake_check_due now j \<longleftrightarrow>
     jb_cycle j = None \<and> ps_hibernatingSince (jb_state j) \<noteq> None \<and> \<not> now < jb_nextAliveCheck j \<and>
     now < ps_nextCycle (jb_state j)"

definition wake_check :: "poller_cfg \<Rightarrow> mesh_world \<Rightarrow> credential \<Rightarrow> time \<Rightarrow> repeater_job \<Rightarrow> sched \<Rightarrow> repeater_job \<times> sched" where
  "wake_check cfg w c now j s =
     (if wake_check_due now j then
        (let j = j\<lparr>jb_nextAliveCheck := now + pg_repeaterInterval cfg\<rparr>;
             (alive, s) = gridAlive cfg w (cd_pubkey c) (hibernateWindow cfg) s
         in (if alive = Inr True
             then j\<lparr>jb_state := (jb_state j)\<lparr>ps_hibernatingSince := None, ps_nextCycle := now\<rparr>\<rparr> else j, s))
      else (j, s))"

definition new_cycle :: "credential \<Rightarrow> string list \<Rightarrow> time \<Rightarrow> poll_state \<Rightarrow> repeater_cycle" where
  "new_cycle c gateways now st =
     \<lparr>cy_start = now, cy_gateways = candidates c gateways, cy_gi = 0, cy_retry = 0,
      cy_retries = (ps_failedCycles st = 0 \<and> ps_hibernatingSince st = None), cy_fallback = False, cy_triedFall = False,
      cy_nextAt = now, cy_tried = 0, cy_sent = False, cy_unanswered = [], cy_lastErr = None, cy_via = []\<rparr>"

definition begin_cycle :: "credential \<Rightarrow> string list \<Rightarrow> time \<Rightarrow> repeater_job \<Rightarrow> sched \<Rightarrow> repeater_job \<times> sched" where
  "begin_cycle c gateways now j s =
     (if jb_cycle j \<noteq> None \<or> now < ps_nextCycle (jb_state j) then (j, s)
      else (let cy = new_cycle c gateways now (jb_state j) in
            (j\<lparr>jb_cycle := Some cy\<rparr>, note_event (Began (cd_pubkey c) (cy_retries cy) now) s)))"

definition keep_job :: "string \<Rightarrow> repeater_job \<times> sched \<Rightarrow> sched" where
  "keep_job pk r = (snd r)\<lparr>sc_jobs := tbl_put fst (pk, fst r) (sc_jobs (snd r))\<rparr>"

text \<open>Between cycles and before the next is due, \<open>begin_cycle\<close> leaves the job alone and \<open>run_due\<close> has nothing to do.\<close>

definition tickRepeater :: "poller_cfg \<Rightarrow> mesh_world \<Rightarrow> string list \<Rightarrow> credential \<Rightarrow> sched \<Rightarrow> sched" where
  "tickRepeater cfg w gateways c s =
     (let now = sc_clock s; (j, s) = job_for cfg w c s in
      keep_job (cd_pubkey c)
        (if waits_for_share c j then (j, s)
         else (let (j, s) = wake_check cfg w c now (share_updated now j) s;
                   (j, s) = begin_cycle c gateways now j s
               in run_due cfg w c gateways (j, s))))"

text \<open>One pass over the shared repeaters; the flag says whether the context lasted.\<close>

fun tick_all :: "poller_cfg \<Rightarrow> mesh_world \<Rightarrow> string list \<Rightarrow> credential list \<Rightarrow> sched \<Rightarrow> bool \<times> sched" where
  "tick_all cfg w gateways [] s = (True, s)"
| "tick_all cfg w gateways (c # cs) s =
     (if mw_done w (sc_calls s) then (False, s)
      else tick_all cfg w gateways cs (tickRepeater cfg w gateways c s))"

text \<open>A repeater no longer shared leaves the schedule and the report.\<close>

definition unshare :: "string list \<Rightarrow> sched \<Rightarrow> sched" where
  "unshare current s =
     s\<lparr>sc_poller := (sc_poller s)\<lparr>tp_repeaters := filter (\<lambda>e. fst e \<in> set current) (tp_repeaters (sc_poller s))\<rparr>,
       sc_jobs := filter (\<lambda>e. fst e \<in> set current) (sc_jobs s)\<rparr>"

text \<open>\<open>reps\<close> is off when the relay has no shared repeaters; \<open>creds\<close> and \<open>recs\<close> are the two listings.\<close>

definition RepeaterTick ::
  "poller_cfg \<Rightarrow> mesh_world \<Rightarrow> bool \<Rightarrow> credential list result \<Rightarrow> string list result \<Rightarrow> sched \<Rightarrow> sched" where
  "RepeaterTick cfg w reps creds recs s =
     (if \<not> reps then s
      else case (creds, recs) of
        (Inr cs, Inr gateways) \<Rightarrow>
          (case tick_all cfg w gateways cs s of (go_on, s) \<Rightarrow> if go_on then unshare (map cd_pubkey cs) s else s)
      | _ \<Rightarrow> s)"

text \<open>A poller's life: ticks at later and later times, each with the listings of its time.\<close>

record tick_in =
  ti_wait :: nat
  ti_creds :: "credential list result"
  ti_gateways :: "string list result"

definition newSched :: "time \<Rightarrow> sched" where
  "newSched now = \<lparr>sc_poller = \<lparr>tp_nodes = [], tp_repeaters = []\<rparr>, sc_jobs = [], sc_clock = now, sc_calls = 0, sc_history = []\<rparr>"

definition tick_once :: "poller_cfg \<Rightarrow> mesh_world \<Rightarrow> tick_in \<Rightarrow> sched \<Rightarrow> sched" where
  "tick_once cfg w t s =
     RepeaterTick cfg w True (ti_creds t) (ti_gateways t) (s\<lparr>sc_clock := sc_clock s + int (ti_wait t)\<rparr>)"

definition run_ticks :: "poller_cfg \<Rightarrow> mesh_world \<Rightarrow> tick_in list \<Rightarrow> sched \<Rightarrow> sched" where
  "run_ticks cfg w ts s = fold (tick_once cfg w) ts s"

end
