(* ===== verification/RepeaterProps.thy ===== *)
theory RepeaterProps
  imports RepeaterSchedule
begin

text \<open>
  What the schedule of shared repeaters guarantees over any run of its ticks: what a cycle costs in airtime, that a refused
  password rests until the share is updated, and that a cycle ends; and what a poll of a gateway's node can report.
\<close>

section \<open>Reading the history\<close>

definition on_air :: "mesh_error + repeater_check \<Rightarrow> bool" where
  "on_air res = (case res of Inr _ \<Rightarrow> True | Inl e \<Rightarrow> \<not> no_airtime e)"

fun event_pk :: "sched_event \<Rightarrow> string" where
  "event_pk (Began pk _ _) = pk"
| "event_pk (Checked _ rq _) = cq_pubkey rq"
| "event_pk (Saved pk _ _) = pk"
| "event_pk (Recorded pk _ _) = pk"

text \<open>The transmissions for a repeater in its latest cycle, through the gateways of \<open>P\<close>.\<close>

fun airtime_step :: "(string \<Rightarrow> bool) \<Rightarrow> string \<Rightarrow> sched_event \<Rightarrow> nat \<Rightarrow> nat" where
  "airtime_step P pk (Began p _ _) n = (if p = pk then 0 else n)"
| "airtime_step P pk (Checked _ rq res) n = (if cq_pubkey rq = pk \<and> P (cq_gateway rq) \<and> on_air res then n + 1 else n)"
| "airtime_step P pk _ n = n"

definition airtime :: "(string \<Rightarrow> bool) \<Rightarrow> string \<Rightarrow> sched_event list \<Rightarrow> nat" where
  "airtime P pk h = fold (airtime_step P pk) h 0"

fun began_step :: "string \<Rightarrow> sched_event \<Rightarrow> bool option \<Rightarrow> bool option" where
  "began_step pk (Began p r _) b = (if p = pk then Some r else b)"
| "began_step pk _ b = b"

text \<open>Whether the latest cycle of a repeater was allowed retries.\<close>

definition last_began :: "string \<Rightarrow> sched_event list \<Rightarrow> bool option" where
  "last_began pk h = fold (began_step pk) h None"

lemma airtime_snoc [simp]: "airtime P pk (h @ [e]) = airtime_step P pk e (airtime P pk h)"
  by (simp add: airtime_def)

lemma last_began_snoc [simp]: "last_began pk (h @ [e]) = began_step pk e (last_began pk h)"
  by (simp add: last_began_def)

lemma airtime_other [simp]: "event_pk e \<noteq> pk \<Longrightarrow> airtime_step P pk e n = n"
  by (cases e) auto

lemma began_other [simp]: "event_pk e \<noteq> pk \<Longrightarrow> began_step pk e b = b"
  by (cases e) auto

lemma view_other:
  assumes "\<forall>e \<in> set es. event_pk e \<noteq> pk"
  shows "airtime P pk (h @ es) = airtime P pk h" and "last_began pk (h @ es) = last_began pk h"
  using assms by (induction es rule: rev_induct) (simp_all flip: append_assoc)

text \<open>\<open>always P h\<close>: at every moment of the history so far.\<close>

definition always :: "('e list \<Rightarrow> bool) \<Rightarrow> 'e list \<Rightarrow> bool" where
  "always P h \<longleftrightarrow> (\<forall>k. P (take k h))"

lemma always_now: "always P h \<Longrightarrow> P h"
  unfolding always_def by (metis order_refl take_all)

lemma always_snoc: "always P (h @ [e]) \<longleftrightarrow> always P h \<and> P (h @ [e])"
proof
  assume a: "always P (h @ [e])"
  have "P (take k h)" for k
    using a unfolding always_def
    by (metis append_Nil2 butlast_snoc le_less_linear length_append_singleton less_Suc_eq_le nat_le_linear take_all take_append diff_is_0_eq take_0)
  then show "always P h \<and> P (h @ [e])" using always_now [OF a] by (simp add: always_def)
next
  assume "always P h \<and> P (h @ [e])"
  then show "always P (h @ [e])"
    unfolding always_def by (metis le_less_linear length_append_singleton less_Suc_eq_le take_all take_append append_Nil2 diff_is_0_eq take_0)
qed

section \<open>What one repeater's tick can touch\<close>

definition touches :: "string \<Rightarrow> sched \<Rightarrow> sched \<Rightarrow> bool" where
  "touches pk s s' \<longleftrightarrow> sc_jobs s' = sc_jobs s \<and> sc_clock s \<le> sc_clock s' \<and>
     (\<exists>es. sc_history s' = sc_history s @ es \<and> (\<forall>e \<in> set es. event_pk e = pk))"

lemma touches_refl [simp]: "touches pk s s"
  by (auto simp: touches_def)

lemma touches_trans: "touches pk s t \<Longrightarrow> touches pk t u \<Longrightarrow> touches pk s u"
  by (auto simp: touches_def)

lemma touches_note [simp]: "event_pk e = pk \<Longrightarrow> touches pk s (note_event e s)"
  by (auto simp: touches_def note_event_def)

lemma note_event_simps [simp]:
  "sc_history (note_event e s) = sc_history s @ [e]" "sc_clock (note_event e s) = sc_clock s"
  "sc_jobs (note_event e s) = sc_jobs s" "sc_poller (note_event e s) = sc_poller s" "sc_calls (note_event e s) = sc_calls s"
  by (simp_all add: note_event_def)

lemma check_history:
  assumes "CheckRepeater w rq s = (res, s')"
  shows "sc_history s' = sc_history s @ [Checked (sc_clock s) rq res]" and "touches (cq_pubkey rq) s s'"
  using assms by (auto simp: CheckRepeater_def Let_def split_def touches_def)

lemma grid_history:
  assumes "gridAlive cfg w pk d s = (r, s')"
  shows "sc_history s' = sc_history s" and "touches pk2 s s'"
  using assms by (auto simp: gridAlive_def Let_def split_def touches_def)

lemma request_fields [simp]:
  "cq_pubkey (request_of c cy) = cd_pubkey c" "cq_gateway (request_of c cy) = cy_gateways cy ! cy_gi cy"
  by (simp_all add: request_of_def Let_def)

declare run_due.simps [simp del]

lemma missed_history:
  assumes "missed_cycle cfg w pk now nx0 chk0 st s = (st', nx', chk', s')"
  shows "sc_history s' = sc_history s" and "touches pk2 s s'"
  using assms grid_history
  by (auto simp: missed_cycle_def Let_def split_def split: if_splits prod.splits)
    (metis prod.collapse)+

text \<open>Saving and recording a poll are quiet: they neither begin a cycle nor check.\<close>

fun quiet :: "sched_event \<Rightarrow> bool" where
  "quiet (Saved _ _ _) = True"
| "quiet (Recorded _ _ _) = True"
| "quiet _ = False"

lemma quiet_view [simp]:
  "quiet e \<Longrightarrow> airtime_step P pk e n = n" "quiet e \<Longrightarrow> began_step pk e b = b"
  by (cases e; simp)+

definition adds_quiet :: "string \<Rightarrow> sched \<Rightarrow> sched \<Rightarrow> bool" where
  "adds_quiet pk s s' \<longleftrightarrow> sc_jobs s' = sc_jobs s \<and> sc_clock s \<le> sc_clock s' \<and>
     (\<exists>es. sc_history s' = sc_history s @ es \<and> (\<forall>e \<in> set es. event_pk e = pk \<and> quiet e))"

lemma quiet_touches: "adds_quiet pk s s' \<Longrightarrow> touches pk s s'"
  by (auto simp: adds_quiet_def touches_def)

lemma adds_quiet_grid: "gridAlive cfg w pk d s = (r, s') \<Longrightarrow> adds_quiet pk2 s s'"
  by (auto simp: gridAlive_def Let_def split_def adds_quiet_def)

lemma adds_quiet_missed:
  assumes "missed_cycle cfg w pk now nx0 chk0 st s = (st', nx', chk', s')"
  shows "adds_quiet pk2 s s'"
  using missed_history [OF assms] by (auto simp: touches_def adds_quiet_def)

text \<open>How a cycle ends: the job's new state and next wake check, the outcome, and what is left of the world.\<close>

definition ended_state ::
  "poller_cfg \<Rightarrow> mesh_world \<Rightarrow> credential \<Rightarrow> repeater_cycle \<Rightarrow> repeater_check option \<Rightarrow> repeater_job \<Rightarrow> sched \<Rightarrow>
     node_outcome \<times> poll_state \<times> time \<times> time \<times> sched" where
  "ended_state cfg w c cy res j s =
     (let now = sc_clock s; next = next_cycle cfg cy now; st = jb_state j in
      case res of
        Some r \<Rightarrow>
          (OutcomeOK,
           st\<lparr>ps_primary := cy_via cy, ps_failedCycles := 0, ps_hibernatingSince := None,
              ps_reading := (case mw_marshal w (sampleFromCheck r) of Inr b \<Rightarrow> b | Inl _ \<Rightarrow> ps_reading st)\<rparr>,
           next, jb_nextAliveCheck j, s)
      | None \<Rightarrow>
          if refused_in cy then (OutcomeFailed, st\<lparr>ps_refusedAt := Some now\<rparr>, next, jb_nextAliveCheck j, s)
          else if cy_sent cy then (OutcomeFailed, missed_cycle cfg w (cd_pubkey c) now next (jb_nextAliveCheck j) st s)
          else (OutcomeSkipped, st, next, jb_nextAliveCheck j, s))"

lemma endCycle_state:
  assumes "ended_state cfg w c cy res j s = (oc, st, nx, chk, s2)" and "endCycle cfg w c cy res j s = (j', s')"
  shows "j' = j\<lparr>jb_state := st\<lparr>ps_nextCycle := nx\<rparr>, jb_cycle := None, jb_nextAliveCheck := chk\<rparr>"
    and "sc_history s' = sc_history s2 @ Saved (cd_pubkey c) (sc_clock s) (st\<lparr>ps_nextCycle := nx\<rparr>) #
      (if oc \<noteq> OutcomeSkipped \<or> not_known_in cy then [Recorded (cd_pubkey c) (cy_via cy) (cy_lastErr cy)] else [])"
    and "sc_jobs s' = sc_jobs s2" and "sc_clock s' = sc_clock s2"
  using assms by (auto simp: endCycle_def ended_state_def Let_def split: if_splits)

lemma ended_quiet:
  assumes "ended_state cfg w c cy res j s = (oc, st, nx, chk, s2)"
  shows "adds_quiet pk s s2"
proof -
  have same: "adds_quiet pk s s" by (auto simp: adds_quiet_def)
  show ?thesis
    using assms same adds_quiet_missed by (auto simp: ended_state_def Let_def split: option.splits if_splits)
qed

lemma endCycle_quiet:
  assumes "endCycle cfg w c cy res j s = (j', s')"
  shows "adds_quiet (cd_pubkey c) s s'" and "jb_cycle j' = None"
proof -
  obtain oc st nx chk s2 where e: "ended_state cfg w c cy res j s = (oc, st, nx, chk, s2)"
    by (metis prod_cases5)
  note e_state = endCycle_state [OF e assms]
  show "jb_cycle j' = None" by (simp add: e_state)
  show "adds_quiet (cd_pubkey c) s s'"
    using ended_quiet [OF e, of "cd_pubkey c"] e_state(2-4) by (auto simp: adds_quiet_def)
qed

lemma step_touches:
  assumes "step cfg w c gateways cy j s = (j', s')"
  shows "touches (cd_pubkey c) s s'"
  using assms
proof (cases rule: step_cases)
  case (read s2 r)
  then show ?thesis
    using check_history(2) [OF read(2)] quiet_touches [OF endCycle_quiet(1) [OF read(3)]] by (auto intro: touches_trans)
next
  case (refused s2 e)
  then show ?thesis
    using check_history(2) [OF refused(2)] quiet_touches [OF endCycle_quiet(1) [OF refused(5)]] by (auto intro: touches_trans)
next
  case gave_up
  then show ?thesis using quiet_touches [OF endCycle_quiet(1) [OF gave_up(3)]] by simp
next
  case (skipped e)
  then show ?thesis using check_history(2) [OF skipped(2)] by simp
next
  case (unread e)
  then show ?thesis using check_history(2) [OF unread(2)] by simp
qed simp

text \<open>An invariant of the job and the world that every attempt keeps holds when the loop is over.\<close>

lemma run_due_invariant:
  assumes "run_due cfg w c gateways (j, s) = (j', s')" and "I j s"
    and "\<And>j s cy j' s'. I j s \<Longrightarrow> jb_cycle j = Some cy \<Longrightarrow> step cfg w c gateways cy j s = (j', s') \<Longrightarrow> I j' s'"
  shows "I j' s'"
  using assms
proof (induction cfg w c gateways "(j, s)" arbitrary: j s rule: run_due.induct)
  case (1 cfg w c gateways j s)
  show ?case
  proof (cases "jb_cycle j")
    case None
    then show ?thesis using 1(2,3) run_due.simps [of cfg w c gateways j s] by simp
  next
    case (Some cy)
    show ?thesis
    proof (cases "sc_clock s < cy_nextAt cy \<or> mw_done w (sc_calls s)")
      case True
      then show ?thesis using 1(2,3) Some run_due.simps [of cfg w c gateways j s] by simp
    next
      case False
      obtain j2 s2 where st: "step cfg w c gateways cy j s = (j2, s2)" by fastforce
      have "run_due cfg w c gateways (j2, s2) = (j', s')"
        using 1(2) Some False st run_due.simps [of cfg w c gateways j s] by simp
      then show ?thesis using 1(1) [OF Some False st] 1(4) 1(4) [OF 1(3) Some st] by blast
    qed
  qed
qed

lemma run_due_touches:
  assumes "run_due cfg w c gateways (j, s) = (j', s')"
  shows "touches (cd_pubkey c) s s'"
  by (rule run_due_invariant [OF assms, of "\<lambda>_ t. touches (cd_pubkey c) s t"])
    (auto intro: touches_trans step_touches)

section \<open>What a cycle costs\<close>

text \<open>The transmissions one gateway may make in a cycle.\<close>

definition per_gateway :: "poller_cfg \<Rightarrow> bool \<Rightarrow> nat" where
  "per_gateway cfg retries = (if retries then length (retry_waits cfg) + 1 else 1)"

abbreviation via_gw :: "string \<Rightarrow> string \<Rightarrow> bool" where
  "via_gw gw \<equiv> (\<lambda>g. g = gw)"

abbreviation anyone :: "string \<Rightarrow> bool" where
  "anyone \<equiv> (\<lambda>_. True)"

definition frugal :: "poller_cfg \<Rightarrow> string \<Rightarrow> sched_event list \<Rightarrow> bool" where
  "frugal cfg pk h \<longleftrightarrow>
     (case last_began pk h of
        None \<Rightarrow> airtime anyone pk h = 0
      | Some retries \<Rightarrow>
          (\<forall>gw. airtime (via_gw gw) pk h \<le> per_gateway cfg retries) \<and>
          (\<not> retries \<longrightarrow> airtime anyone pk h \<le> maxMeshTries))"

text \<open>A cycle in progress: what each of its gateways may have sent so far.\<close>

definition allowed :: "poller_cfg \<Rightarrow> repeater_cycle \<Rightarrow> string \<Rightarrow> nat" where
  "allowed cfg cy gw =
     (if gw \<in> set (take (cy_gi cy) (cy_gateways cy)) then per_gateway cfg (cy_retries cy)
      else if cy_gi cy < length (cy_gateways cy) \<and> cy_gateways cy ! cy_gi cy = gw then cy_retry cy else 0)"

definition cycle_ok :: "poller_cfg \<Rightarrow> string \<Rightarrow> repeater_cycle \<Rightarrow> sched_event list \<Rightarrow> bool" where
  "cycle_ok cfg pk cy h \<longleftrightarrow> last_began pk h = Some (cy_retries cy) \<and> distinct (cy_gateways cy) \<and>
     cy_retry cy < per_gateway cfg (cy_retries cy) \<and> (\<forall>gw. airtime (via_gw gw) pk h \<le> allowed cfg cy gw) \<and>
     (\<not> cy_sent cy \<longrightarrow> (\<forall>gw. airtime (via_gw gw) pk h = 0)) \<and>
     (\<not> cy_retries cy \<longrightarrow> airtime anyone pk h \<le> cy_tried cy \<and> cy_tried cy \<le> maxMeshTries)"

lemma allowed_le: "cy_retry cy < per_gateway cfg (cy_retries cy) \<Longrightarrow> allowed cfg cy gw \<le> per_gateway cfg (cy_retries cy)"
  by (simp add: allowed_def)

lemma cycle_frugal: "cycle_ok cfg pk cy h \<Longrightarrow> frugal cfg pk h"
  unfolding cycle_ok_def frugal_def by (auto intro: order_trans allowed_le)

lemma frugal_quiet:
  assumes "adds_quiet pk s s'" and "always (frugal cfg pk) (sc_history s)"
  shows "always (frugal cfg pk) (sc_history s')"
proof -
  obtain es where es: "sc_history s' = sc_history s @ es" "\<forall>e \<in> set es. event_pk e = pk \<and> quiet e"
    using assms(1) by (auto simp: adds_quiet_def)
  have "always (frugal cfg pk) (sc_history s @ es)" using es(2)
  proof (induction es rule: rev_induct)
    case Nil
    then show ?case using assms(2) by simp
  next
    case (snoc e es)
    then have a: "always (frugal cfg pk) (sc_history s @ es)" and q: "quiet e" by simp_all
    have "frugal cfg pk ((sc_history s @ es) @ [e])"
      using always_now [OF a] q unfolding frugal_def airtime_snoc last_began_snoc by (simp split: option.splits)
    with a show ?case using always_snoc [of "frugal cfg pk" "sc_history s @ es" e] by simp
  qed
  with es(1) show ?thesis by simp
qed

text \<open>After an attempt, before the cycle is updated: one more transmission by the gateway tried, if it went on the air.\<close>

lemma attempt_costs:
  assumes "cycle_ok cfg pk cy h" and "\<not> out_of_gateways cy" and "cq_pubkey rq = pk"
    and "cq_gateway rq = cy_gateways cy ! cy_gi cy" and "on_air res" and "h' = h @ [Checked t rq res]"
  shows "airtime (via_gw gw) pk h' \<le> allowed cfg (cy\<lparr>cy_retry := cy_retry cy + 1\<rparr>) gw"
    and "\<not> cy_retries cy \<Longrightarrow> airtime anyone pk h' \<le> cy_tried cy + 1"
    and "last_began pk h' = Some (cy_retries cy)" and "frugal cfg pk h'"
proof -
  have gi: "cy_gi cy < length (cy_gateways cy)" and tr: "cy_tried cy < maxMeshTries"
    using assms(2) by (auto simp: out_of_gateways_def)
  have notin: "cy_gateways cy ! cy_gi cy \<notin> set (take (cy_gi cy) (cy_gateways cy))"
    using assms(1) gi unfolding cycle_ok_def by (auto simp: in_set_conv_nth nth_eq_iff_index_eq)
  have le: "airtime (via_gw g) pk h \<le> allowed cfg cy g" for g using assms(1) by (simp add: cycle_ok_def)
  show each: "airtime (via_gw gw) pk h' \<le> allowed cfg (cy\<lparr>cy_retry := cy_retry cy + 1\<rparr>) gw" for gw
    using le [of gw] gi notin assms(3-6) by (auto simp: allowed_def)
  show total: "airtime anyone pk h' \<le> cy_tried cy + 1" if "\<not> cy_retries cy"
    using assms(1,3,5,6) that by (simp add: cycle_ok_def)
  show began: "last_began pk h' = Some (cy_retries cy)"
    using assms(1,6) by (simp add: cycle_ok_def)
  have "allowed cfg (cy\<lparr>cy_retry := cy_retry cy + 1\<rparr>) g \<le> per_gateway cfg (cy_retries cy)" for g
    using assms(1) by (simp add: cycle_ok_def allowed_def)
  then show "frugal cfg pk h'"
    using each total began tr unfolding frugal_def by (auto intro: order_trans)
qed

definition pair_ok :: "poller_cfg \<Rightarrow> string \<Rightarrow> repeater_job \<Rightarrow> sched \<Rightarrow> bool" where
  "pair_ok cfg pk j s \<longleftrightarrow> always (frugal cfg pk) (sc_history s) \<and>
     (\<forall>cy. jb_cycle j = Some cy \<longrightarrow> cycle_ok cfg pk cy (sc_history s))"

lemma cycle_skipped:
  assumes "cycle_ok cfg pk cy h" and "\<not> out_of_gateways cy"
  shows "cycle_ok cfg pk (skip_gateway now e cy) h"
proof -
  have "cy_gi cy < length (cy_gateways cy)" using assms(2) by (simp add: out_of_gateways_def)
  then have "allowed cfg cy gw \<le> allowed cfg (skip_gateway now e cy) gw" for gw
    using assms(1) by (auto simp: cycle_ok_def allowed_def skip_gateway_def next_gateway_def take_Suc_conv_app_nth)
  then have "airtime (via_gw gw) pk h \<le> allowed cfg (skip_gateway now e cy) gw" for gw
    using assms(1) le_trans unfolding cycle_ok_def by blast
  then show ?thesis
    using assms(1) by (simp add: cycle_ok_def skip_gateway_def next_gateway_def per_gateway_def)
qed

lemma cycle_unread:
  assumes ok: "cycle_ok cfg pk cy h" and go: "\<not> out_of_gateways cy" and h': "h' = h @ [Checked t rq (Inl e)]"
    and rq: "cq_pubkey rq = pk" "cq_gateway rq = cy_gateways cy ! cy_gi cy" and e: "\<not> no_airtime e"
  shows "cycle_ok cfg pk (sent_without_reading cfg now e (note_sent e cy)) h'"
proof -
  let ?cy = "sent_without_reading cfg now e (note_sent e cy)"
  have gi: "cy_gi cy < length (cy_gateways cy)" and tr: "cy_tried cy < maxMeshTries"
    using go by (auto simp: out_of_gateways_def)
  have air: "on_air (Inl e)" using e by (simp add: on_air_def)
  note costs = attempt_costs [OF ok go rq air h']
  have fields: "cy_retries ?cy = cy_retries cy" "cy_gateways ?cy = cy_gateways cy" "cy_sent ?cy"
    by (simp_all add: sent_without_reading_def note_sent_def next_gateway_def Let_def)
  have retry: "cy_retry ?cy < per_gateway cfg (cy_retries cy)"
    using ok by (auto simp: cycle_ok_def sent_without_reading_def note_sent_def next_gateway_def Let_def per_gateway_def)
  have grown: "allowed cfg (cy\<lparr>cy_retry := cy_retry cy + 1\<rparr>) gw \<le> allowed cfg ?cy gw" for gw
    using ok gi
    by (auto simp: cycle_ok_def allowed_def sent_without_reading_def note_sent_def next_gateway_def Let_def take_Suc_conv_app_nth)
  have tried: "\<not> cy_retries cy \<Longrightarrow> cy_tried ?cy = cy_tried cy + 1"
    by (simp add: sent_without_reading_def note_sent_def next_gateway_def Let_def)
  have le: "airtime (via_gw gw) pk h' \<le> allowed cfg ?cy gw" for gw
    using costs(1) grown le_trans by blast
  have dist: "distinct (cy_gateways cy)" using ok by (simp add: cycle_ok_def)
  show ?thesis
    unfolding cycle_ok_def fields using costs(2,3) retry dist le tried tr fields(3) by simp
qed

lemma cycle_fell:
  assumes "cycle_ok cfg pk cy h" and "can_fall_back c gateways cy"
  shows "cycle_ok cfg pk (fall_back c cy) h"
  using assms by (auto simp: cycle_ok_def can_fall_back_def fall_back_def per_gateway_def)

lemma step_pair:
  assumes ok: "pair_ok cfg (cd_pubkey c) j s" and cy: "jb_cycle j = Some cy" and st: "step cfg w c gateways cy j s = (j', s')"
  shows "pair_ok cfg (cd_pubkey c) j' s'"
proof -
  have cok: "cycle_ok cfg (cd_pubkey c) cy (sc_history s)" and fr: "always (frugal cfg (cd_pubkey c)) (sc_history s)"
    using ok cy by (simp_all add: pair_ok_def)
  have sent: "always (frugal cfg (cd_pubkey c)) (sc_history t)"
    if "\<not> out_of_gateways cy" "CheckRepeater w (request_of c cy) s = (res, t)" for res t
  proof -
    have "frugal cfg (cd_pubkey c) (sc_history s @ [Checked (sc_clock s) (request_of c cy) res])"
    proof (cases "on_air res")
      case True
      then show ?thesis using attempt_costs(4) [OF cok that(1) _ _ True refl] by simp
    next
      case False
      then show ?thesis using always_now [OF fr] by (simp add: frugal_def split: option.splits)
    qed
    with fr check_history(1) [OF that(2)] show ?thesis by (simp add: always_snoc)
  qed
  have ended: "pair_ok cfg (cd_pubkey c) j' s'"
    if "endCycle cfg w c cy2 res j t = (j', s')" "always (frugal cfg (cd_pubkey c)) (sc_history t)" for cy2 res t
    using frugal_quiet [OF endCycle_quiet(1) [OF that(1)] that(2)] endCycle_quiet(2) [OF that(1)] by (simp add: pair_ok_def)
  from st show ?thesis
  proof (cases rule: step_cases)
    case fell
    then show ?thesis using fr cycle_fell [OF cok fell(2)] by (simp add: pair_ok_def)
  next
    case gave_up
    then show ?thesis using ended fr by blast
  next
    case (read s2 r)
    then show ?thesis using ended sent by blast
  next
    case (refused s2 e)
    then show ?thesis using ended sent by blast
  next
    case (skipped e)
    have "cycle_ok cfg (cd_pubkey c) cy (sc_history s')"
      using cok check_history(1) [OF skipped(2)] skipped(3) by (simp add: cycle_ok_def on_air_def)
    then show ?thesis using sent [OF skipped(1,2)] cycle_skipped skipped(1,4) by (simp add: pair_ok_def)
  next
    case (unread e)
    then show ?thesis
      using sent [OF unread(1,2)] cycle_unread [OF cok unread(1) check_history(1) [OF unread(2)] _ _ unread(3)]
      by (simp add: pair_ok_def)
  qed
qed

text \<open>The candidates are the gateways, each once, with the ones that know the repeater first.\<close>

lemma add_candidate_ok:
  "distinct out \<Longrightarrow> set out \<subseteq> set gws \<Longrightarrow> distinct (add_candidate gws g out) \<and> set (add_candidate gws g out) \<subseteq> set gws"
  by (auto simp: add_candidate_def)

lemma add_rest_all: "distinct out \<Longrightarrow> distinct (fold add_rest gws out) \<and> set (fold add_rest gws out) = set out \<union> set gws"
  by (induction gws arbitrary: out) (auto simp: add_rest_def)

lemma candidates_ok: "distinct (candidates c gws)" "set (candidates c gws) = set gws"
proof -
  let ?first = "fold (add_candidate gws) [ps_primary (cd_poll c), cd_lastGateway c, cd_addedByGateway c] []"
  have "distinct ?first \<and> set ?first \<subseteq> set gws"
    by (simp add: add_candidate_ok)
  then show "distinct (candidates c gws)" "set (candidates c gws) = set gws"
    using add_rest_all [of ?first gws] by (auto simp: candidates_def)
qed

lemma wake_history:
  assumes "wake_check cfg w c now j s = (j', s')"
  shows "sc_history s' = sc_history s" "jb_cycle j' = jb_cycle j" "touches pk s s'"
  using assms grid_history by (auto simp: wake_check_def Let_def split_def split: if_splits) (metis prod.collapse)+

lemma share_cycle [simp]: "jb_cycle (share_updated now j) = jb_cycle j"
  by (simp add: share_updated_def)

lemma begin_touches:
  assumes "begin_cycle c gateways now j s = (j', s')"
  shows "touches (cd_pubkey c) s s'"
  using assms by (auto simp: begin_cycle_def Let_def split: if_splits)

lemma begin_pair:
  assumes "pair_ok cfg (cd_pubkey c) j s" and "begin_cycle c gateways now j s = (j', s')"
  shows "pair_ok cfg (cd_pubkey c) j' s'"
proof (cases "jb_cycle j \<noteq> None \<or> now < ps_nextCycle (jb_state j)")
  case False
  let ?cy = "new_cycle c gateways now (jb_state j)"
  have j': "jb_cycle j' = Some ?cy" and h: "sc_history s' = sc_history s @ [Began (cd_pubkey c) (cy_retries ?cy) now]"
    using False assms(2) by (auto simp: begin_cycle_def Let_def)
  have "cycle_ok cfg (cd_pubkey c) ?cy (sc_history s')"
    using candidates_ok(1) [of c gateways] by (simp add: cycle_ok_def h new_cycle_def per_gateway_def)
  then show ?thesis
    using assms(1) cycle_frugal j' h by (simp add: pair_ok_def always_snoc)
qed (use assms in \<open>auto simp: begin_cycle_def split: if_splits\<close>)

lemma job_for_same:
  assumes "job_for cfg w c s = (j, s')"
  shows "sc_history s' = sc_history s" "sc_jobs s' = sc_jobs s" "sc_clock s' = sc_clock s" "touches pk s s'"
    and "tbl_get fst (cd_pubkey c) (sc_jobs s) = Some (cd_pubkey c, j) \<or>
      tbl_get fst (cd_pubkey c) (sc_jobs s) = None \<and> j = new_job cfg c (sc_clock s)"
  using assms by (auto simp: job_for_def touches_def split: option.splits dest: tbl_get_Some)

text \<open>A repeater's tick, taken apart.\<close>

lemma tick_cases:
  assumes "tickRepeater cfg w gateways c s = s'"
  obtains j s1 where "job_for cfg w c s = (j, s1)" "waits_for_share c j" "s' = keep_job (cd_pubkey c) (j, s1)"
  | j s1 j2 s2 j3 s3 j4 s4 where "job_for cfg w c s = (j, s1)" "\<not> waits_for_share c j"
      "wake_check cfg w c (sc_clock s) (share_updated (sc_clock s) j) s1 = (j2, s2)"
      "begin_cycle c gateways (sc_clock s) j2 s2 = (j3, s3)" "run_due cfg w c gateways (j3, s3) = (j4, s4)"
      "s' = keep_job (cd_pubkey c) (j4, s4)"
  using assms unfolding tickRepeater_def Let_def by (auto simp: split_def) (metis prod.collapse)

lemma tick_touches:
  assumes "tickRepeater cfg w gateways c s = s'"
  shows "\<exists>j t. s' = keep_job (cd_pubkey c) (j, t) \<and> touches (cd_pubkey c) s t"
  using assms
proof (cases rule: tick_cases)
  case (1 j s1)
  then show ?thesis using job_for_same(4) [OF 1(1)] by blast
next
  case (2 j s1 j2 s2 j3 s3 j4 s4)
  then show ?thesis
    using touches_trans [OF touches_trans [OF touches_trans [OF job_for_same(4) [OF 2(1)] wake_history(3) [OF 2(3)]]
          begin_touches [OF 2(4)]] run_due_touches [OF 2(5)]]
    by blast
qed

lemma tbl_get_filter_fst:
  "tbl_get fst k (filter (\<lambda>e. fst e \<in> A) t) = (if k \<in> A then tbl_get fst k t else None)"
  by (induction t) (auto simp: tbl_get_def)

lemma keep_job_simps [simp]:
  "sc_history (keep_job pk r) = sc_history (snd r)" "sc_clock (keep_job pk r) = sc_clock (snd r)"
  "sc_jobs (keep_job pk r) = tbl_put fst (pk, fst r) (sc_jobs (snd r))" "sc_poller (keep_job pk r) = sc_poller (snd r)"
  by (simp_all add: keep_job_def)

lemma keep_job_same:
  assumes "keep_job pk (j, t) = keep_job pk (j', t')"
  shows "j = j'" "sc_history t = sc_history t'"
proof -
  have "tbl_get fst pk (sc_jobs (keep_job pk (j, t))) = tbl_get fst pk (sc_jobs (keep_job pk (j', t')))"
    using assms by simp
  then show "j = j'" by (simp add: tbl_get_put)
  show "sc_history t = sc_history t'" using arg_cong [OF assms, of sc_history] by simp
qed

text \<open>
  An invariant of one repeater relates its job, if it has one, to the history. It holds of every run when its own ticks
  keep it (for credentials that are \<open>good\<close>), other repeaters' events do not matter to it, and losing the job keeps it
  (unless the repeater is \<open>lasting\<close>: listed by every tick).
\<close>

definition job_of :: "string \<Rightarrow> sched \<Rightarrow> repeater_job option" where
  "job_of pk s = map_option snd (tbl_get fst pk (sc_jobs s))"

locale repeater_run =
  fixes cfg :: poller_cfg and w :: mesh_world and pk :: string
    and inv :: "repeater_job option \<Rightarrow> sched_event list \<Rightarrow> bool"
    and good :: "credential \<Rightarrow> bool" and lasting :: bool
  assumes other: "inv jo h \<Longrightarrow> event_pk e \<noteq> pk \<Longrightarrow> inv jo (h @ [e])"
    and own: "inv (job_of pk s) (sc_history s) \<Longrightarrow> cd_pubkey c = pk \<Longrightarrow> good c \<Longrightarrow>
      tickRepeater cfg w gateways c s = keep_job pk (j, t) \<Longrightarrow> inv (Some j) (sc_history t)"
    and dropped: "inv jo h \<Longrightarrow> \<not> lasting \<Longrightarrow> inv None h"
begin

lemma others: "inv jo h \<Longrightarrow> \<forall>e \<in> set es. event_pk e \<noteq> pk \<Longrightarrow> inv jo (h @ es)"
proof (induction es rule: rev_induct)
  case (snoc e es)
  then show ?case using other [of jo "h @ es" e] by simp
qed simp

lemma one_tick:
  assumes "inv (job_of pk s) (sc_history s)" and "cd_pubkey c = pk \<Longrightarrow> good c"
  shows "inv (job_of pk (tickRepeater cfg w gateways c s)) (sc_history (tickRepeater cfg w gateways c s))"
proof -
  obtain j t where s': "tickRepeater cfg w gateways c s = keep_job (cd_pubkey c) (j, t)" and tch: "touches (cd_pubkey c) s t"
    using tick_touches [OF refl] by blast
  show ?thesis
  proof (cases "cd_pubkey c = pk")
    case True
    then show ?thesis using own [OF assms(1) True assms(2) [OF True]] s' by (simp add: job_of_def tbl_get_put)
  next
    case False
    obtain es where "sc_history t = sc_history s @ es" "\<forall>e \<in> set es. event_pk e = cd_pubkey c" "sc_jobs t = sc_jobs s"
      using tch by (auto simp: touches_def)
    moreover have "inv (job_of pk s) (sc_history s @ es)" using others [OF assms(1)] calculation(2) False by simp
    ultimately show ?thesis using s' False by (simp add: job_of_def tbl_get_put)
  qed
qed

lemma all_ticks:
  assumes "inv (job_of pk s) (sc_history s)" and "\<forall>c \<in> set cs. cd_pubkey c = pk \<longrightarrow> good c"
  shows "inv (job_of pk (snd (tick_all cfg w gateways cs s))) (sc_history (snd (tick_all cfg w gateways cs s)))"
  using assms by (induction cs arbitrary: s) (simp_all add: one_tick)

lemma after_unshare:
  assumes "inv (job_of pk s) (sc_history s)" and "lasting \<Longrightarrow> pk \<in> set pks"
  shows "inv (job_of pk (unshare pks s)) (sc_history (unshare pks s))"
  using assms dropped by (auto simp: job_of_def unshare_def tbl_get_filter_fst)

definition served :: "tick_in \<Rightarrow> bool" where
  "served t \<longleftrightarrow> (\<forall>cs. ti_creds t = Inr cs \<longrightarrow>
     (\<forall>c \<in> set cs. cd_pubkey c = pk \<longrightarrow> good c) \<and> (lasting \<longrightarrow> pk \<in> cd_pubkey ` set cs))"

lemma tick_once_keeps:
  assumes "inv (job_of pk s) (sc_history s)" and "served t"
  shows "inv (job_of pk (tick_once cfg w t s)) (sc_history (tick_once cfg w t s))"
proof (cases "ti_creds t")
  case (Inr cs)
  let ?s = "s\<lparr>sc_clock := sc_clock s + int (ti_wait t)\<rparr>"
  have i: "inv (job_of pk ?s) (sc_history ?s)" using assms(1) by (simp add: job_of_def)
  show ?thesis
  proof (cases "ti_gateways t")
    case (Inr gws)
    have a: "inv (job_of pk (snd (tick_all cfg w gws cs ?s))) (sc_history (snd (tick_all cfg w gws cs ?s)))"
      using all_ticks [OF i] assms(2) \<open>ti_creds t = Inr cs\<close> by (simp add: served_def)
    then show ?thesis
      using after_unshare [OF a, of "map cd_pubkey cs"] assms(2) Inr \<open>ti_creds t = Inr cs\<close>
      by (auto simp: tick_once_def RepeaterTick_def split_def served_def)
  qed (use i Inr in \<open>simp add: tick_once_def RepeaterTick_def\<close>)
qed (use assms in \<open>simp add: tick_once_def RepeaterTick_def job_of_def\<close>)

lemma run_keeps:
  assumes "inv (job_of pk s) (sc_history s)" and "\<forall>t \<in> set ts. served t"
  shows "inv (job_of pk (run_ticks cfg w ts s)) (sc_history (run_ticks cfg w ts s))"
  using assms unfolding run_ticks_def by (induction ts arbitrary: s) (simp_all add: tick_once_keeps)

end

text \<open>What a cycle may cost, kept by every run.\<close>

definition cost_inv :: "poller_cfg \<Rightarrow> string \<Rightarrow> repeater_job option \<Rightarrow> sched_event list \<Rightarrow> bool" where
  "cost_inv cfg pk jo h \<longleftrightarrow> always (frugal cfg pk) h \<and>
     (\<forall>j cy. jo = Some j \<longrightarrow> jb_cycle j = Some cy \<longrightarrow> cycle_ok cfg pk cy h)"

lemma cost_tick:
  assumes "cost_inv cfg (cd_pubkey c) (job_of (cd_pubkey c) s) (sc_history s)"
    and "tickRepeater cfg w gateways c s = keep_job (cd_pubkey c) (j, t)"
  shows "cost_inv cfg (cd_pubkey c) (Some j) (sc_history t)"
proof -
  have start: "pair_ok cfg (cd_pubkey c) j s1" if "job_for cfg w c s = (j, s1)" for j s1
    using job_for_same(1,5) [OF that] assms(1) by (auto simp: cost_inv_def job_of_def pair_ok_def new_job_def)
  have kept: "cost_inv cfg (cd_pubkey c) (Some j) (sc_history t)"
    if "keep_job (cd_pubkey c) (j2, t2) = keep_job (cd_pubkey c) (j, t)" "pair_ok cfg (cd_pubkey c) j2 t2" for j2 t2
    using that keep_job_same [OF that(1)] by (simp add: cost_inv_def pair_ok_def)
  from assms(2) show ?thesis
  proof (cases rule: tick_cases)
    case (1 j1 s1)
    then show ?thesis using start kept by metis
  next
    case (2 j1 s1 j2 s2 j3 s3 j4 s4)
    have "pair_ok cfg (cd_pubkey c) j2 s2"
      using start [OF 2(1)] wake_history(1,2) [OF 2(3)] by (simp add: pair_ok_def)
    then have "pair_ok cfg (cd_pubkey c) j3 s3" by (rule begin_pair [OF _ 2(4)])
    then have "pair_ok cfg (cd_pubkey c) j4 s4"
      by (rule run_due_invariant [OF 2(5)]) (rule step_pair)
    then show ?thesis using 2(6) kept by metis
  qed
qed

interpretation cost: repeater_run cfg w pk "cost_inv cfg pk" "\<lambda>_. True" False for cfg w pk
proof
  fix jo h e
  assume i: "cost_inv cfg pk jo h" and e: "event_pk e \<noteq> pk"
  have "frugal cfg pk (h @ [e])"
    using always_now [of "frugal cfg pk" h] i e by (simp add: cost_inv_def frugal_def split: option.splits)
  moreover have "cycle_ok cfg pk cy (h @ [e])" if "cycle_ok cfg pk cy h" for cy
    using that e by (simp add: cycle_ok_def)
  ultimately show "cost_inv cfg pk jo (h @ [e])" using i by (simp add: cost_inv_def always_snoc)
next
  fix s c gateways j t
  assume "cost_inv cfg pk (job_of pk s) (sc_history s)" "cd_pubkey c = pk" "tickRepeater cfg w gateways c s = keep_job pk (j, t)"
  then show "cost_inv cfg pk (Some j) (sc_history t)" using cost_tick [of cfg c s w gateways j t] by simp
qed (simp add: cost_inv_def)

text \<open>
  C37: what a cycle costs. At every moment of every run of the schedule, in the latest cycle of every repeater: each gateway has
  transmitted at most once more than there are retries, and for a repeater that missed its last cycle (or hibernates) at
  most once, with at most three transmissions in all.
\<close>

theorem cycle_costs:
  assumes "last_began pk (take k (sc_history (run_ticks cfg w ts (newSched now)))) = Some retries"
  shows "airtime (\<lambda>g. g = gw) pk (take k (sc_history (run_ticks cfg w ts (newSched now))))
      \<le> (if retries then length (retry_waits cfg) + 1 else 1) \<and>
    (\<not> retries \<longrightarrow> airtime (\<lambda>_. True) pk (take k (sc_history (run_ticks cfg w ts (newSched now)))) \<le> maxMeshTries)"
proof -
  have "cost_inv cfg pk (job_of pk (newSched now)) (sc_history (newSched now))"
    by (simp add: cost_inv_def newSched_def job_of_def tbl_get_def always_def frugal_def last_began_def airtime_def)
  then have "cost_inv cfg pk (job_of pk (run_ticks cfg w ts (newSched now))) (sc_history (run_ticks cfg w ts (newSched now)))"
    by (rule cost.run_keeps) (simp add: cost.served_def)
  then have "frugal cfg pk (take k (sc_history (run_ticks cfg w ts (newSched now))))"
    by (simp add: cost_inv_def always_def)
  with assms show ?thesis by (simp add: frugal_def per_gateway_def)
qed

section \<open>A refused password rests\<close>

fun is_check :: "string \<Rightarrow> sched_event \<Rightarrow> bool" where
  "is_check pk (Checked _ rq _) = (cq_pubkey rq = pk)"
| "is_check pk _ = False"

text \<open>A check from \<open>T\<close> on in which the repeater refused the password.\<close>

fun refusal :: "string \<Rightarrow> time \<Rightarrow> sched_event \<Rightarrow> bool" where
  "refusal pk T (Checked t rq (Inl e)) = (cq_pubkey rq = pk \<and> t \<ge> T \<and> \<not> no_airtime e \<and> me_loginFailed e)"
| "refusal pk T _ = False"

lemma refusal_other [simp]: "event_pk e \<noteq> pk \<Longrightarrow> \<not> refusal pk T e" "event_pk e \<noteq> pk \<Longrightarrow> \<not> is_check pk e"
  by (cases "(pk, T, e)" rule: refusal.cases; simp)+

lemma refusal_quiet [simp]: "quiet e \<Longrightarrow> \<not> refusal pk T e" "quiet e \<Longrightarrow> \<not> is_check pk e"
  by (cases e; simp)+

definition refused_by :: "string \<Rightarrow> time \<Rightarrow> sched_event list \<Rightarrow> bool" where
  "refused_by pk T h \<longleftrightarrow> (\<exists>e \<in> set h. refusal pk T e)"

definition obeys :: "string \<Rightarrow> time \<Rightarrow> sched_event list \<Rightarrow> bool" where
  "obeys pk T h \<longleftrightarrow> (\<forall>h1 e h2. h = h1 @ e # h2 \<longrightarrow> is_check pk e \<longrightarrow> \<not> refused_by pk T h1)"

lemma obeys_snoc: "obeys pk T (h @ [e]) \<longleftrightarrow> obeys pk T h \<and> (is_check pk e \<longrightarrow> \<not> refused_by pk T h)"
proof
  assume a: "obeys pk T (h @ [e])"
  have "obeys pk T h"
    unfolding obeys_def
  proof (intro allI impI)
    fix h1 f h2 assume "h = h1 @ f # h2" "is_check pk f"
    then show "\<not> refused_by pk T h1" using a unfolding obeys_def by (metis append_Cons append_assoc)
  qed
  with a show "obeys pk T h \<and> (is_check pk e \<longrightarrow> \<not> refused_by pk T h)"
    unfolding obeys_def by (metis append_Cons append_Nil)
next
  assume a: "obeys pk T h \<and> (is_check pk e \<longrightarrow> \<not> refused_by pk T h)"
  show "obeys pk T (h @ [e])"
    unfolding obeys_def
  proof (intro allI impI)
    fix h1 f h2 assume h: "h @ [e] = h1 @ f # h2" "is_check pk f"
    show "\<not> refused_by pk T h1"
    proof (cases h2 rule: rev_cases)
      case Nil
      then show ?thesis using h a by simp
    next
      case (snoc us u)
      then have "h = h1 @ f # us" using h(1) by simp
      then show ?thesis using a h(2) unfolding obeys_def by blast
    qed
  qed
qed

lemma refused_by_snoc [simp]: "refused_by pk T (h @ [e]) \<longleftrightarrow> refused_by pk T h \<or> refusal pk T e"
  by (auto simp: refused_by_def)

definition rests :: "time \<Rightarrow> repeater_job \<Rightarrow> bool" where
  "rests T j \<longleftrightarrow> jb_cycle j = None \<and> (\<exists>r \<ge> T. ps_refusedAt (jb_state j) = Some r)"

definition rest_inv :: "string \<Rightarrow> time \<Rightarrow> repeater_job option \<Rightarrow> sched_event list \<Rightarrow> bool" where
  "rest_inv pk T jo h \<longleftrightarrow> obeys pk T h \<and> (refused_by pk T h \<longrightarrow> (\<exists>j. jo = Some j \<and> rests T j))"

lemma rest_quiet:
  assumes "adds_quiet pk s s'"
  shows "obeys pk T (sc_history s') \<longleftrightarrow> obeys pk T (sc_history s)" "refused_by pk T (sc_history s') \<longleftrightarrow> refused_by pk T (sc_history s)"
proof -
  obtain es where es: "sc_history s' = sc_history s @ es" "\<forall>e \<in> set es. quiet e"
    using assms by (auto simp: adds_quiet_def)
  have "(obeys pk T (sc_history s @ es) \<longleftrightarrow> obeys pk T (sc_history s)) \<and>
      (refused_by pk T (sc_history s @ es) \<longleftrightarrow> refused_by pk T (sc_history s))" using es(2)
  proof (induction es rule: rev_induct)
    case (snoc e es)
    then show ?case using obeys_snoc [of pk T "sc_history s @ es" e] refused_by_snoc [of pk T "sc_history s @ es" e] by simp
  qed simp
  then show "obeys pk T (sc_history s') \<longleftrightarrow> obeys pk T (sc_history s)" "refused_by pk T (sc_history s') \<longleftrightarrow> refused_by pk T (sc_history s)"
    using es(1) by simp_all
qed

lemma endCycle_refused:
  assumes "endCycle cfg w c cy None j s = (j', s')" and "refused_in cy"
  shows "ps_refusedAt (jb_state j') = Some (sc_clock s)"
proof -
  have "ended_state cfg w c cy None j s = (OutcomeFailed, (jb_state j)\<lparr>ps_refusedAt := Some (sc_clock s)\<rparr>,
      next_cycle cfg cy (sc_clock s), jb_nextAliveCheck j, s)"
    using assms(2) by (simp add: ended_state_def Let_def)
  from endCycle_state(1) [OF this assms(1)] show ?thesis by simp
qed

lemma step_rests:
  assumes i: "rest_inv (cd_pubkey c) T (Some j) (sc_history s)" and cy: "jb_cycle j = Some cy"
    and st: "step cfg w c gateways cy j s = (j', s')"
  shows "rest_inv (cd_pubkey c) T (Some j') (sc_history s')"
proof -
  let ?pk = "cd_pubkey c"
  have ob: "obeys ?pk T (sc_history s)" and no: "\<not> refused_by ?pk T (sc_history s)"
    using i cy by (auto simp: rest_inv_def rests_def)
  have checked: "obeys ?pk T (sc_history t) \<and>
      (refused_by ?pk T (sc_history t) \<longleftrightarrow> refusal ?pk T (Checked (sc_clock s) (request_of c cy) res))"
    if "CheckRepeater w (request_of c cy) s = (res, t)" for res t
    using check_history(1) [OF that] ob no by (simp add: obeys_snoc)
  have idle: "rest_inv ?pk T (Some j') (sc_history s')"
    if "endCycle cfg w c cy2 res j t = (j', s')" "obeys ?pk T (sc_history t)" "\<not> refused_by ?pk T (sc_history t)" for cy2 res t
    using rest_quiet [OF endCycle_quiet(1) [OF that(1)]] that(2,3) by (simp add: rest_inv_def)
  from st show ?thesis
  proof (cases rule: step_cases)
    case fell
    then show ?thesis using ob no by (simp add: rest_inv_def)
  next
    case gave_up
    then show ?thesis using idle ob no by blast
  next
    case (read s2 r)
    then show ?thesis using idle [OF read(3)] checked [OF read(2)] by simp
  next
    case (skipped e)
    then show ?thesis using checked [OF skipped(2)] by (simp add: rest_inv_def)
  next
    case (unread e)
    then show ?thesis using checked [OF unread(2)] by (simp add: rest_inv_def)
  next
    case (refused s2 e)
    have r: "ps_refusedAt (jb_state j') = Some (sc_clock s2)"
      using endCycle_refused [OF refused(5)] refused(4) by (simp add: refused_in_def note_sent_def)
    have "sc_clock s \<le> sc_clock s2" using check_history(2) [OF refused(2)] by (simp add: touches_def)
    then have "T \<le> sc_clock s2" if "refused_by ?pk T (sc_history s2)"
      using that checked [OF refused(2)] by simp
    then show ?thesis
      using checked [OF refused(2)] rest_quiet [OF endCycle_quiet(1) [OF refused(5)]] endCycle_quiet(2) [OF refused(5)] r
      by (auto simp: rest_inv_def rests_def)
  qed
qed

lemma rest_tick:
  assumes i: "rest_inv (cd_pubkey c) T (job_of (cd_pubkey c) s) (sc_history s)" and upd: "cd_updatedAt c \<le> T"
    and k: "tickRepeater cfg w gateways c s = keep_job (cd_pubkey c) (j, t)"
  shows "rest_inv (cd_pubkey c) T (Some j) (sc_history t)"
proof -
  let ?pk = "cd_pubkey c"
  have start: "rest_inv ?pk T (Some j1) (sc_history s1)" if "job_for cfg w c s = (j1, s1)" for j1 s1
    using job_for_same(1,5) [OF that] i by (auto simp: rest_inv_def job_of_def)
  have kept: "rest_inv ?pk T (Some j) (sc_history t)"
    if "keep_job ?pk (j2, t2) = keep_job ?pk (j, t)" "rest_inv ?pk T (Some j2) (sc_history t2)" for j2 t2
    using that keep_job_same [OF that(1)] by simp
  from k show ?thesis
  proof (cases rule: tick_cases)
    case (1 j1 s1)
    then show ?thesis using start kept by metis
  next
    case (2 j1 s1 j2 s2 j3 s3 j4 s4)
    have no: "\<not> refused_by ?pk T (sc_history s1)"
      using start [OF 2(1)] 2(2) upd by (auto simp: rest_inv_def rests_def waits_for_share_def)
    have s2: "obeys ?pk T (sc_history s2)" "\<not> refused_by ?pk T (sc_history s2)"
      using start [OF 2(1)] no wake_history(1) [OF 2(3)] by (simp_all add: rest_inv_def)
    have "rest_inv ?pk T (Some j3) (sc_history s3)"
      using 2(4) s2 by (auto simp: begin_cycle_def Let_def rest_inv_def obeys_snoc split: if_splits)
    then have "rest_inv ?pk T (Some j4) (sc_history s4)"
      by (rule run_due_invariant [OF 2(5)]) (rule step_rests)
    then show ?thesis using 2(6) kept by metis
  qed
qed

interpretation rest: repeater_run cfg w pk "rest_inv pk T" "\<lambda>c. cd_updatedAt c \<le> T" True for cfg w pk T
proof
  fix jo h e
  assume "rest_inv pk T jo h" and "event_pk e \<noteq> pk"
  then show "rest_inv pk T jo (h @ [e])" by (simp add: rest_inv_def obeys_snoc)
next
  fix s c gateways j t
  assume "rest_inv pk T (job_of pk s) (sc_history s)" "cd_pubkey c = pk" "cd_updatedAt c \<le> T"
    "tickRepeater cfg w gateways c s = keep_job pk (j, t)"
  then show "rest_inv pk T (Some j) (sc_history t)" using rest_tick [of c T s cfg w gateways j t] by simp
qed simp

text \<open>
  C38: a refused password rests. In a run in which a repeater stays shared, once it has refused the password at \<open>t0\<close>, it is
  checked again only after its share has been updated: some tick had a credential updated after \<open>t0\<close>.
\<close>

theorem refused_password_rests:
  assumes "\<forall>t \<in> set ts. \<forall>cs. ti_creds t = Inr cs \<longrightarrow> pk \<in> cd_pubkey ` set cs"
    and "sc_history (run_ticks cfg w ts (newSched now)) = h1 @ Checked t0 rq (Inl e) # h2"
    and "cq_pubkey rq = pk" and "me_loginFailed e" and "\<not> no_airtime e"
    and "Checked t1 rq1 res1 \<in> set h2" and "cq_pubkey rq1 = pk"
  shows "\<exists>t \<in> set ts. \<exists>cs. ti_creds t = Inr cs \<and> (\<exists>c \<in> set cs. cd_pubkey c = pk \<and> cd_updatedAt c > t0)"
proof (rule ccontr)
  assume "\<not> ?thesis"
  then have "\<forall>t \<in> set ts. rest.served pk t0 t"
    using assms(1) unfolding rest.served_def by (metis linorder_le_less_linear)
  moreover have "rest_inv pk t0 (job_of pk (newSched now)) (sc_history (newSched now))"
    by (simp add: rest_inv_def newSched_def obeys_def refused_by_def)
  ultimately have "rest_inv pk t0 (job_of pk (run_ticks cfg w ts (newSched now))) (sc_history (run_ticks cfg w ts (newSched now)))"
    by (rule rest.run_keeps [rotated])
  then have ob: "obeys pk t0 (h1 @ Checked t0 rq (Inl e) # h2)" by (simp add: rest_inv_def assms(2))
  obtain a b where h2: "h2 = a @ Checked t1 rq1 res1 # b" using assms(6) by (metis split_list)
  have "\<not> refused_by pk t0 (h1 @ Checked t0 rq (Inl e) # a)"
    using ob assms(7) unfolding obeys_def h2 by (metis Cons_eq_appendI append_assoc is_check.simps(1))
  then show False using assms(3-5) by (simp add: refused_by_def)
qed

section \<open>Two runs of the schedule\<close>

definition demo_cfg :: poller_cfg where
  "demo_cfg = withDefaults \<lparr>pg_gateways = [], pg_interval = 0, pg_timeout = 0, pg_gridURL = ''https://grid/'',
     pg_repeaterInterval = 0, pg_repeaterRetries = None, pg_hibernateAfter = 0, pg_hibernateInterval = 0,
     pg_repeaterTick = 0, pg_reporterID = []\<rparr>"

definition demo_poll :: poll_state where
  "demo_poll = \<lparr>ps_primary = [], ps_failedCycles = 0, ps_hibernatingSince = None, ps_refusedAt = None,
     ps_nextCycle = 0, ps_reading = []\<rparr>"

definition demo_cred :: "poll_state \<Rightarrow> time \<Rightarrow> credential" where
  "demo_cred st updated = \<lparr>cd_pubkey = ''aa'', cd_name = ''Ridge'', cd_password = ''g'', cd_addedByGateway = ''a'',
     cd_lastGateway = [], cd_updatedAt = updated, cd_lastAttemptAt = None, cd_lastOKAt = None, cd_lastError = [], cd_poll = st\<rparr>"

definition demo_error :: mesh_error where
  "demo_error = \<lparr>me_notKnown = False, me_busy = False, me_unavailable = False, me_leaseEnded = False,
     me_loginFailed = False, me_noReply = False, me_text = []\<rparr>"

definition demo_world :: "(nat \<Rightarrow> mesh_error + repeater_check) \<Rightarrow> mesh_world" where
  "demo_world f = \<lparr>mw_check = (\<lambda>n _. (f n, 0)), mw_grid = (\<lambda>_ _. (GridStatus 404 None, 0)), mw_done = (\<lambda>_. False),
     mw_marshal = (\<lambda>_. Inl ''no''), mw_unmarshal = (\<lambda>_. Inl ''no'')\<rparr>"

definition demo_tick :: "credential \<Rightarrow> string list \<Rightarrow> nat \<Rightarrow> tick_in" where
  "demo_tick c gws s = \<lparr>ti_wait = s * 1000000000, ti_creds = Inr [c], ti_gateways = Inr gws\<rparr>"

text \<open>Every second check finds the gateway busy.\<close>

definition flaky :: "nat \<Rightarrow> mesh_error + repeater_check" where
  "flaky n = Inl (if n mod 2 = 0 then demo_error\<lparr>me_noReply := True\<rparr> else demo_error\<lparr>me_busy := True\<rparr>)"

definition flaky_run :: sched where
  "flaky_run = run_ticks demo_cfg (demo_world flaky)
     (map (demo_tick (demo_cred demo_poll 0) [''a'', ''b'', ''c'', ''d'']) [1, 30, 30, 30]) (newSched 0)"

lemmas demo_defs = run_ticks_def tick_once_def RepeaterTick_def tickRepeater_def job_for_def new_job_def
  newSched_def demo_tick_def demo_cred_def demo_poll_def tbl_get_def restore_def waits_for_share_def share_updated_def
  wake_check_def wake_check_due_def begin_cycle_def new_cycle_def candidates_def add_candidate_def add_rest_def
  keep_job_def unshare_def note_event_def isZero_def zeroTime_def second_def minute_def hour_def run_due.simps
  step_def out_of_gateways_def can_fall_back_def CheckRepeater_def request_of_def demo_world_def demo_error_def
  no_airtime_def skipErr_def sent_without_reading_def note_sent_def next_gateway_def skip_gateway_def retry_waits_def
  demo_cfg_def withDefaults_def orDefault_def DefaultRepeaterRetries_def maxMeshTries_def endCycle_def
  next_cycle_def refused_in_def missed_cycle_def gridAlive_def not_known_in_def note_cycle_def node_of_def newNode_def

text \<open>
  A gateway that has transmitted and is found busy at its retry is left without being counted, so the bound of three
  gateways per cycle does not hold when retries are allowed: here four gateways transmit in one cycle.
\<close>

theorem mesh_tries_bypassed:
  "length [gw \<leftarrow> [''a'', ''b'', ''c'', ''d'']. airtime (\<lambda>g. g = gw) ''aa'' (sc_history flaky_run) > 0] > maxMeshTries"
  by (simp add: flaky_run_def flaky_def demo_defs Let_def airtime_def on_air_def)

definition stuck_state :: poll_state where
  "stuck_state = demo_poll\<lparr>ps_failedCycles := 6, ps_hibernatingSince := Some 1, ps_refusedAt := Some 2\<rparr>"

definition stuck_run :: sched where
  "stuck_run = run_ticks demo_cfg (demo_world (\<lambda>_. Inl (demo_error\<lparr>me_noReply := True\<rparr>)))
     [demo_tick (demo_cred stuck_state (5 * second)) [''a''] 10] (newSched 0)"

text \<open>
  A refused password shows that the repeater is alive, and an updated share restarts the count of missed cycles, but
  neither ends its hibernation: the first miss after the update puts the next cycle a day away.
\<close>

theorem update_keeps_hibernation:
  "map (\<lambda>(_, j). (ps_failedCycles (jb_state j), ps_hibernatingSince (jb_state j), ps_nextCycle (jb_state j))) (sc_jobs stuck_run) =
    [(1, Some 1, 10 * second + 24 * hour)]"
  by (simp add: stuck_run_def stuck_state_def demo_defs Let_def)

section \<open>Witnesses\<close>

theorem cycle_costs_witness:
  "last_began ''aa'' (take 100 (sc_history flaky_run)) = Some True \<and>
    airtime (\<lambda>g. g = ''a'') ''aa'' (take 100 (sc_history flaky_run)) \<le> 4"
proof -
  have b: "last_began ''aa'' (take 100 (sc_history flaky_run)) = Some True"
    by (simp add: flaky_run_def flaky_def demo_defs Let_def last_began_def)
  moreover have "length (retry_waits demo_cfg) = 3"
    by (simp add: demo_cfg_def withDefaults_def retry_waits_def DefaultRepeaterRetries_def)
  ultimately show ?thesis
    using cycle_costs [OF b [unfolded flaky_run_def], of "''a''"] by (simp add: flaky_run_def)
qed

text \<open>The password is refused; it is tried again 40 minutes later, after the share was updated.\<close>

definition refusing :: mesh_world where
  "refusing = demo_world (\<lambda>n. Inl (if n = 0 then demo_error\<lparr>me_loginFailed := True\<rparr> else demo_error\<lparr>me_noReply := True\<rparr>))"

definition refused_ticks :: "tick_in list" where
  "refused_ticks = [demo_tick (demo_cred demo_poll 0) [''a''] 1, demo_tick (demo_cred demo_poll 0) [''a''] 2400,
     demo_tick (demo_cred demo_poll (3 * second)) [''a''] 1]"

definition refused_request :: check_request where
  "refused_request = \<lparr>cq_gateway = ''a'', cq_pubkey = ''aa'', cq_password = ''g'', cq_onlyIfKnown = True, cq_floodFirst = False\<rparr>"

lemma refused_history:
  "\<exists>h1 h2. sc_history (run_ticks demo_cfg refusing refused_ticks (newSched 0)) =
      h1 @ Checked second refused_request (Inl (demo_error\<lparr>me_loginFailed := True\<rparr>)) # h2 \<and>
      Checked (2402 * second) refused_request (Inl (demo_error\<lparr>me_noReply := True\<rparr>)) \<in> set h2"
  by (rule exI [of _ "[Began ''aa'' True second]"])
    (simp add: refusing_def refused_ticks_def refused_request_def demo_defs Let_def)

theorem refused_password_rests_witness:
  "\<exists>t \<in> set refused_ticks. \<exists>cs. ti_creds t = Inr cs \<and> (\<exists>c \<in> set cs. cd_pubkey c = ''aa'' \<and> cd_updatedAt c > second)"
proof -
  obtain h1 h2 where h: "sc_history (run_ticks demo_cfg refusing refused_ticks (newSched 0)) =
      h1 @ Checked second refused_request (Inl (demo_error\<lparr>me_loginFailed := True\<rparr>)) # h2"
    "Checked (2402 * second) refused_request (Inl (demo_error\<lparr>me_noReply := True\<rparr>)) \<in> set h2"
    using refused_history by blast
  show ?thesis
    by (rule refused_password_rests [OF _ h(1) _ _ _ h(2)])
      (simp_all add: refused_ticks_def demo_tick_def demo_cred_def refused_request_def demo_error_def no_airtime_def skipErr_def)
qed

end
