(* ===== verification/Ingest.thy ===== *)
theory Ingest
  imports Scheduler
begin

text \<open>
  What the normalizers of \<open>internal/ingest\<close> share: the helpers of \<open>ingest.go\<close> that build events, the severities of
  \<open>internal/hazards/severity.go\<close> they use, and the decimal texts of package \<open>fmt\<close>. The writer of GeoJSON points is a parameter.
\<close>

section \<open>Scopes\<close>

definition in_bounds :: "bbox \<Rightarrow> rat \<Rightarrow> rat \<Rightarrow> bool" where
  "in_bounds b la lo \<longleftrightarrow> la \<ge> minLat b \<and> la \<le> maxLat b \<and> lo \<ge> minLng b \<and> lo \<le> maxLng b"

definition inAnyBounds :: "rat \<Rightarrow> rat \<Rightarrow> bbox list \<Rightarrow> bool" where
  "inAnyBounds la lo boxes = list_ex (\<lambda>b. in_bounds b la lo) boxes"

text \<open>\<open>unionBounds\<close>; \<open>None\<close> is its false flag.\<close>

definition unionBounds :: "bbox list \<Rightarrow> bbox option" where
  "unionBounds areas = (case areas of
     [] \<Rightarrow> None
   | b # bs \<Rightarrow> Some (fold (\<lambda>a u. \<lparr>minLat = min (minLat u) (minLat a), minLng = min (minLng u) (minLng a),
                                  maxLat = max (maxLat u) (maxLat a), maxLng = max (maxLng u) (maxLng a)\<rparr>) bs b))"

definition errEmptyScope :: "string \<Rightarrow> string" where
  "errEmptyScope what = ''ingest: no '' @ what @ '' configured; refusing to poll an empty scope''"

section \<open>Texts\<close>

fun join_text :: "string \<Rightarrow> string list \<Rightarrow> string" where
  "join_text sep [] = []"
| "join_text sep [x] = x"
| "join_text sep (x # xs) = x @ sep @ join_text sep xs"

text \<open>\<open>firstNonBlank\<close> of the mesh normalizer and \<open>nonEmpty\<close> are the same function.\<close>

definition firstNonBlank :: "string list \<Rightarrow> string" where
  "firstNonBlank vs = (case find (\<lambda>v. trimSpace v \<noteq> []) vs of Some v \<Rightarrow> v | None \<Rightarrow> [])"

definition nonEmpty :: "string list \<Rightarrow> string" where
  "nonEmpty vs = firstNonBlank vs"

definition safeURL :: "string \<Rightarrow> string" where
  "safeURL u = (let u = trimSpace u in if hasPrefix u ''https://'' \<or> hasPrefix u ''http://'' then u else [])"

text \<open>\<open>%d\<close>, and \<open>%.0f\<close>, which rounds half to even.\<close>

fun digits :: "nat \<Rightarrow> string" where
  "digits n = (if n < 10 then [char_of (48 + n)] else digits (n div 10) @ [char_of (48 + n mod 10)])"

declare digits.simps [simp del]

definition dec_text :: "int \<Rightarrow> string" where
  "dec_text i = (if i < 0 then CHR ''-'' # digits (nat (- i)) else digits (nat i))"

definition round_even :: "rat \<Rightarrow> int" where
  "round_even x = (let f = \<lfloor>x\<rfloor>; d = x - of_int f in
     if d < 1 / 2 then f else if d > 1 / 2 then f + 1 else if even f then f else f + 1)"

section \<open>Events\<close>

definition tsProto :: "time \<Rightarrow> time option" where
  "tsProto t = (if isZero t then None else Some t)"

definition NewEvent :: "string \<Rightarrow> layer \<Rightarrow> severity \<Rightarrow> event_status \<Rightarrow> string \<Rightarrow> event" where
  "NewEvent i ly sev st headline =
     \<lparr>e_id = i, e_layer = ly, e_category = [], e_severity = sev, e_status = st, e_headline = headline, e_summary = [],
      e_description = [], e_areaLabel = [], e_canonicalUrl = [], e_geometry = None, e_placeIds = [], e_provenance = None,
      e_effective = None, e_expires = None, e_observedAt = None, e_ingestedAt = None, e_revision = 0,
      e_enhancement = None, e_detail = NoDetail\<rparr>"

definition NewProvenance :: "time \<Rightarrow> string \<Rightarrow> string \<Rightarrow> string \<Rightarrow> string \<Rightarrow> provenance" where
  "NewProvenance now i name attribution url =
     \<lparr>pv_sourceId = i, pv_sourceName = name, pv_attribution = attribution, pv_sourceUrl = url, pv_fetchedAt = Some now\<rparr>"

definition GeometryFromPoint :: "(rat \<Rightarrow> rat \<Rightarrow> string) \<Rightarrow> rat \<Rightarrow> rat \<Rightarrow> geometry" where
  "GeometryFromPoint point la lo =
     \<lparr>gm_geojson = point la lo, gm_bbox = Some \<lparr>minLat = la, minLng = lo, maxLat = la, maxLng = lo\<rparr>,
      gm_centroid = Some (la, lo)\<rparr>"

definition centroid_of :: "geometry option \<Rightarrow> (rat \<times> rat) option" where
  "centroid_of g = (case g of Some x \<Rightarrow> gm_centroid x | None \<Rightarrow> None)"

text \<open>A type and its coordinates, assembled to one object; \<open>quote\<close> is \<open>json.Marshal\<close> of a string, which cannot fail.\<close>

definition GeometryFromGeoJSON :: "(string \<Rightarrow> (string \<times> json option) result) \<Rightarrow> string \<Rightarrow> geometry result" where
  "GeometryFromGeoJSON unmarshal raw =
     rbind (Parse unmarshal raw) (\<lambda>g. Inr \<lparr>gm_geojson = raw, gm_bbox = Some (Bbox g), gm_centroid = Some (Centroid g)\<rparr>)"

definition geometryFromTyped :: "(string \<Rightarrow> (string \<times> json option) result) \<Rightarrow> (string \<Rightarrow> string) \<Rightarrow> string \<Rightarrow> string \<Rightarrow> geometry result" where
  "geometryFromTyped unmarshal quote ty coords =
     (if ty = [] \<or> coords = [] then Inl ''ingest: empty geometry''
      else GeometryFromGeoJSON unmarshal (''{\"type\":'' @ quote ty @ '',\"coordinates\":'' @ coords @ ''}''))"

section \<open>Severities\<close>

text \<open>The labels are the names of the enumeration; \<open>SeverityFromLabel\<close> of an unknown one is \<open>INFO\<close>.\<close>

definition SeverityFromLabel :: "string \<Rightarrow> severity" where
  "SeverityFromLabel l = (if l = ''MINOR'' then MINOR else if l = ''MODERATE'' then MODERATE else if l = ''SEVERE'' then SEVERE
     else if l = ''EXTREME'' then EXTREME else INFO)"

definition severityRank_label :: "string \<Rightarrow> nat" where
  "severityRank_label l = (if l = ''EXTREME'' then 4 else if l = ''SEVERE'' then 3 else if l = ''MODERATE'' then 2
     else if l = ''MINOR'' then 1 else 0)"

definition containmentSeverity :: "int \<Rightarrow> string" where
  "containmentSeverity pct = (if pct \<ge> 100 then ''MINOR'' else if pct < 50 then ''SEVERE'' else ''MODERATE'')"

definition sizeSeverity :: "rat \<Rightarrow> int \<Rightarrow> string" where
  "sizeSeverity acres pct =
     (if pct \<ge> 100 then ''INFO''
      else if acres \<ge> 1000 then (if pct < 50 then ''EXTREME'' else ''SEVERE'')
      else if acres \<ge> 100 then ''SEVERE''
      else ''INFO'')"

definition fromWildfire :: "rat \<Rightarrow> int \<Rightarrow> string" where
  "fromWildfire acres pct =
     (let cont = containmentSeverity pct; size = sizeSeverity acres pct in
      if severityRank_label size > severityRank_label cont then size else cont)"

end
