(* ===== verification/MeshNormalizer.thy ===== *)
theory MeshNormalizer
  imports Ingest PushIngest
begin

text \<open>
  The mesh normalizer, \<open>internal/ingest/network.go\<close>: how the adverts of the node registry and the reports of the push
  endpoint become the events, activity clocks and telemetry samples of one poll, with the state it keeps between polls.
  It reads the registry of MeshRegistry and the snapshot of PushIngest and gives the scheduler its poll result. A Go map
  is a list here, in the order its entries were added; error texts leave out numbers and times. A prior that is nil reads
  like an empty one.
\<close>

section \<open>Configuration and state\<close>

definition meshSourceID :: string where "meshSourceID = ''meshcore''"
definition meshSourceName :: string where "meshSourceName = ''MeshCore Mesh''"
definition meshAttribution :: string where "meshAttribution = ''MeshCore community mesh''"
definition meshMapURL :: string where "meshMapURL = ''https://map.meshcore.io''"
definition meshLocationDecimals :: rat where "meshLocationDecimals = 10000"
definition meshPositionEpsilonMeters :: rat where "meshPositionEpsilonMeters = 150"
definition meshPubKeyHex :: nat where "meshPubKeyHex = 64"
definition meshPushNodeType :: string where "meshPushNodeType = ''repeater''"
definition expiredTTL :: duration where "expiredTTL = 10 * minute"

definition mesh_id :: "string \<Rightarrow> string" where
  "mesh_id key = meshSourceID @ '':'' @ key"

text \<open>An operator is a broker's name and page; the table is keyed by the broker's URL, a later entry winning.\<close>

record norm_cfg =
  nc_nodeURL :: string
  nc_relayPresence :: duration
  nc_graceFloor :: duration
  nc_bounds :: "bbox list"
  nc_areaBounds :: "bbox list"
  nc_brokerOps :: "(string \<times> string \<times> string) list"
  nc_unreachableAfter :: duration
  nc_telemetryPersistInterval :: duration

definition RelayPresenceWindow :: "norm_cfg \<Rightarrow> duration" where
  "RelayPresenceWindow c =
     (if nc_relayPresence c < 0 then 0
      else if nc_relayPresence c > 0 then nc_relayPresence c
      else if nc_graceFloor c > 0 then nc_graceFloor c
      else 3 * hour)"

definition UnreachableAfterOrDefault :: "norm_cfg \<Rightarrow> duration" where
  "UnreachableAfterOrDefault c = (if nc_unreachableAfter c \<le> 0 then 45 * minute else nc_unreachableAfter c)"

definition TelemetryPersistIntervalOrDefault :: "norm_cfg \<Rightarrow> duration" where
  "TelemetryPersistIntervalOrDefault c =
     (if nc_telemetryPersistInterval c \<le> 0 then 10 * minute else nc_telemetryPersistInterval c)"

definition operator_of :: "norm_cfg \<Rightarrow> string \<Rightarrow> (string \<times> string) option" where
  "operator_of c url = map_of (rev (nc_brokerOps c)) url"

definition geofence :: "norm_cfg \<Rightarrow> bbox list" where
  "geofence c = (if nc_bounds c \<noteq> [] then nc_bounds c else nc_areaBounds c)"

text \<open>
  What the normalizer keeps: the activity it last gave the store, the expired nodes with when they were read
  (\<open>None\<close> before the first read), and the latest relay credits.
\<close>

record norm_state =
  nx_activity :: "mesh_activity list"
  nx_expired :: "(string \<times> event) list option"
  nx_expiredAt :: time
  nx_relaySeen :: "(string \<times> time) list"

definition NewNetworkNormalizer :: norm_state where
  "NewNetworkNormalizer = \<lparr>nx_activity = [], nx_expired = None, nx_expiredAt = zeroTime, nx_relaySeen = []\<rparr>"

text \<open>
  The world of one poll: its instant, the cosine (of degrees) and the writer of GeoJSON points, the two printers of a broker's
  health, the links of the brokers, and what the catalog of expired events answers (\<open>None\<close> without a catalog).
\<close>

record norm_env =
  nv_now :: time
  nv_cos :: "rat \<Rightarrow> rat"
  nv_point :: "rat \<Rightarrow> rat \<Rightarrow> string"
  nv_stamp :: "time \<Rightarrow> string"
  nv_ago :: "duration \<Rightarrow> string"
  nv_links :: "(bool \<times> broker_link) list"
  nv_catalog :: "event list result option"

record merged_node =
  mg_key :: string
  mg_mqtt :: "node_state option"
  mg_pushed :: "mesh_report list"
  mg_relayedAt :: time

definition fresh_node :: "string \<Rightarrow> merged_node" where
  "fresh_node key = \<lparr>mg_key = key, mg_mqtt = None, mg_pushed = [], mg_relayedAt = zeroTime\<rparr>"

definition SourceIDs :: "push_state option \<Rightarrow> string list" where
  "SourceIDs push =
     (case push of
        None \<Rightarrow> [meshSourceID]
      | Some st \<Rightarrow> fold (\<lambda>i ids. if i \<in> set ids then ids else ids @ [i])
          (ReporterIDs MeshStream st @ ReporterIDs MeshPacketStream st) [meshSourceID])"

section \<open>Brokers and reporters\<close>

definition Delivering :: "broker_health \<Rightarrow> bool" where
  "Delivering b \<longleftrightarrow> bh_problem b = []"

definition brokerDelivery :: "broker_health list \<Rightarrow> nat \<times> string option" where
  "brokerDelivery bs =
     (let deaf = filter (\<lambda>b. \<not> Delivering b) bs in
      (length (filter Delivering bs),
       if deaf = [] then None
       else Some (''MQTT brokers not delivering: '' @ join_text ''; '' (map (\<lambda>b. bh_url b @ '' '' @ bh_problem b) deaf))))"

definition health_error :: "reporter_health \<Rightarrow> string option" where
  "health_error h =
     (case rh_state h of
        ReporterOK \<Rightarrow> None
      | ReporterUnknown \<Rightarrow> Some ''no report received yet''
      | _ \<Rightarrow> Some (''no report since'' @ (if rh_lastError h \<noteq> [] then ''; last error: '' @ rh_lastError h else [])))"

definition reporterHealth :: "mesh_snapshot \<Rightarrow> string \<Rightarrow> string option" where
  "reporterHealth snap =
     fold (\<lambda>h m. m(rh_id h := health_error h)) (sm_reporters snap @ sm_packetReporters snap) (\<lambda>_. None)"

section \<open>The prior events and the expired ones\<close>

abbreviation priorByID :: "prior_events \<Rightarrow> string \<Rightarrow> event option" where
  "priorByID p i \<equiv> pe_byID p i"

text \<open>\<open>strings.CutPrefix(id, "meshcore:")\<close>\<close>

definition native_of :: "string \<Rightarrow> string option" where
  "native_of i = (case cutPrefix i (meshSourceID @ '':'') of (k, True) \<Rightarrow> Some k | _ \<Rightarrow> None)"

definition full_native :: "event \<Rightarrow> string option" where
  "full_native ev = (case native_of (e_id ev) of Some k \<Rightarrow> if length k = meshPubKeyHex then Some k else None | None \<Rightarrow> None)"

definition mesh_of :: "event option \<Rightarrow> mesh_detail option" where
  "mesh_of ev = (case ev of Some e \<Rightarrow> (case e_detail e of MeshD m \<Rightarrow> Some m | _ \<Rightarrow> None) | None \<Rightarrow> None)"

text \<open>Getters of a nil detail.\<close>

definition stored_name :: "mesh_detail option \<Rightarrow> string" where
  "stored_name m = (case m of Some d \<Rightarrow> md_name d | None \<Rightarrow> [])"

definition stored_type :: "mesh_detail option \<Rightarrow> string" where
  "stored_type m = (case m of Some d \<Rightarrow> md_nodeType d | None \<Rightarrow> [])"

definition stored_reachability :: "mesh_detail option \<Rightarrow> reachability" where
  "stored_reachability m = (case m of Some d \<Rightarrow> md_reachability d | None \<Rightarrow> REACHABILITY_UNSPECIFIED)"

definition stored_telemetry :: "mesh_detail option \<Rightarrow> mesh_telemetry option" where
  "stored_telemetry m = (case m of Some d \<Rightarrow> md_telemetry d | None \<Rightarrow> None)"

definition stored_admin :: "mesh_detail option \<Rightarrow> mesh_admin option" where
  "stored_admin m = (case stored_telemetry m of Some t \<Rightarrow> mt_admin t | None \<Rightarrow> None)"

definition stored_geometry :: "prior_events \<Rightarrow> string \<Rightarrow> geometry option" where
  "stored_geometry p i = (case priorByID p i of Some e \<Rightarrow> e_geometry e | None \<Rightarrow> None)"

definition index_expired :: "event list \<Rightarrow> (string \<times> event) list" where
  "index_expired evs =
     fold (\<lambda>ev out. case full_native ev of Some k \<Rightarrow> tbl_put fst (k, ev) out | None \<Rightarrow> out) evs []"

definition expiredNodes :: "norm_env \<Rightarrow> norm_state \<Rightarrow> (string \<times> event) list \<times> norm_state" where
  "expiredNodes env s =
     (case nv_catalog env of
        None \<Rightarrow> ([], s)
      | Some ans \<Rightarrow>
          let known = (case nx_expired s of None \<Rightarrow> [] | Some t \<Rightarrow> t) in
          if nx_expired s \<noteq> None \<and> nv_now env - nx_expiredAt s < expiredTTL then (known, s)
          else (case ans of
                  Inl _ \<Rightarrow> (known, s)
                | Inr evs \<Rightarrow> (index_expired evs, s\<lparr>nx_expired := Some (index_expired evs), nx_expiredAt := nv_now env\<rparr>)))"

definition withExpired :: "prior_events \<Rightarrow> (string \<times> event) list \<Rightarrow> prior_events" where
  "withExpired p expired =
     p\<lparr>pe_byID := (\<lambda>i. case priorByID p i of
                       Some ev \<Rightarrow> Some ev
                     | None \<Rightarrow> (case native_of i of Some k \<Rightarrow> map_of expired k | None \<Rightarrow> None))\<rparr>"

definition knownExpired :: "(string \<times> event) list \<Rightarrow> known_node list" where
  "knownExpired expired = map (\<lambda>(k, ev). \<lparr>kn_pubKey = k, kn_role = stored_type (mesh_of (Some ev))\<rparr>) expired"

definition knownMeshNodes :: "prior_events \<Rightarrow> known_node list" where
  "knownMeshNodes p =
     List.map_filter (\<lambda>ev. case full_native ev of
         Some k \<Rightarrow> Some \<lparr>kn_pubKey = k, kn_role = stored_type (mesh_of (Some ev))\<rparr> | None \<Rightarrow> None)
       (pe_bySource p meshSourceID)"

definition fullKeyCatalog :: "merged_node list \<Rightarrow> prior_events \<Rightarrow> string list" where
  "fullKeyCatalog merged p =
     sortedKeys (filter (\<lambda>k. length k = meshPubKeyHex) (map mg_key merged) @
                 List.map_filter full_native (pe_bySource p meshSourceID))"

definition resolveUnique :: "string list \<Rightarrow> string \<Rightarrow> string \<times> bool" where
  "resolveUnique catalog pre = scan_prefix pre catalog []"

section \<open>Relay credits\<close>

definition noteRelays :: "norm_cfg \<Rightarrow> (string \<times> time) list \<Rightarrow> time \<Rightarrow> norm_state \<Rightarrow> (string \<times> time) list \<times> norm_state" where
  "noteRelays cfg relays now s =
     (let window = RelayPresenceWindow cfg;
          seen = fold (\<lambda>(k, t) m. case tbl_get fst k m of
                     Some (_, old) \<Rightarrow> if t > old then tbl_put fst (k, t) m else m
                   | None \<Rightarrow> if t > zeroTime then tbl_put fst (k, t) m else m) relays (nx_relaySeen s);
          seen = filter (\<lambda>(k, t). \<not> (window \<le> 0 \<or> now - t > window)) seen
      in (seen, s\<lparr>nx_relaySeen := seen\<rparr>))"

definition laterOf :: "time \<Rightarrow> time \<Rightarrow> time" where
  "laterOf a b = (if b > a then b else a)"

section \<open>The event of a node\<close>

definition meshHeadline :: "string \<Rightarrow> string \<Rightarrow> string \<Rightarrow> string" where
  "meshHeadline name nodeType key =
     (let name = (if name = [] then ''node '' @ take 8 key else name) in
      if nodeType = [] then name else name @ '' ('' @ nodeType @ '')'')"

definition isLowerHex :: "string \<Rightarrow> bool" where
  "isLowerHex s = list_all (\<lambda>c. CHR ''0'' \<le> c \<and> c \<le> CHR ''9'' \<or> CHR ''a'' \<le> c \<and> c \<le> CHR ''f'') s"

text \<open>\<open>strings.ReplaceAll\<close> of a non-empty pattern\<close>

fun replace_all :: "string \<Rightarrow> string \<Rightarrow> nat \<Rightarrow> string \<Rightarrow> string" where
  "replace_all pat by_text skip [] = []"
| "replace_all pat by_text (Suc n) (c # cs) = replace_all pat by_text n cs"
| "replace_all pat by_text 0 (c # cs) =
     (if hasPrefix (c # cs) pat then by_text @ replace_all pat by_text (length pat - 1) cs
      else c # replace_all pat by_text 0 cs)"

definition meshNodeURL :: "norm_cfg \<Rightarrow> string \<Rightarrow> string" where
  "meshNodeURL cfg key =
     (let tmpl = nc_nodeURL cfg in
      if tmpl = [] \<or> \<not> contains tmpl ''{publicKey}'' \<or> length key \<noteq> meshPubKeyHex \<or> \<not> isLowerHex key then meshMapURL
      else let u = safeURL (replace_all ''{publicKey}'' key 0 tmpl) in if u \<noteq> [] then u else meshMapURL)"

text \<open>\<open>math.Round\<close> rounds half away from zero.\<close>

definition go_round :: "rat \<Rightarrow> int" where
  "go_round x = (if x < 0 then - \<lfloor>- x + 1 / 2\<rfloor> else \<lfloor>x + 1 / 2\<rfloor>)"

definition quantizeCoord :: "rat \<Rightarrow> rat" where
  "quantizeCoord v = of_int (go_round (v * meshLocationDecimals)) / meshLocationDecimals"

text \<open>The distance is compared squared.\<close>

definition stablePosition :: "norm_env \<Rightarrow> prior_events \<Rightarrow> string \<Rightarrow> rat \<Rightarrow> rat \<Rightarrow> geometry option" where
  "stablePosition env p i la lo =
     (let fresh = Some (GeometryFromPoint (nv_point env) (quantizeCoord la) (quantizeCoord lo)); prev = stored_geometry p i in
      case centroid_of prev of
        None \<Rightarrow> fresh
      | Some (cla, clo) \<Rightarrow>
          if metersBetweenSq (nv_cos env) cla clo la lo > meshPositionEpsilonMeters * meshPositionEpsilonMeters
          then fresh else prev)"

definition reporterPlaceIDs :: "mesh_report list \<Rightarrow> string list" where
  "reporterPlaceIDs reports = sortedKeys (concat (map mr_placeIDs reports))"

definition add_name :: "string \<Rightarrow> string list \<Rightarrow> string list" where
  "add_name name names = (if name \<in> set names then names else names @ [name])"

text \<open>One broker's credit: the page found so far and the operators' names.\<close>

definition credit_broker :: "norm_cfg \<Rightarrow> push_state option \<Rightarrow> string \<Rightarrow> string \<times> string list \<Rightarrow> string \<times> string list" where
  "credit_broker cfg push b = (\<lambda>(url, names).
     case ReporterFromPacketSource b of
       (i, True) \<Rightarrow>
         (case push of
            None \<Rightarrow> (url, names)
          | Some st \<Rightarrow> (case ReporterConfig i st of
                         None \<Rightarrow> (url, names)
                       | Some rc \<Rightarrow> (url, add_name (firstNonBlank [rc_name rc, rc_id rc]) names)))
     | (_, False) \<Rightarrow>
         (case operator_of cfg b of
            None \<Rightarrow> (url, names)
          | Some (operator, page) \<Rightarrow>
              (if url = [] \<and> page \<noteq> [] then page else url, if operator \<noteq> [] then add_name operator names else names)))"

definition meshProvenance :: "norm_cfg \<Rightarrow> norm_env \<Rightarrow> push_state option \<Rightarrow> string list \<Rightarrow> provenance" where
  "meshProvenance cfg env push brokers =
     (case fold (credit_broker cfg push) brokers ([], []) of (url, names) \<Rightarrow>
        NewProvenance (nv_now env) meshSourceID meshSourceName
          (if names \<noteq> [] then meshAttribution @ '' via '' @ join_text '', '' names else meshAttribution)
          (if url = [] then meshMapURL else url))"

definition keepPriorAttribution :: "prior_events \<Rightarrow> string \<Rightarrow> provenance \<Rightarrow> provenance" where
  "keepPriorAttribution p i pv =
     (case priorByID p i of
        None \<Rightarrow> pv
      | Some ev \<Rightarrow> (case e_provenance ev of
                      None \<Rightarrow> pv
                    | Some prev \<Rightarrow> if pv_attribution prev = [] then pv
                        else pv\<lparr>pv_attribution := pv_attribution prev, pv_sourceUrl := pv_sourceUrl prev\<rparr>))"

section \<open>What the monitors say\<close>

definition reachability_of :: "norm_cfg \<Rightarrow> mesh_report list \<Rightarrow> time \<Rightarrow> reachability" where
  "reachability_of cfg reports now =
     (let window = UnreachableAfterOrDefault cfg;
          (success, attempt) = fold (\<lambda>r (su, a).
              (laterOf su (mr_lastSuccess r),
               (let a = laterOf a (mr_lastAttempt r) in
                if isZero (mr_lastAttempt r) then laterOf a (mr_reportedAt r) else a))) reports (zeroTime, zeroTime)
      in if isZero attempt then REACHABILITY_UNSPECIFIED
         else if \<not> isZero success \<and> now - success \<le> window then REACHABLE
         else UNREACHABLE)"

text \<open>The freshest sample; an equal one loses to the report that comes first.\<close>

definition best_report :: "mesh_report list \<Rightarrow> mesh_report option" where
  "best_report reports =
     fold (\<lambda>r best. if mr_telemetry r = None then best
                    else case best of None \<Rightarrow> Some r
                                    | Some b \<Rightarrow> if mr_lastSuccess r > mr_lastSuccess b then Some r else best) reports None"

definition emptyTelemetry :: mesh_telemetry where
  "emptyTelemetry = \<lparr>mt_snr = None, mt_rssi = None, mt_hopCount = None, mt_gateways = [], mt_lastAdvertAt = None, mt_admin = None\<rparr>"

text \<open>Only a stored block stamped with its advert is a reading.\<close>

definition carried_signal :: "mesh_telemetry option \<Rightarrow> mesh_telemetry" where
  "carried_signal stored =
     (case stored of
        Some t \<Rightarrow> if mt_lastAdvertAt t \<noteq> None then t\<lparr>mt_admin := None\<rparr> else emptyTelemetry
      | None \<Rightarrow> emptyTelemetry)"

definition signal_block :: "node_state option \<Rightarrow> mesh_telemetry option \<Rightarrow> mesh_telemetry" where
  "signal_block mqtt stored =
     (case mqtt of
        Some nd \<Rightarrow> if ns_hasSignal nd then
            emptyTelemetry\<lparr>mt_snr := Some (ns_snr nd), mt_rssi := Some (ns_rssi nd), mt_hopCount := Some (ns_hopCount nd),
              mt_gateways := ns_gateways nd, mt_lastAdvertAt := tsProto (ns_lastAdvertAt nd)\<rparr>
          else carried_signal stored
      | None \<Rightarrow> carried_signal stored)"

definition meshTelemetry :: "node_state option \<Rightarrow> mesh_report list \<Rightarrow> mesh_telemetry option \<Rightarrow> mesh_telemetry" where
  "meshTelemetry mqtt reports stored =
     (let t = signal_block mqtt stored in
      case best_report reports of Some r \<Rightarrow> t\<lparr>mt_admin := mr_telemetry r\<rparr> | None \<Rightarrow> t)"

definition sorted_reports :: "mesh_report list \<Rightarrow> mesh_report list" where
  "sorted_reports reports = sort_key (\<lambda>r. (- mr_priority r, mr_reporterID r)) reports"

text \<open>The identity: the advert's, else the stored one; a monitor's label only where there is neither.\<close>

definition identity_of :: "merged_node \<Rightarrow> mesh_detail option \<Rightarrow> mesh_report list \<Rightarrow> string \<times> string" where
  "identity_of m stored reports =
     fold (\<lambda>r (name, ty). (if name = [] then mr_name r else name, if ty = [] then meshPushNodeType else ty)) reports
       (case mg_mqtt m of
          Some nd \<Rightarrow> (bytes_str (ns_name nd), ns_role nd)
        | None \<Rightarrow> (stored_name stored, stored_type stored))"

definition node_geometry :: "norm_env \<Rightarrow> prior_events \<Rightarrow> merged_node \<Rightarrow> geometry option" where
  "node_geometry env p m =
     (case mg_mqtt m of
        Some nd \<Rightarrow> if \<not> ns_hasLocation nd then stored_geometry p (mesh_id (mg_key m))
                   else stablePosition env p (mesh_id (mg_key m)) (ns_lat nd) (ns_lng nd)
      | None \<Rightarrow> stored_geometry p (mesh_id (mg_key m)))"

definition brokers_of :: "merged_node \<Rightarrow> string list" where
  "brokers_of m = (case mg_mqtt m of Some nd \<Rightarrow> ns_brokers nd | None \<Rightarrow> [])"

definition observed_of :: "merged_node \<Rightarrow> mesh_report list \<Rightarrow> time" where
  "observed_of m reports =
     fold (\<lambda>r t. if mr_lastSuccess r > t then mr_lastSuccess r
                 else if isZero (mr_lastSuccess r) \<and> mr_reportedAt r > t then mr_reportedAt r else t) reports
       (case mg_mqtt m of
          Some nd \<Rightarrow> laterOf (mg_relayedAt m) (laterOf (ns_lastHeardAt nd) (ns_lastRelayedAt nd))
        | None \<Rightarrow> mg_relayedAt m)"

definition mesh_provenance_of :: "norm_cfg \<Rightarrow> norm_env \<Rightarrow> push_state option \<Rightarrow> prior_events \<Rightarrow> merged_node \<Rightarrow> provenance" where
  "mesh_provenance_of cfg env push p m =
     (let pv = meshProvenance cfg env push (brokers_of m) in
      if brokers_of m = [] then keepPriorAttribution p (mesh_id (mg_key m)) pv else pv)"

text \<open>A silent monitor says nothing: what is stored rides forward.\<close>

definition detail_of :: "norm_cfg \<Rightarrow> norm_env \<Rightarrow> merged_node \<Rightarrow> mesh_detail option \<Rightarrow> mesh_report list \<Rightarrow> bool \<Rightarrow> mesh_detail" where
  "detail_of cfg env m stored reports silent =
     (let (name, ty) = identity_of m stored reports;
          t = meshTelemetry (mg_mqtt m) reports (stored_telemetry stored);
          carried = (reports = [] \<and> silent)
      in \<lparr>md_publicKey = mg_key m, md_nodeType = ty, md_name = name,
          md_telemetry = Some (if carried \<and> mt_admin t = None then t\<lparr>mt_admin := stored_admin stored\<rparr> else t),
          md_reachability = (if carried then stored_reachability stored else reachability_of cfg reports (nv_now env))\<rparr>)"

definition buildEvent :: "norm_cfg \<Rightarrow> norm_env \<Rightarrow> push_state option \<Rightarrow> prior_events \<Rightarrow> bool \<Rightarrow> merged_node \<Rightarrow> event" where
  "buildEvent cfg env push p silent m =
     (let reports = sorted_reports (mg_pushed m); i = mesh_id (mg_key m); stored = mesh_of (priorByID p i);
          (name, ty) = identity_of m stored reports; observed = observed_of m reports
      in (NewEvent i MESH INFO ST_ACTIVE (meshHeadline name ty (mg_key m)))
         \<lparr>e_category := ty, e_canonicalUrl := meshNodeURL cfg (mg_key m), e_geometry := node_geometry env p m,
          e_placeIds := reporterPlaceIDs reports, e_observedAt := tsProto observed,
          e_provenance := Some (mesh_provenance_of cfg env push p m),
          e_detail := MeshD (detail_of cfg env m stored reports silent)\<rparr>)"

definition admin_of :: "event option \<Rightarrow> mesh_admin option" where
  "admin_of ev = stored_admin (mesh_of ev)"

definition shouldPersistTelemetry :: "norm_cfg \<Rightarrow> norm_env \<Rightarrow> prior_events \<Rightarrow> event \<Rightarrow> bool" where
  "shouldPersistTelemetry cfg env p ev =
     (if admin_of (Some ev) = None then False
      else case priorByID p (e_id ev) of
        None \<Rightarrow> False
      | Some old \<Rightarrow>
          (case admin_of (Some old) of
             None \<Rightarrow> True
           | Some prev \<Rightarrow> (case ad_reportedAt prev of
                             None \<Rightarrow> True
                           | Some t \<Rightarrow> nv_now env - t \<ge> TelemetryPersistIntervalOrDefault cfg)))"

section \<open>Which nodes are present\<close>

definition monitorHolds :: "norm_cfg \<Rightarrow> prior_events \<Rightarrow> time \<Rightarrow> merged_node \<Rightarrow> bool" where
  "monitorHolds cfg p now m \<longleftrightarrow>
     length (mg_key m) = meshPubKeyHex \<and> priorByID p (mesh_id (mg_key m)) \<noteq> None \<and>
     list_ex (\<lambda>r. \<not> isZero (mr_lastSuccess r) \<and> now - mr_lastSuccess r \<le> UnreachableAfterOrDefault cfg) (mg_pushed m)"

definition enumerated :: "mesh_snapshot \<Rightarrow> string list" where
  "enumerated snap = map mr_nodeID (filter (\<lambda>r. mr_enumerates r \<and> length (mr_nodeID r) = meshPubKeyHex) (sm_reports snap))"

definition in_scope :: "bbox list \<Rightarrow> string list \<Rightarrow> node_state \<Rightarrow> bool" where
  "in_scope boxes enum nd \<longleftrightarrow> ns_pubKey nd \<in> set enum \<or> (ns_hasLocation nd \<and> inAnyBounds (ns_lat nd) (ns_lng nd) boxes)"

definition heard_nodes :: "bbox list \<Rightarrow> string list \<Rightarrow> node_state list \<Rightarrow> merged_node list" where
  "heard_nodes boxes enum nodes =
     fold (\<lambda>nd t. tbl_put mg_key ((fresh_node (ns_pubKey nd))\<lparr>mg_mqtt := Some nd\<rparr>) t) (filter (in_scope boxes enum) nodes) []"

text \<open>The full key of a reported prefix, when one is known.\<close>

definition resolve_key :: "string list \<Rightarrow> registry option \<Rightarrow> string \<Rightarrow> string" where
  "resolve_key catalog reg key =
     (if length key < meshPubKeyHex then
        (case resolveUnique catalog key of
           (full, True) \<Rightarrow> full
         | _ \<Rightarrow> (case reg of
                   None \<Rightarrow> key
                 | Some r \<Rightarrow> (case ResolvePrefix key r of (full, True) \<Rightarrow> full | _ \<Rightarrow> key)))
      else key)"

definition add_report :: "(string \<Rightarrow> string) \<Rightarrow> mesh_report \<Rightarrow> merged_node list \<Rightarrow> merged_node list" where
  "add_report resolve rep t =
     (let key = resolve (mr_nodeID rep);
          m = (case tbl_get mg_key key t of Some m \<Rightarrow> m | None \<Rightarrow> fresh_node key)
      in tbl_put mg_key (m\<lparr>mg_pushed := mg_pushed m @ [rep]\<rparr>) t)"

definition relay_in_scope :: "bbox list \<Rightarrow> string list \<Rightarrow> prior_events \<Rightarrow> string \<Rightarrow> bool" where
  "relay_in_scope boxes enum p key \<longleftrightarrow>
     priorByID p (mesh_id key) \<noteq> None \<and>
     (key \<in> set enum \<or>
      (case centroid_of (stored_geometry p (mesh_id key)) of Some (la, lo) \<Rightarrow> inAnyBounds la lo boxes | None \<Rightarrow> False))"

definition add_relayed :: "bbox list \<Rightarrow> string list \<Rightarrow> prior_events \<Rightarrow> string \<times> time \<Rightarrow> merged_node list \<Rightarrow> merged_node list" where
  "add_relayed boxes enum p = (\<lambda>(key, at_time) t.
     case tbl_get mg_key key t of
       Some m \<Rightarrow> tbl_put mg_key (m\<lparr>mg_relayedAt := at_time\<rparr>) t
     | None \<Rightarrow> if relay_in_scope boxes enum p key then tbl_put mg_key ((fresh_node key)\<lparr>mg_relayedAt := at_time\<rparr>) t else t)"

definition merge_nodes :: "norm_cfg \<Rightarrow> norm_env \<Rightarrow> prior_events \<Rightarrow> registry option \<Rightarrow> mesh_snapshot \<Rightarrow> node_state list \<Rightarrow>
    (string \<times> time) list \<Rightarrow> merged_node list" where
  "merge_nodes cfg env p reg snap nodes relaySeen =
     (let boxes = geofence cfg; enum = enumerated snap;
          heard = heard_nodes boxes enum nodes;
          catalog = fullKeyCatalog heard p;
          reported = fold (add_report (resolve_key catalog reg)) (sm_reports snap) heard;
          held = filter (\<lambda>m. mg_mqtt m \<noteq> None \<or> monitorHolds cfg p (nv_now env) m) reported
      in fold (add_relayed boxes enum p) relaySeen held)"

section \<open>What a poll hands the store\<close>

text \<open>Among several full keys with the prefix, the first one.\<close>

definition promotedPrefixKeys :: "merged_node list \<Rightarrow> prior_events \<Rightarrow> (string \<times> string) list" where
  "promotedPrefixKeys merged p =
     sort_key fst (List.map_filter (\<lambda>ev. case native_of (e_id ev) of
         None \<Rightarrow> None
       | Some native \<Rightarrow> if length native \<ge> meshPubKeyHex then None
           else map_option (Pair native) (find (\<lambda>k. length k = meshPubKeyHex \<and> hasPrefix k native) (map mg_key merged)))
       (pe_bySource p meshSourceID))"

definition supersededIDs :: "(string \<times> string) list \<Rightarrow> string list" where
  "supersededIDs promotions = map (\<lambda>(from_key, _). mesh_id from_key) promotions"

definition sample_of_event :: "time \<Rightarrow> event \<Rightarrow> telemetry_sample option" where
  "sample_of_event now ev =
     (case (admin_of (Some ev), mesh_of (Some ev)) of
        (Some a, Some d) \<Rightarrow>
          (case ad_reportedAt a of
             None \<Rightarrow> None
           | Some t \<Rightarrow> if md_publicKey d = [] then None
               else Some \<lparr>ts_pubKey = md_publicKey d, ts_reportedAt = t, ts_receivedAt = now, ts_reporter = ad_reporterId a,
                   ts_lastSuccessAt = (case ad_lastSuccessAt a of Some x \<Rightarrow> x | None \<Rightarrow> zeroTime),
                   ts_lastAttemptAt = (case ad_lastAttemptAt a of Some x \<Rightarrow> x | None \<Rightarrow> zeroTime),
                   ts_gauges = ad_gauges a, ts_pctSource = ad_pctSource a, ts_counters = ad_counters a\<rparr>)
      | _ \<Rightarrow> None)"

definition meshTelemetrySamples :: "event list \<Rightarrow> time \<Rightarrow> telemetry_sample list" where
  "meshTelemetrySamples evs now = List.map_filter (sample_of_event now) evs"

definition store_observation :: "observation \<Rightarrow> mesh_observation" where
  "store_observation ob =
     \<lparr>mo_pubKey = ob_pubKey ob, mo_heardAt = ob_heardAt ob, mo_broker = ob_broker ob, mo_gateway = ob_gateway ob,
      mo_snr = ob_snr ob, mo_rssi = ob_rssi ob, mo_hopCount = ob_hopCount ob, mo_path = ob_path ob,
      mo_pathNodes = ob_pathNodes ob\<rparr>"

definition drainObservations :: "registry option \<Rightarrow> mesh_observation list \<times> registry option" where
  "drainObservations reg =
     (case reg of
        None \<Rightarrow> ([], None)
      | Some r \<Rightarrow> (case DrainObservations r of (obs, r) \<Rightarrow> (map store_observation obs, Some r)))"

text \<open>This tick's clocks of the covered nodes.\<close>

definition heard_clock :: "string list \<Rightarrow> merged_node \<Rightarrow> mesh_activity list \<Rightarrow> mesh_activity list" where
  "heard_clock covered m t =
     (case mg_mqtt m of
        Some nd \<Rightarrow> if \<not> isZero (ns_receivedAt nd) \<and> mg_key m \<in> set covered
            then tbl_put ac_pubKey \<lparr>ac_pubKey = mg_key m, ac_lastHeardAt = ns_receivedAt nd, ac_lastRelayedAt = zeroTime\<rparr> t else t
      | None \<Rightarrow> t)"

definition activity_of :: "string \<Rightarrow> mesh_activity list \<Rightarrow> mesh_activity" where
  "activity_of k t = (case tbl_get ac_pubKey k t of Some a \<Rightarrow> a
     | None \<Rightarrow> \<lparr>ac_pubKey = k, ac_lastHeardAt = zeroTime, ac_lastRelayedAt = zeroTime\<rparr>)"

definition relay_clock :: "string list \<Rightarrow> string \<times> time \<Rightarrow> mesh_activity list \<Rightarrow> mesh_activity list" where
  "relay_clock covered = (\<lambda>(k, t) acts.
     if k \<in> set covered then tbl_put ac_pubKey ((activity_of k acts)\<lparr>ac_lastRelayedAt := t\<rparr>) acts else acts)"

definition advance_clock :: "mesh_activity \<Rightarrow> mesh_activity list \<times> mesh_activity list \<Rightarrow> mesh_activity list \<times> mesh_activity list" where
  "advance_clock a = (\<lambda>(out, kept).
     let prev = activity_of (ac_pubKey a) kept;
         heard = laterOf (ac_lastHeardAt prev) (ac_lastHeardAt a);
         relayed = laterOf (ac_lastRelayedAt prev) (ac_lastRelayedAt a);
         new = \<lparr>ac_pubKey = ac_pubKey a, ac_lastHeardAt = heard, ac_lastRelayedAt = relayed\<rparr>
     in if heard = ac_lastHeardAt prev \<and> relayed = ac_lastRelayedAt prev then (out, kept)
        else (out @ [new], tbl_put ac_pubKey new kept))"

definition meshActivity :: "merged_node list \<Rightarrow> prior_events \<Rightarrow> (string \<times> time) list \<Rightarrow> norm_state \<Rightarrow> mesh_activity list \<times> norm_state" where
  "meshActivity merged p relays s =
     (let covered = fullKeyCatalog merged p;
          now_clocks = fold (relay_clock covered) relays (fold (heard_clock covered) merged []);
          (out, kept) = fold advance_clock now_clocks ([], nx_activity s)
      in (sort_key ac_pubKey out, s\<lparr>nx_activity := kept\<rparr>))"

definition forgetMeshActivity :: "norm_state \<Rightarrow> norm_state" where
  "forgetMeshActivity s = s\<lparr>nx_activity := []\<rparr>"

section \<open>The poll\<close>

definition snapshot_of :: "norm_env \<Rightarrow> push_state option \<Rightarrow> mesh_snapshot" where
  "snapshot_of env push =
     (case push of
        Some st \<Rightarrow> MeshReports (nv_now env) st
      | None \<Rightarrow> \<lparr>sm_reports = [], sm_reporters = [], sm_suppressSweep = False, sm_monitorSilent = False, sm_live = 0,
                 sm_packetReporters = [], sm_packetLive = 0\<rparr>)"

definition broker_healths :: "norm_env \<Rightarrow> registry option \<Rightarrow> broker_health list" where
  "broker_healths env reg = (case reg of Some r \<Rightarrow> Brokers (nv_stamp env) (nv_ago env) (nv_now env) (nv_links env) r | None \<Rightarrow> [])"

definition drain_relays :: "norm_env \<Rightarrow> prior_events \<Rightarrow> (string \<times> event) list \<Rightarrow> registry option \<Rightarrow> (string \<times> time) list \<times> registry option" where
  "drain_relays env p expired reg =
     (case reg of
        None \<Rightarrow> ([], None)
      | Some r \<Rightarrow> (case DrainRelays (nv_now env) (knownMeshNodes p @ knownExpired expired) r of (out, r) \<Rightarrow> (out, Some r)))"

definition take_snapshot :: "norm_env \<Rightarrow> bool \<Rightarrow> registry option \<Rightarrow> node_state list \<times> registry option" where
  "take_snapshot env listening reg =
     (case reg of
        Some r \<Rightarrow> if listening then (case Snapshot (nv_now env) r of (ns, r) \<Rightarrow> (ns, Some r)) else ([], Some r)
      | None \<Rightarrow> ([], None))"

definition poll_deaf :: "mesh_snapshot \<Rightarrow> broker_health list \<Rightarrow> bool" where
  "poll_deaf snap brokers \<longleftrightarrow> fst (brokerDelivery brokers) = 0 \<and> sm_live snap = 0 \<and> sm_packetLive snap = 0"

text \<open>The outcome with the normalizer and the registry after it.\<close>

definition Poll :: "norm_cfg \<Rightarrow> norm_env \<Rightarrow> push_state option \<Rightarrow> prior_events \<Rightarrow> norm_state \<times> registry option \<Rightarrow>
    poll_outcome \<times> norm_state \<times> registry option" where
  "Poll cfg env push prior = (\<lambda>(s, reg).
     let snap = snapshot_of env push; brokers = broker_healths env reg; (delivering, brokerErr) = brokerDelivery brokers in
     if reg \<noteq> None \<and> geofence cfg = [] then (PollError (errEmptyScope ''meshcore geofence''), s, reg)
     else if poll_deaf snap brokers
     then (PollError (''meshcore: no broker delivering and no reporter live; not asserting node disappearance'' @
             (case brokerErr of Some e \<Rightarrow> '' ('' @ e @ '')'' | None \<Rightarrow> [])), s, reg)
     else
       let (expired, s) = expiredNodes env s;
           p = withExpired prior expired;
           (relays, reg) = drain_relays env p expired reg;
           (relaySeen, s) = noteRelays cfg relays (nv_now env) s;
           (nodes, reg) = take_snapshot env (delivering > 0 \<or> sm_packetLive snap > 0) reg;
           merged = merge_nodes cfg env p reg snap nodes relaySeen;
           built = map (buildEvent cfg env push p (sm_monitorSilent snap)) merged;
           events = sort_key e_id built;
           promotions = promotedPrefixKeys merged p;
           perSource = (case brokerErr of None \<Rightarrow> reporterHealth snap | Some e \<Rightarrow> (reporterHealth snap)(meshSourceID \<mapsto> e));
           (obs, reg) = drainObservations reg;
           (activity, s) = meshActivity merged p relays s
       in (PollOK \<lparr>pr_events = events, pr_perSource = perSource,
             pr_sweepSuppress = (if sm_suppressSweep snap then [meshSourceID] else []),
             pr_superseded = supersededIDs promotions, pr_observations = obs, pr_activity = activity,
             pr_activityUnwritten = True, pr_telemetry = meshTelemetrySamples events (nv_now env), pr_renames = promotions,
             pr_forceWrite = map e_id (filter (shouldPersistTelemetry cfg env p) built)\<rparr>, s, reg))"

end
