(* ===== verification/MeshNormalizerProps.thy ===== *)
theory MeshNormalizerProps
  imports MeshNormalizer SchedulerProps PushIngestProps
begin

text \<open>
  What makes the mesh normalizer correct: a deaf poll asserts nothing and forgets nothing, the nodes of a poll are exactly
  those the adverts, the monitors and the relays give, a new event needs an attested advert, and a node that is only heard
  again is no revision.
\<close>

section \<open>A poll that hears nothing\<close>

definition no_scope :: "norm_cfg \<Rightarrow> registry option \<Rightarrow> bool" where
  "no_scope cfg reg \<longleftrightarrow> reg \<noteq> None \<and> geofence cfg = []"

lemma Poll_fails:
  assumes "no_scope cfg reg \<or> poll_deaf (snapshot_of env push) (broker_healths env reg)"
  shows "\<exists>e. Poll cfg env push prior (s, reg) = (PollError e, s, reg)"
  using assms by (auto simp: Poll_def no_scope_def Let_def split: prod.split)

text \<open>The parts of a poll that goes ahead, by name.\<close>

definition poll_prior :: "norm_env \<Rightarrow> prior_events \<Rightarrow> norm_state \<Rightarrow> prior_events" where
  "poll_prior env prior s = withExpired prior (fst (expiredNodes env s))"

definition poll_relays :: "norm_env \<Rightarrow> prior_events \<Rightarrow> norm_state \<Rightarrow> registry option \<Rightarrow> (string \<times> time) list \<times> registry option" where
  "poll_relays env prior s reg = drain_relays env (poll_prior env prior s) (fst (expiredNodes env s)) reg"

definition poll_seen :: "norm_cfg \<Rightarrow> norm_env \<Rightarrow> prior_events \<Rightarrow> norm_state \<Rightarrow> registry option \<Rightarrow> (string \<times> time) list \<times> norm_state" where
  "poll_seen cfg env prior s reg =
     noteRelays cfg (fst (poll_relays env prior s reg)) (nv_now env) (snd (expiredNodes env s))"

definition poll_nodes :: "norm_env \<Rightarrow> push_state option \<Rightarrow> prior_events \<Rightarrow> norm_state \<Rightarrow> registry option \<Rightarrow>
    node_state list \<times> registry option" where
  "poll_nodes env push prior s reg =
     take_snapshot env (fst (brokerDelivery (broker_healths env reg)) > 0 \<or> sm_packetLive (snapshot_of env push) > 0)
       (snd (poll_relays env prior s reg))"

definition poll_merged :: "norm_cfg \<Rightarrow> norm_env \<Rightarrow> push_state option \<Rightarrow> prior_events \<Rightarrow> norm_state \<Rightarrow> registry option \<Rightarrow>
    merged_node list" where
  "poll_merged cfg env push prior s reg =
     merge_nodes cfg env (poll_prior env prior s) (snd (poll_nodes env push prior s reg)) (snapshot_of env push)
       (fst (poll_nodes env push prior s reg)) (fst (poll_seen cfg env prior s reg))"

lemma Poll_goes:
  assumes "\<not> (no_scope cfg reg \<or> poll_deaf (snapshot_of env push) (broker_healths env reg))"
  obtains r where "Poll cfg env push prior (s, reg) =
      (PollOK r, snd (meshActivity (poll_merged cfg env push prior s reg) (poll_prior env prior s)
         (fst (poll_relays env prior s reg)) (snd (poll_seen cfg env prior s reg))),
       snd (drainObservations (snd (poll_nodes env push prior s reg))))"
    and "pr_events r = sort_key e_id (map (buildEvent cfg env push (poll_prior env prior s) (sm_monitorSilent (snapshot_of env push)))
         (poll_merged cfg env push prior s reg))"
    and "pr_perSource r = (case snd (brokerDelivery (broker_healths env reg)) of
         None \<Rightarrow> reporterHealth (snapshot_of env push)
       | Some e \<Rightarrow> (reporterHealth (snapshot_of env push))(meshSourceID \<mapsto> e))"
    and "pr_sweepSuppress r = (if sm_suppressSweep (snapshot_of env push) then [meshSourceID] else [])"
    and "pr_renames r = promotedPrefixKeys (poll_merged cfg env push prior s reg) (poll_prior env prior s)"
    and "pr_superseded r = supersededIDs (pr_renames r)"
    and "pr_activity r = fst (meshActivity (poll_merged cfg env push prior s reg) (poll_prior env prior s)
         (fst (poll_relays env prior s reg)) (snd (poll_seen cfg env prior s reg)))"
    and "pr_telemetry r = meshTelemetrySamples (pr_events r) (nv_now env)"
proof -
  let ?r = "case fst (Poll cfg env push prior (s, reg)) of PollOK r \<Rightarrow> r"
  have deaf: "\<not> poll_deaf (snapshot_of env push) (broker_healths env reg)" and "reg = None \<or> geofence cfg \<noteq> []"
    using assms by (auto simp: no_scope_def)
  from this(2) show ?thesis
  proof
    assume "reg = None"
    with deaf show ?thesis
      by (intro that [of ?r])
        (simp_all add: Poll_def Let_def poll_prior_def poll_relays_def poll_seen_def poll_nodes_def poll_merged_def split: prod.split)
  next
    assume "geofence cfg \<noteq> []"
    with deaf show ?thesis
      by (intro that [of ?r])
        (simp_all add: Poll_def Let_def poll_prior_def poll_relays_def poll_seen_def poll_nodes_def poll_merged_def split: prod.split)
  qed
qed


section \<open>Which nodes a poll presents\<close>

definition last_heard :: "bbox list \<Rightarrow> string list \<Rightarrow> node_state list \<Rightarrow> string \<Rightarrow> node_state option" where
  "last_heard boxes enum nodes k = find (\<lambda>nd. ns_pubKey nd = k) (rev (filter (in_scope boxes enum) nodes))"

lemma find_append: "find P (xs @ ys) = (case find P xs of Some x \<Rightarrow> Some x | None \<Rightarrow> find P ys)"
  by (induction xs) auto

lemma heard_fold:
  "tbl_get mg_key k (fold (\<lambda>nd t. tbl_put mg_key ((fresh_node (ns_pubKey nd))\<lparr>mg_mqtt := Some nd\<rparr>) t) nds t) =
     (case find (\<lambda>nd. ns_pubKey nd = k) (rev nds) of
        Some nd \<Rightarrow> Some ((fresh_node k)\<lparr>mg_mqtt := Some nd\<rparr>) | None \<Rightarrow> tbl_get mg_key k t)"
  by (induction nds arbitrary: t) (auto simp: find_append fresh_node_def split: option.split)

lemma heard_ok: "tbl_ok mg_key (heard_nodes boxes enum nodes)"
proof -
  have "tbl_ok mg_key t \<Longrightarrow> tbl_ok mg_key (fold (\<lambda>nd t. tbl_put mg_key ((fresh_node (ns_pubKey nd))\<lparr>mg_mqtt := Some nd\<rparr>) t) nds t)"
    for nds t by (induction nds arbitrary: t) simp_all
  then show ?thesis by (simp add: heard_nodes_def)
qed

lemma heard_get:
  "tbl_get mg_key k (heard_nodes boxes enum nodes) =
     map_option (\<lambda>nd. (fresh_node k)\<lparr>mg_mqtt := Some nd\<rparr>) (last_heard boxes enum nodes k)"
  by (simp add: heard_nodes_def heard_fold last_heard_def split: option.split)

lemma mg_key_fresh [simp]: "mg_key (fresh_node k) = k"
  by (simp add: fresh_node_def)

lemma reports_ok: "tbl_ok mg_key t \<Longrightarrow> tbl_ok mg_key (fold (add_report f) reps t)"
  by (induction reps arbitrary: t) (simp_all add: add_report_def Let_def)

lemma report_key: "mg_key (case tbl_get mg_key k t of None \<Rightarrow> fresh_node k | Some m \<Rightarrow> m) = k"
  by (auto split: option.split dest: tbl_get_Some)

lemma report_one:
  "tbl_get mg_key k (add_report f rep t) =
     (if f (mr_nodeID rep) \<noteq> k then tbl_get mg_key k t
      else Some (let m = (case tbl_get mg_key k t of Some m \<Rightarrow> m | None \<Rightarrow> fresh_node k) in m\<lparr>mg_pushed := mg_pushed m @ [rep]\<rparr>))"
  using report_key [of "f (mr_nodeID rep)" t] by (auto simp: add_report_def Let_def)

lemma reports_get:
  "tbl_get mg_key k (fold (add_report f) reps t) =
     (let rs = filter (\<lambda>rep. f (mr_nodeID rep) = k) reps in
      case tbl_get mg_key k t of
        Some m \<Rightarrow> Some (m\<lparr>mg_pushed := mg_pushed m @ rs\<rparr>)
      | None \<Rightarrow> if rs = [] then None else Some ((fresh_node k)\<lparr>mg_pushed := rs\<rparr>))"
proof (induction reps arbitrary: t)
  case (Cons rep reps)
  have "fold (add_report f) (rep # reps) t = fold (add_report f) reps (add_report f rep t)" by simp
  then show ?case
    by (simp only: Cons report_one) (simp add: Let_def fresh_node_def split: option.split)
qed (simp split: option.split)

lemma relayed_ok: "tbl_ok mg_key t \<Longrightarrow> tbl_ok mg_key (fold (add_relayed boxes enum p) seen t)"
  by (induction seen arbitrary: t) (auto simp: add_relayed_def split: option.split)

lemma relayed_one:
  "tbl_get mg_key k (add_relayed boxes enum p (j, c) t) =
     (if j \<noteq> k then tbl_get mg_key k t
      else case tbl_get mg_key k t of
        Some m \<Rightarrow> Some (m\<lparr>mg_relayedAt := c\<rparr>)
      | None \<Rightarrow> if relay_in_scope boxes enum p k then Some ((fresh_node k)\<lparr>mg_relayedAt := c\<rparr>) else None)"
  by (auto simp: add_relayed_def split: option.split dest: tbl_get_Some)

lemma relayed_get:
  "tbl_ok fst seen \<Longrightarrow> tbl_get mg_key k (fold (add_relayed boxes enum p) seen t) =
     (case tbl_get fst k seen of
        None \<Rightarrow> tbl_get mg_key k t
      | Some (_, c) \<Rightarrow> (case tbl_get mg_key k t of
          Some m \<Rightarrow> Some (m\<lparr>mg_relayedAt := c\<rparr>)
        | None \<Rightarrow> if relay_in_scope boxes enum p k then Some ((fresh_node k)\<lparr>mg_relayedAt := c\<rparr>) else None))"
proof (induction seen arbitrary: t)
  case (Cons x seen)
  obtain j c where x: "x = (j, c)" by fastforce
  have ok: "tbl_ok fst seen" and j: "j \<notin> fst ` set seen" using Cons.prems x by (simp_all add: tbl_ok_Cons)
  show ?case
  proof (cases "j = k")
    case True
    then have "tbl_get fst k seen = None" using j by (simp add: tbl_get_None)
    then show ?thesis by (simp add: Cons.IH [OF ok] True x relayed_one)
  next
    case False
    then show ?thesis by (simp add: Cons.IH [OF ok] False x relayed_one split: option.split)
  qed
qed simp

lemma merged_get:
  assumes "tbl_ok fst seen"
  shows "tbl_ok mg_key (merge_nodes cfg env p reg snap nodes seen) \<and>
    tbl_get mg_key k (merge_nodes cfg env p reg snap nodes seen) =
     (let boxes = geofence cfg; enum = enumerated snap; nd = last_heard boxes enum nodes k;
          catalog = fullKeyCatalog (heard_nodes boxes enum nodes) p;
          rs = filter (\<lambda>rep. resolve_key catalog reg (mr_nodeID rep) = k) (sm_reports snap);
          credit = (case tbl_get fst k seen of Some (_, c) \<Rightarrow> c | None \<Rightarrow> zeroTime);
          node = \<lparr>mg_key = k, mg_mqtt = nd, mg_pushed = rs, mg_relayedAt = credit\<rparr>
      in if nd \<noteq> None \<or> (rs \<noteq> [] \<and> monitorHolds cfg p (nv_now env) node) then Some node
         else if tbl_get fst k seen \<noteq> None \<and> relay_in_scope boxes enum p k then Some (node\<lparr>mg_pushed := []\<rparr>)
         else None)"
proof -
  let ?boxes = "geofence cfg" and ?enum = "enumerated snap"
  let ?resolve = "resolve_key (fullKeyCatalog (heard_nodes ?boxes ?enum nodes) p) reg"
  let ?reported = "fold (add_report ?resolve) (sm_reports snap) (heard_nodes ?boxes ?enum nodes)"
  let ?rs = "filter (\<lambda>rep. ?resolve (mr_nodeID rep) = k) (sm_reports snap)"
  let ?holds = "\<lambda>m. mg_mqtt m \<noteq> None \<or> monitorHolds cfg p (nv_now env) m"
  have merge: "merge_nodes cfg env p reg snap nodes seen = fold (add_relayed ?boxes ?enum p) seen (filter ?holds ?reported)"
    by (simp add: merge_nodes_def Let_def)
  have held: "monitorHolds cfg p t \<lparr>mg_key = k, mg_mqtt = nd, mg_pushed = rs, mg_relayedAt = c\<rparr> =
      monitorHolds cfg p t \<lparr>mg_key = k, mg_mqtt = nd, mg_pushed = rs, mg_relayedAt = zeroTime\<rparr>" for t nd rs c
    by (simp add: monitorHolds_def)
  have "tbl_get mg_key k (filter ?holds ?reported) =
      (case tbl_get mg_key k ?reported of Some m \<Rightarrow> if ?holds m then Some m else None | None \<Rightarrow> None)"
    by (rule tbl_get_filter) (simp add: reports_ok heard_ok)
  also have "tbl_get mg_key k ?reported = (case last_heard ?boxes ?enum nodes k of
      Some nd \<Rightarrow> Some \<lparr>mg_key = k, mg_mqtt = Some nd, mg_pushed = ?rs, mg_relayedAt = zeroTime\<rparr>
    | None \<Rightarrow> if ?rs = [] then None else Some \<lparr>mg_key = k, mg_mqtt = None, mg_pushed = ?rs, mg_relayedAt = zeroTime\<rparr>)"
    by (simp add: reports_get heard_get Let_def fresh_node_def split: option.split)
  finally have *: "tbl_get mg_key k (filter ?holds ?reported) = (let m = \<lparr>mg_key = k, mg_mqtt = last_heard ?boxes ?enum nodes k, mg_pushed = ?rs, mg_relayedAt = zeroTime\<rparr>
      in if last_heard ?boxes ?enum nodes k \<noteq> None \<or> (?rs \<noteq> [] \<and> monitorHolds cfg p (nv_now env) m) then Some m else None)"
    by (cases "last_heard ?boxes ?enum nodes k") (simp_all add: Let_def)
  have **: "tbl_ok mg_key (merge_nodes cfg env p reg snap nodes seen)"
    by (simp add: merge relayed_ok tbl_ok_filter reports_ok heard_ok)
  show ?thesis
  proof (cases "tbl_get fst k seen")
    case (Some jc)
    obtain j c where "jc = (j, c)" by fastforce
    with Some * ** show ?thesis
      by (cases "last_heard ?boxes ?enum nodes k")
        (simp_all add: merge relayed_get [OF assms] Let_def fresh_node_def held [of "nv_now env" None ?rs c])
  qed (use * ** in \<open>cases "last_heard ?boxes ?enum nodes k"; simp add: merge relayed_get [OF assms] Let_def fresh_node_def\<close>)
qed


section \<open>The normalizer's memory\<close>

definition norm_ok :: "norm_cfg \<Rightarrow> norm_state \<Rightarrow> bool" where
  "norm_ok cfg s \<longleftrightarrow> tbl_ok fst (nx_relaySeen s) \<and> tbl_ok ac_pubKey (nx_activity s) \<and>
     (RelayPresenceWindow cfg \<le> 0 \<longrightarrow> nx_relaySeen s = [])"

lemma seen_fold_ok: "tbl_ok fst m \<Longrightarrow> tbl_ok fst (fold (\<lambda>(k, t) m. case tbl_get fst k m of
     Some (_, old) \<Rightarrow> if t > old then tbl_put fst (k, t) m else m
   | None \<Rightarrow> if t > zeroTime then tbl_put fst (k, t) m else m) relays m)"
  by (induction relays arbitrary: m) (auto split: option.split)

lemma noteRelays_ok: "norm_ok cfg s \<Longrightarrow> norm_ok cfg (snd (noteRelays cfg relays now s))"
  by (simp add: noteRelays_def norm_ok_def Let_def tbl_ok_filter seen_fold_ok case_prod_beta)


lemma expiredNodes_ok: "norm_ok cfg (snd (expiredNodes env s)) = norm_ok cfg s"
  by (auto simp: expiredNodes_def norm_ok_def Let_def split: option.split sum.split)

lemma advance_ok: "tbl_ok ac_pubKey ks \<Longrightarrow> tbl_ok ac_pubKey (snd (fold advance_clock acts (out, ks)))"
proof (induction acts arbitrary: out ks)
  case (Cons a acts)
  obtain out' ks' where step: "advance_clock a (out, ks) = (out', ks')" by fastforce
  then have "tbl_ok ac_pubKey ks'" using Cons.prems by (auto simp: advance_clock_def Let_def split: if_splits)
  then show ?case using Cons.IH step by simp
qed simp

lemma meshActivity_ok: "norm_ok cfg s \<Longrightarrow> norm_ok cfg (snd (meshActivity merged p relays s))"
  by (simp add: meshActivity_def norm_ok_def Let_def case_prod_beta advance_ok)

lemma Poll_ok: "norm_ok cfg s \<Longrightarrow> norm_ok cfg (fst (snd (Poll cfg env push prior (s, reg))))"
proof (cases "no_scope cfg reg \<or> poll_deaf (snapshot_of env push) (broker_healths env reg)")
  case True
  then obtain e where "Poll cfg env push prior (s, reg) = (PollError e, s, reg)" using Poll_fails by blast
  then show "norm_ok cfg s \<Longrightarrow> ?thesis" by simp
next
  case False
  assume "norm_ok cfg s"
  then have "norm_ok cfg (snd (poll_seen cfg env prior s reg))"
    by (simp add: poll_seen_def noteRelays_ok expiredNodes_ok)
  from meshActivity_ok [OF this] show ?thesis using Poll_goes [OF False, of prior s] by (metis fst_conv snd_conv)
qed

lemma poll_merged_ok:
  "norm_ok cfg s \<Longrightarrow> tbl_ok mg_key (poll_merged cfg env push prior s reg)"
  by (simp add: poll_merged_def merge_nodes_def Let_def relayed_ok tbl_ok_filter reports_ok heard_ok)

section \<open>Only an advert makes an event\<close>








lemma buildEvent_fields:
  "e_id (buildEvent cfg env push p quiet m) = mesh_id (mg_key m)"
  "e_category (buildEvent cfg env push p quiet m) = snd (identity_of m (mesh_of (priorByID p (mesh_id (mg_key m)))) (sorted_reports (mg_pushed m)))"
  "e_geometry (buildEvent cfg env push p quiet m) = node_geometry env p m"
  "e_detail (buildEvent cfg env push p quiet m) =
     MeshD (detail_of cfg env m (mesh_of (priorByID p (mesh_id (mg_key m)))) (sorted_reports (mg_pushed m)) quiet)"
  "e_provenance (buildEvent cfg env push p quiet m) = Some (mesh_provenance_of cfg env push p m)"
  "e_layer (buildEvent cfg env push p quiet m) = MESH" "e_status (buildEvent cfg env push p quiet m) = ST_ACTIVE"
  by (simp_all add: buildEvent_def Let_def NewEvent_def split: prod.split)



section \<open>What the scheduler may conclude\<close>


lemma sorted_ids: "distinct (map e_id evs) \<Longrightarrow> sorted_wrt (<) (map e_id (sort_key e_id evs))"
  by (simp add: strict_sorted_iff distinct_map)


text \<open>
  C25: every poll that goes ahead returns its events in strict order of their ids, so no id twice, all active mesh events of
  the one source \<open>meshcore\<close> whichever input gave them; and the normalizer's memory stays sound, from the fresh normalizer on.
\<close>

theorem polled_events_sound:
  "norm_ok cfg NewNetworkNormalizer \<and>
   (norm_ok cfg s \<longrightarrow>
      norm_ok cfg (fst (snd (Poll cfg env push prior (s, reg)))) \<and>
      (\<forall>r. fst (Poll cfg env push prior (s, reg)) = PollOK r \<longrightarrow>
         sorted_wrt (<) (map e_id (pr_events r)) \<and>
         (\<forall>ev \<in> set (pr_events r). (\<exists>key. e_id ev = mesh_id key) \<and> e_layer ev = MESH \<and> e_status ev = ST_ACTIVE \<and>
            source_id ev = meshSourceID)))"
proof (intro conjI impI allI)
  show "norm_ok cfg NewNetworkNormalizer" by (simp add: norm_ok_def NewNetworkNormalizer_def)
  assume ok: "norm_ok cfg s"
  then show "norm_ok cfg (fst (snd (Poll cfg env push prior (s, reg))))" by (rule Poll_ok)
  fix r
  assume r: "fst (Poll cfg env push prior (s, reg)) = PollOK r"
  then have goes: "\<not> (no_scope cfg reg \<or> poll_deaf (snapshot_of env push) (broker_healths env reg))"
    using Poll_fails [of cfg reg env push prior s] by auto
  let ?merged = "poll_merged cfg env push prior s reg"
  let ?build = "buildEvent cfg env push (poll_prior env prior s) (sm_monitorSilent (snapshot_of env push))"
  have events: "pr_events r = sort_key e_id (map ?build ?merged)"
    by (rule Poll_goes [OF goes, of prior s]) (use r in simp)
  have "distinct (map mg_key ?merged)" using poll_merged_ok [OF ok] by (simp add: tbl_ok_def)
  then have "distinct (map mesh_id (map mg_key ?merged))" by (auto simp: distinct_map inj_on_def mesh_id_def)
  then have "distinct (map e_id (map ?build ?merged))" by (simp add: buildEvent_fields comp_def)
  then show "sorted_wrt (<) (map e_id (pr_events r))" unfolding events by (rule sorted_ids)
  have "source_id (?build m) = meshSourceID" for m
    by (auto simp: source_id_def buildEvent_fields mesh_provenance_of_def keepPriorAttribution_def meshProvenance_def
        NewProvenance_def Let_def split: option.split prod.split)
  then show "\<forall>ev \<in> set (pr_events r). (\<exists>key. e_id ev = mesh_id key) \<and> e_layer ev = MESH \<and> e_status ev = ST_ACTIVE \<and>
      source_id ev = meshSourceID"
    by (auto simp: events buildEvent_fields)
qed

section \<open>A node heard again is no revision\<close>







lemma sorted_reports_Nil [simp]: "sorted_reports [] = []"
  by (simp add: sorted_reports_def)



section \<open>Two ways a monitor is lost\<close>

text \<open>
  A relayed node loses what its monitor says. Where the registry has forgotten a node, its monitor reports that it cannot be
  reached, and other nodes relay through it, the relay keeps it on the map but the reports that were merged for it are gone:
  it is written without reachability and without telemetry.
\<close>

theorem relayed_node_loses_monitor:
  assumes "tbl_ok fst seen" and "tbl_get fst k seen \<noteq> None" and "relay_in_scope (geofence cfg) (enumerated snap) p k"
    and "last_heard (geofence cfg) (enumerated snap) nodes k = None"
    and "\<And>m. mg_pushed m = filter (\<lambda>rep. resolve_key (fullKeyCatalog (heard_nodes (geofence cfg) (enumerated snap) nodes) p) reg
           (mr_nodeID rep) = k) (sm_reports snap) \<Longrightarrow> \<not> monitorHolds cfg p (nv_now env) m"
  shows "\<exists>m d t. tbl_get mg_key k (merge_nodes cfg env p reg snap nodes seen) = Some m \<and> mg_pushed m = [] \<and>
     e_detail (buildEvent cfg env push p False m) = MeshD d \<and> md_reachability d = REACHABILITY_UNSPECIFIED \<and>
     md_telemetry d = Some t \<and> mt_admin t = None"
proof -
  obtain m where m: "tbl_get mg_key k (merge_nodes cfg env p reg snap nodes seen) = Some m" "mg_pushed m = []" "mg_mqtt m = None"
    using merged_get [OF assms(1), of cfg env p reg snap nodes k] assms(2-5) by (auto simp: Let_def)
  let ?stored = "mesh_of (priorByID p (mesh_id (mg_key m)))"
  have "md_reachability (detail_of cfg env m ?stored [] False) = REACHABILITY_UNSPECIFIED"
    by (simp add: detail_of_def reachability_of_def Let_def isZero_def split: prod.split)
  moreover have "mt_admin (carried_signal t) = None" for t
    by (auto simp: carried_signal_def emptyTelemetry_def split: option.split)
  then have "\<exists>t. md_telemetry (detail_of cfg env m ?stored [] False) = Some t \<and> mt_admin t = None"
    by (simp add: detail_of_def m(3) meshTelemetry_def signal_block_def best_report_def Let_def split: prod.split)
  ultimately show ?thesis using m by (auto simp: buildEvent_fields)
qed

section \<open>Examples\<close>

definition demo_norm :: norm_cfg where
  "demo_norm = \<lparr>nc_nodeURL = [], nc_relayPresence = 0, nc_graceFloor = 0,
     nc_bounds = [\<lparr>minLat = 37, minLng = -121, maxLat = 40, maxLng = -119\<rparr>], nc_areaBounds = [],
     nc_brokerOps = [(''b'', ''Ann'', [])], nc_unreachableAfter = 0, nc_telemetryPersistInterval = 0\<rparr>"

definition demo_world :: "time \<Rightarrow> (bool \<times> broker_link) list \<Rightarrow> norm_env" where
  "demo_world now links = \<lparr>nv_now = now, nv_cos = (\<lambda>_. 1), nv_point = (\<lambda>_ _. ''pt''), nv_stamp = (\<lambda>_. ''then''), nv_ago = (\<lambda>_. ''long''),
     nv_links = links, nv_catalog = None\<rparr>"

definition demo_link :: "string \<Rightarrow> broker_link" where
  "demo_link u = \<lparr>bl_url = u, bl_startedAt = 0, bl_lastMsg = 5\<rparr>"

definition demo_heard :: "rat \<Rightarrow> rat \<Rightarrow> int \<Rightarrow> merged_node" where
  "demo_heard la snr rssi = (fresh_node (demo_key CHR ''1''))\<lparr>mg_mqtt := Some (empty_state\<lparr>ns_pubKey := demo_key CHR ''1'',
     ns_role := ''repeater'', ns_name := [66, 79], ns_hasLocation := True, ns_lat := la, ns_lng := -120, ns_brokers := [''b''],
     ns_snr := snr, ns_rssi := rssi, ns_hasSignal := True\<rparr>)\<rparr>"

definition no_prior :: prior_events where
  "no_prior = \<lparr>pe_byID = Map.empty, pe_bySource = (\<lambda>_. [])\<rparr>"

text \<open>The event of the node's first advert, and what is known once it is stored.\<close>

definition demo_first :: event where
  "demo_first = buildEvent demo_norm (demo_world 10 []) None no_prior False (demo_heard 38 5 (-90))"



text \<open>Two full keys share a prefix: the report of the prefix is not attributed, but the prefix is promoted to the first of them.\<close>

theorem ambiguous_prefix_promoted:
  "resolveUnique (fullKeyCatalog [fresh_node (demo_key CHR ''1''), fresh_node (demo_key CHR ''2'')] no_prior) ''3c'' = ([], False) \<and>
   promotedPrefixKeys [fresh_node (demo_key CHR ''1''), fresh_node (demo_key CHR ''2'')]
     (no_prior\<lparr>pe_bySource := (\<lambda>_. [demo_first\<lparr>e_id := mesh_id ''3c''\<rparr>])\<rparr>) = [(''3c'', demo_key CHR ''1'')] \<and>
   promotedPrefixKeys [fresh_node (demo_key CHR ''2''), fresh_node (demo_key CHR ''1'')]
     (no_prior\<lparr>pe_bySource := (\<lambda>_. [demo_first\<lparr>e_id := mesh_id ''3c''\<rparr>])\<rparr>) = [(''3c'', demo_key CHR ''2'')]"
  by code_simp

definition demo_poll :: "poll_outcome \<times> norm_state \<times> registry option" where
  "demo_poll = Poll demo_norm (demo_world 10 [(True, demo_link ''b''), (False, demo_link ''c'')]) None no_prior
     (NewNetworkNormalizer, Some (Seed [demo_seed] (NewRegistry demo_config)))"

definition ids_of :: "poll_outcome \<Rightarrow> string list" where
  "ids_of out = (case out of PollOK r \<Rightarrow> map e_id (pr_events r) | _ \<Rightarrow> [])"

lemma demo_poll_ids: "ids_of (fst demo_poll) = [mesh_id (demo_key CHR ''1'')]"
  by code_simp

lemma demo_poll_goes:
  obtains r s' reg' ev where "demo_poll = (PollOK r, s', reg')" "ev \<in> set (pr_events r)" "e_id ev = mesh_id (demo_key CHR ''1'')"
proof -
  obtain out s' reg' where d: "demo_poll = (out, s', reg')" by (metis prod_cases3)
  have "ids_of out = [mesh_id (demo_key CHR ''1'')]" using demo_poll_ids by (simp add: d)
  then obtain r where "out = PollOK r" "map e_id (pr_events r) = [mesh_id (demo_key CHR ''1'')]"
    by (cases out) (auto simp: ids_of_def)
  then show ?thesis using that d by (cases "pr_events r") auto
qed



theorem polled_events_sound_witness:
  "\<exists>r s' reg' ev. demo_poll = (PollOK r, s', reg') \<and> ev \<in> set (pr_events r) \<and> e_layer ev = MESH \<and> source_id ev = meshSourceID"
proof (rule demo_poll_goes)
  fix r s' reg' ev
  assume d: "demo_poll = (PollOK r, s', reg')" "ev \<in> set (pr_events r)"
  then show ?thesis
    using polled_events_sound [of demo_norm NewNetworkNormalizer "demo_world 10 [(True, demo_link ''b''), (False, demo_link ''c'')]" None
        no_prior "Some (Seed [demo_seed] (NewRegistry demo_config))"]
    unfolding demo_poll_def by fastforce
qed


text \<open>A stored mesh event, and a poll in which one broker is deaf and nothing is heard.\<close>

definition demo_event :: event where
  "demo_event = ex_quake\<lparr>e_id := mesh_id (demo_key CHR ''2''), e_layer := MESH, e_provenance := Some (NewProvenance 0 meshSourceID [] [] [])\<rparr>"

definition demo_row :: event_row where
  "demo_row = content_row (demo_event\<lparr>e_revision := 1, e_ingestedAt := Some 0\<rparr>) (ContentHash ex_hash demo_event) 0 0 None"


lemma demo_row_fields [simp]: "er_id demo_row = e_id demo_event" "er_source demo_row = meshSourceID" "er_revision demo_row = 1"
  by (simp_all add: demo_row_def demo_event_def content_row_def source_id_def NewProvenance_def)






end
