(* ===== verification/Wildfire.thy ===== *)
theory Wildfire
  imports Ingest
begin

text \<open>
  The wildfire normalizer, \<open>internal/ingest/wildfire.go\<close>: the incidents of CAL FIRE joined by name with the perimeters of
  the combo feed, which are first collapsed to one per fire. The answers of the two clients, the JSON reader and the clock are
  the world of a poll; one instant stands for the readings of the clock. A Go map is a function with the list of its keys in
  the order they were added. \<open>PercentContained\<close> is an \<open>int32\<close> that is only compared and printed.
\<close>

section \<open>Feeds, configuration and state\<close>

record incident =
  in_UniqueID :: string
  in_Name :: string
  in_County :: string
  in_Location :: string
  in_Acres :: rat
  in_PercentContained :: int
  in_Lat :: rat
  in_Lng :: rat
  in_Started :: time
  in_Updated :: time
  in_URL :: string

record perimeter =
  pm_IncidentName :: string
  pm_Mission :: string
  pm_IncidentNumber :: string
  pm_Acres :: rat
  pm_DateCurrent :: time
  pm_Source :: string
  pm_Status :: string
  pm_GeometryType :: string
  pm_GeometryCoords :: string

record fire_cfg =
  fc_areas :: "bbox list"
  fc_marginDegrees :: rat

definition Margin :: "fire_cfg \<Rightarrow> rat" where
  "Margin c = (if fc_marginDegrees c > 0 then fc_marginDegrees c else 1 / 2)"

definition wildfireScope :: "fire_cfg \<Rightarrow> bbox option" where
  "wildfireScope c = (case unionBounds (fc_areas c) of
     None \<Rightarrow> None
   | Some u \<Rightarrow> (let m = Margin c in
       Some \<lparr>minLat = max (minLat u - m) (-90), minLng = max (minLng u - m) (-180),
             maxLat = min (maxLat u + m) 90, maxLng = min (maxLng u + m) 180\<rparr>))"

record fire_state =
  fs_lastPerimEdit :: time
  fs_cachedPerims :: "perimeter list"
  fs_lastPerimFetch :: time
  fs_havePerimCache :: bool

definition NewWildfireNormalizer :: fire_state where
  "NewWildfireNormalizer = \<lparr>fs_lastPerimEdit = zeroTime, fs_cachedPerims = [], fs_lastPerimFetch = zeroTime, fs_havePerimCache = False\<rparr>"

record fire_world =
  fw_now :: time
  fw_incidents :: "incident list result"
  fw_lastEdit :: "time result"
  fw_perimeters :: "bbox \<Rightarrow> perimeter list result"
  fw_point :: "rat \<Rightarrow> rat \<Rightarrow> string"
  fw_unmarshal :: "string \<Rightarrow> (string \<times> json option) result"
  fw_quote :: "string \<Rightarrow> string"

definition maxPerimCacheAge :: duration where "maxPerimCacheAge = 6 * hour"

text \<open>The perimeters of this tick, with the cache after it.\<close>

definition gatedPerimeters :: "fire_world \<Rightarrow> bbox \<Rightarrow> fire_state \<Rightarrow> perimeter list result \<times> fire_state" where
  "gatedPerimeters w b s =
     (case fw_lastEdit w of
        Inl _ \<Rightarrow> (fw_perimeters w b, s)
      | Inr edit \<Rightarrow>
          if fs_havePerimCache s \<and> edit = fs_lastPerimEdit s \<and> fw_now w - fs_lastPerimFetch s \<le> maxPerimCacheAge
          then (Inr (fs_cachedPerims s), s)
          else (case fw_perimeters w b of
                  Inl e \<Rightarrow> (Inl e, s)
                | Inr perims \<Rightarrow>
                    if perims = [] then (Inr perims, s)
                    else (Inr perims, \<lparr>fs_lastPerimEdit = edit, fs_cachedPerims = perims, fs_lastPerimFetch = fw_now w,
                                        fs_havePerimCache = True\<rparr>)))"

section \<open>Names\<close>

text \<open>\<open>strings.TrimSuffix\<close>\<close>

definition trimSuffix :: "string \<Rightarrow> string \<Rightarrow> string" where
  "trimSuffix s suf = (if hasPrefix (rev s) (rev suf) then take (length s - length suf) s else s)"

definition is_digit :: "char \<Rightarrow> bool" where "is_digit c \<longleftrightarrow> CHR ''0'' \<le> c \<and> c \<le> CHR ''9''"
definition is_lower :: "char \<Rightarrow> bool" where "is_lower c \<longleftrightarrow> CHR ''a'' \<le> c \<and> c \<le> CHR ''z''"
definition is_upper :: "char \<Rightarrow> bool" where "is_upper c \<longleftrightarrow> CHR ''A'' \<le> c \<and> c \<le> CHR ''Z''"

definition normFireName :: "string \<Rightarrow> string" where
  "normFireName s = filter (\<lambda>c. is_lower c \<or> is_digit c) (trimSuffix (trimSpace (toLower s)) '' fire'')"

definition isFlightID :: "string \<Rightarrow> bool" where
  "isFlightID tok =
     (if length tok < 2 \<or> (hd tok \<noteq> CHR ''N'' \<and> hd tok \<noteq> CHR ''n'') then False
      else list_all (\<lambda>c. is_digit c \<or> is_upper c \<or> is_lower c) (tl tok) \<and> list_ex is_digit (tl tok))"

definition nameFromMission :: "string \<Rightarrow> string" where
  "nameFromMission mission =
     (let toks = split_on CHR ''-'' (trimSpace mission) in
      if length toks < 3 \<or> toLower (hd toks) \<noteq> ''ca'' then []
      else let body = drop 2 toks;
               body = (if length body > 1 \<and> isFlightID (List.last body) then butlast body else body)
           in if length body = 1 \<and> isFlightID (hd body) then []
              else trimSpace (join_with CHR '' '' body))"

definition firisName :: "perimeter \<Rightarrow> string" where
  "firisName p = (let n = trimSpace (pm_IncidentName p) in if n \<noteq> [] then n else nameFromMission (pm_Mission p))"

section \<open>One perimeter per fire\<close>

record candidate =
  pc_perim :: perimeter
  pc_geom :: geometry
  pc_name :: string
  pc_norm :: string

abbreviation pc_number :: "candidate \<Rightarrow> string" where "pc_number c \<equiv> pm_IncidentNumber (pc_perim c)"

text \<open>A candidate's geometry is parsed, so it has a centroid.\<close>

definition cen :: "candidate \<Rightarrow> rat \<times> rat" where
  "cen c = (case gm_centroid (pc_geom c) of Some p \<Rightarrow> p | None \<Rightarrow> (0, 0))"

definition isActiveStatus :: "string \<Rightarrow> bool" where
  "isActiveStatus status \<longleftrightarrow> toLower (trimSpace status) = ''active''"

definition sourcePriority :: "string \<Rightarrow> nat" where
  "sourcePriority src = (let s = toUpper src in
     if contains s ''INTEL'' then 3 else if contains s ''FIRIS'' then 2 else if contains s ''WFIGS'' then 1 else 0)"

definition perimFresher :: "perimeter \<Rightarrow> perimeter \<Rightarrow> bool" where
  "perimFresher a b =
     (if pm_DateCurrent a \<noteq> pm_DateCurrent b then pm_DateCurrent a > pm_DateCurrent b
      else if isActiveStatus (pm_Status a) \<noteq> isActiveStatus (pm_Status b) then isActiveStatus (pm_Status a)
      else if sourcePriority (pm_Source a) \<noteq> sourcePriority (pm_Source b) then sourcePriority (pm_Source a) > sourcePriority (pm_Source b)
      else pm_Acres a > pm_Acres b)"

text \<open>The squared distance of two centroids; \<open>None\<close> is infinity.\<close>

definition centroidDistSq :: "geometry option \<Rightarrow> geometry option \<Rightarrow> rat option" where
  "centroidDistSq a b =
     (case (centroid_of a, centroid_of b) of
        (Some (ala, alo), Some (bla, blo)) \<Rightarrow> Some ((ala - bla) * (ala - bla) + (alo - blo) * (alo - blo))
      | _ \<Rightarrow> None)"

definition nearer :: "rat option \<Rightarrow> rat option \<Rightarrow> bool" where
  "nearer a b = (case (a, b) of (Some x, Some y) \<Rightarrow> x < y | (Some _, None) \<Rightarrow> True | _ \<Rightarrow> False)"

definition perimClusterThresholdSq :: rat where "perimClusterThresholdSq = (15 / 100) * (15 / 100)"

definition sameFire :: "candidate \<Rightarrow> candidate \<Rightarrow> bool" where
  "sameFire a b =
     (if pc_number a \<noteq> [] \<and> pc_number b \<noteq> [] then pc_number a = pc_number b
      else nearer (centroidDistSq (Some (pc_geom a)) (Some (pc_geom b))) (Some perimClusterThresholdSq))"

text \<open>Numbered rows first, then by number, then by centroid.\<close>

definition cluster_key :: "candidate \<Rightarrow> bool \<times> string \<times> rat \<times> rat" where
  "cluster_key c = (pc_number c = [], pc_number c, cen c)"

fun join_cluster :: "candidate \<Rightarrow> candidate list list \<Rightarrow> candidate list list" where
  "join_cluster c [] = [[c]]"
| "join_cluster c (cl # cls) = (if sameFire (hd cl) c then (cl @ [c]) # cls else cl # join_cluster c cls)"

definition clusterByCentroid :: "candidate list \<Rightarrow> candidate list list" where
  "clusterByCentroid same = fold join_cluster (sort_key cluster_key same) []"

definition best_of :: "candidate list \<Rightarrow> candidate" where
  "best_of cluster = fold (\<lambda>r best. if perimFresher (pc_perim r) (pc_perim best) then r else best) (tl cluster) (hd cluster)"

definition perim_row :: "fire_world \<Rightarrow> perimeter \<Rightarrow> candidate option" where
  "perim_row w p =
     (let name = firisName p in
      if pm_Status p \<noteq> [] \<and> \<not> isActiveStatus (pm_Status p) then None
      else if name = [] \<or> pm_GeometryType p = [] then None
      else case geometryFromTyped (fw_unmarshal w) (fw_quote w) (pm_GeometryType p) (pm_GeometryCoords p) of
             Inl _ \<Rightarrow> None
           | Inr g \<Rightarrow> Some \<lparr>pc_perim = p, pc_geom = g, pc_name = name, pc_norm = normFireName name\<rparr>)"

definition first_seen :: "string list \<Rightarrow> string list" where
  "first_seen norms = fold (\<lambda>n order. if n \<in> set order then order else order @ [n]) norms []"

definition dedupePerimeters :: "fire_world \<Rightarrow> perimeter list \<Rightarrow> candidate list" where
  "dedupePerimeters w perims =
     (let rows = List.map_filter (perim_row w) perims in
      concat (map (\<lambda>nm. map best_of (clusterByCentroid (filter (\<lambda>r. pc_norm r = nm) rows))) (first_seen (map pc_norm rows))))"

section \<open>Standalone perimeters\<close>

definition standalone_id :: "string \<Rightarrow> string" where
  "standalone_id nm = ''firis:'' @ nm"

definition isStandaloneIDForName :: "string \<Rightarrow> string \<Rightarrow> bool" where
  "isStandaloneIDForName i nm =
     (if i = standalone_id nm then True
      else case cutPrefix i (standalone_id nm @ ''-'') of
             (rest, ok) \<Rightarrow> if \<not> ok \<or> rest = [] then False else list_all is_digit rest)"

text \<open>The event whose centroid is nearest; an equal distance leaves the earlier one.\<close>

definition nearest_event :: "geometry \<Rightarrow> event \<Rightarrow> event list \<Rightarrow> event" where
  "nearest_event geom pe pes =
     fst (fold (\<lambda>x (best, bestDist). let d = centroidDistSq (e_geometry x) (Some geom) in
             if nearer d bestDist then (x, d) else (best, bestDist))
          pes (pe, centroidDistSq (e_geometry pe) (Some geom)))"

definition standaloneContinuityID :: "prior_events \<Rightarrow> string \<Rightarrow> geometry \<Rightarrow> string" where
  "standaloneContinuityID prior nm geom =
     (case filter (\<lambda>pe. isStandaloneIDForName (e_id pe) nm) (pe_bySource prior ''firis'') of
        [] \<Rightarrow> standalone_id nm
      | [pe] \<Rightarrow> e_id pe
      | pe # pes \<Rightarrow> e_id (nearest_event geom pe pes))"

text \<open>UTF-8 of the dash in the headlines\<close>

definition dash :: string where "dash = [CHR '' '', CHR 0xE2, CHR 0x80, CHR 0x94, CHR '' '']"

definition standalone_event :: "fire_world \<Rightarrow> string \<Rightarrow> candidate \<Rightarrow> event" where
  "standalone_event w i c =
     (let p = pc_perim c in
      (NewEvent i WILDFIRE (SeverityFromLabel (fromWildfire (pm_Acres p) 0)) ST_ACTIVE
         (pc_name c @ dash @ dec_text (round_even (pm_Acres p)) @ '' ac''))
      \<lparr>e_category := ''wildfire'', e_geometry := Some (pc_geom c),
       e_provenance := Some (NewProvenance (fw_now w) ''firis'' ''CAL FIRE / FIRIS'' ''CAL FIRE / FIRIS / NIFC'' []),
       e_detail := WildfireD \<lparr>wd_acres = pm_Acres p, wd_containment = 0, wd_county = [], wd_cause = [], wd_hasPerimeter = True\<rparr>\<rparr>)"

definition standalone_key :: "candidate \<Rightarrow> string \<times> rat \<times> rat" where
  "standalone_key c = (pc_norm c, cen c)"

definition open_perimeters :: "candidate list \<Rightarrow> string list \<Rightarrow> candidate list" where
  "open_perimeters deduped used = sort_key standalone_key (filter (\<lambda>c. pc_norm c \<notin> set used) deduped)"

definition suffixed_id :: "string \<Rightarrow> nat \<Rightarrow> string" where
  "suffixed_id nm n = (if n > 1 then standalone_id nm @ ''-'' @ dec_text (int n) else standalone_id nm)"

text \<open>The id of the candidate with these candidates before it and these open in all.\<close>

definition number_standalone :: "prior_events \<Rightarrow> candidate list \<Rightarrow> candidate list \<Rightarrow> candidate \<Rightarrow> string" where
  "number_standalone prior opened before c =
     (if length (filter (\<lambda>d. pc_norm d = pc_norm c) opened) = 1 then standaloneContinuityID prior (pc_norm c) (pc_geom c)
      else suffixed_id (pc_norm c) (length (filter (\<lambda>d. pc_norm d = pc_norm c) before) + 1))"

definition standalonePerimeterEvents :: "fire_world \<Rightarrow> candidate list \<Rightarrow> string list \<Rightarrow> prior_events \<Rightarrow> event list" where
  "standalonePerimeterEvents w deduped used prior =
     (let opened = open_perimeters deduped used in
      map (\<lambda>k. standalone_event w (number_standalone prior opened (take k opened) (opened ! k)) (opened ! k)) [0..<length opened])"

section \<open>Incidents\<close>

fun commas :: "string \<Rightarrow> string" where
  "commas [] = []"
| "commas (c # cs) = c # (if cs \<noteq> [] \<and> length cs mod 3 = 0 then CHR '','' # commas cs else commas cs)"

definition commaNum :: "rat \<Rightarrow> string" where
  "commaNum v =
     (let x = v + 1 / 2; n = (if x < 0 then - \<lfloor>- x\<rfloor> else \<lfloor>x\<rfloor>) in
      if n < 0 then CHR ''-'' # commas (digits (nat (- n))) else commas (digits (nat n)))"

definition inWildfireScope :: "bbox \<Rightarrow> rat \<Rightarrow> rat \<Rightarrow> geometry \<Rightarrow> bool" where
  "inWildfireScope b la lo geom =
     (if in_bounds b la lo then True
      else case gm_bbox geom of None \<Rightarrow> False | Some bb \<Rightarrow> BboxIntersects bb b)"

definition has_perimeter :: "event \<Rightarrow> bool" where
  "has_perimeter ev = (case e_detail ev of WildfireD d \<Rightarrow> wd_hasPerimeter d | _ \<Rightarrow> False)"

text \<open>The candidates by name, the last of a name winning, with the names that have several.\<close>

definition index_names :: "candidate list \<Rightarrow> (string \<rightharpoonup> candidate) \<times> string list" where
  "index_names deduped =
     fold (\<lambda>c (byName, ambiguous).
        (byName(pc_norm c \<mapsto> c), if byName (pc_norm c) \<noteq> None then pc_norm c # ambiguous else ambiguous)) deduped (Map.empty, [])"

definition incident_id :: "incident \<Rightarrow> string" where
  "incident_id inc = ''calfire:'' @ nonEmpty [in_UniqueID inc, normFireName (in_Name inc)]"

text \<open>The geometry, whether it is a perimeter and whether it was adopted.\<close>

definition incident_geometry :: "fire_world \<Rightarrow> prior_events \<Rightarrow> (string \<rightharpoonup> candidate) \<Rightarrow> string list \<Rightarrow> bool \<Rightarrow> incident \<Rightarrow>
    geometry \<times> bool \<times> bool" where
  "incident_geometry w prior byName ambiguous unusable inc =
     (let nm = normFireName (in_Name inc); point = GeometryFromPoint (fw_point w) (in_Lat inc) (in_Lng inc);
          unmatched =
            (if unusable then
               (case pe_byID prior (incident_id inc) of
                  Some pe \<Rightarrow> (case e_geometry pe of
                      Some g \<Rightarrow> if has_perimeter pe then (g, True, False) else (point, False, False)
                    | None \<Rightarrow> (point, False, False))
                | None \<Rightarrow> (point, False, False))
             else (point, False, False))
      in case byName nm of
           Some cand \<Rightarrow> if nm \<notin> set ambiguous then (pc_geom cand, True, True) else unmatched
         | None \<Rightarrow> unmatched)"

definition incident_event :: "fire_world \<Rightarrow> incident \<Rightarrow> geometry \<Rightarrow> bool \<Rightarrow> event" where
  "incident_event w inc geom perim =
     (NewEvent (incident_id inc) WILDFIRE (SeverityFromLabel (fromWildfire (in_Acres inc) (in_PercentContained inc))) ST_ACTIVE
        (in_Name inc @ dash @ commaNum (in_Acres inc) @ '' ac, '' @ dec_text (in_PercentContained inc) @ ''% contained''))
     \<lparr>e_category := ''wildfire'', e_areaLabel := nonEmpty [in_Location inc, in_County inc], e_canonicalUrl := safeURL (in_URL inc),
      e_effective := tsProto (in_Started inc), e_observedAt := tsProto (in_Updated inc),
      e_provenance := Some (NewProvenance (fw_now w) ''calfire'' ''CAL FIRE'' ''CAL FIRE / FIRIS'' (safeURL (in_URL inc))),
      e_geometry := Some geom,
      e_detail := WildfireD \<lparr>wd_acres = in_Acres inc, wd_containment = in_PercentContained inc, wd_county = in_County inc,
        wd_cause = [], wd_hasPerimeter = perim\<rparr>\<rparr>"

definition poll_incident :: "fire_world \<Rightarrow> prior_events \<Rightarrow> bbox \<Rightarrow> (string \<rightharpoonup> candidate) \<times> string list \<Rightarrow> bool \<Rightarrow> incident \<Rightarrow>
    event list \<times> string list \<Rightarrow> event list \<times> string list" where
  "poll_incident w prior scope = (\<lambda>(byName, ambiguous) unusable inc (events, used).
     if in_Lat inc = 0 \<and> in_Lng inc = 0 then (events, used)
     else case incident_geometry w prior byName ambiguous unusable inc of
       (geom, perim, adopted) \<Rightarrow>
         if \<not> inWildfireScope scope (in_Lat inc) (in_Lng inc) geom then (events, used)
         else (events @ [incident_event w inc geom perim],
               if adopted \<and> normFireName (in_Name inc) \<notin> set used then used @ [normFireName (in_Name inc)] else used))"

definition supersededStandalones :: "(string \<rightharpoonup> candidate) \<Rightarrow> string list \<Rightarrow> prior_events \<Rightarrow> string list" where
  "supersededStandalones byName used prior =
     sort (List.map_filter (\<lambda>nm. case byName nm of
         None \<Rightarrow> None
       | Some cand \<Rightarrow> (let i = standaloneContinuityID prior nm (pc_geom cand) in
                        if pe_byID prior i \<noteq> None then Some i else None)) used)"

section \<open>The poll\<close>

definition fire_result :: "event list \<Rightarrow> (string \<rightharpoonup> string) \<Rightarrow> string list \<Rightarrow> poll_result" where
  "fire_result events perSource superseded =
     \<lparr>pr_events = events, pr_perSource = perSource, pr_sweepSuppress = [], pr_superseded = superseded, pr_observations = [],
      pr_activity = [], pr_activityUnwritten = False, pr_telemetry = [], pr_renames = [], pr_forceWrite = []\<rparr>"

definition rows_of :: "'a list result \<Rightarrow> 'a list" where
  "rows_of r = (case r of Inl _ \<Rightarrow> [] | Inr xs \<Rightarrow> xs)"

definition error_of :: "'a result \<Rightarrow> string option" where
  "error_of r = (case r of Inl e \<Rightarrow> Some e | Inr _ \<Rightarrow> None)"

definition Poll_fire :: "fire_cfg \<Rightarrow> fire_world \<Rightarrow> prior_events \<Rightarrow> fire_state \<Rightarrow> poll_outcome \<times> fire_state" where
  "Poll_fire cfg w prior s =
     (case wildfireScope cfg of
        None \<Rightarrow> (PollError (errEmptyScope ''hazard areas''), s)
      | Some scope \<Rightarrow>
          (case gatedPerimeters w scope s of
             (perims, s) \<Rightarrow>
               let incidents = fw_incidents w in
               case (incidents, perims) of
                 (Inl ie, Inl pe) \<Rightarrow> (PollError (''both wildfire sources failed: calfire='' @ ie @ '' firis='' @ pe), s)
               | _ \<Rightarrow>
                   let perSource = (\<lambda>i. if i = ''calfire'' then error_of incidents else if i = ''firis'' then error_of perims else None);
                       deduped = dedupePerimeters w (rows_of perims);
                       index = index_names deduped;
                       unusable = (is_err perims \<or> deduped = []);
                       (events, used) = fold (poll_incident w prior scope index unusable) (rows_of incidents) ([], []);
                       standalone = standalonePerimeterEvents w deduped used prior;
                       standalone = (if is_err incidents
                          then filter (\<lambda>ev. e_id ev \<in> set (map e_id (pe_bySource prior ''firis''))) standalone else standalone)
                   in (PollOK (fire_result (events @ standalone) perSource (supersededStandalones (fst index) used prior)), s)))"

end
