(* ===== verification/WildfireProps.thy ===== *)
theory WildfireProps
  imports Wildfire "HOL-Library.Multiset"
begin

text \<open>
  What makes the wildfire normalizer correct: distinct fires are never collapsed, the order of the feed does not matter, a fire
  is drawn once, and an outage of either feed neither drops nor invents one.
\<close>

section \<open>Clusters\<close>

definition numbered :: "candidate \<Rightarrow> bool" where "numbered c \<longleftrightarrow> pc_number c \<noteq> []"

lemma join_mset: "mset (concat (join_cluster c cls)) = add_mset c (mset (concat cls))"
  by (induction cls) auto

lemma clusters_mset: "mset (concat (clusterByCentroid g)) = mset g"
proof -
  have "mset (concat (fold join_cluster xs cls)) = mset xs + mset (concat cls)" for xs cls
    by (induction xs arbitrary: cls) (simp_all add: join_mset)
  then show ?thesis by (simp add: clusterByCentroid_def)
qed

text \<open>The numbers in a cluster are one, that of its first row.\<close>

definition one_number :: "candidate list \<Rightarrow> bool" where
  "one_number cl \<longleftrightarrow> cl \<noteq> [] \<and> (\<forall>x \<in> set cl. numbered x \<longrightarrow> pc_number x = pc_number (hd cl))"

definition numbers :: "candidate list list \<Rightarrow> string list" where
  "numbers cls = filter (\<lambda>i. i \<noteq> []) (map (\<lambda>cl. pc_number (hd cl)) cls)"

definition apart :: "candidate list list \<Rightarrow> bool" where
  "apart cls \<longleftrightarrow> list_all one_number cls \<and> distinct (numbers cls)"

lemma numbers_simps [simp]:
  "numbers [] = []"
  "numbers (cl # cls) = (if numbered (hd cl) then pc_number (hd cl) # numbers cls else numbers cls)"
  by (simp_all add: numbers_def numbered_def)

lemma one_number_snoc:
  assumes "one_number cl" "numbered c \<longrightarrow> pc_number c = pc_number (hd cl)"
  shows "one_number (cl @ [c])" "hd (cl @ [c]) = hd cl"
  using assms by (auto simp: one_number_def)

lemma one_number_single: "one_number [c]"
  by (simp add: one_number_def)

text \<open>While only numbered rows have come, every cluster has a number.\<close>

lemma join_numbered:
  "list_all one_number cls \<Longrightarrow> list_all (\<lambda>cl. numbered (hd cl)) cls \<Longrightarrow> numbered c \<Longrightarrow> distinct (numbers cls) \<Longrightarrow>
     list_all one_number (join_cluster c cls) \<and> list_all (\<lambda>cl. numbered (hd cl)) (join_cluster c cls) \<and>
     numbers (join_cluster c cls) = (if pc_number c \<in> set (numbers cls) then numbers cls else numbers cls @ [pc_number c])"
proof (induction cls)
  case (Cons cl cls)
  then have cl: "one_number cl" "numbered (hd cl)" by simp_all
  show ?case
  proof (cases "sameFire (hd cl) c")
    case True
    then have eq: "pc_number c = pc_number (hd cl)" using cl(2) Cons.prems(3) by (simp add: sameFire_def numbered_def)
    then show ?thesis using True Cons.prems one_number_snoc [OF cl(1), of c] by simp
  next
    case False
    then have "pc_number c \<noteq> pc_number (hd cl)" using cl(2) Cons.prems(3) by (simp add: sameFire_def numbered_def)
    then show ?thesis using False Cons by simp
  qed
qed (simp add: one_number_single)

text \<open>A row without a number joins a cluster or opens one of its own.\<close>

lemma join_unnumbered:
  "list_all one_number cls \<Longrightarrow> \<not> numbered c \<Longrightarrow>
     list_all one_number (join_cluster c cls) \<and> numbers (join_cluster c cls) = numbers cls"
proof (induction cls)
  case (Cons cl cls)
  then show ?case using one_number_snoc [of cl c] by simp
qed (simp add: one_number_single)

lemma sorted_numbered:
  assumes "sorted (map cluster_key xs)"
  shows "xs = filter numbered xs @ filter (\<lambda>c. \<not> numbered c) xs"
  using assms
proof (induction xs)
  case (Cons x xs)
  show ?case
  proof (cases "numbered x")
    case False
    then have "\<forall>y \<in> set xs. \<not> numbered y" using Cons.prems by (auto simp: cluster_key_def numbered_def less_eq_prod_def)
    then have "filter numbered xs = []" "filter (\<lambda>c. \<not> numbered c) xs = xs" by (auto simp: filter_empty_conv filter_id_conv)
    then show ?thesis using False by simp
  qed (use Cons in simp)
qed simp

lemma clusters_apart: "apart (clusterByCentroid g)"
proof -
  let ?xs = "sort_key cluster_key g"
  have one: "list_all one_number cls \<and> list_all (\<lambda>cl. numbered (hd cl)) cls \<and> distinct (numbers cls) \<Longrightarrow> list_all numbered xs \<Longrightarrow>
      apart (fold join_cluster xs cls)" for xs cls
  proof (induction xs arbitrary: cls)
    case (Cons x xs)
    then show ?case using join_numbered [of cls x] by (simp split: if_splits)
  qed (simp add: apart_def)
  have two: "apart cls \<Longrightarrow> list_all (\<lambda>c. \<not> numbered c) xs \<Longrightarrow> apart (fold join_cluster xs cls)" for xs cls
  proof (induction xs arbitrary: cls)
    case (Cons x xs)
    then show ?case using join_unnumbered [of cls x] by (simp add: apart_def)
  qed simp
  have "apart (fold join_cluster (filter numbered ?xs) [])"
    by (rule one) (simp_all add: list_all_iff)
  then have "apart (fold join_cluster (filter (\<lambda>c. \<not> numbered c) ?xs) (fold join_cluster (filter numbered ?xs) []))"
    by (rule two) (simp add: list_all_iff)
  then have "apart (fold join_cluster (filter numbered ?xs @ filter (\<lambda>c. \<not> numbered c) ?xs) [])" by simp
  then show ?thesis using sorted_numbered [of ?xs] by (simp add: clusterByCentroid_def)
qed

section \<open>One perimeter per fire\<close>

definition fresh_key :: "perimeter \<Rightarrow> time \<times> bool \<times> nat \<times> rat" where
  "fresh_key p = (pm_DateCurrent p, isActiveStatus (pm_Status p), sourcePriority (pm_Source p), pm_Acres p)"

lemma perimFresher_iff: "perimFresher a b \<longleftrightarrow> fresh_key b < fresh_key a"
  by (auto simp: perimFresher_def fresh_key_def less_prod_def less_eq_prod_def)

lemma best_of_cluster:
  assumes "cl \<noteq> []"
  shows "best_of cl \<in> set cl \<and> (\<forall>r \<in> set cl. \<not> perimFresher (pc_perim r) (pc_perim (best_of cl)))"
proof -
  let ?f = "\<lambda>r best. if perimFresher (pc_perim r) (pc_perim best) then r else best"
  have "fold ?f xs b \<in> insert b (set xs) \<and> (\<forall>r \<in> insert b (set xs). fresh_key (pc_perim r) \<le> fresh_key (pc_perim (fold ?f xs b)))" for xs b
  proof (induction xs arbitrary: b)
    case (Cons x xs)
    have "fresh_key (pc_perim x) \<le> fresh_key (pc_perim (?f x b)) \<and> fresh_key (pc_perim b) \<le> fresh_key (pc_perim (?f x b))"
      by (auto simp: perimFresher_iff)
    then show ?case using Cons [of "?f x b"] by (auto split: if_splits intro: order_trans)
  qed simp
  then have "best_of cl \<in> insert (hd cl) (set (tl cl)) \<and>
      (\<forall>r \<in> insert (hd cl) (set (tl cl)). fresh_key (pc_perim r) \<le> fresh_key (pc_perim (best_of cl)))"
    unfolding best_of_def .
  moreover have "insert (hd cl) (set (tl cl)) = set cl" using assms by (cases cl) simp_all
  ultimately show ?thesis by (auto simp: perimFresher_iff not_less)
qed

lemma cluster_members: "cl \<in> set (clusterByCentroid g) \<Longrightarrow> cl \<noteq> [] \<and> set cl \<subseteq> set g"
proof -
  assume cl: "cl \<in> set (clusterByCentroid g)"
  then have "set cl \<subseteq> set (concat (clusterByCentroid g))" by auto
  also have "\<dots> = set g" using mset_eq_setD [OF clusters_mset] .
  finally show ?thesis using cl clusters_apart [of g] by (auto simp: apart_def one_number_def list_all_iff)
qed

lemma first_seen_set: "distinct (first_seen ns) \<and> set (first_seen ns) = set ns"
proof -
  have "distinct out \<Longrightarrow> distinct (fold (\<lambda>n order. if n \<in> set order then order else order @ [n]) ns out) \<and>
      set (fold (\<lambda>n order. if n \<in> set order then order else order @ [n]) ns out) = set out \<union> set ns" for out
    by (induction ns arbitrary: out) auto
  from this [of "[]"] show ?thesis by (simp add: first_seen_def)
qed

lemma filter_groups:
  "distinct ns \<Longrightarrow> (\<And>n c. c \<in> set (f n) \<Longrightarrow> g c = n) \<Longrightarrow>
     filter (\<lambda>c. g c = nm) (concat (map f ns)) = (if nm \<in> set ns then f nm else [])"
proof (induction ns)
  case (Cons n ns)
  have "filter (\<lambda>c. g c = nm) (f n) = (if n = nm then f n else [])"
    using Cons.prems(2) by (auto simp: filter_empty_conv filter_id_conv)
  then show ?case using Cons by auto
qed simp

abbreviation usable_rows :: "fire_world \<Rightarrow> perimeter list \<Rightarrow> candidate list" where
  "usable_rows w perims \<equiv> List.map_filter (perim_row w) perims"

definition rows_named :: "fire_world \<Rightarrow> perimeter list \<Rightarrow> string \<Rightarrow> candidate list" where
  "rows_named w perims nm = filter (\<lambda>r. pc_norm r = nm) (usable_rows w perims)"

lemma best_in_group: "c \<in> set (map best_of (clusterByCentroid (rows_named w perims nm))) \<Longrightarrow>
    c \<in> set (usable_rows w perims) \<and> pc_norm c = nm"
proof -
  assume "c \<in> set (map best_of (clusterByCentroid (rows_named w perims nm)))"
  then obtain cl where cl: "cl \<in> set (clusterByCentroid (rows_named w perims nm))" "c = best_of cl" by auto
  then have "c \<in> set (rows_named w perims nm)" using cluster_members best_of_cluster by blast
  then show ?thesis by (simp add: rows_named_def)
qed

lemma dedupe_concat: "dedupePerimeters w perims =
    concat (map (\<lambda>nm. map best_of (clusterByCentroid (rows_named w perims nm))) (first_seen (map pc_norm (usable_rows w perims))))"
  by (simp add: dedupePerimeters_def rows_named_def Let_def)

lemma dedupe_named: "filter (\<lambda>c. pc_norm c = nm) (dedupePerimeters w perims) =
    map best_of (clusterByCentroid (rows_named w perims nm))"
proof -
  have "filter (\<lambda>c. pc_norm c = nm) (dedupePerimeters w perims) =
      (if nm \<in> set (first_seen (map pc_norm (usable_rows w perims))) then map best_of (clusterByCentroid (rows_named w perims nm)) else [])"
    unfolding dedupe_concat by (rule filter_groups) (use first_seen_set best_in_group in blast)+
  moreover have "rows_named w perims nm = []" if "nm \<notin> pc_norm ` set (usable_rows w perims)"
    using that by (auto simp: rows_named_def filter_empty_conv)
  ultimately show ?thesis using first_seen_set by (auto simp: clusterByCentroid_def)
qed

lemma dedupe_rows: "c \<in> set (dedupePerimeters w perims) \<Longrightarrow> c \<in> set (usable_rows w perims)"
proof -
  assume "c \<in> set (dedupePerimeters w perims)"
  then have "c \<in> set (filter (\<lambda>d. pc_norm d = pc_norm c) (dedupePerimeters w perims))" by simp
  then show ?thesis using best_in_group unfolding dedupe_named by blast
qed

text \<open>
  C11: collapsing the feed to one perimeter per fire neither loses a fire nor joins two. What comes out are rows of the feed;
  each usable row is stood for by one of its name at least as fresh as itself, never by one with another incident number; and
  a name has at least as many perimeters as its rows carry different incident numbers, however close they burn together.
\<close>

theorem distinct_fires_kept:
  "set (dedupePerimeters w perims) \<subseteq> set (usable_rows w perims) \<and>
   (\<forall>nm. card (pc_number ` {r \<in> set (usable_rows w perims). pc_norm r = nm \<and> pc_number r \<noteq> []}) \<le>
      length (filter (\<lambda>c. pc_norm c = nm) (dedupePerimeters w perims))) \<and>
   (\<forall>r \<in> set (usable_rows w perims). \<exists>c \<in> set (dedupePerimeters w perims).
      pc_norm c = pc_norm r \<and> \<not> perimFresher (pc_perim r) (pc_perim c) \<and>
      (pc_number r \<noteq> [] \<and> pc_number c \<noteq> [] \<longrightarrow> pc_number c = pc_number r))"
proof (intro conjI allI ballI)
  show "set (dedupePerimeters w perims) \<subseteq> set (usable_rows w perims)" using dedupe_rows by blast
next
  fix nm
  let ?cls = "clusterByCentroid (rows_named w perims nm)"
  have "pc_number r \<in> set (numbers ?cls)" if "r \<in> set (rows_named w perims nm)" "numbered r" for r
  proof -
    have "r \<in> set (concat ?cls)" using that(1) mset_eq_setD [OF clusters_mset] by blast
    then obtain cl where cl: "cl \<in> set ?cls" "r \<in> set cl" by auto
    then have "pc_number (hd cl) = pc_number r" using that(2) clusters_apart by (auto simp: apart_def one_number_def list_all_iff)
    then show ?thesis using cl(1) that(2) by (force simp: numbers_def numbered_def)
  qed
  then have "pc_number ` {r \<in> set (usable_rows w perims). pc_norm r = nm \<and> pc_number r \<noteq> []} \<subseteq> set (numbers ?cls)"
    by (auto simp: rows_named_def numbered_def)
  then have "card (pc_number ` {r \<in> set (usable_rows w perims). pc_norm r = nm \<and> pc_number r \<noteq> []}) \<le> length (numbers ?cls)"
    by (meson List.finite_set card_length card_mono order_trans)
  also have "\<dots> \<le> length ?cls" unfolding numbers_def by (metis length_filter_le length_map)
  finally show "card (pc_number ` {r \<in> set (usable_rows w perims). pc_norm r = nm \<and> pc_number r \<noteq> []}) \<le>
      length (filter (\<lambda>c. pc_norm c = nm) (dedupePerimeters w perims))" by (simp add: dedupe_named)
next
  fix r
  assume r: "r \<in> set (usable_rows w perims)"
  let ?cls = "clusterByCentroid (rows_named w perims (pc_norm r))"
  have "r \<in> set (concat ?cls)" using r mset_eq_setD [OF clusters_mset, of "rows_named w perims (pc_norm r)"] by (auto simp: rows_named_def)
  then obtain cl where cl: "cl \<in> set ?cls" "r \<in> set cl" by auto
  then have "cl \<noteq> []" by auto
  then have best: "best_of cl \<in> set cl" "\<not> perimFresher (pc_perim r) (pc_perim (best_of cl))"
    using best_of_cluster cl(2) by blast+
  have "best_of cl \<in> set (filter (\<lambda>c. pc_norm c = pc_norm r) (dedupePerimeters w perims))" using cl(1) by (simp add: dedupe_named)
  moreover have "pc_number (best_of cl) = pc_number r" if "pc_number r \<noteq> []" "pc_number (best_of cl) \<noteq> []"
  proof -
    have "one_number cl" using cl(1) clusters_apart by (auto simp: apart_def list_all_iff)
    then show ?thesis using cl(2) best(1) that unfolding one_number_def numbered_def by metis
  qed
  ultimately show "\<exists>c \<in> set (dedupePerimeters w perims). pc_norm c = pc_norm r \<and> \<not> perimFresher (pc_perim r) (pc_perim c) \<and>
      (pc_number r \<noteq> [] \<and> pc_number c \<noteq> [] \<longrightarrow> pc_number c = pc_number r)"
    using best(2) by auto
qed

section \<open>The order of the feed\<close>

lemma index_fold:
  "fold (\<lambda>c (byName, ambiguous).
      (byName(pc_norm c \<mapsto> c), if byName (pc_norm c) \<noteq> None then pc_norm c # ambiguous else ambiguous)) xs (m, amb) = (m', amb') \<Longrightarrow>
   m' nm = (let l = filter (\<lambda>c. pc_norm c = nm) xs in if l = [] then m nm else Some (List.last l)) \<and>
   (nm \<in> set amb' \<longleftrightarrow> nm \<in> set amb \<or> (m nm \<noteq> None \<and> filter (\<lambda>c. pc_norm c = nm) xs \<noteq> []) \<or> length (filter (\<lambda>c. pc_norm c = nm) xs) \<ge> 2)"
proof (induction xs arbitrary: m amb)
  case (Cons x xs)
  let ?m = "m(pc_norm x \<mapsto> x)" and ?amb = "if m (pc_norm x) \<noteq> None then pc_norm x # amb else amb"
  have "fold (\<lambda>c (byName, ambiguous).
      (byName(pc_norm c \<mapsto> c), if byName (pc_norm c) \<noteq> None then pc_norm c # ambiguous else ambiguous)) xs (?m, ?amb) = (m', amb')"
    using Cons.prems by (simp del: fun_upd_apply)
  from Cons.IH [OF this] show ?case by (auto simp: Let_def Suc_le_eq split: if_splits)
qed (simp add: Let_def)

lemma index_spec:
  "fst (index_names xs) nm = (let l = filter (\<lambda>c. pc_norm c = nm) xs in if l = [] then None else Some (List.last l))"
  "nm \<in> set (snd (index_names xs)) \<longleftrightarrow> length (filter (\<lambda>c. pc_norm c = nm) xs) \<ge> 2"
proof -
  obtain m amb where "index_names xs = (m, amb)" by fastforce
  from index_fold [OF this [unfolded index_names_def], of nm] this
  show "fst (index_names xs) nm = (let l = filter (\<lambda>c. pc_norm c = nm) xs in if l = [] then None else Some (List.last l))"
    "nm \<in> set (snd (index_names xs)) \<longleftrightarrow> length (filter (\<lambda>c. pc_norm c = nm) xs) \<ge> 2" by simp_all
qed

text \<open>Candidate lists that differ in the order of the names only.\<close>

definition same_fires :: "candidate list \<Rightarrow> candidate list \<Rightarrow> bool" where
  "same_fires xs ys \<longleftrightarrow> mset xs = mset ys \<and> (\<forall>nm. filter (\<lambda>c. pc_norm c = nm) xs = filter (\<lambda>c. pc_norm c = nm) ys)"

lemma same_fires_index:
  assumes "same_fires xs ys"
  shows "fst (index_names xs) = fst (index_names ys)" "set (snd (index_names xs)) = set (snd (index_names ys))"
  using assms by (auto simp: same_fires_def index_spec)

lemma open_same: "same_fires xs ys \<Longrightarrow> open_perimeters xs used = open_perimeters ys used"
proof -
  assume same: "same_fires xs ys"
  let ?P = "\<lambda>c. pc_norm c \<notin> set used"
  have "filter (\<lambda>x. standalone_key k = standalone_key x) (filter ?P xs) = filter (\<lambda>x. standalone_key k = standalone_key x) (filter ?P ys)" for k
  proof -
    have split: "filter (\<lambda>x. standalone_key k = standalone_key x) (filter ?P zs) =
        filter (\<lambda>x. ?P x \<and> cen k = cen x) (filter (\<lambda>c. pc_norm c = pc_norm k) zs)" for zs
      by (auto simp: standalone_key_def intro: filter_cong)
    show ?thesis unfolding split using same by (simp add: same_fires_def)
  qed
  note eq = this
  show ?thesis
    unfolding open_perimeters_def
  proof (rule properties_for_sort_key)
    show "mset (sort_key standalone_key (filter ?P ys)) = mset (filter ?P xs)" using same by (simp add: same_fires_def)
    show "filter (\<lambda>x. standalone_key k = standalone_key x) (sort_key standalone_key (filter ?P ys)) =
        filter (\<lambda>x. standalone_key k = standalone_key x) (filter ?P xs)" for k
      using eq [of k] sort_key_stable [of standalone_key "standalone_key k"] by (simp only: eq_commute [of "standalone_key k"])
    show "sorted (map standalone_key (sort_key standalone_key (filter ?P ys)))" by simp
  qed
qed

lemma rows_perm:
  assumes "mset perims = mset perims'"
  shows "mset (usable_rows w perims) = mset (usable_rows w perims')" "mset (rows_named w perims nm) = mset (rows_named w perims' nm)"
  using assms by (simp_all add: rows_named_def List.map_filter_def)

lemma clusters_perm:
  assumes "mset g = mset h" "inj_on cluster_key (set g)"
  shows "clusterByCentroid g = clusterByCentroid h"
proof -
  have "sort_key cluster_key g = sort_key cluster_key h"
    by (rule sort_key_inj_key_eq) (use assms mset_eq_setD in auto)
  then show ?thesis by (simp add: clusterByCentroid_def)
qed

definition rows_told_apart :: "candidate list \<Rightarrow> bool" where
  "rows_told_apart rows \<longleftrightarrow> (\<forall>a \<in> set rows. \<forall>b \<in> set rows. pc_norm a = pc_norm b \<and> cluster_key a = cluster_key b \<longrightarrow> a = b)"

lemma count_names: "count (mset xs) c = count (mset (filter (\<lambda>d. pc_norm d = pc_norm c) xs)) c"
  by (induction xs) auto

lemma dedupe_perm:
  assumes "mset perims = mset perims'" "rows_told_apart (usable_rows w perims)"
  shows "same_fires (dedupePerimeters w perims) (dedupePerimeters w perims')"
proof -
  have named: "filter (\<lambda>c. pc_norm c = nm) (dedupePerimeters w perims) = filter (\<lambda>c. pc_norm c = nm) (dedupePerimeters w perims')" for nm
  proof -
    have "inj_on cluster_key (set (rows_named w perims nm))"
      using assms(2) by (auto simp: inj_on_def rows_told_apart_def rows_named_def)
    from clusters_perm [OF rows_perm(2) [OF assms(1)] this] show ?thesis by (simp add: dedupe_named)
  qed
  moreover have "mset (dedupePerimeters w perims) = mset (dedupePerimeters w perims')"
    by (rule multiset_eqI) (subst (1 2) count_names, simp add: named)
  ultimately show ?thesis by (simp add: same_fires_def)
qed

lemma incident_geometry_set: "set amb = set amb' \<Longrightarrow> incident_geometry w prior m amb u inc = incident_geometry w prior m amb' u inc"
  by (simp add: incident_geometry_def Let_def cong: option.case_cong)

lemma poll_incident_set: "set amb = set amb' \<Longrightarrow> poll_incident w prior scope (m, amb) = poll_incident w prior scope (m, amb')"
  by (intro ext) (simp add: poll_incident_def incident_geometry_set [of amb amb'] case_prod_beta cong: if_cong)

text \<open>What a poll returns, from the perimeters it got.\<close>

definition fire_poll :: "fire_world \<Rightarrow> prior_events \<Rightarrow> bbox \<Rightarrow> perimeter list result \<Rightarrow> poll_result" where
  "fire_poll w prior scope perims =
     (let perSource = (\<lambda>i. if i = ''calfire'' then error_of (fw_incidents w) else if i = ''firis'' then error_of perims else None);
          deduped = dedupePerimeters w (rows_of perims);
          index = index_names deduped;
          unusable = (is_err perims \<or> deduped = []);
          (events, used) = fold (poll_incident w prior scope index unusable) (rows_of (fw_incidents w)) ([], []);
          standalone = standalonePerimeterEvents w deduped used prior;
          standalone = (if is_err (fw_incidents w)
             then filter (\<lambda>ev. e_id ev \<in> set (map e_id (pe_bySource prior ''firis''))) standalone else standalone)
      in fire_result (events @ standalone) perSource (supersededStandalones (fst index) used prior))"

lemma Poll_fire_cases:
  "Poll_fire cfg w prior s =
     (case wildfireScope cfg of
        None \<Rightarrow> (PollError (errEmptyScope ''hazard areas''), s)
      | Some scope \<Rightarrow>
          (case gatedPerimeters w scope s of (perims, s') \<Rightarrow>
             if is_err (fw_incidents w) \<and> is_err perims
             then (PollError (''both wildfire sources failed: calfire='' @ the (error_of (fw_incidents w)) @ '' firis='' @ the (error_of perims)), s')
             else (PollOK (fire_poll w prior scope perims), s')))"
  by (cases "fw_incidents w") (auto simp: Poll_fire_def fire_poll_def error_of_def Let_def cong: if_cong split: option.split prod.split sum.split)

lemma fire_poll_perm:
  assumes "mset perims = mset perims'" "rows_told_apart (usable_rows w perims)"
  shows "fire_poll w prior scope (Inr perims) = fire_poll w prior scope (Inr perims')"
proof -
  let ?d = "dedupePerimeters w perims" and ?d' = "dedupePerimeters w perims'"
  have same: "same_fires ?d ?d'" by (rule dedupe_perm [OF assms])
  note idx = same_fires_index [OF same]
  have "poll_incident w prior scope (index_names ?d) = poll_incident w prior scope (index_names ?d')"
    using poll_incident_set [OF idx(2), of w prior scope "fst (index_names ?d)"] idx(1) by (metis prod.collapse)
  moreover have "?d = [] \<longleftrightarrow> ?d' = []" using same by (metis mset_zero_iff same_fires_def)
  moreover have "standalonePerimeterEvents w ?d used prior = standalonePerimeterEvents w ?d' used prior" for used
    using open_same [OF same] by (simp add: standalonePerimeterEvents_def)
  ultimately show ?thesis using idx(1)
    by (simp add: fire_poll_def rows_of_def error_of_def Let_def case_prod_beta cong: if_cong)
qed

text \<open>
  C13: the order of the upstream features cannot be seen. If two answers of the perimeter feed hold the same rows, and no two
  different rows of a name carry the same incident number and the same centroid, the poll returns the same events with the
  same ids in the same order, and supersedes the same, so nothing flaps between polls.
\<close>

theorem feed_order_irrelevant:
  assumes "wildfireScope cfg = Some scope" and "fw_perimeters w scope = Inr perims" and "mset perims = mset perims'"
    and "rows_told_apart (usable_rows w perims)"
  shows "fst (Poll_fire cfg (w\<lparr>fw_perimeters := (\<lambda>_. Inr perims')\<rparr>) prior s) = fst (Poll_fire cfg w prior s)"
proof -
  let ?w = "w\<lparr>fw_perimeters := (\<lambda>_. Inr perims')\<rparr>"
  have rows: "perim_row ?w = perim_row w" by (intro ext) (simp add: perim_row_def Let_def cong: if_cong sum.case_cong)
  have same: "fire_poll ?w prior scope p = fire_poll w prior scope p" for p
  proof -
    have "dedupePerimeters ?w = dedupePerimeters w" by (intro ext) (simp add: dedupePerimeters_def rows)
    moreover have "poll_incident ?w = poll_incident w"
      by (intro ext) (simp add: poll_incident_def incident_geometry_def incident_event_def Let_def case_prod_beta cong: if_cong option.case_cong)
    moreover have "standalonePerimeterEvents ?w = standalonePerimeterEvents w"
      by (intro ext) (simp add: standalonePerimeterEvents_def standalone_event_def)
    ultimately show ?thesis by (simp add: fire_poll_def Let_def case_prod_beta cong: if_cong)
  qed
  have swap: "fire_poll w prior scope (Inr perims') = fire_poll w prior scope (Inr perims)"
    using fire_poll_perm [OF assms(3,4)] by simp
  have "perims = [] \<longleftrightarrow> perims' = []" using assms(3) by (metis mset_zero_iff)
  then show ?thesis
    using assms(1,2) swap allI [where P = "\<lambda>p. fire_poll ?w prior scope p = fire_poll w prior scope p", OF same]
    by (auto simp: Poll_fire_cases gatedPerimeters_def split: sum.split)
qed

section \<open>Ids of standalone perimeters\<close>

definition read_dec :: "string \<Rightarrow> nat" where
  "read_dec s = foldl (\<lambda>a c. 10 * a + (of_char c - 48)) 0 s"

lemma digit_char: "n < 10 \<Longrightarrow> is_digit (char_of (48 + n)) \<and> (of_char (char_of (48 + n) :: char) :: nat) = 48 + n"
  by (auto simp: is_digit_def less_eq_char_def)

lemma digits_read: "read_dec (digits n) = n"
proof (induction n rule: digits.induct)
  case (1 n)
  show ?case
  proof (cases "n < 10")
    case True
    then show ?thesis using digit_char [OF True] by (simp add: digits.simps [of n] read_dec_def)
  next
    case False
    then show ?thesis using 1 digit_char [of "n mod 10"] by (simp add: digits.simps [of n] read_dec_def)
  qed
qed

lemma digits_are: "digits n \<noteq> [] \<and> list_all is_digit (digits n)"
proof (induction n rule: digits.induct)
  case (1 n)
  then show ?case using digit_char [of n] digit_char [of "n mod 10"] by (simp add: digits.simps [of n])
qed

lemma digits_inj: "digits m = digits n \<Longrightarrow> m = n"
  by (metis digits_read)

definition plain_name :: "string \<Rightarrow> bool" where
  "plain_name nm \<longleftrightarrow> CHR ''-'' \<notin> set nm"

lemma normFireName_plain: "plain_name (normFireName s)"
  by (auto simp: plain_name_def normFireName_def is_lower_def is_digit_def less_eq_char_def)

lemma standalone_id_cases: "isStandaloneIDForName i nm \<longleftrightarrow>
    i = standalone_id nm \<or> (\<exists>rest. i = standalone_id nm @ CHR ''-'' # rest \<and> rest \<noteq> [] \<and> list_all is_digit rest)"
  by (auto simp: isStandaloneIDForName_def cutPrefix_def hasPrefix_iff Let_def)

lemma standalone_name: "plain_name nm \<Longrightarrow> isStandaloneIDForName i nm \<Longrightarrow> nm = takeWhile (\<lambda>c. c \<noteq> CHR ''-'') (drop 6 i)"
proof -
  assume nm: "plain_name nm" and i: "isStandaloneIDForName i nm"
  have "takeWhile (\<lambda>c. c \<noteq> CHR ''-'') (nm @ CHR ''-'' # rest) = nm" "takeWhile (\<lambda>c. c \<noteq> CHR ''-'') nm = nm" for rest
    using nm by (induction nm) (auto simp: plain_name_def)
  moreover have "drop 6 (standalone_id x) = x" for x by (simp add: standalone_id_def)
  moreover have "drop 6 (standalone_id x @ y) = x @ y" for x y by (simp add: standalone_id_def)
  ultimately show ?thesis using i unfolding standalone_id_cases by metis
qed

lemma standalone_name_unique:
  assumes "plain_name nm" "plain_name nm'" "isStandaloneIDForName i nm" "isStandaloneIDForName i nm'"
  shows "nm = nm'"
  using standalone_name [OF assms(1,3)] standalone_name [OF assms(2,4)] by simp

lemma nearest_in: "nearest_event geom pe pes \<in> set (pe # pes)"
proof -
  let ?f = "\<lambda>x (best, bestDist). let d = centroidDistSq (e_geometry x) (Some geom) in if nearer d bestDist then (x, d) else (best, bestDist)"
  have "fst (fold ?f xs (b, d)) \<in> insert b (set xs)" for xs b d
  proof (induction xs arbitrary: b d)
    case (Cons x xs)
    show ?case using Cons [of b d] Cons [of x "centroidDistSq (e_geometry x) (Some geom)"] by (auto simp: Let_def)
  qed simp
  then show ?thesis unfolding nearest_event_def by simp
qed

lemma continuity_named: "isStandaloneIDForName (standaloneContinuityID prior nm g) nm"
proof -
  let ?ids = "filter (\<lambda>pe. isStandaloneIDForName (e_id pe) nm) (pe_bySource prior ''firis'')"
  have named: "e \<in> set ?ids \<Longrightarrow> isStandaloneIDForName (e_id e) nm" for e by simp
  show ?thesis
  proof (cases ?ids)
    case Nil
    then show ?thesis by (simp add: standaloneContinuityID_def isStandaloneIDForName_def)
  next
    case (Cons pe pes)
    have "nearest_event g pe pes \<in> set ?ids" "pe \<in> set ?ids" unfolding Cons using nearest_in by auto
    then have "isStandaloneIDForName (e_id (nearest_event g pe pes)) nm" "isStandaloneIDForName (e_id pe) nm" using named by blast+
    then show ?thesis unfolding standaloneContinuityID_def Cons by (cases pes) simp_all
  qed
qed

lemma numbered_named: "isStandaloneIDForName (number_standalone prior opened before c) (pc_norm c)"
proof (cases "length (filter (\<lambda>d. pc_norm d = pc_norm c) opened) = 1")
  case True
  then show ?thesis by (simp add: number_standalone_def continuity_named)
next
  case False
  then show ?thesis using digits_are by (auto simp: number_standalone_def suffixed_id_def standalone_id_cases dec_text_def)
qed

section \<open>A fire is drawn once\<close>

definition adopts :: "(string \<rightharpoonup> candidate) \<Rightarrow> string list \<Rightarrow> incident \<Rightarrow> bool" where
  "adopts byName ambiguous inc \<longleftrightarrow> byName (normFireName (in_Name inc)) \<noteq> None \<and> normFireName (in_Name inc) \<notin> set ambiguous"

definition placed :: "incident \<Rightarrow> bool" where
  "placed inc \<longleftrightarrow> in_Lat inc \<noteq> 0 \<or> in_Lng inc \<noteq> 0"

lemma geometry_adopted: "adopts m amb inc \<Longrightarrow>
    incident_geometry w prior m amb u inc = (pc_geom (the (m (normFireName (in_Name inc)))), True, True)"
  by (auto simp: incident_geometry_def adopts_def Let_def)

lemma geometry_not_adopted: "\<not> adopts m amb inc \<Longrightarrow> snd (snd (incident_geometry w prior m amb u inc)) = False"
  by (auto simp: incident_geometry_def adopts_def Let_def split: option.split)

definition published :: "fire_world \<Rightarrow> prior_events \<Rightarrow> bbox \<Rightarrow> (string \<rightharpoonup> candidate) \<times> string list \<Rightarrow> bool \<Rightarrow> incident \<Rightarrow> bool" where
  "published w prior scope index u inc \<longleftrightarrow> placed inc \<and>
     inWildfireScope scope (in_Lat inc) (in_Lng inc) (fst (incident_geometry w prior (fst index) (snd index) u inc))"

definition drawn :: "fire_world \<Rightarrow> prior_events \<Rightarrow> (string \<rightharpoonup> candidate) \<times> string list \<Rightarrow> bool \<Rightarrow> incident \<Rightarrow> event" where
  "drawn w prior index u inc = (case incident_geometry w prior (fst index) (snd index) u inc of (g, perim, _) \<Rightarrow> incident_event w inc g perim)"

lemma poll_incidents:
  "fold (poll_incident w prior scope index u) incs (evs, used) = (evs', used') \<Longrightarrow>
     evs' = evs @ map (drawn w prior index u) (filter (published w prior scope index u) incs) \<and>
     set used' = set used \<union> (\<lambda>inc. normFireName (in_Name inc)) ` {inc \<in> set incs. published w prior scope index u inc \<and> adopts (fst index) (snd index) inc}"
proof (induction incs arbitrary: evs used)
  case (Cons inc incs)
  obtain g perim ad where g: "incident_geometry w prior (fst index) (snd index) u inc = (g, perim, ad)" by (metis prod_cases3)
  have ad: "ad \<longleftrightarrow> adopts (fst index) (snd index) inc"
    using geometry_adopted [of "fst index" "snd index" inc w prior u] geometry_not_adopted [of "fst index" "snd index" inc w prior u] g by auto
  let ?P = "published w prior scope index u inc"
  have "poll_incident w prior scope index u inc (evs, used) =
      (if ?P then (evs @ [drawn w prior index u inc],
         if ad \<and> normFireName (in_Name inc) \<notin> set used then used @ [normFireName (in_Name inc)] else used) else (evs, used))"
    using g by (cases index) (auto simp: poll_incident_def published_def placed_def drawn_def)
  then have "fold (poll_incident w prior scope index u) incs
      (if ?P then (evs @ [drawn w prior index u inc],
         if ad \<and> normFireName (in_Name inc) \<notin> set used then used @ [normFireName (in_Name inc)] else used) else (evs, used)) = (evs', used')"
    using Cons.prems by simp
  then show ?case using Cons.IH ad by (cases ?P) (fastforce split: if_splits)+
qed simp

lemma standalone_fields:
  "e_id (standalone_event w i c) = i" "e_geometry (standalone_event w i c) = Some (pc_geom c)" "has_perimeter (standalone_event w i c)"
  by (simp_all add: standalone_event_def NewEvent_def has_perimeter_def Let_def)

lemma incident_fields:
  "e_id (incident_event w inc g perim) = incident_id inc" "e_geometry (incident_event w inc g perim) = Some g"
  "has_perimeter (incident_event w inc g perim) = perim" "source_id (incident_event w inc g perim) = ''calfire''"
  by (simp_all add: incident_event_def NewEvent_def has_perimeter_def source_id_def NewProvenance_def)

lemma incident_not_standalone: "\<not> isStandaloneIDForName (incident_id inc) nm"
  by (auto simp: standalone_id_cases standalone_id_def incident_id_def)

definition standalone_name_at :: "prior_events \<Rightarrow> candidate list \<Rightarrow> nat \<Rightarrow> string" where
  "standalone_name_at prior opened k = number_standalone prior opened (take k opened) (opened ! k)"

lemma standalone_map:
  "standalonePerimeterEvents w deduped used prior =
     map (\<lambda>k. standalone_event w (standalone_name_at prior (open_perimeters deduped used) k) (open_perimeters deduped used ! k))
       [0..<length (open_perimeters deduped used)]"
  by (simp add: standalonePerimeterEvents_def standalone_name_at_def Let_def)

lemma at_named: "isStandaloneIDForName (standalone_name_at prior opened k) (pc_norm (opened ! k))"
  by (simp add: standalone_name_at_def numbered_named)

lemma suffixed_inj: "suffixed_id nm m = suffixed_id nm n \<Longrightarrow> 1 \<le> m \<Longrightarrow> 1 \<le> n \<Longrightarrow> m = n"
  by (auto simp: suffixed_id_def dec_text_def split: if_splits dest: digits_inj)

lemma at_distinct:
  assumes plain: "\<forall>c \<in> set opened. plain_name (pc_norm c)" and jk: "j < k" "k < length opened"
  shows "standalone_name_at prior opened j \<noteq> standalone_name_at prior opened k"
proof
  assume eq: "standalone_name_at prior opened j = standalone_name_at prior opened k"
  have nm: "pc_norm (opened ! j) = pc_norm (opened ! k)"
    using standalone_name_unique [OF _ _ at_named [of prior opened j]] at_named [of prior opened k] eq plain jk by simp
  let ?same = "\<lambda>d. pc_norm d = pc_norm (opened ! k)"
  let ?before = "\<lambda>i. length (filter ?same (take i opened))"
  have more: "?before j < ?before k"
  proof -
    have "take k opened = take j opened @ opened ! j # drop (Suc j) (take k opened)"
      using id_take_nth_drop [of j "take k opened"] jk by (simp add: min_def)
    from arg_cong [OF this, of "\<lambda>l. length (filter ?same l)"] nm show ?thesis by simp
  qed
  have "?before k < length (filter ?same opened)"
  proof -
    have "opened = take k opened @ opened ! k # drop (Suc k) opened" using jk by (simp add: id_take_nth_drop)
    from arg_cong [OF this, of "\<lambda>l. length (filter ?same l)"] show ?thesis by simp
  qed
  then have many: "length (filter ?same opened) \<noteq> 1" using more by simp
  have "suffixed_id (pc_norm (opened ! k)) (?before j + 1) = suffixed_id (pc_norm (opened ! k)) (?before k + 1)"
    using eq many nm by (simp add: standalone_name_at_def number_standalone_def)
  then have "?before j = ?before k" using suffixed_inj by (metis Suc_eq_plus1 Suc_inject le_add2)
  then show False using more by simp
qed

lemma standalone_distinct:
  assumes "\<forall>c \<in> set deduped. plain_name (pc_norm c)"
  shows "distinct (map e_id (standalonePerimeterEvents w deduped used prior))"
proof -
  let ?o = "open_perimeters deduped used"
  have plain: "\<forall>c \<in> set ?o. plain_name (pc_norm c)" using assms by (auto simp: open_perimeters_def)
  have "map e_id (standalonePerimeterEvents w deduped used prior) = map (standalone_name_at prior ?o) [0..<length ?o]"
    by (simp add: standalone_map standalone_fields)
  moreover have "inj_on (standalone_name_at prior ?o) {0..<length ?o}"
    by (rule linorder_inj_onI') (use at_distinct [OF plain] in auto)
  ultimately show ?thesis by (simp add: distinct_map)
qed

lemma standalone_named:
  assumes "\<forall>c \<in> set deduped. plain_name (pc_norm c)" "plain_name nm"
  shows "length (filter (\<lambda>ev. isStandaloneIDForName (e_id ev) nm) (standalonePerimeterEvents w deduped used prior)) =
      (if nm \<in> set used then 0 else length (filter (\<lambda>c. pc_norm c = nm) deduped))"
proof -
  let ?o = "open_perimeters deduped used"
  have plain: "\<forall>c \<in> set ?o. plain_name (pc_norm c)" using assms by (auto simp: open_perimeters_def)
  have "isStandaloneIDForName (standalone_name_at prior ?o k) nm \<longleftrightarrow> pc_norm (?o ! k) = nm" if "k < length ?o" for k
    using standalone_name_unique [OF _ assms(2) at_named [of prior ?o k]] at_named [of prior ?o k] plain that by auto
  then have "filter (\<lambda>k. isStandaloneIDForName (standalone_name_at prior ?o k) nm) [0..<length ?o] =
      filter (\<lambda>k. pc_norm (?o ! k) = nm) [0..<length ?o]" by (auto intro: filter_cong)
  then have "length (filter (\<lambda>ev. isStandaloneIDForName (e_id ev) nm) (standalonePerimeterEvents w deduped used prior)) =
      length (filter (\<lambda>k. pc_norm (?o ! k) = nm) [0..<length ?o])"
    by (simp add: standalone_map filter_map comp_def standalone_fields)
  also have "\<dots> = length (filter (\<lambda>c. pc_norm c = nm) (map ((!) ?o) [0..<length ?o]))" by (simp add: filter_map comp_def)
  also have "\<dots> = length (filter (\<lambda>c. pc_norm c = nm) ?o)" by (simp only: map_nth)
  also have "\<dots> = (if nm \<in> set used then 0 else length (filter (\<lambda>c. pc_norm c = nm) deduped))"
    by (auto simp: open_perimeters_def filter_sort filter_empty_conv) (metis (mono_tags, lifting) filter_cong filter_filter)
  finally show ?thesis .
qed

lemma standalone_shown:
  assumes "c \<in> set deduped" "pc_norm c \<notin> set used"
  shows "\<exists>ev \<in> set (standalonePerimeterEvents w deduped used prior).
     isStandaloneIDForName (e_id ev) (pc_norm c) \<and> e_geometry ev = Some (pc_geom c) \<and> has_perimeter ev"
proof -
  let ?o = "open_perimeters deduped used"
  have "c \<in> set ?o" using assms by (simp add: open_perimeters_def)
  then obtain k where "k < length ?o" "?o ! k = c" by (auto simp: in_set_conv_nth)
  then show ?thesis using at_named [of prior ?o k] by (auto simp: standalone_map standalone_fields intro!: bexI)
qed

text \<open>A poll's events and what it supersedes, by the names its incidents adopted.\<close>

lemma fire_poll_parts:
  fixes w prior scope perims
  defines "deduped \<equiv> dedupePerimeters w (rows_of perims)" and "unusable \<equiv> is_err perims \<or> dedupePerimeters w (rows_of perims) = []"
  defines "incs \<equiv> rows_of (fw_incidents w)"
  obtains used where
    "set used = (\<lambda>inc. normFireName (in_Name inc)) ` {inc \<in> set incs. published w prior scope (index_names deduped) unusable inc \<and>
        adopts (fst (index_names deduped)) (snd (index_names deduped)) inc}"
    "pr_events (fire_poll w prior scope perims) = map (drawn w prior (index_names deduped) unusable) (filter (published w prior scope (index_names deduped) unusable) incs) @
        (if is_err (fw_incidents w) then filter (\<lambda>ev. e_id ev \<in> e_id ` set (pe_bySource prior ''firis'')) (standalonePerimeterEvents w deduped used prior)
         else standalonePerimeterEvents w deduped used prior)"
    "pr_superseded (fire_poll w prior scope perims) = supersededStandalones (fst (index_names deduped)) used prior"
proof -
  obtain events used where f: "fold (poll_incident w prior scope (index_names deduped) unusable) incs ([], []) = (events, used)" by fastforce
  show ?thesis
    using poll_incidents [OF f] f
    by (intro that [of used]) (simp_all add: fire_poll_def fire_result_def Let_def deduped_def unusable_def incs_def)
qed

lemma superseded_named:
  assumes "i \<in> set (supersededStandalones byName used prior)"
  obtains nm c where "nm \<in> set used" "byName nm = Some c" "isStandaloneIDForName i nm" "pe_byID prior i \<noteq> None"
  using assms by (auto simp: supersededStandalones_def List.map_filter_def Let_def continuity_named split: option.splits if_splits)

lemma deduped_plain: "c \<in> set (dedupePerimeters w perims) \<Longrightarrow> plain_name (pc_norm c)"
proof -
  assume "c \<in> set (dedupePerimeters w perims)"
  then obtain p where "perim_row w p = Some c" using dedupe_rows by (fastforce simp: List.map_filter_def)
  then show ?thesis by (auto simp: perim_row_def Let_def normFireName_plain split: if_splits sum.splits)
qed

lemma drawn_not_standalone: "\<not> isStandaloneIDForName (e_id (drawn w prior index u inc)) nm"
  by (simp add: drawn_def incident_fields incident_not_standalone split: prod.split)

lemma adopts_rivals:
  assumes "c \<in> set deduped" "normFireName (in_Name inc) = pc_norm c"
  shows "adopts (fst (index_names deduped)) (snd (index_names deduped)) inc \<longleftrightarrow> length (filter (\<lambda>d. pc_norm d = pc_norm c) deduped) = 1"
    and "length (filter (\<lambda>d. pc_norm d = pc_norm c) deduped) = 1 \<Longrightarrow> fst (index_names deduped) (pc_norm c) = Some c"
proof -
  let ?l = "filter (\<lambda>d. pc_norm d = pc_norm c) deduped"
  have c: "c \<in> set ?l" using assms(1) by simp
  then have "?l \<noteq> []" by (metis empty_iff list.set(1))
  then have "length ?l \<ge> 1" by (simp add: Suc_le_eq)
  then show "adopts (fst (index_names deduped)) (snd (index_names deduped)) inc \<longleftrightarrow> length ?l = 1"
    using \<open>?l \<noteq> []\<close> by (auto simp: adopts_def assms(2) index_spec Let_def)
  assume "length ?l = 1"
  then obtain d where "?l = [d]" by (auto simp: length_Suc_conv)
  moreover have "d = c" using c calculation by simp
  ultimately show "fst (index_names deduped) (pc_norm c) = Some c" by (simp add: index_spec)
qed

text \<open>
  C9: a fire is drawn once. With both feeds answering, a perimeter that is the only one of its name is adopted by every
  incident of that name in scope, the perimeter itself counting as its reach, and then no standalone event of the name is
  there; in every other case each of the name's perimeters is a standalone event of its own, under distinct ids. And what the
  poll supersedes it does not also publish.
\<close>

theorem fire_drawn_once:
  assumes "wildfireScope cfg = Some scope" and "fst (gatedPerimeters w scope s) = Inr perims" and "fw_incidents w = Inr incs"
    and "c \<in> set (dedupePerimeters w perims)"
  shows "\<exists>r. fst (Poll_fire cfg w prior s) = PollOK r \<and>
     (let rivals = filter (\<lambda>d. pc_norm d = pc_norm c) (dedupePerimeters w perims);
          takers = filter (\<lambda>inc. placed inc \<and> normFireName (in_Name inc) = pc_norm c \<and>
             inWildfireScope scope (in_Lat inc) (in_Lng inc) (pc_geom c)) incs;
          lone = filter (\<lambda>ev. isStandaloneIDForName (e_id ev) (pc_norm c)) (pr_events r)
      in (if length rivals = 1 \<and> takers \<noteq> []
          then lone = [] \<and> (\<forall>inc \<in> set takers. incident_event w inc (pc_geom c) True \<in> set (pr_events r))
          else length lone = length rivals \<and> (\<exists>ev \<in> set lone. e_geometry ev = Some (pc_geom c) \<and> has_perimeter ev)) \<and>
         distinct (map e_id lone)) \<and>
     set (pr_superseded r) \<inter> e_id ` set (pr_events r) = {}"
proof -
  let ?d = "dedupePerimeters w perims" and ?idx = "index_names (dedupePerimeters w perims)"
  let ?r = "fire_poll w prior scope (Inr perims)"
  let ?pub = "published w prior scope ?idx False" and ?ad = "adopts (fst ?idx) (snd ?idx)"
  let ?named = "\<lambda>ev. isStandaloneIDForName (e_id ev) (pc_norm c)"
  have out: "fst (Poll_fire cfg w prior s) = PollOK ?r"
    using assms(1-3) by (cases "gatedPerimeters w scope s") (simp add: Poll_fire_cases)
  have usable: "(is_err (Inr perims :: perimeter list result) \<or> ?d = []) = False" using assms(4) by auto
  obtain used where used: "set used = (\<lambda>inc. normFireName (in_Name inc)) ` {inc \<in> set incs. ?pub inc \<and> ?ad inc}"
      and ev: "pr_events ?r = map (drawn w prior ?idx False) (filter ?pub incs) @ standalonePerimeterEvents w ?d used prior"
      and sup: "pr_superseded ?r = supersededStandalones (fst ?idx) used prior"
    by (rule fire_poll_parts [where w = w and perims = "Inr perims" and prior = prior and scope = scope]) (use assms(3) usable in \<open>auto simp: rows_of_def\<close>)
  have plain: "\<forall>c \<in> set ?d. plain_name (pc_norm c)" using deduped_plain by blast
  then have pc: "plain_name (pc_norm c)" using assms(4) by blast
  have none: "filter (\<lambda>ev. isStandaloneIDForName (e_id ev) nm) (map (drawn w prior ?idx False) incs') = []" for nm incs'
    by (auto simp: filter_empty_conv drawn_not_standalone)
  have lone: "filter ?named (pr_events ?r) = filter ?named (standalonePerimeterEvents w ?d used prior)" by (simp add: ev none)
  let ?rivals = "filter (\<lambda>d. pc_norm d = pc_norm c) ?d"
  let ?takers = "filter (\<lambda>inc. placed inc \<and> normFireName (in_Name inc) = pc_norm c \<and> inWildfireScope scope (in_Lat inc) (in_Lng inc) (pc_geom c)) incs"
  have taker: "?pub inc \<and> ?ad inc \<longleftrightarrow> length ?rivals = 1 \<and> inc \<in> set ?takers" if "inc \<in> set incs" "normFireName (in_Name inc) = pc_norm c" for inc
  proof (cases "length ?rivals = 1")
    case True
    then have ad: "?ad inc" and the_c: "fst ?idx (pc_norm c) = Some c" using adopts_rivals [OF assms(4) that(2)] by auto
    then have "incident_geometry w prior (fst ?idx) (snd ?idx) False inc = (pc_geom c, True, True)"
      using geometry_adopted [OF ad] that(2) by simp
    then show ?thesis using True that ad by (simp add: published_def)
  next
    case False
    then show ?thesis using adopts_rivals(1) [OF assms(4) that(2)] by simp
  qed
  have in_used: "pc_norm c \<in> set used \<longleftrightarrow> length ?rivals = 1 \<and> ?takers \<noteq> []"
  proof -
    have "pc_norm c \<in> set used \<longleftrightarrow> (\<exists>inc \<in> set incs. normFireName (in_Name inc) = pc_norm c \<and> ?pub inc \<and> ?ad inc)" unfolding used by force
    also have "\<dots> \<longleftrightarrow> (\<exists>inc \<in> set incs. normFireName (in_Name inc) = pc_norm c \<and> length ?rivals = 1 \<and> inc \<in> set ?takers)" using taker by blast
    also have "\<dots> \<longleftrightarrow> length ?rivals = 1 \<and> set ?takers \<noteq> {}" by auto
    finally show ?thesis unfolding set_empty .
  qed
  have count: "length (filter ?named (pr_events ?r)) = (if pc_norm c \<in> set used then 0 else length ?rivals)"
    unfolding lone by (rule standalone_named [OF plain pc])
  have shown: "\<exists>ev \<in> set (filter ?named (pr_events ?r)). e_geometry ev = Some (pc_geom c) \<and> has_perimeter ev" if "pc_norm c \<notin> set used"
    using standalone_shown [OF assms(4) that, of w prior] unfolding lone by auto
  have taken: "incident_event w inc (pc_geom c) True \<in> set (pr_events ?r)" if "length ?rivals = 1" "inc \<in> set ?takers" for inc
  proof -
    have inc: "inc \<in> set incs" "normFireName (in_Name inc) = pc_norm c" using that(2) by auto
    then have pub: "?pub inc" "?ad inc" using taker that by blast+
    have "fst ?idx (pc_norm c) = Some c" using adopts_rivals(2) [OF assms(4) inc(2)] that(1) by simp
    then have "drawn w prior ?idx False inc = incident_event w inc (pc_geom c) True"
      using geometry_adopted [OF pub(2), of w prior False] inc(2) by (simp add: drawn_def)
    then show ?thesis using inc(1) pub(1) unfolding ev by force
  qed
  have dist: "distinct (map e_id (filter ?named (pr_events ?r)))"
    unfolding lone using standalone_distinct [OF plain] distinct_map_filter by blast
  have "i \<notin> e_id ` set (pr_events ?r)" if si: "i \<in> set (pr_superseded ?r)" for i
  proof
    obtain nm c' where nm: "nm \<in> set used" "isStandaloneIDForName i nm" using superseded_named [OF si [unfolded sup]] by metis
    have pnm: "plain_name nm" using nm(1) normFireName_plain unfolding used by auto
    assume "i \<in> e_id ` set (pr_events ?r)"
    then have "filter (\<lambda>ev. isStandaloneIDForName (e_id ev) nm) (pr_events ?r) \<noteq> []" using nm(2) by (force simp: filter_empty_conv)
    then have "filter (\<lambda>ev. isStandaloneIDForName (e_id ev) nm) (standalonePerimeterEvents w ?d used prior) \<noteq> []" by (simp add: ev none)
    then show False using standalone_named [OF plain pnm, of w used prior] nm(1) by simp
  qed
  then have "set (pr_superseded ?r) \<inter> e_id ` set (pr_events ?r) = {}" by blast
  moreover have "if length ?rivals = 1 \<and> ?takers \<noteq> []
      then filter ?named (pr_events ?r) = [] \<and> (\<forall>inc \<in> set ?takers. incident_event w inc (pc_geom c) True \<in> set (pr_events ?r))
      else length (filter ?named (pr_events ?r)) = length ?rivals \<and>
        (\<exists>ev \<in> set (filter ?named (pr_events ?r)). e_geometry ev = Some (pc_geom c) \<and> has_perimeter ev)"
  proof (cases "pc_norm c \<in> set used")
    case True
    then have b: "length ?rivals = 1 \<and> ?takers \<noteq> []" using in_used by blast
    have "filter ?named (pr_events ?r) = []" using count True by (simp only: if_True length_0_conv)
    then show ?thesis unfolding if_P [OF b] using taken conjunct1 [OF b] by blast
  next
    case False
    then have b: "\<not> (length ?rivals = 1 \<and> ?takers \<noteq> [])" using in_used by blast
    show ?thesis unfolding if_not_P [OF b] using count False shown [OF False] by (simp only: if_False)
  qed
  ultimately show ?thesis using out dist unfolding Let_def by blast
qed

section \<open>Outages\<close>

lemma rows_of_simps [simp]: "rows_of (Inr xs) = xs" "rows_of (Inl e) = []"
  by (simp_all add: rows_of_def)

text \<open>
  C10: an outage of the perimeter feed does not take a fire off the map. Whether the feed fails or answers with nothing usable,
  an incident whose stored event has a perimeter reaching the scope is polled again under its id with that same perimeter,
  even where CAL FIRE's own point lies outside; and the poll supersedes nothing, so no fire is given an all clear.
\<close>

theorem perimeter_outage_keeps_fires:
  assumes "wildfireScope cfg = Some scope" and "fst (gatedPerimeters w scope s) = perims"
    and "is_err perims \<or> dedupePerimeters w (rows_of perims) = []" and "fw_incidents w = Inr incs"
    and "inc \<in> set incs" and "placed inc" and "pe_byID prior (incident_id inc) = Some old"
    and "has_perimeter old" and "e_geometry old = Some g" and "inWildfireScope scope (in_Lat inc) (in_Lng inc) g"
  shows "\<exists>r ev. fst (Poll_fire cfg w prior s) = PollOK r \<and> pr_superseded r = [] \<and> ev \<in> set (pr_events r) \<and>
     e_id ev = incident_id inc \<and> e_geometry ev = Some g \<and> has_perimeter ev"
proof -
  let ?r = "fire_poll w prior scope perims"
  have out: "fst (Poll_fire cfg w prior s) = PollOK ?r"
    using assms(1,2,4) by (cases "gatedPerimeters w scope s") (simp add: Poll_fire_cases)
  have d: "dedupePerimeters w (rows_of perims) = []"
    using assms(3) by (cases perims) (auto simp: rows_of_def dedupePerimeters_def List.map_filter_def first_seen_def)
  have idx: "index_names [] = (Map.empty, [])" by (simp add: index_names_def)
  have geom: "incident_geometry w prior Map.empty [] True inc = (g, True, False)"
    using assms(7-9) by (simp add: incident_geometry_def Let_def)
  then have pub: "published w prior scope (Map.empty, []) True inc" using assms(6,10) by (simp add: published_def)
  obtain used where used: "set used = {}"
      and ev: "set (pr_events ?r) \<supseteq> drawn w prior (Map.empty, []) True ` {inc \<in> set incs. published w prior scope (Map.empty, []) True inc}"
      and sup: "pr_superseded ?r = supersededStandalones Map.empty used prior"
    by (rule fire_poll_parts [where w = w and perims = perims and prior = prior and scope = scope])
      (use assms(4) in \<open>auto simp: d idx adopts_def\<close>)
  have "drawn w prior (Map.empty, []) True inc = incident_event w inc g True" using geom by (simp add: drawn_def)
  then have "incident_event w inc g True \<in> set (pr_events ?r)" using ev pub assms(5) by force
  moreover have "pr_superseded ?r = []" using used sup by (simp add: supersededStandalones_def List.map_filter_def)
  ultimately show ?thesis
    using out by (intro exI [of _ ?r] exI [of _ "incident_event w inc g True"]) (simp add: incident_fields)
qed

text \<open>
  C12: an outage of CAL FIRE mints nothing. Adoption cannot be computed then, and a perimeter normally folded into an incident
  must not become a second fire: every event of such a poll is under an id the store already holds for the perimeter feed, and
  the poll supersedes nothing.
\<close>

theorem calfire_outage_mints_nothing:
  assumes "is_err (fw_incidents w)" and "fst (Poll_fire cfg w prior s) = PollOK r"
  shows "e_id ` set (pr_events r) \<subseteq> e_id ` set (pe_bySource prior ''firis'') \<and> pr_superseded r = [] \<and>
     pr_perSource r ''calfire'' \<noteq> None"
proof -
  obtain scope perims where r: "r = fire_poll w prior scope perims"
    using assms(2) by (auto simp: Poll_fire_cases split: option.splits prod.splits if_splits)
  have none: "rows_of (fw_incidents w) = []" using assms(1) by (cases "fw_incidents w") (simp_all add: rows_of_def)
  obtain used where "set used = {}" "pr_superseded r = supersededStandalones (fst (index_names (dedupePerimeters w (rows_of perims)))) used prior"
      "e_id ` set (pr_events r) \<subseteq> e_id ` set (pe_bySource prior ''firis'')"
    unfolding r
    by (rule fire_poll_parts [where w = w and perims = perims and prior = prior and scope = scope]) (use assms(1) none in auto)
  moreover have "pr_perSource r ''calfire'' \<noteq> None"
    using assms(1) by (cases "fw_incidents w") (simp_all add: r fire_poll_def fire_result_def error_of_def Let_def split: prod.split)
  ultimately show ?thesis by (simp add: supersededStandalones_def List.map_filter_def)
qed

section \<open>The perimeter cache\<close>

text \<open>A run of ticks, with the world of each and what it got.\<close>

fun fire_ticks :: "bbox \<Rightarrow> fire_world list \<Rightarrow> fire_state \<Rightarrow> (fire_world \<times> perimeter list result) list \<times> fire_state" where
  "fire_ticks b [] s = ([], s)"
| "fire_ticks b (w # ws) s =
     (case gatedPerimeters w b s of (ans, s) \<Rightarrow> (case fire_ticks b ws s of (out, s) \<Rightarrow> ((w, ans) # out, s)))"

text \<open>The cache holds a full answer of one of these ticks.\<close>

definition cached_from :: "bbox \<Rightarrow> fire_world set \<Rightarrow> fire_state \<Rightarrow> bool" where
  "cached_from b seen s \<longleftrightarrow> (fs_havePerimCache s \<longrightarrow>
     (\<exists>v \<in> seen. fw_perimeters v b = Inr (fs_cachedPerims s) \<and> fs_cachedPerims s \<noteq> [] \<and> fw_lastEdit v = Inr (fs_lastPerimEdit s) \<and>
        fs_lastPerimFetch s = fw_now v))"

definition current_answer :: "bbox \<Rightarrow> fire_world set \<Rightarrow> fire_world \<Rightarrow> perimeter list result \<Rightarrow> bool" where
  "current_answer b seen w ans \<longleftrightarrow> ans = fw_perimeters w b \<or>
     (\<exists>v \<in> seen. ans = fw_perimeters v b \<and> \<not> is_err ans \<and> rows_of ans \<noteq> [] \<and> fw_lastEdit v = fw_lastEdit w \<and> fw_now w - fw_now v \<le> maxPerimCacheAge)"

lemma gated_step:
  assumes "cached_from b seen s" "gatedPerimeters w b s = (ans, s')"
  shows "current_answer b seen w ans \<and> cached_from b (insert w seen) s'"
proof (cases "fw_lastEdit w")
  case (Inl e)
  then show ?thesis using assms by (auto simp: gatedPerimeters_def current_answer_def cached_from_def)
next
  case (Inr edit)
  show ?thesis
  proof (cases "fs_havePerimCache s \<and> edit = fs_lastPerimEdit s \<and> fw_now w - fs_lastPerimFetch s \<le> maxPerimCacheAge")
    case True
    then have ans: "ans = Inr (fs_cachedPerims s)" "s' = s" using assms(2) Inr by (auto simp: gatedPerimeters_def)
    obtain v where "v \<in> seen" "fw_perimeters v b = Inr (fs_cachedPerims s)" "fs_cachedPerims s \<noteq> []" "fw_lastEdit v = fw_lastEdit w"
        "fs_lastPerimFetch s = fw_now v"
      using assms(1) True Inr by (auto simp: cached_from_def)
    then have "current_answer b seen w ans" using True unfolding ans current_answer_def by (intro disjI2 bexI [of _ v]) simp_all
    moreover have "cached_from b (insert w seen) s'" using assms(1) unfolding ans cached_from_def by blast
    ultimately show ?thesis by blast
  next
    case False
    then show ?thesis
      using assms Inr by (cases "fw_perimeters w b") (auto simp: gatedPerimeters_def current_answer_def cached_from_def split: if_splits)
  qed
qed

lemma ticks_current:
  "cached_from b seen s \<Longrightarrow> fire_ticks b ws s = (out, s') \<Longrightarrow> (w, ans) \<in> set out \<Longrightarrow> current_answer b (seen \<union> set ws) w ans"
proof (induction ws arbitrary: seen s out)
  case (Cons v ws)
  obtain a t where step: "gatedPerimeters v b s = (a, t)" by fastforce
  obtain out1 where rest: "fire_ticks b ws t = (out1, s')" "out = (v, a) # out1"
    using Cons.prems(2) step by (auto split: prod.splits)
  note now = gated_step [OF Cons.prems(1) step]
  show ?case
  proof (cases "(w, ans) = (v, a)")
    case True
    then show ?thesis using now by (auto simp: current_answer_def)
  next
    case False
    then have "(w, ans) \<in> set out1" using Cons.prems(3) unfolding rest(2) by auto
    then have "current_answer b (insert v seen \<union> set ws) w ans" using Cons.IH [OF conjunct2 [OF now] rest(1)] by blast
    then show ?thesis by simp
  qed
qed simp

text \<open>
  C14: the gate in front of the expensive query never freezes the map. From a fresh normalizer on, whatever the feed answers,
  each tick's perimeters are what the query says now, or a non-empty answer it gave in a tick with the same edit stamp no more
  than six hours before. In particular an empty answer is never replayed, and an error is never hidden behind a stale stamp.
\<close>

theorem perimeters_current:
  assumes "fire_ticks b ws NewWildfireNormalizer = (out, s')" and "(w, ans) \<in> set out"
  shows "ans = fw_perimeters w b \<or>
     (\<exists>v \<in> set ws. ans = fw_perimeters v b \<and> \<not> is_err ans \<and> rows_of ans \<noteq> [] \<and> fw_lastEdit v = fw_lastEdit w \<and>
        fw_now w - fw_now v \<le> 6 * hour)"
proof -
  have "cached_from b {} NewWildfireNormalizer" by (simp add: cached_from_def NewWildfireNormalizer_def)
  from ticks_current [OF this assms] show ?thesis by (simp add: current_answer_def maxPerimCacheAge_def)
qed

section \<open>Examples\<close>

definition demo_ring :: json where
  "demo_ring = JArr [JArr [JArr [JNum (-120), JNum 38], JArr [JNum (-119), JNum 38], JArr [JNum (-119), JNum 39], JArr [JNum (-120), JNum 38]]]"

definition demo_fire_cfg :: fire_cfg where
  "demo_fire_cfg = \<lparr>fc_areas = [\<lparr>minLat = 37, minLng = -121, maxLat = 40, maxLng = -119\<rparr>], fc_marginDegrees = 0\<rparr>"

definition demo_scope :: bbox where
  "demo_scope = \<lparr>minLat = 73 / 2, minLng = -243 / 2, maxLat = 81 / 2, maxLng = -237 / 2\<rparr>"

definition demo_row_of :: "string \<Rightarrow> time \<Rightarrow> perimeter" where
  "demo_row_of number t = \<lparr>pm_IncidentName = ''Creek'', pm_Mission = [], pm_IncidentNumber = number, pm_Acres = 6, pm_DateCurrent = t,
     pm_Source = ''FIRIS'', pm_Status = ''Active'', pm_GeometryType = ''Polygon'', pm_GeometryCoords = ''[]''\<rparr>"

definition demo_incident :: "string \<Rightarrow> rat \<Rightarrow> rat \<Rightarrow> incident" where
  "demo_incident i la lo = \<lparr>in_UniqueID = i, in_Name = ''Creek Fire'', in_County = ''Calaveras'', in_Location = [], in_Acres = 5,
     in_PercentContained = 10, in_Lat = la, in_Lng = lo, in_Started = 1, in_Updated = 2, in_URL = []\<rparr>"

definition demo_fires :: "incident list result \<Rightarrow> perimeter list result \<Rightarrow> fire_world" where
  "demo_fires incs rows = \<lparr>fw_now = 10, fw_incidents = incs, fw_lastEdit = Inr 5, fw_perimeters = (\<lambda>_. rows), fw_point = (\<lambda>_ _. ''pt''),
     fw_unmarshal = (\<lambda>_. Inr (''Polygon'', Some demo_ring)), fw_quote = (\<lambda>s. s)\<rparr>"

definition nothing_stored :: prior_events where
  "nothing_stored = \<lparr>pe_byID = Map.empty, pe_bySource = (\<lambda>_. [])\<rparr>"

definition shown :: "poll_outcome \<Rightarrow> (string \<times> bool) list" where
  "shown out = (case out of PollOK r \<Rightarrow> map (\<lambda>ev. (e_id ev, has_perimeter ev)) (pr_events r) | _ \<Rightarrow> [])"

text \<open>
  Two incidents of one name: the far one, hundreds of kilometres outside the scope, adopts the perimeter of the near one, and the
  perimeter brings it into scope.
\<close>

theorem namesakes_share_perimeter:
  "shown (fst (Poll_fire demo_fire_cfg (demo_fires (Inr [demo_incident ''near'' 38 (-120), demo_incident ''far'' 33 (-117)]) (Inr [demo_row_of [] 3]))
     nothing_stored NewWildfireNormalizer)) = [(''calfire:near'', True), (''calfire:far'', True)] \<and>
   shown (fst (Poll_fire demo_fire_cfg (demo_fires (Inr [demo_incident ''near'' 38 (-120), demo_incident ''far'' 33 (-117)]) (Inr []))
     nothing_stored NewWildfireNormalizer)) = [(''calfire:near'', False)]"
  by code_simp

text \<open>Two numbered fires of one name, the first flown twice.\<close>

definition demo_rows :: "perimeter list" where
  "demo_rows = [demo_row_of ''a'' 3, demo_row_of ''b'' 4, demo_row_of ''a'' 5]"

theorem distinct_fires_kept_witness:
  "2 \<le> length (filter (\<lambda>c. pc_norm c = ''creek'') (dedupePerimeters (demo_fires (Inr []) (Inr [])) demo_rows))"
proof -
  let ?rows = "usable_rows (demo_fires (Inr []) (Inr [])) demo_rows"
  have "map pc_number (filter (\<lambda>r. pc_norm r = ''creek'' \<and> pc_number r \<noteq> []) ?rows) = [''a'', ''b'', ''a'']" by code_simp
  then have "pc_number ` set (filter (\<lambda>r. pc_norm r = ''creek'' \<and> pc_number r \<noteq> []) ?rows) = set [''a'', ''b'', ''a'']"
    by (metis set_map)
  then have "card (pc_number ` {r \<in> set ?rows. pc_norm r = ''creek'' \<and> pc_number r \<noteq> []}) = card {''a'', ''b''}"
    by (simp add: insert_commute)
  then have two: "card (pc_number ` {r \<in> set ?rows. pc_norm r = ''creek'' \<and> pc_number r \<noteq> []}) = 2" by simp
  have "card (pc_number ` {r \<in> set ?rows. pc_norm r = ''creek'' \<and> pc_number r \<noteq> []}) \<le>
      length (filter (\<lambda>c. pc_norm c = ''creek'') (dedupePerimeters (demo_fires (Inr []) (Inr [])) demo_rows))"
    by (rule conjunct1 [OF conjunct2 [OF distinct_fires_kept], THEN spec])
  then show ?thesis unfolding two .
qed

theorem feed_order_irrelevant_witness:
  "fst (Poll_fire demo_fire_cfg ((demo_fires (Inr []) (Inr [demo_row_of ''a'' 3, demo_row_of ''b'' 4]))\<lparr>fw_perimeters :=
      (\<lambda>_. Inr [demo_row_of ''b'' 4, demo_row_of ''a'' 3])\<rparr>) nothing_stored NewWildfireNormalizer) =
   fst (Poll_fire demo_fire_cfg (demo_fires (Inr []) (Inr [demo_row_of ''a'' 3, demo_row_of ''b'' 4])) nothing_stored NewWildfireNormalizer)"
proof (rule feed_order_irrelevant)
  show "wildfireScope demo_fire_cfg = Some demo_scope" by code_simp
  show "fw_perimeters (demo_fires (Inr []) (Inr [demo_row_of ''a'' 3, demo_row_of ''b'' 4])) demo_scope = Inr [demo_row_of ''a'' 3, demo_row_of ''b'' 4]"
    by (simp add: demo_fires_def)
  show "mset [demo_row_of ''a'' 3, demo_row_of ''b'' 4] = mset [demo_row_of ''b'' 4, demo_row_of ''a'' 3]" by simp
  have "map pc_number (usable_rows (demo_fires (Inr []) (Inr [demo_row_of ''a'' 3, demo_row_of ''b'' 4])) [demo_row_of ''a'' 3, demo_row_of ''b'' 4]) = [''a'', ''b'']"
    by code_simp
  then have "inj_on pc_number (set (usable_rows (demo_fires (Inr []) (Inr [demo_row_of ''a'' 3, demo_row_of ''b'' 4])) [demo_row_of ''a'' 3, demo_row_of ''b'' 4]))"
    by (intro distinct_map [THEN iffD1, THEN conjunct2]) simp
  then show "rows_told_apart (usable_rows (demo_fires (Inr []) (Inr [demo_row_of ''a'' 3, demo_row_of ''b'' 4])) [demo_row_of ''a'' 3, demo_row_of ''b'' 4])"
    by (auto simp: rows_told_apart_def cluster_key_def inj_on_def)
qed

definition demo_world_ok :: fire_world where
  "demo_world_ok = demo_fires (Inr [demo_incident ''near'' 30 (-120)]) (Inr [demo_row_of [] 3])"

theorem fire_drawn_once_witness:
  "\<exists>r. fst (Poll_fire demo_fire_cfg demo_world_ok nothing_stored NewWildfireNormalizer) = PollOK r \<and>
     filter (\<lambda>ev. isStandaloneIDForName (e_id ev) ''creek'') (pr_events r) = []"
proof -
  let ?d = "dedupePerimeters demo_world_ok [demo_row_of [] 3]"
  have scope: "wildfireScope demo_fire_cfg = Some demo_scope" by code_simp
  have perims: "fst (gatedPerimeters demo_world_ok demo_scope NewWildfireNormalizer) = Inr [demo_row_of [] 3]" by code_simp
  have incs: "fw_incidents demo_world_ok = Inr [demo_incident ''near'' 30 (-120)]" by (simp add: demo_world_ok_def demo_fires_def)
  have "length ?d = 1" by code_simp
  then obtain c where c: "?d = [c]" by (auto simp: length_Suc_conv)
  have "map pc_norm ?d = [''creek'']" by code_simp
  then have nm: "pc_norm c = ''creek''" by (simp add: c)
  have "list_all (\<lambda>c. inWildfireScope demo_scope 30 (-120) (pc_geom c)) ?d" by code_simp
  then have reach: "inWildfireScope demo_scope 30 (-120) (pc_geom c)" by (simp add: c)
  have taker: "placed (demo_incident ''near'' 30 (-120))" "normFireName (in_Name (demo_incident ''near'' 30 (-120))) = ''creek''" by code_simp+
  have ll: "in_Lat (demo_incident ''near'' 30 (-120)) = 30" "in_Lng (demo_incident ''near'' 30 (-120)) = -120" by (simp_all add: demo_incident_def)
  have "c \<in> set ?d" by (simp add: c)
  from fire_drawn_once [OF scope perims incs this, of nothing_stored] show ?thesis
    using taker reach by (auto simp: Let_def c nm ll)
qed

definition demo_old :: event where
  "demo_old = incident_event demo_world_ok (demo_incident ''near'' 30 (-120))
     \<lparr>gm_geojson = ''g'', gm_bbox = Some \<lparr>minLat = 38, minLng = -120, maxLat = 39, maxLng = -119\<rparr>, gm_centroid = None\<rparr> True"

definition fire_stored :: prior_events where
  "fire_stored = \<lparr>pe_byID = [''calfire:near'' \<mapsto> demo_old], pe_bySource = (\<lambda>_. [])\<rparr>"

theorem perimeter_outage_keeps_fires_witness:
  "\<exists>r ev. fst (Poll_fire demo_fire_cfg (demo_fires (Inr [demo_incident ''near'' 30 (-120)]) (Inl ''timeout'')) fire_stored NewWildfireNormalizer) =
     PollOK r \<and> ev \<in> set (pr_events r) \<and> e_id ev = ''calfire:near'' \<and> has_perimeter ev"
proof -
  let ?w = "demo_fires (Inr [demo_incident ''near'' 30 (-120)]) (Inl ''timeout'')" and ?inc = "demo_incident ''near'' 30 (-120)"
  let ?g = "\<lparr>gm_geojson = ''g'', gm_bbox = Some \<lparr>minLat = 38, minLng = -120, maxLat = 39, maxLng = -119\<rparr>, gm_centroid = None\<rparr>"
  have scope: "wildfireScope demo_fire_cfg = Some demo_scope" by code_simp
  have i: "incident_id ?inc = ''calfire:near''" by code_simp
  have "fst (gatedPerimeters ?w demo_scope NewWildfireNormalizer) = Inl ''timeout''" by code_simp
  note out = this
  have down: "is_err (Inl ''timeout'' :: perimeter list result) \<or> dedupePerimeters ?w (rows_of (Inl ''timeout'')) = []" by simp
  have incs: "fw_incidents ?w = Inr [?inc]" by (simp add: demo_fires_def)
  have old: "pe_byID fire_stored (incident_id ?inc) = Some demo_old" by (simp add: fire_stored_def i)
  have perim: "has_perimeter demo_old" "e_geometry demo_old = Some ?g" by (simp_all add: demo_old_def incident_fields)
  have "placed ?inc" "inWildfireScope demo_scope (in_Lat ?inc) (in_Lng ?inc) ?g" by code_simp+
  from perimeter_outage_keeps_fires [OF scope out down incs _ this(1) old perim this(2)] show ?thesis unfolding i by auto
qed

theorem calfire_outage_mints_nothing_witness:
  "\<exists>r. fst (Poll_fire demo_fire_cfg (demo_fires (Inl ''timeout'') (Inr [demo_row_of [] 3])) nothing_stored NewWildfireNormalizer) = PollOK r \<and>
     pr_events r = []"
proof -
  let ?w = "demo_fires (Inl ''timeout'') (Inr [demo_row_of [] 3])"
  have "(case fst (Poll_fire demo_fire_cfg ?w nothing_stored NewWildfireNormalizer) of PollOK r \<Rightarrow> True | _ \<Rightarrow> False)" by code_simp
  then obtain r where r: "fst (Poll_fire demo_fire_cfg ?w nothing_stored NewWildfireNormalizer) = PollOK r" by (auto split: poll_outcome.splits)
  have "is_err (fw_incidents ?w)" by (simp add: demo_fires_def)
  from calfire_outage_mints_nothing [OF this r] show ?thesis using r by (simp add: nothing_stored_def)
qed

text \<open>The second tick is answered from the cache although the query would fail.\<close>

theorem perimeters_current_witness:
  "\<exists>v \<in> set [demo_fires (Inr []) (Inr [demo_row_of [] 3]), demo_fires (Inr []) (Inl ''quota'')]. Inr [demo_row_of [] 3] = fw_perimeters v demo_scope"
proof -
  let ?ws = "[demo_fires (Inr []) (Inr [demo_row_of [] 3]), demo_fires (Inr []) (Inl ''quota'')]"
  obtain out s' where run: "fire_ticks demo_scope ?ws NewWildfireNormalizer = (out, s')" by fastforce
  have "map snd (fst (fire_ticks demo_scope ?ws NewWildfireNormalizer)) = [Inr [demo_row_of [] 3], Inr [demo_row_of [] 3]]" by code_simp
  then have "map snd out = [Inr [demo_row_of [] 3], Inr [demo_row_of [] 3]]" unfolding run fst_conv .
  moreover have "map fst out = ?ws" using run by (auto split: prod.splits)
  ultimately have "(demo_fires (Inr []) (Inl ''quota''), Inr [demo_row_of [] 3]) \<in> set out"
    by (cases out; cases "tl out") auto
  from perimeters_current [OF run this] show ?thesis by (auto simp: demo_fires_def)
qed

end
