(* ===== verification/Spec2Isabelle.thy ===== *)
theory Spec2Isabelle
  imports RelayApp Gate Cache Query SchedulerProps PushIngestProps RepeaterProps MeshNormalizerProps WildfireProps
begin

text \<open>
  A verification development of the Sierra data service, a Go program in two processes. The \<^emph>\<open>server\<close>
  (\<open>src/cmd/server\<close>) polls public feeds and takes pushed reports, normalises both into \<open>grid.v1\<close> events, keeps them
  with their history in SQLite and answers queries; the \<^emph>\<open>mesh relay\<close> (\<open>src/cmd/mesh-relay\<close>) brokers radio
  gateways and reads repeaters. Both run under a controller that hands their databases from one process to the next
  during a deployment. The path of an event is: a push or a packet fills a buffer (PushIngest, MeshRegistry), a poller's
  normaliser reads it (MeshNormalizer) or a feed is read
  directly (Wildfire; the remaining normalisers are parameters of Scheduler), the tick writes, supersedes, sweeps and expires (Scheduler over
  EventStore), attaching places by geometry (Places, Geojson), and the API reads pages and validators (Query, EventProps).

  \<^bold>\<open>Shared.\<close>
  \<^item> \<^theory_text>\<open>Prelude\<close>: Go's \<open>(T, error)\<close> as \<open>string + 'a\<close> with the loops over it, instants and durations as
    integers of nanoseconds, \<open>strings\<close> and \<open>hex\<close> functions, keyed tables (a SQLite table or a Go map) and their laws.
  \<^item> \<^theory_text>\<open>Grid\<close>: the messages of \<open>api/grid/v1/grid.proto\<close> the core passes around, and \<open>ContentHash\<close> of
    \<open>store/events.go\<close> with the fields it clears; SHA-256 over the deterministic encoding is a parameter \<open>H\<close>.

  \<^bold>\<open>Handing the databases over (\<open>internal/handoff\<close>, \<open>cmd/mesh-relay/main.go\<close>).\<close>
  \<^item> \<^theory_text>\<open>Handoff\<close>: the records and the lock-protected methods of \<open>controller.go\<close> (\<open>beginLocked\<close>,
    \<open>finishLocked\<close>, \<open>fenceLocked\<close>, \<open>Status\<close>); \<^theory_text>\<open>HandoffSystem\<close>: the HTTP handlers, the goroutines that activate and
    quiesce, and \<open>Run\<close>, as a step relation over any service, with its computable form and rule inductions.
  \<^item> \<^theory_text>\<open>RelayApp\<close>: \<open>relayApp.Activate\<close> and \<open>Quiesce\<close> as that service, so that what the controller reports is
    related to what is open in the process; \<^theory_text>\<open>Gate\<close>: the admission gate that drains requests first.
  Lemmas: the lifecycle every reachable state follows, that an open database is always reported, that exit 0 means released,
  and the races that end in a panic or a wrong exit.

  \<^bold>\<open>The event store (\<open>internal/store\<close>).\<close>
  \<^item> \<^theory_text>\<open>EventStore\<close>: the tables of \<open>schema.sql\<close> and every read and write of \<open>events.go\<close>; an operation
    that fails leaves the state of before, as its transaction does. \<^theory_text>\<open>EventHistory\<close>: the invariant \<open>store_ok\<close>
    (columns mirror the blob, revisions are 1 to the current one, attachments and the geometry index mirror the location)
    and its preservation; \<^theory_text>\<open>EventProps\<close>: what each operation does on every branch, and the counters behind the API's validators.
  \<^item> \<^theory_text>\<open>Query\<close>: the three paged reads of \<open>query.go\<close>, over a locale of keyset pagination interpreted on each;
    a client that follows the tokens meets every row that stays exactly once.
  \<^item> \<^theory_text>\<open>Sources\<close> (\<open>sources.go\<close>, retirement in \<open>cmd/server/main.go\<close>), \<^theory_text>\<open>Places\<close> (\<open>places.go\<close>), \<^theory_text>\<open>Burn\<close>
    (\<open>burn.go\<close>) and \<^theory_text>\<open>MeshStore\<close> (\<open>mesh.go\<close>, \<open>mesh_activity.go\<close>, \<open>mesh_telemetry.go\<close>): the smaller tables, with
    the refinement of the compacted link table by the log of all receptions.
  \<^item> \<^theory_text>\<open>Geojson\<close> (\<open>internal/lib/geojson\<close>): parsing to geometry, point in polygon, intersection, the proximity tests and the
    bounding box prefilter that must not lose a hit. \<^theory_text>\<open>Cache\<close> (\<open>internal/cache/cache.go\<close>): the TTL cache.

  \<^bold>\<open>What feeds it.\<close>
  \<^item> \<^theory_text>\<open>Scheduler\<close>, \<^theory_text>\<open>SchedulerProps\<close>: \<open>internal/ingest/scheduler.go\<close>, one poller's tick from the poll to the
    sweep with every store call able to fail, and the loop over ticks. The lemmas frame what a tick can change (\<open>moves\<close>).
  \<^item> \<^theory_text>\<open>MeshFrame\<close>: packet headers, paths and adverts on bytes (\<open>internal/clients/meshcore/frame.go\<close>, \<open>advert.go\<close>), an index
    out of range being a panic of its own; \<^theory_text>\<open>MeshRelay\<close>, \<^theory_text>\<open>MeshRelayProps\<close>: who relayed a packet (\<open>relay.go\<close>);
    \<^theory_text>\<open>MeshRegistry\<close>, \<^theory_text>\<open>MeshRegistryProps\<close>: the registry of nodes (\<open>client.go\<close>, \<open>nodeid.go\<close>) over runs of its operations.
  \<^item> \<^theory_text>\<open>PushIngest\<close>, \<^theory_text>\<open>PushIngestProps\<close>: the authenticated push endpoint (\<open>internal/pushingest\<close>) on its three streams.
  \<^item> \<^theory_text>\<open>MeshNormalizer\<close>, \<^theory_text>\<open>MeshNormalizerProps\<close>: \<open>internal/ingest/network.go\<close>, the poll that turns the registry's snapshot and the
    pushed reports into events, activity clocks and telemetry samples, with its memory of relay credits. The theorems say which nodes a
    poll presents, that only a signed advert adds one (through the runs of MeshRegistry), that hearing a node again is no
    revision (through \<open>ContentHash\<close>), and that a deaf input expires nothing (through the tick of Scheduler).

  \<^item> \<^theory_text>\<open>Ingest\<close>: the helpers of \<open>internal/ingest/ingest.go\<close> and \<open>internal/hazards/severity.go\<close> the normalisers share.
  \<^item> \<^theory_text>\<open>Wildfire\<close>, \<^theory_text>\<open>WildfireProps\<close>: \<open>internal/ingest/wildfire.go\<close>, the incidents of CAL FIRE joined with the perimeters of the
    combo feed: the gated cache of perimeters, their collapse to one per fire, adoption by name, the ids of standalone
    perimeters. The theorems say that distinct fires stay distinct, that the order of the feed does not matter, that a fire is
    drawn once, and that the outage of either feed neither drops nor invents one.

  \<^bold>\<open>The mesh relay's reading of repeaters (\<open>internal/relaytelemetry\<close>).\<close>
  \<^item> \<^theory_text>\<open>RelayTelemetry\<close>: the companion protocol on bytes (\<open>companion.go\<close>), the poll of a gateway and its cycle (\<open>poller.go\<close>), the
    report and the forwarded adverts (\<open>report.go\<close>, \<open>repeaters.go\<close>).
  \<^item> \<^theory_text>\<open>RepeaterSchedule\<close>: every step of \<open>schedule.go\<close>, which repeater is read when and through which gateway, with a ghost log
    of what was sent. \<^theory_text>\<open>RepeaterProps\<close>: a locale of runs whose steps keep a predicate, interpreted for the airtime a
    cycle costs and for the rest of a repeater that refused the password.

  \<^bold>\<open>Conventions, bounds and fuel.\<close> Definitions keep the source's names and compute. \<open>float64\<close> values are rationals, so
  rounding, NaN and infinities are left out; cosine and the polyline distance are parameters with the bounds that are used as
  hypotheses. A method holding its lock, or a transaction, is one step; races between the steps of a component are
  modelled where the code has them (the controller's goroutines, the two reads of \<open>Get\<close> in the cache). A step reads the clock once
  unless a definition takes a clock per call. The fuel of the page readers is the number of pages
  read; their theorems give the fuel that reaches the last page. Rule 2 of relay attribution is a total \<open>function\<close> whose measure is the
  number of open hops, and the loop of a repeater's due steps (\<open>run_due\<close>) one whose measures
  are the cycle still open, the fallback not taken, the gateways and the retries left. Everything else is structural.

  \<^bold>\<open>Not modelled.\<close> Logging, HTTP, gRPC and MCP transport, MQTT, SQL as a language (queries are functions on tables),
  opening and migrating databases, \<open>ANALYZE\<close>, configuration parsing, flags, the ECS lookup; the texts of JSON, RFC 3339,
  SHA-256 and Ed25519, which are parameters; the concurrency of several pollers (their ticks are taken one after another) and
  of two requests inside \<open>ServeStream\<close>; \<open>Start\<close>, \<open>Stop\<close> and the start jitter. The normalisers of the other
  feeds (\<open>roads.go\<close>, \<open>incidents.go\<close> and so on) and the clients of the upstream APIs are inputs: a poll is what they return.
\<close>

end
